(* ===== verification/Prelude.thy ===== *)
theory Prelude
  imports Main "HOL-Library.Word"
begin

unbundle bit_operations_syntax

text \<open>
  What the components share: the C library as far as the programs use it (character
  classes, \<open>strtol\<close>, \<open>atoi\<close>, \<open>strchr\<close>, \<open>strncmp\<close>, \<open>snprintf\<close> with a bounded
  buffer, the \<open>%d\<close> conversion), the error numbers of Linux on x86-64, and how a C
  function can end (it returns, or it terminates the process).

  A C string is the list of its bytes up to, and without, the terminating null byte. A
  pointer to a string that may be \<open>NULL\<close> is a \<open>string option\<close>. The type \<open>char\<close> of HOL has
  exactly 256 values, so it is the byte of the C code.
\<close>

section \<open>Collections of rewrite rules\<close>

named_theorems cstr_simps "facts about the string functions of the C library"
named_theorems run_simps "unfolding rules for running a modelled program"

section \<open>Limits and error numbers\<close>

abbreviation (input) LONG_MAX :: int where "LONG_MAX \<equiv> 9223372036854775807"
abbreviation (input) LONG_MIN :: int where "LONG_MIN \<equiv> - 9223372036854775808"
abbreviation (input) INT_MAX :: int where "INT_MAX \<equiv> 2147483647"
abbreviation (input) INT_MIN :: int where "INT_MIN \<equiv> - 2147483648"
abbreviation (input) PATH_MAX :: nat where "PATH_MAX \<equiv> 4096"

type_synonym errno = int

abbreviation (input) ENOENT :: errno where "ENOENT \<equiv> 2"
abbreviation (input) EINTR :: errno where "EINTR \<equiv> 4"
abbreviation (input) ENOEXEC :: errno where "ENOEXEC \<equiv> 8"
abbreviation (input) EAGAIN :: errno where "EAGAIN \<equiv> 11"
abbreviation (input) ENOMEM :: errno where "ENOMEM \<equiv> 12"
abbreviation (input) EACCES :: errno where "EACCES \<equiv> 13"
abbreviation (input) EEXIST :: errno where "EEXIST \<equiv> 17"
abbreviation (input) EINVAL :: errno where "EINVAL \<equiv> 22"
abbreviation (input) ERANGE :: errno where "ERANGE \<equiv> 34"
abbreviation (input) EDEADLK :: errno where "EDEADLK \<equiv> 35"

abbreviation (input) EXIT_SUCCESS :: int where "EXIT_SUCCESS \<equiv> 0"
abbreviation (input) EXIT_FAILURE :: int where "EXIT_FAILURE \<equiv> 1"

section \<open>How a C function ends\<close>

text \<open>
  \<open>Ret v\<close>: the function returns \<open>v\<close>; \<open>Exit n\<close>: \<open>exit(n)\<close> was called; \<open>UExit n\<close>:
  \<open>_exit(n)\<close> was called; \<open>Abort\<close>: \<open>abort()\<close> was called; \<open>Undef\<close>: the C code reads an
  uninitialised object or uses an invalid pointer, so its behaviour is undefined.
\<close>

datatype 'a res = Ret 'a | Exit int | UExit int | Abort | Undef

fun returned :: "'a res \<Rightarrow> bool" where
  "returned (Ret _) = True"
| "returned _ = False"

lemma returned_Ret: "returned (fst m) \<Longrightarrow> \<exists>a. m = (Ret a, snd m)"
  by (cases m; cases "fst m") auto

text \<open>Sequencing of two state-passing functions: the second runs only if the first returned.\<close>

definition seq_res :: "('s \<Rightarrow> 'a res \<times> 's) \<Rightarrow> ('a \<Rightarrow> 's \<Rightarrow> 'b res \<times> 's) \<Rightarrow> 's \<Rightarrow> 'b res \<times> 's" where
  "seq_res m f s =
     (case m s of
        (Ret a, s') \<Rightarrow> f a s'
      | (Exit n, s') \<Rightarrow> (Exit n, s')
      | (UExit n, s') \<Rightarrow> (UExit n, s')
      | (Abort, s') \<Rightarrow> (Abort, s')
      | (Undef, s') \<Rightarrow> (Undef, s'))"

lemma seq_res_Ret [run_simps]: "m s = (Ret a, s') \<Longrightarrow> seq_res m f s = f a s'"
  by (simp add: seq_res_def)

lemma seq_res_RetE:
  assumes "seq_res m f s = (Ret b, t)"
  obtains a s' where "m s = (Ret a, s')" and "f a s' = (Ret b, t)"
  using assms by (auto simp: seq_res_def split: prod.splits res.splits)

text \<open>
  \<open>keeps I m\<close>: the function \<open>m\<close> leaves the state property \<open>I\<close> intact, however it ends. A
  sequence keeps what its parts keep.
\<close>

definition keeps :: "('s \<Rightarrow> bool) \<Rightarrow> ('s \<Rightarrow> 'a res \<times> 's) \<Rightarrow> bool" where
  "keeps I m \<longleftrightarrow> (\<forall>s r t. m s = (r, t) \<longrightarrow> I s \<longrightarrow> I t)"

named_theorems keeps_intro "functions that keep an invariant"

lemma keepsI: "(\<And>s r t. m s = (r, t) \<Longrightarrow> I s \<Longrightarrow> I t) \<Longrightarrow> keeps I m"
  by (auto simp: keeps_def)

lemma keepsD: "keeps I m \<Longrightarrow> m s = (r, t) \<Longrightarrow> I s \<Longrightarrow> I t"
  by (auto simp: keeps_def)

lemma keeps_seq [keeps_intro]:
  assumes "keeps I m" "\<And>a. keeps I (f a)" shows "keeps I (seq_res m f)"
  using assms by (fastforce simp: keeps_def seq_res_def split: prod.splits res.splits)

lemma keeps_Ret [keeps_intro]: "keeps I (\<lambda>s. (Ret a, s))"
  and keeps_Exit [keeps_intro]: "keeps I (\<lambda>s. (Exit n, s))"
  and keeps_Undef [keeps_intro]: "keeps I (\<lambda>s. (Undef, s))"
  and keeps_Abort [keeps_intro]: "keeps I (\<lambda>s. (Abort, s))"
  by (auto simp: keeps_def)

lemma keeps_if [keeps_intro]: "keeps I m \<Longrightarrow> keeps I n \<Longrightarrow> keeps I (if b then m else n)"
  by simp

lemma keeps_if_state [keeps_intro]:
  "keeps I m \<Longrightarrow> keeps I n \<Longrightarrow> keeps I (\<lambda>s. if b s then m s else n s)"
  by (auto simp: keeps_def)

text \<open>A change of the state before a function, or as the last thing.\<close>

lemma keeps_after:
  assumes "keeps I m" "\<And>s. I s \<Longrightarrow> I (g s)" shows "keeps I (\<lambda>s. m (g s))"
  using assms by (auto simp: keeps_def)

lemma keeps_update: "(\<And>s. I s \<Longrightarrow> I (g s)) \<Longrightarrow> keeps I (\<lambda>s. (r s, g s))"
  by (auto simp: keeps_def)

lemma keeps_case_option:
  "keeps I m \<Longrightarrow> (\<And>x. keeps I (f x)) \<Longrightarrow> keeps I (case r of None \<Rightarrow> m | Some x \<Rightarrow> f x)"
  by (cases r) auto

text \<open>\<open>gives P m\<close>: whenever \<open>m\<close> returns, its value satisfies \<open>P\<close>.\<close>

definition gives :: "('a \<Rightarrow> bool) \<Rightarrow> ('s \<Rightarrow> 'a res \<times> 's) \<Rightarrow> bool" where
  "gives P m \<longleftrightarrow> (\<forall>s a t. m s = (Ret a, t) \<longrightarrow> P a)"

lemma givesD: "gives P m \<Longrightarrow> m s = (Ret a, t) \<Longrightarrow> P a"
  by (auto simp: gives_def)

lemma gives_seq: "gives Q m \<Longrightarrow> (\<And>a. Q a \<Longrightarrow> gives P (f a)) \<Longrightarrow> gives P (seq_res m f)"
  by (fastforce simp: gives_def elim!: seq_res_RetE)

lemma gives_seq_any: "(\<And>a. gives P (f a)) \<Longrightarrow> gives P (seq_res m f)"
  by (auto simp: gives_def elim!: seq_res_RetE)

lemma gives_if: "(b \<Longrightarrow> gives P m) \<Longrightarrow> (\<not> b \<Longrightarrow> gives P n) \<Longrightarrow> gives P (if b then m else n)"
  by simp

lemma gives_if_state:
  "gives P m \<Longrightarrow> gives P n \<Longrightarrow> gives P (\<lambda>s. if b s then m s else n s)"
  by (auto simp: gives_def)

lemma gives_Ret: "P a \<Longrightarrow> gives P (\<lambda>s. (Ret a, g s))"
  and gives_Undef: "gives P (\<lambda>s. (Undef, g s))"
  by (auto simp: gives_def)

lemma gives_case_option:
  "gives P m \<Longrightarrow> (\<And>x. gives P (f x)) \<Longrightarrow> gives P (case r of None \<Rightarrow> m | Some x \<Rightarrow> f x)"
  by (cases r) auto

section \<open>Characters and numbers\<close>

definition isspace :: "char \<Rightarrow> bool" where
  "isspace c \<longleftrightarrow> c \<in> {CHR '' '', CHR 0x09, CHR 0x0A, CHR 0x0B, CHR 0x0C, CHR 0x0D}"

definition digitval :: "char \<Rightarrow> nat option" where
  "digitval c =
     (let n = (of_char c :: nat) in
      if 48 \<le> n \<and> n \<le> 57 then Some (n - 48)
      else if 97 \<le> n \<and> n \<le> 122 then Some (n - 87)
      else if 65 \<le> n \<and> n \<le> 90 then Some (n - 55)
      else None)"

definition isdigitb :: "nat \<Rightarrow> char \<Rightarrow> bool" where
  "isdigitb b c \<longleftrightarrow> (case digitval c of None \<Rightarrow> False | Some d \<Rightarrow> d < b)"

definition digits_value :: "nat \<Rightarrow> string \<Rightarrow> nat" where
  "digits_value b s = foldl (\<lambda>a c. a * b + (case digitval c of None \<Rightarrow> 0 | Some d \<Rightarrow> d)) 0 s"

text \<open>
  The base that \<open>strtol\<close> uses, and the text after an optional \<open>0x\<close> prefix. The prefix
  counts only if a hexadecimal digit follows; otherwise the number is the single \<open>0\<close>.
\<close>

definition strtol_base :: "nat \<Rightarrow> string \<Rightarrow> nat \<times> string" where
  "strtol_base base s =
     (case s of
        c # x # h # r \<Rightarrow>
          if (base = 0 \<or> base = 16) \<and> c = CHR ''0'' \<and> (x = CHR ''x'' \<or> x = CHR ''X'') \<and> isdigitb 16 h
          then (16, h # r)
          else if base = 0 then (if c = CHR ''0'' then 8 else 10, s) else (base, s)
      | c # r \<Rightarrow> if base = 0 then (if c = CHR ''0'' then 8 else 10, s) else (base, s)
      | [] \<Rightarrow> (if base = 0 then 10 else base, s))"

definition strtol_sign :: "string \<Rightarrow> bool \<times> string" where
  "strtol_sign s =
     (case s of
        [] \<Rightarrow> (False, s)
      | c # r \<Rightarrow> if c = CHR ''-'' then (True, r) else if c = CHR ''+'' then (False, r) else (False, s))"

text \<open>
  \<open>strtol(s, &endptr, base)\<close> on a 64-bit \<open>long\<close>: the value, the text at \<open>endptr\<close>, and
  whether \<open>errno\<close> was set to \<open>ERANGE\<close>. Without a digit the value is 0 and \<open>endptr\<close> is \<open>s\<close>.
\<close>

definition strtol :: "string \<Rightarrow> nat \<Rightarrow> int \<times> string \<times> bool" where
  "strtol s base =
     (let (neg, s2) = strtol_sign (dropWhile isspace s);
          (b, s3) = strtol_base base s2;
          ds = takeWhile (isdigitb b) s3;
          rest = dropWhile (isdigitb b) s3;
          v = (if neg then - int (digits_value b ds) else int (digits_value b ds))
      in if ds = [] then (0, s, False)
         else if v > LONG_MAX then (LONG_MAX, rest, True)
         else if v < LONG_MIN then (LONG_MIN, rest, True)
         else (v, rest, False))"

text \<open>
  Conversion of a \<open>long\<close> to a 32-bit signed \<open>int\<close>, as the assignment \<open>int i = l\<close> does it on
  the platforms the programs run on (reduction modulo \<open>2^32\<close>).
\<close>

definition long_to_int :: "int \<Rightarrow> int" where
  "long_to_int v = (v + 2147483648) mod 4294967296 - 2147483648"

text \<open>\<open>atoi(s)\<close> is \<open>(int) strtol(s, NULL, 10)\<close> in the GNU C library.\<close>

definition atoi :: "string \<Rightarrow> int" where
  "atoi s = long_to_int (fst (strtol s 10))"

text \<open>The \<open>%d\<close> and \<open>%ld\<close> conversions.\<close>

definition digit_char :: "nat \<Rightarrow> char" where
  "digit_char d = char_of (48 + d)"

fun show_nat :: "nat \<Rightarrow> string" where
  "show_nat n = (if n < 10 then [digit_char n] else show_nat (n div 10) @ [digit_char (n mod 10)])"

declare show_nat.simps [simp del]

definition show_int :: "int \<Rightarrow> string" where
  "show_int i = (if i < 0 then CHR ''-'' # show_nat (nat (- i)) else show_nat (nat i))"

lemma long_to_int_id: "INT_MIN \<le> v \<Longrightarrow> v \<le> INT_MAX \<Longrightarrow> long_to_int v = v"
  by (simp add: long_to_int_def)

lemma long_to_int_range: "INT_MIN \<le> long_to_int v \<and> long_to_int v \<le> INT_MAX"
  by (simp add: long_to_int_def)

lemma digitval_digit_char [cstr_simps]: "d < 10 \<Longrightarrow> digitval (digit_char d) = Some d"
  by (auto simp: digitval_def digit_char_def Let_def)

lemma isdigitb_digit_char [cstr_simps]: "d < 10 \<Longrightarrow> 10 \<le> b \<Longrightarrow> isdigitb b (digit_char d)"
  by (simp add: isdigitb_def cstr_simps)

lemma show_nat_nonempty [simp]: "show_nat n \<noteq> []"
  by (subst show_nat.simps) simp

lemma show_nat_digits: "c \<in> set (show_nat n) \<Longrightarrow> \<exists>d<10. c = digit_char d"
proof (induction n rule: show_nat.induct)
  case (1 n)
  show ?case
  proof (cases "n < 10")
    case True
    with "1.prems" show ?thesis by (auto simp: show_nat.simps [of n])
  next
    case False
    with "1.prems" have "c \<in> set (show_nat (n div 10)) \<or> c = digit_char (n mod 10)"
      by (auto simp: show_nat.simps [of n])
    with False "1.IH" show ?thesis by (metis mod_less_divisor zero_less_numeral)
  qed
qed

lemma digits_value_snoc:
  "digits_value b (s @ [c]) = digits_value b s * b + (case digitval c of None \<Rightarrow> 0 | Some d \<Rightarrow> d)"
  by (simp add: digits_value_def)

lemma digits_value_show_nat [cstr_simps]: "digits_value 10 (show_nat n) = n"
proof (induction n rule: show_nat.induct)
  case (1 n)
  show ?case
  proof (cases "n < 10")
    case True
    then show ?thesis by (simp add: show_nat.simps [of n] digits_value_def cstr_simps)
  next
    case False
    with "1.IH" show ?thesis
      by (simp add: show_nat.simps [of n] digits_value_snoc cstr_simps)
  qed
qed

lemma isdigitb_10_not_space: "isdigitb 10 c \<Longrightarrow> \<not> isspace c"
  by (auto simp: isdigitb_def digitval_def isspace_def Let_def split: if_splits)

lemma isdigitb_10_not_sign: "isdigitb 10 c \<Longrightarrow> c \<noteq> CHR ''-'' \<and> c \<noteq> CHR ''+''"
  by (auto simp: isdigitb_def digitval_def Let_def split: if_splits)

lemma strtol_base_10 [simp]: "strtol_base 10 s = (10, s)"
  by (simp add: strtol_base_def split: list.splits)

lemma show_nat_all_digits: "list_all (isdigitb 10) (show_nat n)"
  using show_nat_digits isdigitb_digit_char [where b = 10] by (fastforce simp: list_all_iff)

lemma takeWhile_show_nat:
  assumes "r = [] \<or> \<not> isdigitb 10 (hd r)"
  shows "takeWhile (isdigitb 10) (show_nat n @ r) = show_nat n"
    and "dropWhile (isdigitb 10) (show_nat n @ r) = r"
proof -
  have all: "\<And>c. c \<in> set (show_nat n) \<Longrightarrow> isdigitb 10 c"
    using show_nat_all_digits [of n] by (simp add: list_all_iff)
  from assms have "takeWhile (isdigitb 10) r = [] \<and> dropWhile (isdigitb 10) r = r"
    by (cases r) auto
  with all show "takeWhile (isdigitb 10) (show_nat n @ r) = show_nat n"
    and "dropWhile (isdigitb 10) (show_nat n @ r) = r"
    by (simp_all add: takeWhile_append2 dropWhile_append2)
qed

text \<open>
  Printing with \<open>%ld\<close> and reading back with \<open>strtol\<close> in base 10: the number comes back if
  it fits a \<open>long\<close>, and \<open>endptr\<close> is at the first byte after the digits.
\<close>

lemma strtol_show_int:
  assumes "r = [] \<or> \<not> isdigitb 10 (hd r)"
  shows "strtol (show_int i @ r) 10 =
    (if i > LONG_MAX then (LONG_MAX, r, True)
     else if i < LONG_MIN then (LONG_MIN, r, True) else (i, r, False))"
proof (cases "i < 0")
  case True
  have "dropWhile isspace (show_int i @ r) = show_int i @ r"
    using True by (simp add: show_int_def isspace_def)
  with True show ?thesis
    by (simp add: strtol_def show_int_def strtol_sign_def takeWhile_show_nat [OF assms] cstr_simps)
next
  case False
  obtain c cs where cs: "show_nat (nat i) = c # cs"
    by (cases "show_nat (nat i)") auto
  have dig: "isdigitb 10 c"
    using show_nat_all_digits [of "nat i"] cs by simp
  have "dropWhile isspace (show_int i @ r) = show_int i @ r"
    using False cs isdigitb_10_not_space [OF dig] by (simp add: show_int_def)
  moreover have "strtol_sign (show_int i @ r) = (False, show_nat (nat i) @ r)"
    using False cs isdigitb_10_not_sign [OF dig] by (simp add: show_int_def strtol_sign_def)
  ultimately show ?thesis
    using False by (simp add: strtol_def takeWhile_show_nat [OF assms] cstr_simps)
qed

lemma strtol_show_nat:
  assumes "int n \<le> LONG_MAX" "r = [] \<or> \<not> isdigitb 10 (hd r)"
  shows "strtol (show_nat n @ r) 10 = (int n, r, False)"
  using strtol_show_int [OF assms(2), of "int n"] assms(1) by (simp add: show_int_def)

lemma atoi_show_int:
  assumes "INT_MIN \<le> i" "i \<le> INT_MAX" "r = [] \<or> \<not> isdigitb 10 (hd r)"
  shows "atoi (show_int i @ r) = i"
  using strtol_show_int [OF assms(3), of i] assms(1,2) by (simp add: atoi_def long_to_int_id)

lemma length_show_nat: "n < 10 ^ k \<Longrightarrow> 0 < k \<Longrightarrow> length (show_nat n) \<le> k"
proof (induction k arbitrary: n)
  case (Suc k)
  show ?case
  proof (cases "n < 10")
    case True
    then show ?thesis by (subst show_nat.simps) simp
  next
    case False
    with Suc.prems have "n div 10 < 10 ^ k" by (simp add: div_less_iff_less_mult)
    moreover from False Suc.prems have "0 < k" by (cases k) auto
    ultimately have "length (show_nat (n div 10)) \<le> k" by (rule Suc.IH)
    with False show ?thesis by (subst show_nat.simps) simp
  qed
qed simp

lemma length_show_int:
  assumes "INT_MIN \<le> i" "i \<le> INT_MAX" shows "length (show_int i) \<le> 11"
proof -
  have "length (show_nat (nat \<bar>i\<bar>)) \<le> 10" using assms by (intro length_show_nat) auto
  then show ?thesis by (auto simp: show_int_def abs_if split: if_splits)
qed

section \<open>String functions\<close>

text \<open>
  \<open>strchr(s, c)\<close>: the text before the first \<open>c\<close> and the text after it, or \<open>None\<close> if \<open>c\<close>
  does not occur. The caller that overwrites the found byte with a null byte is left with
  the first component as its string, and with the second at the pointer plus one.
\<close>

fun strchr :: "string \<Rightarrow> char \<Rightarrow> (string \<times> string) option" where
  "strchr [] c = None"
| "strchr (x # xs) c =
     (if x = c then Some ([], xs) else map_option (\<lambda>(a, b). (x # a, b)) (strchr xs c))"

lemma strchr_None [cstr_simps]: "strchr s c = None \<longleftrightarrow> c \<notin> set s"
  by (induction s) auto

lemma strchr_Some [cstr_simps]: "strchr s c = Some (a, b) \<longleftrightarrow> s = a @ c # b \<and> c \<notin> set a"
proof (induction s arbitrary: a)
  case (Cons x xs)
  then show ?case by (cases a) auto
qed simp

text \<open>
  The loop \<open>for (j = 0; j < n; j++) if (p(a[j])) return j; return -1;\<close> over an array, with
  \<open>None\<close> for \<open>-1\<close>.
\<close>

fun find_slot :: "('a \<Rightarrow> bool) \<Rightarrow> 'a list \<Rightarrow> nat option" where
  "find_slot p [] = None"
| "find_slot p (x # xs) = (if p x then Some 0 else map_option Suc (find_slot p xs))"

lemma find_slot_None: "find_slot p xs = None \<longleftrightarrow> (\<forall>x\<in>set xs. \<not> p x)"
  by (induction xs) auto

lemma find_slot_Some: "find_slot p xs = Some j \<Longrightarrow> j < length xs \<and> p (xs ! j)"
proof (induction xs arbitrary: j)
  case (Cons x xs)
  then show ?case by (cases j) (auto split: if_splits)
qed simp

lemma find_slot_first: "find_slot p xs = Some j \<Longrightarrow> i < j \<Longrightarrow> \<not> p (xs ! i)"
proof (induction xs arbitrary: i j)
  case (Cons x xs)
  then show ?case by (cases i) (auto split: if_splits)
qed simp

text \<open>
  \<open>strncmp(p, s, strlen(p)) == 0\<close> for a \<open>p\<close> without null bytes: \<open>p\<close> is a prefix of \<open>s\<close>.
\<close>

definition strncmp0 :: "string \<Rightarrow> string \<Rightarrow> bool" where
  "strncmp0 p s \<longleftrightarrow> take (length p) s = p"

lemma strncmp0_append [cstr_simps]: "strncmp0 p s \<longleftrightarrow> (\<exists>t. s = p @ t)"
  by (metis append_eq_conv_conj append_take_drop_id strncmp0_def)

text \<open>
  \<open>snprintf(buf, size, ...)\<close> and \<open>strncpy(buf, s, size)\<close>: the text stored in \<open>buf\<close>, at most
  \<open>size - 1\<close> bytes for \<open>snprintf\<close>, whose return value is the untruncated length.
\<close>

definition snprintf :: "nat \<Rightarrow> string \<Rightarrow> string \<times> nat" where
  "snprintf n s = (take (n - 1) s, length s)"

lemma snprintf_fits [cstr_simps]: "length s < n \<Longrightarrow> snprintf n s = (s, length s)"
  by (simp add: snprintf_def)

section \<open>Bit masks\<close>

lemma and_exp_if: "(if p AND 2 ^ n \<noteq> 0 then 2 ^ n else 0) = p AND (2 ^ n :: 32 word)"
  by (rule bit_eqI) (auto simp: and_exp_eq_0_iff_not_bit bit_and_iff bit_exp_iff)

end
