(* ===== verification/GetNum.thy ===== *)
theory GetNum
  imports Prelude
begin

text \<open>
  The numeric command-line arguments of \<open>lib/get_num.c\<close>: \<open>gnFail\<close>, \<open>getNum\<close>, \<open>getLong\<close>
  and \<open>getInt\<close>. A call that fails terminates the process with \<open>EXIT_FAILURE\<close>; the model
  returns \<open>Inl\<close> with the text written to standard error, and \<open>Inr\<close> with the number
  otherwise. \<open>arg\<close> and \<open>name\<close> may be \<open>NULL\<close> (\<open>None\<close>).
\<close>

abbreviation (input) GN_NONNEG :: "32 word" where "GN_NONNEG \<equiv> 1"
abbreviation (input) GN_GT_0 :: "32 word" where "GN_GT_0 \<equiv> 2"
abbreviation (input) GN_ANY_BASE :: "32 word" where "GN_ANY_BASE \<equiv> 64"
abbreviation (input) GN_BASE_8 :: "32 word" where "GN_BASE_8 \<equiv> 128"
abbreviation (input) GN_BASE_16 :: "32 word" where "GN_BASE_16 \<equiv> 256"

definition gnFail :: "string \<Rightarrow> string \<Rightarrow> string option \<Rightarrow> string option \<Rightarrow> string" where
  "gnFail fname msg arg name =
     fname @ '' error'' @
     (case name of None \<Rightarrow> [] | Some n \<Rightarrow> '' (in '' @ n @ '')'') @
     '': '' @ msg @ [CHR 0x0A] @
     (case arg of
        None \<Rightarrow> []
      | Some a \<Rightarrow> if a = [] then [] else ''        offending text: '' @ a @ [CHR 0x0A])"

definition gn_base :: "32 word \<Rightarrow> nat" where
  "gn_base flags =
     (if flags AND GN_ANY_BASE \<noteq> 0 then 0
      else if flags AND GN_BASE_8 \<noteq> 0 then 8
      else if flags AND GN_BASE_16 \<noteq> 0 then 16 else 10)"

definition getNum :: "string \<Rightarrow> string option \<Rightarrow> 32 word \<Rightarrow> string option \<Rightarrow> string + int" where
  "getNum fname arg flags name =
     (if arg = None \<or> arg = Some [] then Inl (gnFail fname ''null or empty string'' arg name)
      else let (res, endptr, erange) = strtol (the arg) (gn_base flags)
      in if erange then Inl (gnFail fname ''strtol() failed'' arg name)
      else if endptr \<noteq> [] then Inl (gnFail fname ''nonnumeric characters'' arg name)
      else if flags AND GN_NONNEG \<noteq> 0 \<and> res < 0
        then Inl (gnFail fname ''negative value not allowed'' arg name)
      else if flags AND GN_GT_0 \<noteq> 0 \<and> res \<le> 0
        then Inl (gnFail fname ''value must be > 0'' arg name)
      else Inr res)"

definition getLong :: "string option \<Rightarrow> 32 word \<Rightarrow> string option \<Rightarrow> string + int" where
  "getLong arg flags name = getNum ''getLong'' arg flags name"

definition getInt :: "string option \<Rightarrow> 32 word \<Rightarrow> string option \<Rightarrow> string + int" where
  "getInt arg flags name =
     (case getNum ''getInt'' arg flags name of
        Inl e \<Rightarrow> Inl e
      | Inr res \<Rightarrow>
          if res > INT_MAX \<or> res < INT_MIN
          then Inl (gnFail ''getInt'' ''integer out of range'' arg name)
          else Inr res)"

section \<open>Properties\<close>

text \<open>What the sign flags demand of an accepted number.\<close>

definition sign_ok :: "32 word \<Rightarrow> int \<Rightarrow> bool" where
  "sign_ok flags v \<longleftrightarrow>
     (flags AND GN_NONNEG \<noteq> 0 \<longrightarrow> 0 \<le> v) \<and> (flags AND GN_GT_0 \<noteq> 0 \<longrightarrow> 0 < v)"

lemma getNum_Inr_iff:
  "getNum fname arg flags name = Inr v \<longleftrightarrow>
     (\<exists>a. arg = Some a \<and> a \<noteq> [] \<and> strtol a (gn_base flags) = (v, [], False) \<and> sign_ok flags v)"
  by (cases arg) (auto simp: getNum_def sign_ok_def Let_def not_le not_less split: prod.splits)

lemma getInt_Inr_iff:
  "getInt arg flags name = Inr v \<longleftrightarrow>
     getNum ''getInt'' arg flags name = Inr v \<and> INT_MIN \<le> v \<and> v \<le> INT_MAX"
  by (auto simp: getInt_def split: sum.splits)

lemma show_int_nonempty [simp]: "show_int i \<noteq> []"
  by (simp add: show_int_def)

lemma strtol_show_int_whole:
  "strtol (show_int i) 10 =
    (if i > LONG_MAX then (LONG_MAX, [], True)
     else if i < LONG_MIN then (LONG_MIN, [], True) else (i, [], False))"
  using strtol_show_int [of "[]" i] by simp

text \<open>
  \<open>getInt\<close> on the decimal notation of any integer: with no base flag, it returns exactly
  the integers that fit an \<open>int\<close> and satisfy the sign flags, each as itself; every other
  integer, however long its notation, ends the process.
\<close>

theorem getInt_decimal:
  assumes "gn_base flags = 10"
  shows "getInt (Some (show_int i)) flags name = Inr v \<longleftrightarrow>
    v = i \<and> INT_MIN \<le> i \<and> i \<le> INT_MAX \<and> sign_ok flags i"
  by (auto simp: getInt_Inr_iff getNum_Inr_iff assms strtol_show_int_whole split: if_splits)

theorem getInt_decimal_witness:
  "gn_base GN_GT_0 = 10 \<and> getInt (Some (show_int 25)) GN_GT_0 None = Inr 25"
proof -
  have b: "gn_base GN_GT_0 = 10" by (simp add: gn_base_def)
  show ?thesis using b getInt_decimal [OF b, of 25 None 25] by (simp add: sign_ok_def)
qed

text \<open>
  C36. Every \<open>int\<close> that \<open>getInt\<close> hands to its caller, whatever the argument and the flags,
  is in the range of \<open>int\<close>, respects the sign flags, and is the value of the whole argument:
  no trailing text was ignored and no value was clamped by \<open>strtol\<close>.
\<close>

theorem getInt_sound:
  assumes "getInt arg flags name = Inr v"
  shows "INT_MIN \<le> v \<and> v \<le> INT_MAX \<and> sign_ok flags v \<and>
    (\<exists>a. arg = Some a \<and> a \<noteq> [] \<and> strtol a (gn_base flags) = (v, [], False))"
  using assms by (auto simp: getInt_Inr_iff getNum_Inr_iff)

theorem getInt_sound_witness:
  "getInt (Some ''0x1F'') GN_ANY_BASE None = Inr 31 \<and> (31::int) \<le> INT_MAX"
proof -
  have h: "getInt (Some ''0x1F'') GN_ANY_BASE None = Inr 31" by code_simp
  show ?thesis using h getInt_sound [OF h] by simp
qed

end
