(* ===== verification/ErrorFunctions.thy ===== *)
theory ErrorFunctions
  imports Prelude
begin

text \<open>
  The error reporting functions of \<open>lib/error_functions.c\<close>. The process state is what these
  functions read and change: \<open>errno\<close>, the environment variable \<open>EF_DUMPCORE\<close>, the text that
  waits in the buffer of \<open>stdout\<close>, and the text that has left the process on \<open>stdout\<close> and
  on \<open>stderr\<close>. Formatting of the caller's arguments by \<open>vsnprintf\<close> is the caller's text
  \<open>msg\<close>; the table \<open>ename\<close>, which the build generates for each platform, and \<open>strerror\<close>
  are parameters, and so is what the stdio functions leave in \<open>errno\<close>.
\<close>

record libc =
  ename :: "nat \<Rightarrow> string"
  max_ename :: int
  strerror :: "errno \<Rightarrow> string"
  stdio_errno :: "errno \<Rightarrow> errno"

record pstate =
  perrno :: errno
  dumpcore :: "string option"
  out_pending :: string
  out_sent :: string
  err_sent :: string

definition flush_stdout :: "pstate \<Rightarrow> pstate" where
  "flush_stdout s = s\<lparr>out_sent := out_sent s @ out_pending s, out_pending := []\<rparr>"

text \<open>\<open>exit\<close> flushes the stdio buffers; \<open>abort\<close> and \<open>_exit\<close> do not.\<close>

definition terminate :: "bool \<Rightarrow> pstate \<Rightarrow> 'a res \<times> pstate" where
  "terminate useExit3 s =
     (case dumpcore s of
        Some (c # cs) \<Rightarrow> (Abort, s)
      | _ \<Rightarrow> if useExit3 then (Exit EXIT_FAILURE, flush_stdout s) else (UExit EXIT_FAILURE, s))"

abbreviation (input) BUF_SIZE :: nat where "BUF_SIZE \<equiv> 500"

definition errText :: "libc \<Rightarrow> bool \<Rightarrow> errno \<Rightarrow> string" where
  "errText L useErr err = fst (snprintf BUF_SIZE
     (if useErr then
        '' ['' @ (if 0 < err \<and> err \<le> max_ename L then ename L (nat err) else ''?UNKNOWN?'') @ '' '' @
        strerror L err @ '']''
      else '':''))"

definition outputError :: "libc \<Rightarrow> bool \<Rightarrow> errno \<Rightarrow> bool \<Rightarrow> string \<Rightarrow> pstate \<Rightarrow> pstate" where
  "outputError L useErr err flushStdout msg s =
     (let userMsg = fst (snprintf BUF_SIZE msg);
          buf = fst (snprintf BUF_SIZE (''ERROR'' @ errText L useErr err @ '' '' @ userMsg @ [CHR 0x0A]));
          s = (if flushStdout then flush_stdout s else s)
      in s\<lparr>err_sent := err_sent s @ buf, perrno := stdio_errno L (perrno s)\<rparr>)"

definition errMsg :: "libc \<Rightarrow> string \<Rightarrow> pstate \<Rightarrow> unit res \<times> pstate" where
  "errMsg L msg s =
     (let savedErrno = perrno s;
          s = outputError L True (perrno s) True msg s
      in (Ret (), s\<lparr>perrno := savedErrno\<rparr>))"

definition errExit :: "libc \<Rightarrow> string \<Rightarrow> pstate \<Rightarrow> unit res \<times> pstate" where
  "errExit L msg s = terminate True (outputError L True (perrno s) True msg s)"

definition err_exit :: "libc \<Rightarrow> string \<Rightarrow> pstate \<Rightarrow> unit res \<times> pstate" where
  "err_exit L msg s = terminate False (outputError L True (perrno s) False msg s)"

definition errExitEN :: "libc \<Rightarrow> errno \<Rightarrow> string \<Rightarrow> pstate \<Rightarrow> unit res \<times> pstate" where
  "errExitEN L errnum msg s = terminate True (outputError L True errnum True msg s)"

definition fatal :: "libc \<Rightarrow> string \<Rightarrow> pstate \<Rightarrow> unit res \<times> pstate" where
  "fatal L msg s = terminate True (outputError L False 0 True msg s)"

text \<open>The two functions for usage errors write unbounded text and do not dump core.\<close>

definition usageErr :: "libc \<Rightarrow> string \<Rightarrow> pstate \<Rightarrow> unit res \<times> pstate" where
  "usageErr L msg s =
     (let s = flush_stdout s;
          s = s\<lparr>err_sent := err_sent s @ ''Usage: '' @ msg, perrno := stdio_errno L (perrno s)\<rparr>
      in (Exit EXIT_FAILURE, flush_stdout s))"

definition cmdLineErr :: "libc \<Rightarrow> string \<Rightarrow> pstate \<Rightarrow> unit res \<times> pstate" where
  "cmdLineErr L msg s =
     (let s = flush_stdout s;
          s = s\<lparr>err_sent := err_sent s @ ''Command-line usage error: '' @ msg,
                perrno := stdio_errno L (perrno s)\<rparr>
      in (Exit EXIT_FAILURE, flush_stdout s))"

section \<open>What the caller and the user see\<close>

lemmas report_defs = errMsg_def errExit_def err_exit_def errExitEN_def fatal_def usageErr_def cmdLineErr_def
  outputError_def Let_def

lemma snprintf_bound: "length (fst (snprintf n s)) \<le> n - 1"
  by (simp add: snprintf_def)

lemma outputError_bound:
  "\<exists>b. err_sent (outputError L u e f m s) = err_sent s @ b \<and> length b < BUF_SIZE"
  by (auto simp: outputError_def Let_def flush_stdout_def snprintf_def)

text \<open>A complete report: it fits the buffers, so nothing is cut off.\<close>

definition report :: "libc \<Rightarrow> errno \<Rightarrow> string \<Rightarrow> string" where
  "report L err msg =
     ''ERROR ['' @ (if 0 < err \<and> err \<le> max_ename L then ename L (nat err) else ''?UNKNOWN?'') @ '' '' @
     strerror L err @ ''] '' @ msg @ [CHR 0x0A]"

lemma outputError_report:
  assumes "length (report L err msg) < BUF_SIZE"
  shows "err_sent (outputError L True err f msg s) = err_sent s @ report L err msg"
  using assms by (simp add: outputError_def errText_def report_def Let_def snprintf_fits flush_stdout_def)

text \<open>
  \<open>errMsg\<close> returns and leaves \<open>errno\<close> as the caller had it, although the stdio
  functions it calls may change it; pending output of \<open>stdout\<close> has been written, and
  \<open>stderr\<close> has received the whole report (error name, system message, caller's message) if
  it fits the buffer of 500 bytes.
\<close>

theorem errMsg_preserves_errno:
  assumes "length (report L (perrno s) msg) < BUF_SIZE"
  shows "\<exists>t. errMsg L msg s = (Ret (), t) \<and> perrno t = perrno s \<and>
    err_sent t = err_sent s @ report L (perrno s) msg \<and>
    out_sent t = out_sent s @ out_pending s \<and> out_pending t = []"
  using outputError_report [OF assms] by (simp add: errMsg_def Let_def) (simp add: outputError_def Let_def flush_stdout_def)

definition demo_libc :: libc where
  "demo_libc = \<lparr>ename = (\<lambda>n. if n = 2 then ''ENOENT'' else ''''), max_ename = 133,
     strerror = (\<lambda>e. ''No such file or directory''), stdio_errno = (\<lambda>_. 25)\<rparr>"

theorem errMsg_preserves_errno_witness:
  "\<exists>t. errMsg demo_libc ''open''
        \<lparr>perrno = 2, dumpcore = None, out_pending = ''p'', out_sent = [], err_sent = []\<rparr> = (Ret (), t) \<and>
     perrno t = 2 \<and> err_sent t = ''ERROR [ENOENT No such file or directory] open'' @ [CHR 0x0A] \<and>
     out_sent t = ''p'' \<and> out_pending t = []"
  using errMsg_preserves_errno [of demo_libc
    "\<lparr>perrno = 2, dumpcore = None, out_pending = ''p'', out_sent = [], err_sent = []\<rparr>" "''open''"]
  by (simp add: report_def demo_libc_def)

text \<open>
  No error function but \<open>errMsg\<close> returns to its caller, and \<open>err_exit\<close> (for a child
  process that shares the parent's unflushed stdio buffers) ends the process without writing
  the pending output of \<open>stdout\<close>, while \<open>errExit\<close>, \<open>errExitEN\<close> and \<open>fatal\<close> write it; no
  report is longer than the buffer.
\<close>

theorem error_exits_do_not_return:
  "\<not> returned (fst (errExit L msg s)) \<and> \<not> returned (fst (err_exit L msg s)) \<and>
   \<not> returned (fst (errExitEN L e msg s)) \<and> \<not> returned (fst (fatal L msg s)) \<and>
   \<not> returned (fst (usageErr L msg s)) \<and> \<not> returned (fst (cmdLineErr L msg s)) \<and>
   out_sent (snd (err_exit L msg s)) = out_sent s \<and> out_pending (snd (err_exit L msg s)) = out_pending s \<and>
   out_sent (snd (errExit L msg s)) = out_sent s @ out_pending s \<and>
   out_sent (snd (errExitEN L e msg s)) = out_sent s @ out_pending s \<and>
   out_sent (snd (fatal L msg s)) = out_sent s @ out_pending s \<and>
   (\<exists>b. err_sent (snd (err_exit L msg s)) = err_sent s @ b \<and> length b < BUF_SIZE)"
proof -
  have t: "\<not> returned (fst (terminate b s))" "err_sent (snd (terminate b s)) = err_sent s" for b s
    by (auto simp: terminate_def flush_stdout_def split: option.splits list.splits)
  then show ?thesis using outputError_bound [of L True "perrno s" False msg s]
    by (auto simp: report_defs) (auto simp: terminate_def flush_stdout_def split: option.splits list.splits)
qed

end
