(* ===== verification/Conversions.thy ===== *)
theory Conversions
  imports Prelude
begin

text \<open>
  Functions that turn values into text and back: user and group names
  (\<open>users_groups/ugid_functions.c\<close>), permission strings (\<open>files/file_perms.c\<close>), wait statuses
  (\<open>procexec/print_wait_status.c\<close>) and timer values (\<open>timers/itimerspec_from_str.c\<close>).
\<close>

section \<open>User and group IDs\<close>

text \<open>
  The user and group databases are parameters: the functions of the C library that look up
  an entry by name and by ID. An ID is an unsigned 32-bit number; \<open>-1\<close> is its largest value.
\<close>

type_synonym id_t = "32 word"

definition userNameFromId :: "(id_t \<Rightarrow> string option) \<Rightarrow> id_t \<Rightarrow> string option" where
  "userNameFromId getpwuid uid = getpwuid uid"

definition userIdFromName :: "(string \<Rightarrow> id_t option) \<Rightarrow> string option \<Rightarrow> id_t" where
  "userIdFromName getpwnam name =
     (case name of
        None \<Rightarrow> -1
      | Some n \<Rightarrow>
          if n = [] then -1
          else
            let (u, endptr, _) = strtol n 10 in
            if endptr = [] then word_of_int u
            else (case getpwnam n of None \<Rightarrow> -1 | Some uid \<Rightarrow> uid))"

definition groupNameFromId :: "(id_t \<Rightarrow> string option) \<Rightarrow> id_t \<Rightarrow> string option" where
  "groupNameFromId getgrgid gid = getgrgid gid"

definition groupIdFromName :: "(string \<Rightarrow> id_t option) \<Rightarrow> string option \<Rightarrow> id_t" where
  "groupIdFromName getgrnam name =
     (case name of
        None \<Rightarrow> -1
      | Some n \<Rightarrow>
          if n = [] then -1
          else
            let (g, endptr, _) = strtol n 10 in
            if endptr = [] then word_of_int g
            else (case getgrnam n of None \<Rightarrow> -1 | Some gid \<Rightarrow> gid))"

section \<open>Permissions\<close>

abbreviation (input) FP_SPECIAL :: "32 word" where "FP_SPECIAL \<equiv> 1"

text \<open>
  The nine characters; bits 11, 10 and 9 of the mask are set-user-ID, set-group-ID and sticky
  bit, bits 8 to 0 the permissions of user, group and others.
\<close>

definition permChar :: "bool \<Rightarrow> char \<Rightarrow> char" where
  "permChar b c = (if b then c else CHR ''-'')"

definition execChar :: "bool \<Rightarrow> bool \<Rightarrow> char \<Rightarrow> char \<Rightarrow> char" where
  "execChar x special lower upper =
     (if x then (if special then lower else CHR ''x'') else (if special then upper else CHR ''-''))"

definition filePermStr :: "32 word \<Rightarrow> 32 word \<Rightarrow> string" where
  "filePermStr perm flags =
     (let sp = (\<lambda>m. perm AND m \<noteq> 0 \<and> flags AND FP_SPECIAL \<noteq> 0) in
      fst (snprintf 10
        [permChar (perm AND 0x100 \<noteq> 0) (CHR ''r''), permChar (perm AND 0x80 \<noteq> 0) (CHR ''w''),
         execChar (perm AND 0x40 \<noteq> 0) (sp 0x800) (CHR ''s'') (CHR ''S''),
         permChar (perm AND 0x20 \<noteq> 0) (CHR ''r''), permChar (perm AND 0x10 \<noteq> 0) (CHR ''w''),
         execChar (perm AND 0x8 \<noteq> 0) (sp 0x400) (CHR ''s'') (CHR ''S''),
         permChar (perm AND 0x4 \<noteq> 0) (CHR ''r''), permChar (perm AND 0x2 \<noteq> 0) (CHR ''w''),
         execChar (perm AND 0x1 \<noteq> 0) (sp 0x200) (CHR ''t'') (CHR ''T'')]))"

section \<open>Wait status\<close>

text \<open>The macros of \<open>sys/wait.h\<close> on Linux.\<close>

abbreviation (input) WTERMSIG :: "32 word \<Rightarrow> 32 word" where "WTERMSIG s \<equiv> s AND 0x7f"
abbreviation (input) WEXITSTATUS :: "32 word \<Rightarrow> 32 word" where "WEXITSTATUS s \<equiv> drop_bit 8 (s AND 0xff00)"

definition WIFEXITED :: "32 word \<Rightarrow> bool" where "WIFEXITED s \<longleftrightarrow> WTERMSIG s = 0"
definition WIFSTOPPED :: "32 word \<Rightarrow> bool" where "WIFSTOPPED s \<longleftrightarrow> s AND 0xff = 0x7f"
definition WIFCONTINUED :: "32 word \<Rightarrow> bool" where "WIFCONTINUED s \<longleftrightarrow> s = 0xffff"
definition WIFSIGNALED :: "32 word \<Rightarrow> bool" where
  "WIFSIGNALED s \<longleftrightarrow> WTERMSIG s \<noteq> 0 \<and> WTERMSIG s \<noteq> 0x7f"

text \<open>The \<open>%x\<close> conversion.\<close>

fun show_hex :: "nat \<Rightarrow> string" where
  "show_hex n =
     (if n < 16 then [char_of (if n < 10 then 48 + n else 87 + n)]
      else show_hex (n div 16) @ [char_of (if n mod 16 < 10 then 48 + n mod 16 else 87 + n mod 16)])"

declare show_hex.simps [simp del]

definition printWaitStatus :: "(nat \<Rightarrow> string) \<Rightarrow> string option \<Rightarrow> 32 word \<Rightarrow> string" where
  "printWaitStatus strsignal msg status =
     (case msg of None \<Rightarrow> [] | Some m \<Rightarrow> m) @
     (if WIFEXITED status then
        ''child exited, status='' @ show_nat (unat (WEXITSTATUS status))
      else if WIFSIGNALED status then
        ''child killed by signal '' @ show_nat (unat (WTERMSIG status)) @ '' ('' @
        strsignal (unat (WTERMSIG status)) @ '')'' @
        (if status AND 0x80 \<noteq> 0 then '' (core dumped)'' else [])
      else if WIFSTOPPED status then
        ''child stopped by signal '' @ show_nat (unat (WEXITSTATUS status)) @ '' ('' @
        strsignal (unat (WEXITSTATUS status)) @ '')''
      else if WIFCONTINUED status then ''child continued''
      else ''what happened to this child? (status='' @ show_hex (unat status) @ '')'') @ [CHR 0x0A]"

section \<open>Timer values\<close>

record timespec =
  tv_sec :: int
  tv_nsec :: int

record itimerspec =
  it_value :: timespec
  it_interval :: timespec

text \<open>\<open>sec[/nanosec]\<close>; without a slash the nanoseconds are 0.\<close>

definition timespecFromStr :: "string \<Rightarrow> timespec" where
  "timespecFromStr s =
     (case strchr s (CHR ''/'') of
        None \<Rightarrow> \<lparr>tv_sec = atoi s, tv_nsec = 0\<rparr>
      | Some (a, b) \<Rightarrow> \<lparr>tv_sec = atoi a, tv_nsec = atoi b\<rparr>)"

definition itimerspecFromStr :: "string \<Rightarrow> itimerspec" where
  "itimerspecFromStr str =
     (case strchr str (CHR '':'') of
        None \<Rightarrow> \<lparr>it_value = timespecFromStr str, it_interval = \<lparr>tv_sec = 0, tv_nsec = 0\<rparr>\<rparr>
      | Some (a, b) \<Rightarrow> \<lparr>it_value = timespecFromStr a, it_interval = timespecFromStr b\<rparr>)"

section \<open>Correctness\<close>

lemma id_numeric:
  "userIdFromName db (Some (show_nat (unat u))) = u" "groupIdFromName db (Some (show_nat (unat u))) = u"
proof -
  have "int (unat u) \<le> LONG_MAX"
  proof -
    define n where "n = unat u"
    have "n < 2 ^ 32" using unsigned_less [of u, where ?'a = nat] by (simp add: n_def)
    then show ?thesis unfolding n_def [symmetric] by simp
  qed
  then have "strtol (show_nat (unat u)) 10 = (int (unat u), [], False)"
    using strtol_show_nat [of "unat u" "[]"] by simp
  then show "userIdFromName db (Some (show_nat (unat u))) = u" "groupIdFromName db (Some (show_nat (unat u))) = u"
    by (simp_all add: userIdFromName_def groupIdFromName_def)
qed

text \<open>Reading a permission string, as a check that nothing is lost.\<close>

definition permBit :: "bool \<Rightarrow> nat \<Rightarrow> 32 word" where
  "permBit b n = (if b then 2 ^ n else 0)"

definition readExec :: "char \<Rightarrow> nat \<Rightarrow> nat \<Rightarrow> 32 word" where
  "readExec c x s =
     permBit (c \<in> set ''xst'') x OR permBit (c \<in> set ''sStT'') s"

definition readPerm :: "string \<Rightarrow> 32 word" where
  "readPerm s =
     permBit (s ! 0 \<noteq> CHR ''-'') 8 OR permBit (s ! 1 \<noteq> CHR ''-'') 7 OR readExec (s ! 2) 6 11 OR
     permBit (s ! 3 \<noteq> CHR ''-'') 5 OR permBit (s ! 4 \<noteq> CHR ''-'') 4 OR readExec (s ! 5) 3 10 OR
     permBit (s ! 6 \<noteq> CHR ''-'') 2 OR permBit (s ! 7 \<noteq> CHR ''-'') 1 OR readExec (s ! 8) 0 9"

lemma and_bit: "(w :: 32 word) AND 0x800 \<noteq> 0 \<longleftrightarrow> bit w 11" "w AND 0x400 \<noteq> 0 \<longleftrightarrow> bit w 10"
  "w AND 0x200 \<noteq> 0 \<longleftrightarrow> bit w 9" "w AND 0x100 \<noteq> 0 \<longleftrightarrow> bit w 8" "w AND 0x80 \<noteq> 0 \<longleftrightarrow> bit w 7"
  "w AND 0x40 \<noteq> 0 \<longleftrightarrow> bit w 6" "w AND 0x20 \<noteq> 0 \<longleftrightarrow> bit w 5" "w AND 0x10 \<noteq> 0 \<longleftrightarrow> bit w 4"
  "w AND 0x8 \<noteq> 0 \<longleftrightarrow> bit w 3" "w AND 0x4 \<noteq> 0 \<longleftrightarrow> bit w 2" "w AND 0x2 \<noteq> 0 \<longleftrightarrow> bit w 1" "w AND 0x1 \<noteq> 0 \<longleftrightarrow> bit w 0"
  using and_exp_eq_0_iff_not_bit [of w 11] and_exp_eq_0_iff_not_bit [of w 10] and_exp_eq_0_iff_not_bit [of w 9]
    and_exp_eq_0_iff_not_bit [of w 8] and_exp_eq_0_iff_not_bit [of w 7] and_exp_eq_0_iff_not_bit [of w 6]
    and_exp_eq_0_iff_not_bit [of w 5] and_exp_eq_0_iff_not_bit [of w 4] and_exp_eq_0_iff_not_bit [of w 3]
    and_exp_eq_0_iff_not_bit [of w 2] and_exp_eq_0_iff_not_bit [of w 1] and_exp_eq_0_iff_not_bit [of w 0]
  by simp_all

lemma permBit_bit: "n < 32 \<Longrightarrow> bit (permBit b n) i \<longleftrightarrow> b \<and> i = n"
  by (auto simp: permBit_def bit_exp_iff)

lemma bit_readPerm:
  "bit (readPerm s) n \<longleftrightarrow>
     (s ! 0 \<noteq> CHR ''-'' \<and> n = 8) \<or> (s ! 1 \<noteq> CHR ''-'' \<and> n = 7) \<or>
     ((s ! 2 \<in> set ''xst'' \<and> n = 6) \<or> (s ! 2 \<in> set ''sStT'' \<and> n = 11)) \<or>
     (s ! 3 \<noteq> CHR ''-'' \<and> n = 5) \<or> (s ! 4 \<noteq> CHR ''-'' \<and> n = 4) \<or>
     ((s ! 5 \<in> set ''xst'' \<and> n = 3) \<or> (s ! 5 \<in> set ''sStT'' \<and> n = 10)) \<or>
     (s ! 6 \<noteq> CHR ''-'' \<and> n = 2) \<or> (s ! 7 \<noteq> CHR ''-'' \<and> n = 1) \<or>
     ((s ! 8 \<in> set ''xst'' \<and> n = 0) \<or> (s ! 8 \<in> set ''sStT'' \<and> n = 9))"
proof -
  have b: "bit (permBit x k) n \<longleftrightarrow> x \<and> n = k" if "k \<in> {0, 1, 2, 3, 4, 5, 6, 7, 8, 9, 10, 11}" for x k
    using that by (intro permBit_bit) auto
  have m: "k \<in> {0, 1, 2, 3, 4, 5, 6, 7, 8, 9, 10, 11 :: nat}" if "k < 12" for k
    using that unfolding insert_iff empty_iff by presburger
  show ?thesis unfolding readPerm_def readExec_def bit_or_iff
    using b [OF m] by (simp only: less_numeral_simps zero_less_numeral one_less_numeral_iff rel_simps simp_thms)
qed

lemma nth_chars:
  "[a, b, c, d, e, f, g, h, i] ! 0 = a" "[a, b, c, d, e, f, g, h, i] ! 1 = b" "[a, b, c, d, e, f, g, h, i] ! 2 = c"
  "[a, b, c, d, e, f, g, h, i] ! 3 = d" "[a, b, c, d, e, f, g, h, i] ! 4 = e" "[a, b, c, d, e, f, g, h, i] ! 5 = f"
  "[a, b, c, d, e, f, g, h, i] ! 6 = g" "[a, b, c, d, e, f, g, h, i] ! 7 = h" "[a, b, c, d, e, f, g, h, i] ! 8 = i"
  by simp_all

lemma permChar_dash [simp]: "permChar b (CHR ''r'') \<noteq> CHR ''-'' \<longleftrightarrow> b" "permChar b (CHR ''w'') \<noteq> CHR ''-'' \<longleftrightarrow> b"
  by (simp_all add: permChar_def)

lemma execChar_read [simp]:
  "execChar x s (CHR ''s'') (CHR ''S'') \<in> set ''xst'' \<longleftrightarrow> x" "execChar x s (CHR ''t'') (CHR ''T'') \<in> set ''xst'' \<longleftrightarrow> x"
  "execChar x s (CHR ''s'') (CHR ''S'') \<in> set ''sStT'' \<longleftrightarrow> s" "execChar x s (CHR ''t'') (CHR ''T'') \<in> set ''sStT'' \<longleftrightarrow> s"
  by (auto simp: execChar_def)

text \<open>
  With \<open>FP_SPECIAL\<close>, \<open>filePermStr\<close> loses nothing: the string has nine characters and
  determines all twelve permission bits of the mask.
\<close>

theorem filePermStr_complete:
  "length (filePermStr perm FP_SPECIAL) = 9 \<and> readPerm (filePermStr perm FP_SPECIAL) = take_bit 12 perm"
proof
  show "length (filePermStr perm FP_SPECIAL) = 9" by (simp add: filePermStr_def snprintf_def Let_def)
  have s: "filePermStr perm FP_SPECIAL =
      [permChar (bit perm 8) (CHR ''r''), permChar (bit perm 7) (CHR ''w''),
       execChar (bit perm 6) (bit perm 11) (CHR ''s'') (CHR ''S''),
       permChar (bit perm 5) (CHR ''r''), permChar (bit perm 4) (CHR ''w''),
       execChar (bit perm 3) (bit perm 10) (CHR ''s'') (CHR ''S''),
       permChar (bit perm 2) (CHR ''r''), permChar (bit perm 1) (CHR ''w''),
       execChar (bit perm 0) (bit perm 9) (CHR ''t'') (CHR ''T'')]"
    unfolding filePermStr_def Let_def snprintf_def and_bit by simp
  show "readPerm (filePermStr perm FP_SPECIAL) = take_bit 12 perm"
  proof (rule bit_word_eqI)
    fix n
    have r: "bit (readPerm (filePermStr perm FP_SPECIAL)) n \<longleftrightarrow>
        (bit perm 8 \<and> n = 8) \<or> (bit perm 7 \<and> n = 7) \<or> ((bit perm 6 \<and> n = 6) \<or> (bit perm 11 \<and> n = 11)) \<or>
        (bit perm 5 \<and> n = 5) \<or> (bit perm 4 \<and> n = 4) \<or> ((bit perm 3 \<and> n = 3) \<or> (bit perm 10 \<and> n = 10)) \<or>
        (bit perm 2 \<and> n = 2) \<or> (bit perm 1 \<and> n = 1) \<or> ((bit perm 0 \<and> n = 0) \<or> (bit perm 9 \<and> n = 9))"
      unfolding s bit_readPerm by (simp only: nth_chars permChar_dash execChar_read)
    show "bit (readPerm (filePermStr perm FP_SPECIAL)) n \<longleftrightarrow> bit (take_bit 12 perm) n"
    proof (cases "n \<in> {0, 1, 2, 3, 4, 5, 6, 7, 8, 9, 10, 11}")
      case True
      then show ?thesis unfolding r bit_take_bit_iff by (elim insertE emptyE) simp_all
    next
      case False
      moreover from False have "\<not> n < 12" unfolding insert_iff empty_iff by presburger
      ultimately show ?thesis unfolding r bit_take_bit_iff by simp
    qed
  qed
qed

text \<open>
  A numeric string stands for the ID it denotes, whatever the database holds: the decimal
  text of every user or group ID is turned into that ID, by \<open>userIdFromName\<close> and by
  \<open>groupIdFromName\<close>. For any other nonempty text that does not end its number at the end of
  the string the database decides, and \<open>-1\<close> is the answer for an unknown name.
\<close>

theorem ids_from_names:
  "userIdFromName getpwnam (Some (show_nat (unat u))) = u \<and>
   groupIdFromName getgrnam (Some (show_nat (unat u))) = u \<and>
   (fst (snd (strtol n 10)) \<noteq> [] \<longrightarrow>
      userIdFromName getpwnam (Some n) = (case getpwnam n of None \<Rightarrow> -1 | Some uid \<Rightarrow> uid) \<and>
      groupIdFromName getgrnam (Some n) = (case getgrnam n of None \<Rightarrow> -1 | Some gid \<Rightarrow> gid))"
proof -
  have "strtol [] 10 = (0, [], False)" by (simp add: strtol_def strtol_sign_def)
  then have "fst (snd (strtol n 10)) \<noteq> [] \<longrightarrow> n \<noteq> []" by auto
  then show ?thesis
    using id_numeric [of getpwnam u] id_numeric [of getgrnam u]
    by (auto simp: userIdFromName_def groupIdFromName_def case_prod_beta)
qed

theorem ids_from_names_witness:
  "userIdFromName (\<lambda>n. if n = ''root'' then Some 0 else None) (Some ''root'') = 0"
proof -
  have "fst (snd (strtol ''root'' 10)) \<noteq> []" by code_simp
  with ids_from_names [of "\<lambda>n. if n = ''root'' then Some 0 else None" 0 "\<lambda>_. None" "''root''"]
  show ?thesis by simp
qed

text \<open>
  \<open>itimerspecFromStr\<close> reads back the four numbers of the notation
  \<open>sec/nanosec:sec/nanosec\<close>, and takes 0 for what is left out.
\<close>

theorem itimerspecFromStr_show:
  assumes "list_all (\<lambda>i. INT_MIN \<le> i \<and> i \<le> INT_MAX) [a, b, c, d]"
  shows "itimerspecFromStr (show_int a @ ''/'' @ show_int b @ '':'' @ show_int c @ ''/'' @ show_int d) =
      \<lparr>it_value = \<lparr>tv_sec = a, tv_nsec = b\<rparr>, it_interval = \<lparr>tv_sec = c, tv_nsec = d\<rparr>\<rparr> \<and>
    itimerspecFromStr (show_int a) =
      \<lparr>it_value = \<lparr>tv_sec = a, tv_nsec = 0\<rparr>, it_interval = \<lparr>tv_sec = 0, tv_nsec = 0\<rparr>\<rparr>"
proof -
  have n: "CHR '':'' \<notin> set (show_int i)" "CHR ''/'' \<notin> set (show_int i)" for i
  proof -
    have "CHR '':'' \<notin> set (show_nat k)" "CHR ''/'' \<notin> set (show_nat k)" for k
      using show_nat_all_digits [of k] by (auto simp: list_all_iff isdigitb_def digitval_def)
    then show "CHR '':'' \<notin> set (show_int i)" "CHR ''/'' \<notin> set (show_int i)" by (auto simp: show_int_def)
  qed
  have at: "atoi (show_int i) = i" if "INT_MIN \<le> i \<and> i \<le> INT_MAX" for i
    using atoi_show_int [of i "[]"] that by simp
  have t: "timespecFromStr (show_int i @ CHR ''/'' # show_int j) = \<lparr>tv_sec = i, tv_nsec = j\<rparr>"
    if "INT_MIN \<le> i \<and> i \<le> INT_MAX" "INT_MIN \<le> j \<and> j \<le> INT_MAX" for i j
  proof -
    have "strchr (show_int i @ CHR ''/'' # show_int j) (CHR ''/'') = Some (show_int i, show_int j)"
      using n by (simp add: strchr_Some)
    then show ?thesis using that by (simp add: timespecFromStr_def at)
  qed
  have "strchr (show_int a @ CHR ''/'' # show_int b @ CHR '':'' # show_int c @ CHR ''/'' # show_int d) (CHR '':'') =
      Some (show_int a @ CHR ''/'' # show_int b, show_int c @ CHR ''/'' # show_int d)"
    using n by (simp add: strchr_Some)
  moreover have "strchr (show_int a) (CHR '':'') = None" "strchr (show_int a) (CHR ''/'') = None"
    using n by (simp_all add: strchr_None)
  moreover from this have "timespecFromStr (show_int a) = \<lparr>tv_sec = a, tv_nsec = 0\<rparr>"
    using assms by (simp add: timespecFromStr_def at)
  ultimately show ?thesis using assms by (simp add: itimerspecFromStr_def t)
qed

theorem itimerspecFromStr_show_witness:
  "itimerspecFromStr ''2/500:0/7'' =
     \<lparr>it_value = \<lparr>tv_sec = 2, tv_nsec = 500\<rparr>, it_interval = \<lparr>tv_sec = 0, tv_nsec = 7\<rparr>\<rparr>"
proof -
  have "show_int 2 @ ''/'' @ show_int 500 @ '':'' @ show_int 0 @ ''/'' @ show_int 7 = ''2/500:0/7''"
    by code_simp
  with itimerspecFromStr_show [of 2 500 0 7] show ?thesis by simp
qed

section \<open>Reports of wait statuses\<close>

text \<open>How the kernel encodes what happened to a child.\<close>

definition status_exited :: "8 word \<Rightarrow> 32 word" where
  "status_exited code = push_bit 8 (ucast code)"

definition status_killed :: "7 word \<Rightarrow> bool \<Rightarrow> 32 word" where
  "status_killed sig core = ucast sig OR (if core then 0x80 else 0)"

definition status_stopped :: "8 word \<Rightarrow> 32 word" where
  "status_stopped sig = push_bit 8 (ucast sig) OR 0x7f"

lemma status_masks: "(0x7f :: 32 word) = mask 7" "(0xff :: 32 word) = mask 8" "(0x80 :: 32 word) = 2 ^ 7"
  "(0xff00 :: 32 word) = push_bit 8 (mask 8)"
  by (simp_all add: mask_eq_exp_minus_1)

lemma bit_short: "bit (w :: 8 word) n \<Longrightarrow> n < 8" "bit (v :: 7 word) n \<Longrightarrow> n < 7"
  using bit_imp_le_length [of w n] bit_imp_le_length [of v n] by simp_all

lemma bit_128: "bit (128 :: int) n \<longleftrightarrow> n = 7"
proof -
  have "bit ((2 :: int) ^ 7) n \<longleftrightarrow> n = 7" by (subst bit_exp_iff) auto
  then show ?thesis by simp
qed

lemmas bit_defs = bit_and_iff bit_or_iff bit_mask_iff bit_ucast_iff bit_push_bit_iff bit_drop_bit_eq bit_128

lemma exited_fields: "status_exited c AND mask 7 = 0" "drop_bit 8 (status_exited c AND push_bit 8 (mask 8)) = ucast c"
  unfolding status_exited_def by (rule bit_word_eqI, auto simp: bit_defs dest: bit_short)+

lemma killed_fields: "status_killed s core AND mask 7 = ucast s" "status_killed s core AND 2 ^ 7 \<noteq> 0 \<longleftrightarrow> core"
proof -
  show "status_killed s core AND mask 7 = ucast s"
    unfolding status_killed_def by (rule bit_word_eqI) (auto simp: bit_defs dest: bit_short)
  have "bit (status_killed s core) 7 \<longleftrightarrow> core"
    unfolding status_killed_def by (auto simp: bit_defs dest: bit_short)
  then show "status_killed s core AND 2 ^ 7 \<noteq> 0 \<longleftrightarrow> core" by (simp only: and_exp_eq_0_iff_not_bit simp_thms)
qed

lemma stopped_fields: "status_stopped s AND mask 7 = mask 7" "status_stopped s AND mask 8 = mask 7"
  "drop_bit 8 (status_stopped s AND push_bit 8 (mask 8)) = ucast s"
  unfolding status_stopped_def status_masks
  by (rule bit_word_eqI, auto simp: bit_defs dest: bit_short)+

text \<open>
  \<open>printWaitStatus\<close> reports every status the kernel produces correctly: the exit code of a
  child that exited, the signal of one that was killed (and whether it dumped core), the
  signal of one that was stopped, and a continued child. The last branch, for an impossible
  status, is not reached by any of them.
\<close>

theorem printWaitStatus_reports:
  assumes "sig \<noteq> 0" and "sig \<noteq> 127"
  shows "printWaitStatus strsignal None (status_exited code) =
      ''child exited, status='' @ show_nat (unat code) @ [CHR 0x0A] \<and>
    printWaitStatus strsignal None (status_killed sig core) =
      ''child killed by signal '' @ show_nat (unat sig) @ '' ('' @ strsignal (unat sig) @ '')'' @
      (if core then '' (core dumped)'' else []) @ [CHR 0x0A] \<and>
    printWaitStatus strsignal None (status_stopped stop) =
      ''child stopped by signal '' @ show_nat (unat stop) @ '' ('' @ strsignal (unat stop) @ '')'' @ [CHR 0x0A] \<and>
    printWaitStatus strsignal None 0xffff = ''child continued'' @ [CHR 0x0A]"
proof (intro conjI)
  have u: "unat (ucast code :: 32 word) = unat code" "unat (ucast stop :: 32 word) = unat stop"
    "unat (ucast sig :: 32 word) = unat sig"
    using unsigned_less [of code, where ?'a = nat] unsigned_less [of stop, where ?'a = nat]
      unsigned_less [of sig, where ?'a = nat]
    by (simp_all add: unsigned_ucast_eq take_bit_nat_eq_self)
  show "printWaitStatus strsignal None (status_exited code) =
      ''child exited, status='' @ show_nat (unat code) @ [CHR 0x0A]"
    unfolding printWaitStatus_def WIFEXITED_def status_masks exited_fields by (simp add: u)
  have "unat sig \<noteq> 0" "unat sig \<noteq> 127"
    using assms word_eq_iff_unsigned [of sig 127, where ?'a = nat] by (simp_all add: unsigned_eq_0_iff)
  then have "ucast sig \<noteq> (0 :: 32 word)" "ucast sig \<noteq> (127 :: 32 word)"
    using u(3) by (auto dest!: arg_cong [where f = unat])
  then show "printWaitStatus strsignal None (status_killed sig core) =
      ''child killed by signal '' @ show_nat (unat sig) @ '' ('' @ strsignal (unat sig) @ '')'' @
      (if core then '' (core dumped)'' else []) @ [CHR 0x0A]"
    unfolding printWaitStatus_def WIFEXITED_def WIFSIGNALED_def status_masks killed_fields
    by (simp add: u mask_eq_exp_minus_1)
  show "printWaitStatus strsignal None (status_stopped stop) =
      ''child stopped by signal '' @ show_nat (unat stop) @ '' ('' @ strsignal (unat stop) @ '')'' @ [CHR 0x0A]"
    unfolding printWaitStatus_def WIFEXITED_def WIFSIGNALED_def WIFSTOPPED_def status_masks stopped_fields
    by (simp add: u mask_eq_exp_minus_1)
  show "printWaitStatus strsignal None 0xffff = ''child continued'' @ [CHR 0x0A]"
    by (simp add: printWaitStatus_def WIFEXITED_def WIFSIGNALED_def WIFSTOPPED_def WIFCONTINUED_def)
qed

theorem printWaitStatus_reports_witness:
  "printWaitStatus (\<lambda>_. ''Killed'') None (status_killed 9 True) =
     ''child killed by signal 9 (Killed) (core dumped)'' @ [CHR 0x0A]"
proof -
  have "show_nat 9 = ''9''" by code_simp
  with printWaitStatus_reports [of 9 "\<lambda>_. ''Killed''" 0 True 0] show ?thesis by simp
qed

end
