(* ===== verification/WatchCache.thy ===== *)
theory WatchCache
  imports Prelude
begin

text \<open>
  The watch list cache of \<open>inotify/inotify_dtree.c\<close>: the array \<open>wlCache\<close> of
  \<open>struct watch\<close> and the functions that search and change it. The array is a list, and
  \<open>cacheSize\<close> is its length. A slot is free when its \<open>wd\<close> is \<open>-1\<close>.

  The locale \<open>watch_map\<close> is what the rest of the program relies on: a finite map from watch
  descriptors to pathnames. It is interpreted on the functions of the cache.
\<close>

abbreviation (input) NAME_MAX :: nat where "NAME_MAX \<equiv> 255"
abbreviation (input) ALLOC_INCR :: nat where "ALLOC_INCR \<equiv> 200"

section \<open>The cache and its operations\<close>

record watch =
  wd :: int
  path :: string

type_synonym cache = "watch list"

definition freeCache :: cache where
  "freeCache = []"

definition findWatch :: "cache \<Rightarrow> int \<Rightarrow> nat option" where
  "findWatch c w = find_slot (\<lambda>e. wd e = w) c"

text \<open>\<open>wlCache[slot].wd = -1; wlCache[slot].path[0] = '\0'\<close>.\<close>

definition markCacheSlotEmpty :: "nat \<Rightarrow> cache \<Rightarrow> cache" where
  "markCacheSlotEmpty slot c = c[slot := \<lparr>wd = -1, path = []\<rparr>]"

text \<open>
  The loop that empties the slots \<open>[lo, hi)\<close> that \<open>realloc\<close> has just added (their
  contents are indeterminate before it runs).
\<close>

definition markNewSlots :: "nat \<Rightarrow> nat \<Rightarrow> cache \<Rightarrow> cache" where
  "markNewSlots lo hi c = fold markCacheSlotEmpty [lo ..< hi] c"

text \<open>
  A free slot and the cache that has it. When no slot is free the array grows by
  \<open>ALLOC_INCR\<close> slots; \<open>junk\<close> is what the new memory holds, and \<open>mem n\<close> says whether
  \<open>realloc\<close> can provide \<open>n\<close> slots. If it cannot, \<open>errExit\<close> ends the process (\<open>None\<close>).
\<close>

definition findEmptyCacheSlot :: "(nat \<Rightarrow> bool) \<Rightarrow> watch \<Rightarrow> cache \<Rightarrow> (nat \<times> cache) option" where
  "findEmptyCacheSlot mem junk c =
     (case find_slot (\<lambda>e. wd e = -1) c of
        Some j \<Rightarrow> Some (j, c)
      | None \<Rightarrow>
          let cacheSize = length c + ALLOC_INCR in
          if mem cacheSize
          then Some (cacheSize - ALLOC_INCR,
                     markNewSlots (cacheSize - ALLOC_INCR) cacheSize (c @ replicate ALLOC_INCR junk))
          else None)"

text \<open>\<open>strncpy(wlCache[slot].path, pathname, PATH_MAX)\<close> keeps at most \<open>PATH_MAX\<close> bytes.\<close>

definition addWatchToCache ::
  "(nat \<Rightarrow> bool) \<Rightarrow> watch \<Rightarrow> int \<Rightarrow> string \<Rightarrow> cache \<Rightarrow> (nat \<times> cache) option" where
  "addWatchToCache mem junk w pathname c =
     (case findEmptyCacheSlot mem junk c of
        None \<Rightarrow> None
      | Some (slot, c') \<Rightarrow> Some (slot, c'[slot := \<lparr>wd = w, path = take PATH_MAX pathname\<rparr>]))"

definition pathnameToCacheSlot :: "cache \<Rightarrow> string \<Rightarrow> nat option" where
  "pathnameToCacheSlot c pathname = find_slot (\<lambda>e. 0 \<le> wd e \<and> path e = pathname) c"

definition pathnameInCache :: "cache \<Rightarrow> string \<Rightarrow> bool" where
  "pathnameInCache c pathname \<longleftrightarrow> pathnameToCacheSlot c pathname \<noteq> None"

text \<open>
  The test that \<open>rewriteCachedPaths\<close> and \<open>zapSubtree\<close> share: the cached path is the
  directory \<open>p\<close> itself or lies below it.
\<close>

definition underPath :: "string \<Rightarrow> string \<Rightarrow> bool" where
  "underPath p s \<longleftrightarrow>
     strncmp0 p s \<and> (drop (length p) s = [] \<or> hd (drop (length p) s) = CHR ''/'')"

text \<open>One slot of the loop in \<open>rewriteCachedPaths\<close>: the old prefix is replaced by the new one.\<close>

definition rewriteEntry :: "string \<Rightarrow> string \<Rightarrow> watch \<Rightarrow> watch" where
  "rewriteEntry fullPath newPrefix e =
     (if underPath fullPath (path e)
      then e\<lparr>path := fst (snprintf PATH_MAX (newPrefix @ drop (length fullPath) (path e)))\<rparr>
      else e)"

definition rewriteCachedPaths :: "string \<Rightarrow> string \<Rightarrow> string \<Rightarrow> string \<Rightarrow> cache \<Rightarrow> cache" where
  "rewriteCachedPaths oldPathPrefix oldName newPathPrefix newName c =
     (let fullPath = fst (snprintf PATH_MAX (oldPathPrefix @ ''/'' @ oldName));
          newPrefix = fst (snprintf PATH_MAX (newPathPrefix @ ''/'' @ newName))
      in map (rewriteEntry fullPath newPrefix) c)"

text \<open>The number of used slots, as \<open>reinitialize\<close> and the \<open>l\<close> command count them.\<close>

definition usedSlots :: "cache \<Rightarrow> nat" where
  "usedSlots c = length (filter (\<lambda>e. 0 \<le> wd e) c)"

section \<open>The cache as a map\<close>

definition used :: "cache \<Rightarrow> watch list" where
  "used c = filter (\<lambda>e. 0 \<le> wd e) c"

definition watchMap :: "cache \<Rightarrow> int \<rightharpoonup> string" where
  "watchMap c = map_of (map (\<lambda>e. (wd e, path e)) (used c))"

text \<open>
  The well-formedness of the cache: a used slot has a watch descriptor that no other used
  slot has, and a free slot has \<open>wd = -1\<close> and the empty path.
\<close>

definition slot_ok :: "watch \<Rightarrow> bool" where
  "slot_ok e \<longleftrightarrow> 0 \<le> wd e \<or> (wd e = -1 \<and> path e = [])"

definition cache_ok :: "cache \<Rightarrow> bool" where
  "cache_ok c \<longleftrightarrow> distinct (map wd (used c)) \<and> list_all slot_ok c"

lemma used_append [simp]: "used (a @ b) = used a @ used b"
  by (simp add: used_def)

lemma used_Nil [simp]: "used [] = []"
  by (simp add: used_def)

lemma used_Cons: "used (e # c) = (if 0 \<le> wd e then e # used c else used c)"
  by (simp add: used_def)

lemma set_used [simp]: "set (used c) = {e \<in> set c. 0 \<le> wd e}"
  by (simp add: used_def)

lemma usedSlots_used: "usedSlots c = length (used c)"
  by (simp add: usedSlots_def used_def)

lemma used_replicate_free [simp]: "used (replicate n \<lparr>wd = -1, path = []\<rparr>) = []"
  by (simp add: used_def)

lemma cache_ok_Nil [simp]: "cache_ok []"
  by (simp add: cache_ok_def)

lemma cache_okD: "cache_ok c \<Longrightarrow> e \<in> set c \<Longrightarrow> slot_ok e"
  by (simp add: cache_ok_def list_all_iff)

lemma dom_watchMap: "dom (watchMap c) = wd ` {e \<in> set c. 0 \<le> wd e}"
  by (force simp: watchMap_def dom_map_of_conv_image_fst image_image)

lemma watchMap_Some_iff:
  "cache_ok c \<Longrightarrow> watchMap c w = Some p \<longleftrightarrow> (\<exists>e\<in>set c. 0 \<le> wd e \<and> wd e = w \<and> path e = p)"
  by (force simp: watchMap_def cache_ok_def comp_def)

lemma watchMap_append: "watchMap (a @ b) = watchMap b ++ watchMap a"
  by (simp add: watchMap_def)

lemma list_update_split:
  "j < length c \<Longrightarrow> c[j := x] = take j c @ x # drop (Suc j) c"
  by (simp add: upd_conv_take_nth_drop)

text \<open>Filling a free slot: the list of used entries gains the new entry at its place.\<close>

lemma used_fill:
  assumes "j < length c" "wd (c ! j) = -1" "0 \<le> w"
  shows "\<exists>a b. used c = a @ b \<and> used (c[j := \<lparr>wd = w, path = p\<rparr>]) = a @ \<lparr>wd = w, path = p\<rparr> # b"
proof -
  have "used c = used (take j c) @ used (drop (Suc j) c)"
    using assms(1,2) used_append [of "take j c" "c ! j # drop (Suc j) c"]
    by (simp add: id_take_nth_drop [symmetric] used_Cons)
  moreover have "used (c[j := \<lparr>wd = w, path = p\<rparr>]) =
      used (take j c) @ \<lparr>wd = w, path = p\<rparr> # used (drop (Suc j) c)"
    using assms by (simp add: list_update_split used_Cons)
  ultimately show ?thesis by blast
qed

lemma fill_slot:
  fixes p :: string
  assumes "cache_ok c" "j < length c" "wd (c ! j) = -1" "0 \<le> w" "w \<notin> dom (watchMap c)"
  defines "c' \<equiv> c[j := \<lparr>wd = w, path = p\<rparr>]"
  shows "cache_ok c'" and "watchMap c' = (watchMap c)(w \<mapsto> p)"
    and "usedSlots c' = Suc (usedSlots c)"
proof -
  obtain a b where ab: "used c = a @ b" "used c' = a @ \<lparr>wd = w, path = p\<rparr> # b"
    using used_fill [OF assms(2-4)] unfolding c'_def by blast
  have w: "w \<notin> wd ` set (a @ b)"
    using assms(5) by (simp add: dom_watchMap flip: ab(1))
  have "distinct (map wd (a @ b))"
    using assms(1) by (simp add: cache_ok_def flip: ab(1))
  with w have "distinct (map wd (used c'))"
    by (auto simp: ab(2))
  moreover have "list_all slot_ok c'"
    using assms(1,4) unfolding c'_def cache_ok_def
    by (auto simp: list_all_iff slot_ok_def dest: set_update_subset_insert [THEN subsetD])
  ultimately show "cache_ok c'" by (simp add: cache_ok_def)
  have "map_of (map (\<lambda>e. (wd e, path e)) a) w = None"
    using w by (auto simp: map_of_eq_None_iff)
  then show "watchMap c' = (watchMap c)(w \<mapsto> p)"
    by (auto simp: watchMap_def ab map_add_def fun_eq_iff split: option.splits)
  show "usedSlots c' = Suc (usedSlots c)"
    by (simp add: usedSlots_used ab)
qed

lemma length_markCacheSlotEmpty [simp]: "length (markCacheSlotEmpty j c) = length c"
  by (simp add: markCacheSlotEmpty_def)

lemma markNewSlots_eq:
  "markNewSlots (length c) (length c + n) (c @ replicate n junk) =
     c @ replicate n \<lparr>wd = -1, path = []\<rparr>"
proof -
  have "fold markCacheSlotEmpty [length c ..< length c + k] (c @ replicate n junk) =
      c @ replicate k \<lparr>wd = -1, path = []\<rparr> @ replicate (n - k) junk" if "k \<le> n" for k
    using that
  proof (induction k)
    case (Suc k)
    then have "n - k = Suc (n - Suc k)" by simp
    with Suc show ?case
      by (simp add: markCacheSlotEmpty_def list_update_append replicate_app_Cons_same)
  qed simp
  from this [of n] show ?thesis by (simp add: markNewSlots_def)
qed


lemma findEmptyCacheSlot_spec:
  assumes "cache_ok c" and "findEmptyCacheSlot mem junk c = Some (j, c')"
  shows "j < length c' \<and> wd (c' ! j) = -1 \<and> cache_ok c' \<and> used c' = used c"
proof (cases "find_slot (\<lambda>e. wd e = -1) c")
  case (Some i)
  with assms find_slot_Some [OF Some] show ?thesis by (simp add: findEmptyCacheSlot_def)
next
  case None
  with assms(2) have "j = length c" and "c' = c @ replicate ALLOC_INCR \<lparr>wd = -1, path = []\<rparr>"
    using markNewSlots_eq [of c ALLOC_INCR junk]
    by (auto simp: findEmptyCacheSlot_def Let_def split: if_splits)
  with assms(1) show ?thesis
    by (auto simp: cache_ok_def nth_append slot_ok_def list_all_iff)
qed

lemma addWatchToCache_spec:
  assumes "cache_ok c" "0 \<le> w" "watchMap c w = None"
    and "addWatchToCache mem junk w p c = Some (j, c')"
  shows "cache_ok c'" and "watchMap c' = (watchMap c)(w \<mapsto> take PATH_MAX p)"
    and "usedSlots c' = Suc (usedSlots c)"
proof -
  from assms(4) obtain c0 where c0: "findEmptyCacheSlot mem junk c = Some (j, c0)"
    and c': "c' = c0[j := \<lparr>wd = w, path = take PATH_MAX p\<rparr>]"
    by (auto simp: addWatchToCache_def split: option.splits)
  from findEmptyCacheSlot_spec [OF assms(1) c0]
  have j: "j < length c0" "wd (c0 ! j) = -1" "cache_ok c0" and u: "used c0 = used c" by auto
  from u have m: "watchMap c0 = watchMap c" and n: "usedSlots c0 = usedSlots c"
    by (simp_all add: watchMap_def usedSlots_used)
  have d: "w \<notin> dom (watchMap c0)" using assms(3) m by auto
  show "cache_ok c'" "watchMap c' = (watchMap c)(w \<mapsto> take PATH_MAX p)"
    "usedSlots c' = Suc (usedSlots c)"
    using fill_slot [OF j(3,1,2) assms(2) d] c' m n by auto
qed

lemma used_mark:
  assumes "j < length c"
  shows "\<exists>a b. used (markCacheSlotEmpty j c) = a @ b \<and>
    used c = a @ (if 0 \<le> wd (c ! j) then [c ! j] else []) @ b"
proof -
  have "used c = used (take j c @ c ! j # drop (Suc j) c)"
    using assms by (simp add: id_take_nth_drop [symmetric])
  then have "used c = used (take j c) @ (if 0 \<le> wd (c ! j) then [c ! j] else []) @ used (drop (Suc j) c)"
    by (simp add: used_Cons)
  moreover have "used (markCacheSlotEmpty j c) = used (take j c) @ used (drop (Suc j) c)"
    using assms by (simp add: markCacheSlotEmpty_def list_update_split used_Cons)
  ultimately show ?thesis by blast
qed

lemma markCacheSlotEmpty_spec:
  assumes "cache_ok c" "j < length c"
  shows "cache_ok (markCacheSlotEmpty j c)"
    and "0 \<le> wd (c ! j) \<Longrightarrow> watchMap (markCacheSlotEmpty j c) = (watchMap c)(wd (c ! j) := None)"
proof -
  obtain a b where ab: "used (markCacheSlotEmpty j c) = a @ b"
      "used c = a @ (if 0 \<le> wd (c ! j) then [c ! j] else []) @ b"
    using used_mark [OF assms(2)] by blast
  have "distinct (map wd (used c))" using assms(1) by (simp add: cache_ok_def)
  then have d: "distinct (map wd (a @ b))"
    "0 \<le> wd (c ! j) \<Longrightarrow> wd (c ! j) \<notin> wd ` set (a @ b)"
    by (auto simp: ab(2) split: if_splits)
  have "list_all slot_ok (markCacheSlotEmpty j c)"
    using assms(1) unfolding cache_ok_def markCacheSlotEmpty_def
    by (auto simp: list_all_iff slot_ok_def dest: set_update_subset_insert [THEN subsetD])
  with d(1) show "cache_ok (markCacheSlotEmpty j c)"
    by (simp add: cache_ok_def ab(1))
  assume w: "0 \<le> wd (c ! j)"
  with d(2) have "map_of (map (\<lambda>e. (wd e, path e)) a) (wd (c ! j)) = None"
    "map_of (map (\<lambda>e. (wd e, path e)) b) (wd (c ! j)) = None"
    by (auto simp: map_of_eq_None_iff)
  with w show "watchMap (markCacheSlotEmpty j c) = (watchMap c)(wd (c ! j) := None)"
    by (auto simp: watchMap_def ab map_add_def fun_eq_iff split: option.splits)
qed

lemma findWatch_None_iff: "0 \<le> w \<Longrightarrow> findWatch c w = None \<longleftrightarrow> watchMap c w = None"
  using domIff [of w "watchMap c"] by (auto simp: findWatch_def find_slot_None dom_watchMap)

lemma findWatch_Some:
  assumes "cache_ok c" "0 \<le> w" "findWatch c w = Some j"
  shows "j < length c" and "wd (c ! j) = w" and "watchMap c w = Some (path (c ! j))"
  using find_slot_Some [OF assms(3) [unfolded findWatch_def]] assms(1,2)
  by (auto simp: watchMap_Some_iff)

lemma pathnameInCache_iff:
  "cache_ok c \<Longrightarrow> pathnameInCache c p \<longleftrightarrow> p \<in> ran (watchMap c)"
  by (auto simp: pathnameInCache_def pathnameToCacheSlot_def find_slot_None ran_def
      watchMap_Some_iff)

section \<open>Subtrees and renaming\<close>

lemma underPath_iff: "underPath p s \<longleftrightarrow> s = p \<or> (\<exists>t. s = p @ CHR ''/'' # t)"
proof
  assume "underPath p s"
  then obtain t where t: "s = p @ t" and "t = [] \<or> hd t = CHR ''/''"
    by (auto simp: underPath_def strncmp0_append)
  then show "s = p \<or> (\<exists>t. s = p @ CHR ''/'' # t)" by (cases t) auto
qed (auto simp: underPath_def strncmp0_append)

text \<open>What \<open>rename(oldp, newp)\<close> does to the pathname of a directory.\<close>

definition renamePath :: "string \<Rightarrow> string \<Rightarrow> string \<Rightarrow> string" where
  "renamePath oldp newp s = (if underPath oldp s then newp @ drop (length oldp) s else s)"

lemma renamePath_under: "underPath p s \<Longrightarrow> underPath q (renamePath p q s)"
  by (auto simp: renamePath_def underPath_iff)

lemma renamePath_inverse: "\<not> underPath q s \<Longrightarrow> renamePath q p (renamePath p q s) = s"
  by (auto simp: renamePath_def underPath_iff)

text \<open>
  \<open>short p q c\<close>: the rename of \<open>p\<close> to \<open>q\<close> makes no cached pathname longer than
  \<open>PATH_MAX - 1\<close> bytes (the limitation stated at the top of the C file).
\<close>

definition short :: "string \<Rightarrow> string \<Rightarrow> cache \<Rightarrow> bool" where
  "short p q c \<longleftrightarrow> length p < PATH_MAX \<and> length q < PATH_MAX \<and>
     (\<forall>e\<in>set c. length (path e) < PATH_MAX \<and> length (renamePath p q (path e)) < PATH_MAX)"

lemma rewriteEntry_eq:
  "length (renamePath p q (path e)) < PATH_MAX \<Longrightarrow> rewriteEntry p q e = e\<lparr>path := renamePath p q (path e)\<rparr>"
  by (auto simp: rewriteEntry_def renamePath_def cstr_simps)

lemma wd_rewriteEntry [simp]: "wd (rewriteEntry p q e) = wd e"
  by (simp add: rewriteEntry_def)

lemma map_rewrite:
  assumes "short p q c"
  shows "map (rewriteEntry p q) c = map (\<lambda>e. e\<lparr>path := renamePath p q (path e)\<rparr>) c"
  using assms by (auto simp: short_def rewriteEntry_eq)

lemma used_map_rewrite: "used (map (rewriteEntry p q) c) = map (rewriteEntry p q) (used c)"
  by (induction c) (auto simp: used_Cons)

lemma watchMap_rewrite:
  assumes "short p q c"
  shows "watchMap (map (rewriteEntry p q) c) w = map_option (renamePath p q) (watchMap c w)"
proof -
  have "map_of (map (\<lambda>e. (wd e, path e)) (map (rewriteEntry p q) es)) w =
      map_option (renamePath p q) (map_of (map (\<lambda>e. (wd e, path e)) es) w)"
    if "set es \<subseteq> set c" for es
    using that assms by (induction es) (auto simp: short_def rewriteEntry_eq)
  from this [of "used c"] show ?thesis
    by (auto simp: watchMap_def used_map_rewrite)
qed

lemma underPath_slash_Nil: "p \<noteq> [] \<Longrightarrow> \<not> underPath p []"
  by (simp add: underPath_iff)

lemma cache_ok_rewrite:
  assumes "cache_ok c" "p \<noteq> []"
  shows "cache_ok (map (rewriteEntry p q) c)"
proof -
  have "slot_ok (rewriteEntry p q e)" if "slot_ok e" for e
    using that underPath_slash_Nil [OF assms(2)] by (auto simp: slot_ok_def rewriteEntry_def)
  with assms(1) show ?thesis
    by (auto simp: cache_ok_def used_map_rewrite comp_def list_all_iff)
qed

lemma rewriteCachedPaths_eq:
  assumes "length (a @ ''/'' @ x) < PATH_MAX" "length (b @ ''/'' @ y) < PATH_MAX"
  shows "rewriteCachedPaths a x b y c = map (rewriteEntry (a @ ''/'' @ x) (b @ ''/'' @ y)) c"
  using assms by (simp add: rewriteCachedPaths_def snprintf_def)

lemma cache_ok_rewriteCachedPaths:
  assumes "cache_ok c" shows "cache_ok (rewriteCachedPaths a x b y c)"
proof -
  have "fst (snprintf PATH_MAX (a @ ''/'' @ x)) \<noteq> []"
    by (cases a) (auto simp: snprintf_def)
  with assms show ?thesis by (simp add: rewriteCachedPaths_def Let_def cache_ok_rewrite)
qed

section \<open>The interface of the cache\<close>

text \<open>
  The contract that the event handlers rely on: insertion of a new watch, removal of a
  watch, and renaming of a subtree, each by its effect on the map from watch descriptors to
  pathnames. \<open>ins\<close> may fail (memory).
\<close>

locale watch_map =
  fixes look :: "'c \<Rightarrow> int \<Rightarrow> string option"
    and ins :: "int \<Rightarrow> string \<Rightarrow> 'c \<Rightarrow> 'c option"
    and del :: "int \<Rightarrow> 'c \<Rightarrow> 'c"
    and invar :: "'c \<Rightarrow> bool"
  assumes look_ins: "invar c \<Longrightarrow> 0 \<le> w \<Longrightarrow> look c w = None \<Longrightarrow> ins w p c = Some c' \<Longrightarrow>
      look c' = (look c)(w \<mapsto> take PATH_MAX p)"
    and invar_ins: "invar c \<Longrightarrow> 0 \<le> w \<Longrightarrow> look c w = None \<Longrightarrow> ins w p c = Some c' \<Longrightarrow> invar c'"
    and look_del: "invar c \<Longrightarrow> 0 \<le> w \<Longrightarrow> look (del w c) = (look c)(w := None)"
    and invar_del: "invar c \<Longrightarrow> 0 \<le> w \<Longrightarrow> invar (del w c)"

text \<open>
  What a traversal of a tree does with the watches it obtains: a watch that is known is
  left alone, every other one is inserted.
\<close>

fun add_all :: "('c \<Rightarrow> int \<Rightarrow> string option) \<Rightarrow> (int \<Rightarrow> string \<Rightarrow> 'c \<Rightarrow> 'c option) \<Rightarrow>
    (int \<times> string) list \<Rightarrow> 'c \<Rightarrow> 'c option" where
  "add_all look ins [] c = Some c"
| "add_all look ins ((w, p) # xs) c =
     (if look c w \<noteq> None then add_all look ins xs c
      else case ins w p c of None \<Rightarrow> None | Some c' \<Rightarrow> add_all look ins xs c')"

context watch_map
begin

lemma add_all_map:
  assumes "invar c" "\<forall>(w, p) \<in> set xs. 0 \<le> w" "add_all look ins xs c = Some c'"
  shows "invar c' \<and> look c' = map_of (map (apsnd (take PATH_MAX)) xs) ++ look c"
  using assms
proof (induction xs arbitrary: c)
  case Nil
  then show ?case by simp
next
  case (Cons x xs)
  obtain w p where x: "x = (w, p)" by force
  show ?case
  proof (cases "look c w")
    case (Some q)
    with Cons x have "invar c' \<and> look c' = map_of (map (apsnd (take PATH_MAX)) xs) ++ look c" by simp
    with Some x show ?thesis by (auto simp: map_add_def fun_eq_iff split: option.splits)
  next
    case None
    with Cons.prems x obtain c1 where c1: "ins w p c = Some c1" and rest: "add_all look ins xs c1 = Some c'"
      by (auto split: option.splits)
    from c1 None x Cons.prems have inv: "invar c1" and look: "look c1 = (look c)(w \<mapsto> take PATH_MAX p)"
      by (auto intro: invar_ins look_ins)
    from Cons.IH [OF inv _ rest] Cons.prems(2)
    have "invar c' \<and> look c' = map_of (map (apsnd (take PATH_MAX)) xs) ++ look c1" by simp
    with None x look show ?thesis by (auto simp: map_add_def fun_eq_iff split: option.splits)
  qed
qed

lemma del_ins:
  assumes "invar c" "0 \<le> w" "look c w = None" "ins w p c = Some c'"
  shows "look (del w c') = look c"
  using assms look_ins [OF assms] invar_ins [OF assms] look_del [of c' w]
  by (auto simp: fun_eq_iff)

end

locale tree_map = watch_map +
  fixes ren :: "string \<Rightarrow> string \<Rightarrow> 'c \<Rightarrow> 'c"
    and fits :: "string \<Rightarrow> string \<Rightarrow> 'c \<Rightarrow> bool"
  assumes look_ren: "fits p q c \<Longrightarrow> look (ren p q c) w = map_option (renamePath p q) (look c w)"
    and invar_ren: "invar c \<Longrightarrow> p \<noteq> [] \<Longrightarrow> invar (ren p q c)"
begin

lemma dom_ren: "fits p q c \<Longrightarrow> dom (look (ren p q c)) = dom (look c)"
  by (auto simp: look_ren)

text \<open>Renaming there and back is the identity when nothing was at the new place.\<close>

lemma ren_inverse:
  assumes "fits p q c" "fits q p (ren p q c)" "\<forall>s \<in> ran (look c). \<not> underPath q s"
  shows "look (ren q p (ren p q c)) = look c"
proof
  fix w
  show "look (ren q p (ren p q c)) w = look c w"
    using assms(3) look_ren [OF assms(2), of w] look_ren [OF assms(1), of w]
    by (cases "look c w") (auto simp: renamePath_inverse ranI)
qed

end

text \<open>The operations of the contract on the array.\<close>

definition cacheInsert :: "(nat \<Rightarrow> bool) \<Rightarrow> watch \<Rightarrow> int \<Rightarrow> string \<Rightarrow> cache \<Rightarrow> cache option" where
  "cacheInsert mem junk w p c = map_option snd (addWatchToCache mem junk w p c)"

definition cacheDelete :: "int \<Rightarrow> cache \<Rightarrow> cache" where
  "cacheDelete w c = (case findWatch c w of None \<Rightarrow> c | Some j \<Rightarrow> markCacheSlotEmpty j c)"

lemma cacheDelete_spec:
  assumes "cache_ok c" "0 \<le> w"
  shows "watchMap (cacheDelete w c) = (watchMap c)(w := None) \<and> cache_ok (cacheDelete w c)"
proof (cases "findWatch c w")
  case None
  with assms(2) have "watchMap c w = None" by (simp add: findWatch_None_iff)
  with None assms show ?thesis by (auto simp: cacheDelete_def)
next
  case (Some j)
  with findWatch_Some [OF assms Some] markCacheSlotEmpty_spec [OF assms(1), of j] assms show ?thesis
    by (simp add: cacheDelete_def)
qed

interpretation wc: tree_map watchMap "cacheInsert mem junk" cacheDelete cache_ok
    "\<lambda>p q. map (rewriteEntry p q)" short
  for mem junk
proof unfold_locales
  fix c w p c'
  assume h: "cache_ok c" "0 \<le> w" "watchMap c w = None" "cacheInsert mem junk w p c = Some c'"
  then obtain j where "addWatchToCache mem junk w p c = Some (j, c')"
    by (auto simp: cacheInsert_def)
  from addWatchToCache_spec [OF h(1-3) this]
  show "watchMap c' = (watchMap c)(w \<mapsto> take PATH_MAX p)" "cache_ok c'" by auto
qed (simp_all add: cacheDelete_spec watchMap_rewrite cache_ok_rewrite)

end
