(* ===== verification/InotifyTree.thy ===== *)
theory InotifyTree
  imports WatchCache
begin

unbundle bit_operations_syntax

text \<open>
  The state of \<open>inotify/inotify_dtree.c\<close> and the functions that keep the cache in step with
  the watched directory trees: the root directories of the command line, the traversal that
  creates watches, the removal of a subtree, the rebuild of the cache, and the consistency
  check.

  The kernel and the file system are a parameter: an \<open>api\<close> record of system calls over an
  arbitrary kernel state \<open>'k\<close>, which the program state carries. A call returns \<open>Inl errno\<close>
  or \<open>Inr\<close> of its result. \<open>nftw\<close> is represented by the sequence of calls of its callback
  (pathname, and whether the object is a directory) and whether it ended with an error.
  \<open>heap_junk\<close> and \<open>stack_junk\<close> stand for what uninitialised memory holds.

  Messages written to the terminal by \<open>logMessage\<close>, \<open>printf\<close> and \<open>perror\<close> are not part of
  the state; \<open>logMessage\<close> and \<open>displayInotifyEvent\<close> themselves are modelled as functions to
  text, and \<open>dumpCacheToLog\<close>, whose only purpose is the log file, writes to \<open>logDump\<close>.
\<close>

section \<open>State\<close>

record stat_t =
  st_isdir :: bool
  st_ino :: nat
  st_dev :: nat

record inotify_event =
  ev_wd :: int
  ev_mask :: "32 word"
  ev_cookie :: "32 word"
  ev_len :: nat
  ev_name :: string

record 'k api =
  lstat_sys :: "string \<Rightarrow> 'k \<Rightarrow> (errno + stat_t) \<times> 'k"
  inotify_init_sys :: "'k \<Rightarrow> (errno + int) \<times> 'k"
  inotify_add_watch_sys :: "int \<Rightarrow> string \<Rightarrow> 32 word \<Rightarrow> 'k \<Rightarrow> (errno + int) \<times> 'k"
  inotify_rm_watch_sys :: "int \<Rightarrow> int \<Rightarrow> 'k \<Rightarrow> (errno + unit) \<times> 'k"
  close_sys :: "int \<Rightarrow> 'k \<Rightarrow> 'k"
  creat_sys :: "string \<Rightarrow> 'k \<Rightarrow> 'k"
  nftw_lib :: "string \<Rightarrow> 'k \<Rightarrow> ((string \<times> bool) list \<times> bool) \<times> 'k"
  read_sys :: "int \<Rightarrow> int \<Rightarrow> 'k \<Rightarrow> (errno + inotify_event list) \<times> 'k"
  fopen_sys :: "string \<Rightarrow> 'k \<Rightarrow> bool \<times> 'k"
  fputs_sys :: "string \<Rightarrow> string \<Rightarrow> 'k \<Rightarrow> 'k"
  realloc_ok :: "nat \<Rightarrow> bool"
  heap_junk :: watch
  stack_junk :: stat_t

record 'k dtree =
  verboseMask :: int
  checkCache :: bool
  dumpCache :: bool
  readBufferSize :: int
  stopFile :: "string option"
  abortOnCacheProblem :: bool
  logOpen :: bool
  logDump :: string
  inotifyReadCnt :: int
  wlCache :: cache
  rootDirPaths :: "string option list"
  ignoreRootDirs :: nat
  dirCnt :: int
  ifd :: int
  reinitCnt :: int
  overflowCnt :: int
  inotifyFd :: int
  kern :: 'k

type_synonym ('k, 'a) act = "'k dtree \<Rightarrow> 'a res \<times> 'k dtree"

abbreviation (input) VB_BASIC :: int where "VB_BASIC \<equiv> 1"
abbreviation (input) VB_NOISY :: int where "VB_NOISY \<equiv> 2"

abbreviation (input) IN_MOVED_FROM :: "32 word" where "IN_MOVED_FROM \<equiv> 0x40"
abbreviation (input) IN_MOVED_TO :: "32 word" where "IN_MOVED_TO \<equiv> 0x80"
abbreviation (input) IN_CREATE :: "32 word" where "IN_CREATE \<equiv> 0x100"
abbreviation (input) IN_DELETE_SELF :: "32 word" where "IN_DELETE_SELF \<equiv> 0x400"
abbreviation (input) IN_MOVE_SELF :: "32 word" where "IN_MOVE_SELF \<equiv> 0x800"
abbreviation (input) IN_UNMOUNT :: "32 word" where "IN_UNMOUNT \<equiv> 0x2000"
abbreviation (input) IN_Q_OVERFLOW :: "32 word" where "IN_Q_OVERFLOW \<equiv> 0x4000"
abbreviation (input) IN_IGNORED :: "32 word" where "IN_IGNORED \<equiv> 0x8000"
abbreviation (input) IN_ONLYDIR :: "32 word" where "IN_ONLYDIR \<equiv> 0x1000000"
abbreviation (input) IN_ISDIR :: "32 word" where "IN_ISDIR \<equiv> 0x40000000"

section \<open>Messages\<close>

text \<open>
  \<open>logMessage(vb_mask, msg)\<close>: what is written to standard error and to the log file, given
  \<open>verboseMask\<close> and whether a log file is open.
\<close>

definition logMessage :: "int \<Rightarrow> string \<Rightarrow> int \<Rightarrow> bool \<Rightarrow> string \<times> string" where
  "logMessage vb_mask msg vmask haveLog =
     (if vb_mask = 0 \<or> vb_mask AND vmask \<noteq> 0 then msg else [], if haveLog then msg else [])"

text \<open>The \<open>%4d\<close> conversion: padded with blanks on the left to a width of four.\<close>

definition pad4 :: "string \<Rightarrow> string" where
  "pad4 s = replicate (4 - length s) (CHR '' '') @ s"

definition displayInotifyEvent :: "inotify_event \<Rightarrow> string" where
  "displayInotifyEvent ev =
     ''==> wd = '' @ show_int (ev_wd ev) @ ''; '' @
     (if 0 < ev_cookie ev then ''cookie = '' @ pad4 (show_int (sint (ev_cookie ev))) @ ''; '' else []) @
     ''mask = '' @
     (if ev_mask ev AND IN_ISDIR \<noteq> 0 then ''IN_ISDIR '' else []) @
     (if ev_mask ev AND IN_CREATE \<noteq> 0 then ''IN_CREATE '' else []) @
     (if ev_mask ev AND IN_DELETE_SELF \<noteq> 0 then ''IN_DELETE_SELF '' else []) @
     (if ev_mask ev AND IN_MOVE_SELF \<noteq> 0 then ''IN_MOVE_SELF '' else []) @
     (if ev_mask ev AND IN_MOVED_FROM \<noteq> 0 then ''IN_MOVED_FROM '' else []) @
     (if ev_mask ev AND IN_MOVED_TO \<noteq> 0 then ''IN_MOVED_TO '' else []) @
     (if ev_mask ev AND IN_IGNORED \<noteq> 0 then ''IN_IGNORED '' else []) @
     (if ev_mask ev AND IN_Q_OVERFLOW \<noteq> 0 then ''IN_Q_OVERFLOW '' else []) @
     (if ev_mask ev AND IN_UNMOUNT \<noteq> 0 then ''IN_UNMOUNT '' else []) @
     [CHR 0x0A] @
     (if 0 < ev_len ev then ''        name = '' @ ev_name ev @ [CHR 0x0A] else [])"

text \<open>The lines that \<open>dumpCacheToLog\<close> writes, from slot \<open>j\<close> on.\<close>

fun dumpLines :: "nat \<Rightarrow> cache \<Rightarrow> string" where
  "dumpLines j [] = []"
| "dumpLines j (e # c) =
     (if 0 \<le> wd e
      then show_nat j @ '': wd = '' @ show_int (wd e) @ ''; '' @ path e @ [CHR 0x0A]
      else []) @ dumpLines (Suc j) c"

text \<open>\<open>fprintf(logfp, ...)\<close> with \<open>logfp == NULL\<close> (no \<open>-l\<close> option) is undefined.\<close>

definition dumpCacheToLog :: "('k, unit) act" where
  "dumpCacheToLog s =
     (if logOpen s
      then (Ret (), s\<lparr>logDump := logDump s @ dumpLines 0 (wlCache s) @
               ''Total entries: '' @ show_nat (usedSlots (wlCache s)) @ [CHR 0x0A]\<rparr>)
      else (Undef, s))"

text \<open>\<open>open(NULL, ...)\<close> just fails; the result of \<open>open\<close> is not used.\<close>

definition createStopFileAndAbort :: "'k api \<Rightarrow> ('k, 'a) act" where
  "createStopFileAndAbort A s =
     seq_res dumpCacheToLog (\<lambda>_ s. (Abort, s))
       (case stopFile s of None \<Rightarrow> s | Some f \<Rightarrow> s\<lparr>kern := creat_sys A f (kern s)\<rparr>)"

definition findWatchChecked :: "'k api \<Rightarrow> int \<Rightarrow> ('k, nat option) act" where
  "findWatchChecked A w s =
     (case findWatch (wlCache s) w of
        Some slot \<Rightarrow> (Ret (Some slot), s)
      | None \<Rightarrow> if abortOnCacheProblem s then createStopFileAndAbort A s else (Ret None, s))"

section \<open>Root directories\<close>

text \<open>The first loop of \<open>copyRootDirPaths\<close>: every argument must be a directory.\<close>

fun checkRootArgs :: "'k api \<Rightarrow> string list \<Rightarrow> ('k, unit) act" where
  "checkRootArgs A [] s = (Ret (), s)"
| "checkRootArgs A (p # ps) s =
     (case lstat_sys A p (kern s) of
        (Inl e, k) \<Rightarrow> (Exit EXIT_FAILURE, s\<lparr>kern := k\<rparr>)
      | (Inr sb, k) \<Rightarrow>
          if \<not> st_isdir sb then (Exit EXIT_FAILURE, s\<lparr>kern := k\<rparr>)
          else checkRootArgs A ps (s\<lparr>kern := k\<rparr>))"

text \<open>The inner loop over \<open>k < j\<close>: does an earlier argument name the same object?\<close>

definition sameObject :: "stat_t \<Rightarrow> stat_t \<Rightarrow> bool" where
  "sameObject a b \<longleftrightarrow> st_ino a = st_ino b \<and> st_dev a = st_dev b"

text \<open>
  The second loop: \<open>seen\<close> holds \<open>rootDirStat[0 .. j-1]\<close>. The pathname is stored before the
  duplicate check, as in the code.
\<close>

fun copyRootArgs :: "'k api \<Rightarrow> stat_t list \<Rightarrow> string list \<Rightarrow> ('k, stat_t list) act" where
  "copyRootArgs A seen [] s = (Ret seen, s)"
| "copyRootArgs A seen (p # ps) s =
     (case lstat_sys A p (kern s) of
        (Inl e, k) \<Rightarrow> (Exit EXIT_FAILURE, s\<lparr>rootDirPaths := rootDirPaths s @ [Some p], kern := k\<rparr>)
      | (Inr sb, k) \<Rightarrow>
          let s' = s\<lparr>rootDirPaths := rootDirPaths s @ [Some p], kern := k\<rparr> in
          if list_ex (sameObject sb) seen then (Exit EXIT_FAILURE, s')
          else copyRootArgs A (seen @ [sb]) ps s')"

definition copyRootDirPaths :: "'k api \<Rightarrow> string list \<Rightarrow> ('k, stat_t list) act" where
  "copyRootDirPaths A argv =
     seq_res (checkRootArgs A argv) (\<lambda>_ s.
     seq_res (copyRootArgs A [] argv) (\<lambda>stats s. (Ret stats, s\<lparr>ignoreRootDirs := 0\<rparr>))
       (s\<lparr>rootDirPaths := []\<rparr>))"

definition findRootDirPath :: "string option list \<Rightarrow> string \<Rightarrow> nat option" where
  "findRootDirPath roots p = find_slot (\<lambda>r. r = Some p) roots"

definition isRootDirPath :: "string option list \<Rightarrow> string \<Rightarrow> bool" where
  "isRootDirPath roots p \<longleftrightarrow> findRootDirPath roots p \<noteq> None"

definition zapRootDirPath :: "string \<Rightarrow> ('k, unit) act" where
  "zapRootDirPath p s =
     (case findRootDirPath (rootDirPaths s) p of
        None \<Rightarrow> (Exit EXIT_FAILURE, s)
      | Some j \<Rightarrow>
          let s' = s\<lparr>rootDirPaths := (rootDirPaths s)[j := None],
                     ignoreRootDirs := ignoreRootDirs s + 1\<rparr>
          in if ignoreRootDirs s' = length (rootDirPaths s') then (Exit EXIT_SUCCESS, s')
             else (Ret (), s'))"

section \<open>Watching a tree\<close>

definition watchFlags :: "string option list \<Rightarrow> string \<Rightarrow> 32 word" where
  "watchFlags roots p =
     (IN_CREATE OR IN_MOVED_FROM OR IN_MOVED_TO OR IN_DELETE_SELF) OR
     (if isRootDirPath roots p then IN_MOVE_SELF else 0)"

definition traverseTree :: "'k api \<Rightarrow> string \<Rightarrow> bool \<Rightarrow> ('k, unit) act" where
  "traverseTree A pathname isdir s =
     (if \<not> isdir then (Ret (), s)
      else case inotify_add_watch_sys A (ifd s) pathname
                  (watchFlags (rootDirPaths s) pathname OR IN_ONLYDIR) (kern s) of
        (Inl e, k) \<Rightarrow> (if e = ENOENT then Ret () else Exit EXIT_FAILURE, s\<lparr>kern := k\<rparr>)
      | (Inr w, k) \<Rightarrow>
          if findWatch (wlCache s) w \<noteq> None then (Ret (), s\<lparr>kern := k\<rparr>)
          else
            let s' = s\<lparr>kern := k, dirCnt := dirCnt s + 1\<rparr> in
            (case addWatchToCache (realloc_ok A) (heap_junk A) w pathname (wlCache s') of
               None \<Rightarrow> (Exit EXIT_FAILURE, s')
             | Some (slot, c) \<Rightarrow> (Ret (), s'\<lparr>wlCache := c\<rparr>)))"

text \<open>The calls that \<open>nftw\<close> makes of its callback, in order; the callback always returns 0.\<close>

fun nftwCalls :: "'k api \<Rightarrow> (string \<times> bool) list \<Rightarrow> ('k, unit) act" where
  "nftwCalls A [] s = (Ret (), s)"
| "nftwCalls A ((p, d) # es) s = seq_res (traverseTree A p d) (\<lambda>_. nftwCalls A es) s"

text \<open>An error of \<open>nftw\<close> is logged and otherwise ignored.\<close>

definition watchDir :: "'k api \<Rightarrow> int \<Rightarrow> string \<Rightarrow> ('k, int) act" where
  "watchDir A fd pathname s =
     (let s1 = s\<lparr>dirCnt := 0, ifd := fd\<rparr>;
          ((entries, failed), k) = nftw_lib A pathname (kern s1)
      in seq_res (nftwCalls A entries) (\<lambda>_ s. (Ret (dirCnt s), s)) (s1\<lparr>kern := k\<rparr>))"

definition watchSubtree :: "'k api \<Rightarrow> int \<Rightarrow> string \<Rightarrow> ('k, unit) act" where
  "watchSubtree A fd p = seq_res (watchDir A fd p) (\<lambda>cnt s. (Ret (), s))"

section \<open>Removing a subtree, rebuilding the cache\<close>

text \<open>
  The loop of \<open>zapSubtree\<close> over the slots: the result is the returned count (\<open>-1\<close> after a
  failed \<open>inotify_rm_watch\<close>, which leaves the remaining slots alone), the slots, and the
  kernel state.
\<close>

fun zapLoop :: "'k api \<Rightarrow> int \<Rightarrow> string \<Rightarrow> int \<Rightarrow> cache \<Rightarrow> 'k \<Rightarrow> int \<times> cache \<times> 'k" where
  "zapLoop A fd pn cnt [] k = (cnt, [], k)"
| "zapLoop A fd pn cnt (e # c) k =
     (if 0 \<le> wd e \<and> underPath pn (path e)
      then (case inotify_rm_watch_sys A fd (wd e) k of
              (Inl err, k') \<Rightarrow> (-1, e # c, k')
            | (Inr _, k') \<Rightarrow>
                (case zapLoop A fd pn (cnt + 1) c k' of
                   (r, c', k'') \<Rightarrow> (r, \<lparr>wd = -1, path = []\<rparr> # c', k'')))
      else (case zapLoop A fd pn cnt c k of (r, c', k'') \<Rightarrow> (r, e # c', k'')))"

definition zapSubtree :: "'k api \<Rightarrow> int \<Rightarrow> string \<Rightarrow> ('k, int) act" where
  "zapSubtree A fd p s =
     (case zapLoop A fd p 0 (wlCache s) (kern s) of
        (cnt, c, k) \<Rightarrow> (Ret cnt, s\<lparr>wlCache := c, kern := k\<rparr>))"

fun watchRoots :: "'k api \<Rightarrow> int \<Rightarrow> string option list \<Rightarrow> ('k, unit) act" where
  "watchRoots A fd [] s = (Ret (), s)"
| "watchRoots A fd (None # rs) s = watchRoots A fd rs s"
| "watchRoots A fd (Some p # rs) s = seq_res (watchSubtree A fd p) (\<lambda>_. watchRoots A fd rs) s"

definition reinitialize :: "'k api \<Rightarrow> int \<Rightarrow> ('k, int) act" where
  "reinitialize A oldInotifyFd s =
     (let s1 = (if 0 \<le> oldInotifyFd
                then s\<lparr>kern := close_sys A oldInotifyFd (kern s), reinitCnt := reinitCnt s + 1\<rparr>
                else s\<lparr>reinitCnt := 0\<rparr>)
      in case inotify_init_sys A (kern s1) of
           (Inl e, k) \<Rightarrow> (Exit EXIT_FAILURE, s1\<lparr>kern := k\<rparr>)
         | (Inr fd, k) \<Rightarrow>
             let s2 = s1\<lparr>kern := k, wlCache := freeCache\<rparr> in
             seq_res (watchRoots A fd (rootDirPaths s2)) (\<lambda>_ s. (Ret fd, s)) s2)"

section \<open>Consistency check\<close>

text \<open>
  The loop of \<open>checkCacheConsistency\<close>. \<open>sb\<close> is the \<open>struct stat\<close> variable outside the loop:
  the \<open>else\<close> belongs to \<open>wlCache[j].wd >= 0\<close>, so the type is tested for free slots, on the
  value that the last successful \<open>lstat\<close> left (or on uninitialised memory).
\<close>

fun checkLoop :: "'k api \<Rightarrow> stat_t \<Rightarrow> cache \<Rightarrow> nat \<Rightarrow> 'k \<Rightarrow> nat res \<times> 'k" where
  "checkLoop A sb [] failures k = (Ret failures, k)"
| "checkLoop A sb (e # c) failures k =
     (if 0 \<le> wd e then
        (case lstat_sys A (path e) k of
           (Inl err, k') \<Rightarrow> checkLoop A sb c (failures + 1) k'
         | (Inr sb', k') \<Rightarrow> checkLoop A sb' c failures k')
      else if \<not> st_isdir sb then (Exit EXIT_FAILURE, k)
      else checkLoop A sb c failures k)"

definition checkCacheConsistency :: "'k api \<Rightarrow> ('k, nat) act" where
  "checkCacheConsistency A s =
     (case checkLoop A (stack_junk A) (wlCache s) 0 (kern s) of (r, k) \<Rightarrow> (r, s\<lparr>kern := k\<rparr>))"

end
