(* ===== verification/InotifyEvents.thy ===== *)
theory InotifyEvents
  imports InotifyTree
begin

unbundle bit_operations_syntax

text \<open>
  The event handler \<open>processNextInotifyEvent\<close>, the loop \<open>processInotifyEvents\<close> over a buffer
  of events, the interactive commands, and \<open>main\<close> of \<open>inotify/inotify_dtree.c\<close>.

  \<open>read\<close> on an inotify descriptor returns whole events, so the buffer from the current
  position on is the list \<open>evs\<close> of the events there, together with the number \<open>bufSize\<close> of
  bytes that the code takes to be left (\<open>buf + numRead - evp\<close>).
\<close>

section \<open>One event\<close>

abbreviation (input) INOTIFY_READ_BUF_LEN :: int where
  "INOTIFY_READ_BUF_LEN \<equiv> 100 * (16 + int NAME_MAX + 1)"

definition evSize :: "inotify_event \<Rightarrow> int" where
  "evSize ev = 16 + int (ev_len ev)"

text \<open>
  The slot \<open>evCacheSlot\<close> is an uninitialised variable for an event without a watch
  descriptor or with \<open>IN_IGNORED\<close> (\<open>None\<close>); using it then is undefined.
\<close>

definition withSlot :: "nat option \<Rightarrow> (nat \<Rightarrow> watch \<Rightarrow> ('k, 'a) act) \<Rightarrow> ('k, 'a) act" where
  "withSlot slot f s =
     (case slot of
        None \<Rightarrow> (Undef, s)
      | Some j \<Rightarrow> if j < length (wlCache s) then f j (wlCache s ! j) s else (Undef, s))"

text \<open>
  A branch of the handler ends with \<open>return r\<close> (\<open>Inl r\<close>) or goes on to the code after the
  \<open>if\<close> chain with the value of \<open>evLen\<close> (\<open>Inr evLen\<close>).
\<close>

type_synonym branch = "int + int"

text \<open>
  \<open>*inotifyFd = reinitialize( *inotifyFd ); return INOTIFY_READ_BUF_LEN;\<close>
\<close>

definition reinitFd :: "'k api \<Rightarrow> ('k, unit) act" where
  "reinitFd A s = seq_res (reinitialize A (inotifyFd s)) (\<lambda>fd s. (Ret (), s\<lparr>inotifyFd := fd\<rparr>)) s"

definition discardBuffer :: "'k api \<Rightarrow> ('k, branch) act" where
  "discardBuffer A = seq_res (reinitFd A) (\<lambda>_ s. (Ret (Inl INOTIFY_READ_BUF_LEN), s))"

definition eventPath :: "watch \<Rightarrow> inotify_event \<Rightarrow> string" where
  "eventPath e ev = fst (snprintf (PATH_MAX + NAME_MAX) (path e @ ''/'' @ ev_name ev))"

definition handleCreate :: "'k api \<Rightarrow> nat option \<Rightarrow> inotify_event \<Rightarrow> ('k, branch) act" where
  "handleCreate A slot ev =
     withSlot slot (\<lambda>j e s.
       if \<not> pathnameInCache (wlCache s) (eventPath e ev)
       then seq_res (watchSubtree A (inotifyFd s) (eventPath e ev)) (\<lambda>_ s. (Ret (Inr (evSize ev)), s)) s
       else (Ret (Inr (evSize ev)), s))"

definition handleDeleteSelf :: "nat option \<Rightarrow> inotify_event \<Rightarrow> ('k, branch) act" where
  "handleDeleteSelf slot ev =
     withSlot slot (\<lambda>j e s.
       seq_res (\<lambda>s. if isRootDirPath (rootDirPaths s) (path e) then zapRootDirPath (path e) s else (Ret (), s))
         (\<lambda>_ s. (Ret (Inr (evSize ev)), s\<lparr>wlCache := markCacheSlotEmpty j (wlCache s)\<rparr>)) s)"

text \<open>
  \<open>IN_MOVED_FROM\<close>: \<open>rest\<close> are the events after \<open>ev\<close>. The next event is there when
  \<open>buf + evLen < buf + bufSize\<close>; if that holds but the buffer has no further event, the code
  would read memory that \<open>read\<close> has not filled.
\<close>

definition handleMovedFrom ::
  "'k api \<Rightarrow> nat option \<Rightarrow> inotify_event \<Rightarrow> inotify_event list \<Rightarrow> int \<Rightarrow> bool \<Rightarrow> ('k, branch) act" where
  "handleMovedFrom A slot ev rest bufSize firstTry =
     withSlot slot (\<lambda>j e s.
       let more = evSize ev < bufSize in
       if more \<and> rest = [] then (Undef, s)
       else if more \<and> ev_mask (hd rest) AND IN_MOVED_TO \<noteq> 0 \<and> ev_cookie (hd rest) = ev_cookie ev
       then
         let nextEv = hd rest in
         seq_res (findWatchChecked A (ev_wd nextEv)) (\<lambda>r. case r of
             None \<Rightarrow> discardBuffer A
           | Some nslot \<Rightarrow>
               withSlot (Some nslot) (\<lambda>nj ne s.
                 (Ret (Inr (evSize ev + evSize nextEv)),
                  s\<lparr>wlCache := rewriteCachedPaths (path e) (ev_name ev) (path ne) (ev_name nextEv) (wlCache s)\<rparr>))) s
       else if more \<or> \<not> firstTry then
         seq_res (zapSubtree A (inotifyFd s) (eventPath e ev)) (\<lambda>cnt.
           if cnt = -1 then discardBuffer A else (\<lambda>s. (Ret (Inr (evSize ev)), s))) s
       else (Ret (Inl (-1)), s))"

definition handleOverflow :: "'k api \<Rightarrow> ('k, branch) act" where
  "handleOverflow A s =
     seq_res (reinitFd A) (\<lambda>_ s. (Ret (Inr INOTIFY_READ_BUF_LEN), s))
       (s\<lparr>overflowCnt := overflowCnt s + 1\<rparr>)"

definition handleUnmount :: "nat option \<Rightarrow> inotify_event \<Rightarrow> ('k, branch) act" where
  "handleUnmount slot ev =
     withSlot slot (\<lambda>j e s.
       (Ret (Inr (evSize ev)), s\<lparr>wlCache := markCacheSlotEmpty j (wlCache s)\<rparr>))"

definition handleMoveSelf :: "'k api \<Rightarrow> nat option \<Rightarrow> inotify_event \<Rightarrow> ('k, branch) act" where
  "handleMoveSelf A slot ev =
     withSlot slot (\<lambda>j e s.
       if isRootDirPath (rootDirPaths s) (path e)
       then seq_res (zapRootDirPath (path e)) (\<lambda>_ s.
              seq_res (zapSubtree A (inotifyFd s) (path e)) (\<lambda>cnt.
                if cnt = -1 then discardBuffer A else (\<lambda>s. (Ret (Inr (evSize ev)), s))) s) s
       else (Ret (Inr (evSize ev)), s))"

definition dispatchEvent ::
  "'k api \<Rightarrow> nat option \<Rightarrow> inotify_event \<Rightarrow> inotify_event list \<Rightarrow> int \<Rightarrow> bool \<Rightarrow> ('k, branch) act" where
  "dispatchEvent A slot ev rest bufSize firstTry =
     (let m = ev_mask ev in
      if m AND IN_ISDIR \<noteq> 0 \<and> m AND (IN_CREATE OR IN_MOVED_TO) \<noteq> 0 then handleCreate A slot ev
      else if m AND IN_DELETE_SELF \<noteq> 0 then handleDeleteSelf slot ev
      else if m AND (IN_MOVED_FROM OR IN_ISDIR) = (IN_MOVED_FROM OR IN_ISDIR)
        then handleMovedFrom A slot ev rest bufSize firstTry
      else if m AND IN_Q_OVERFLOW \<noteq> 0 then handleOverflow A
      else if m AND IN_UNMOUNT \<noteq> 0 then handleUnmount slot ev
      else if m AND IN_MOVE_SELF \<noteq> 0 then handleMoveSelf A slot ev
      else (\<lambda>s. (Ret (Inr (evSize ev)), s)))"

text \<open>The code after the \<open>if\<close> chain: the optional check and dump of the cache.\<close>

definition finishEvent :: "'k api \<Rightarrow> branch \<Rightarrow> ('k, int) act" where
  "finishEvent A b =
     (case b of
        Inl r \<Rightarrow> (\<lambda>s. (Ret r, s))
      | Inr evLen \<Rightarrow>
          seq_res (\<lambda>s. if checkCache s then checkCacheConsistency A s else (Ret 0, s)) (\<lambda>_.
          seq_res (\<lambda>s. if dumpCache s then dumpCacheToLog s else (Ret (), s)) (\<lambda>_ s. (Ret evLen, s))))"

definition processNextInotifyEvent ::
  "'k api \<Rightarrow> inotify_event list \<Rightarrow> int \<Rightarrow> bool \<Rightarrow> ('k, int) act" where
  "processNextInotifyEvent A evs bufSize firstTry =
     (case evs of
        [] \<Rightarrow> (\<lambda>s. (Undef, s))
      | ev # rest \<Rightarrow>
          seq_res
            (if ev_wd ev \<noteq> -1 \<and> ev_mask ev AND IN_IGNORED = 0
             then seq_res (findWatchChecked A (ev_wd ev)) (\<lambda>r. case r of
                      None \<Rightarrow> discardBuffer A
                    | Some slot \<Rightarrow> dispatchEvent A (Some slot) ev rest bufSize firstTry)
             else dispatchEvent A None ev rest bufSize firstTry)
            (finishEvent A))"

section \<open>The loop over a buffer\<close>

text \<open>The events left after the pointer \<open>evp\<close> has moved on by \<open>n\<close> bytes.\<close>

fun skipBytes :: "int \<Rightarrow> inotify_event list \<Rightarrow> inotify_event list" where
  "skipBytes n [] = []"
| "skipBytes n (e # es) = (if n \<le> 0 then e # es else skipBytes (n - evSize e) es)"

definition bufBytes :: "inotify_event list \<Rightarrow> int" where
  "bufBytes evs = sum_list (map evSize evs)"

text \<open>
  The secondary \<open>read\<close> after an \<open>IN_MOVED_FROM\<close> event at the end of the buffer, with the
  2-millisecond alarm: \<open>numRead\<close> bytes are left. The test \<open>errno != -1\<close> of the code always
  holds, so after an interrupted \<open>read\<close> (\<open>nr == -1\<close>) \<open>numRead\<close> is decremented.
\<close>

definition secondaryRead :: "'k api \<Rightarrow> inotify_event list \<Rightarrow> int \<Rightarrow> ('k, inotify_event list \<times> int) act" where
  "secondaryRead A evs numRead s =
     (case read_sys A (inotifyFd s) (INOTIFY_READ_BUF_LEN - numRead) (kern s) of
        (Inl e, k) \<Rightarrow>
          if e \<noteq> EINTR then (Exit EXIT_FAILURE, s\<lparr>kern := k\<rparr>)
          else (Ret (evs, numRead + -1), s\<lparr>kern := k, inotifyReadCnt := inotifyReadCnt s + 1\<rparr>)
      | (Inr new, k) \<Rightarrow>
          if new = [] then (Exit EXIT_FAILURE, s\<lparr>kern := k\<rparr>)
          else (Ret (evs @ new, numRead + bufBytes new),
                s\<lparr>kern := k, inotifyReadCnt := inotifyReadCnt s + 1\<rparr>))"

text \<open>
  The \<open>for\<close> loop over the buffer: \<open>evs\<close> are the events from \<open>evp\<close> on and \<open>n\<close> is
  \<open>buf + numRead - evp\<close>. The number of iterations depends on what further reads return, so
  the loop has fuel; \<open>None\<close> is out of fuel.
\<close>

fun eventLoop :: "nat \<Rightarrow> 'k api \<Rightarrow> inotify_event list \<Rightarrow> int \<Rightarrow> bool \<Rightarrow> 'k dtree \<Rightarrow>
    (unit res \<times> 'k dtree) option" where
  "eventLoop fuel A evs n firstTry s =
     (if n \<le> 0 then Some (Ret (), s)
      else case fuel of
        0 \<Rightarrow> None
      | Suc fuel' \<Rightarrow>
          (case processNextInotifyEvent A evs n firstTry s of
             (Ret evLen, s') \<Rightarrow>
               if 0 < evLen then eventLoop fuel' A (skipBytes evLen evs) (n - evLen) True s'
               else (case secondaryRead A evs n s' of
                       (Ret (evs', n'), s'') \<Rightarrow> eventLoop fuel' A evs' n' False s''
                     | (Exit c, s'') \<Rightarrow> Some (Exit c, s'')
                     | (UExit c, s'') \<Rightarrow> Some (UExit c, s'')
                     | (Abort, s'') \<Rightarrow> Some (Abort, s'')
                     | (Undef, s'') \<Rightarrow> Some (Undef, s''))
           | (Exit c, s') \<Rightarrow> Some (Exit c, s')
           | (UExit c, s') \<Rightarrow> Some (UExit c, s')
           | (Abort, s') \<Rightarrow> Some (Abort, s')
           | (Undef, s') \<Rightarrow> Some (Undef, s')))"

declare eventLoop.simps [simp del]

text \<open>
  The buffer has \<open>INOTIFY_READ_BUF_LEN\<close> bytes; with a larger \<open>-b\<close> argument \<open>read\<close> may write
  beyond it.
\<close>

definition processInotifyEvents :: "nat \<Rightarrow> 'k api \<Rightarrow> 'k dtree \<Rightarrow> (unit res \<times> 'k dtree) option" where
  "processInotifyEvents fuel A s =
     (let cnt = (if 0 < readBufferSize s then readBufferSize s else INOTIFY_READ_BUF_LEN) in
      case read_sys A (inotifyFd s) cnt (kern s) of
        (Inl e, k) \<Rightarrow> Some (Exit EXIT_FAILURE, s\<lparr>kern := k\<rparr>)
      | (Inr evs, k) \<Rightarrow>
          if evs = [] then Some (Exit EXIT_FAILURE, s\<lparr>kern := k\<rparr>)
          else if INOTIFY_READ_BUF_LEN < bufBytes evs then Some (Undef, s\<lparr>kern := k\<rparr>)
          else eventLoop fuel A evs (bufBytes evs) True
                 (s\<lparr>kern := k, inotifyReadCnt := inotifyReadCnt s + 1\<rparr>))"

end
