(* ===== verification/InotifyMain.thy ===== *)
theory InotifyMain
  imports InotifyEvents
begin

text \<open>
  The interactive commands and \<open>main\<close> of \<open>inotify/inotify_dtree.c\<close>. \<open>getopt\<close> is represented
  by the list of the options it finds, \<open>select\<close> by what it reports, and a line typed by the
  user by the bytes that \<open>read\<close> delivers. \<open>fopen_sys f\<close> says whether \<open>fopen(f, "w+")\<close>
  succeeded, \<open>fputs_sys f text\<close> writes text to the file opened last under that name.
\<close>

section \<open>Commands\<close>

text \<open>The loop of \<open>checkAllCachedPathnamesExist\<close>: the numbers of verified and failed entries.\<close>

fun verifyLoop :: "'k api \<Rightarrow> cache \<Rightarrow> nat \<Rightarrow> nat \<Rightarrow> 'k \<Rightarrow> (nat \<times> nat) res \<times> 'k" where
  "verifyLoop A [] cnt failures k = (Ret (cnt, failures), k)"
| "verifyLoop A (e # c) cnt failures k =
     (if 0 \<le> wd e then
        (case lstat_sys A (path e) k of
           (Inl err, k') \<Rightarrow> verifyLoop A c cnt (failures + 1) k'
         | (Inr sb, k') \<Rightarrow>
             if \<not> st_isdir sb then (Exit EXIT_FAILURE, k')
             else verifyLoop A c (cnt + 1) failures k')
      else verifyLoop A c cnt failures k)"

definition checkAllCachedPathnamesExist :: "'k api \<Rightarrow> ('k, nat \<times> nat) act" where
  "checkAllCachedPathnamesExist A s =
     (case verifyLoop A (wlCache s) 0 0 (kern s) of (r, k) \<Rightarrow> (r, s\<lparr>kern := k\<rparr>))"

text \<open>
  \<open>sscanf(line, "%c %s\n", &cmd, arg)\<close> on a nonempty line: the command character, and the
  first word after it if there is one (\<open>ns == 2\<close>).
\<close>

definition parseCommand :: "string \<Rightarrow> char \<times> string option" where
  "parseCommand line =
     (let t = takeWhile (\<lambda>c. \<not> isspace c) (dropWhile isspace (tl line))
      in (hd line, if t = [] then None else Some t))"

text \<open>The command's argument; without one, \<open>arg\<close> is an uninitialised array.\<close>

definition withArg :: "string option \<Rightarrow> (string \<Rightarrow> ('k, 'a) act) \<Rightarrow> ('k, 'a) act" where
  "withArg arg f s = (case arg of None \<Rightarrow> (Undef, s) | Some a \<Rightarrow> f a s)"

definition cacheListing :: "cache \<Rightarrow> string" where
  "cacheListing c = concat (map (\<lambda>e. path e @ [CHR 0x0A]) (filter (\<lambda>e. 0 \<le> wd e) c))"

text \<open>The commands \<open>a\<close>, \<open>z\<close>, \<open>w\<close> and \<open>0\<close>, which act on the cache or on a file.\<close>

definition cmdAdd :: "'k api \<Rightarrow> string option \<Rightarrow> ('k, unit) act" where
  "cmdAdd A arg = withArg arg (\<lambda>a s.
     seq_res (zapSubtree A (inotifyFd s) a) (\<lambda>cnt s. watchSubtree A (inotifyFd s) a s) s)"

definition cmdZap :: "'k api \<Rightarrow> string option \<Rightarrow> ('k, unit) act" where
  "cmdZap A arg = withArg arg (\<lambda>a s.
     seq_res (zapSubtree A (inotifyFd s) a) (\<lambda>cnt s. (Ret (), s)) s)"

text \<open>After a failed \<open>fopen\<close> the code goes on with the null pointer.\<close>

definition cmdWrite :: "'k api \<Rightarrow> string option \<Rightarrow> ('k, unit) act" where
  "cmdWrite A arg = withArg arg (\<lambda>a s.
     case fopen_sys A a (kern s) of
       (True, k) \<Rightarrow> (Ret (), s\<lparr>kern := fputs_sys A a (cacheListing (wlCache s)) k\<rparr>)
     | (False, k) \<Rightarrow> (Undef, s\<lparr>kern := k\<rparr>))"

definition cmdRebuild :: "'k api \<Rightarrow> ('k, unit) act" where
  "cmdRebuild A s =
     seq_res (reinitialize A (-1)) (\<lambda>fd s. (Ret (), s\<lparr>inotifyFd := fd\<rparr>))
       (s\<lparr>kern := close_sys A (inotifyFd s) (kern s)\<rparr>)"

definition cmdVerbose :: "string option \<Rightarrow> ('k, unit) act" where
  "cmdVerbose arg s =
     (Ret (), s\<lparr>verboseMask :=
        (case arg of Some a \<Rightarrow> atoi a | None \<Rightarrow> if verboseMask s = 0 then 1 else 0)\<rparr>)"

text \<open>
  \<open>executeCommand\<close>: \<open>inp\<close> holds the bytes that \<open>read\<close> returned, \<open>[]\<close> for end of file or an
  error. The last byte (the newline) is overwritten with a null byte.
\<close>

definition executeCommand :: "'k api \<Rightarrow> string \<Rightarrow> ('k, unit) act" where
  "executeCommand A inp s =
     (if inp = [] then (Exit EXIT_FAILURE, s)
      else
        let line = takeWhile (\<lambda>c. c \<noteq> CHR 0x00) (butlast inp) in
        if line = [] then (Ret (), s)
        else
          let (cmd, arg) = parseCommand line in
          if cmd = CHR ''a'' then cmdAdd A arg s
          else if cmd = CHR ''c'' \<or> cmd = CHR ''C''
            then seq_res (checkAllCachedPathnamesExist A) (\<lambda>_ s. (Ret (), s)) s
          else if cmd = CHR ''l'' then (Ret (), s)
          else if cmd = CHR ''q'' then (Exit EXIT_SUCCESS, s)
          else if cmd = CHR ''v'' then cmdVerbose arg s
          else if cmd = CHR ''d'' then (Ret (), s\<lparr>dumpCache := \<not> dumpCache s\<rparr>)
          else if cmd = CHR ''x'' then (Ret (), s\<lparr>checkCache := \<not> checkCache s\<rparr>)
          else if cmd = CHR ''w'' then cmdWrite A arg s
          else if cmd = CHR ''z'' then cmdZap A arg s
          else if cmd = CHR ''0'' then cmdRebuild A s
          else (Ret (), s))"

section \<open>main\<close>

text \<open>The \<open>getopt\<close> loop; any other option character ends in \<open>usageError\<close>.\<close>

definition mainOption :: "'k api \<Rightarrow> char \<Rightarrow> string \<Rightarrow> ('k, unit) act" where
  "mainOption A opt optarg s =
     (if opt = CHR ''a'' then (Ret (), s\<lparr>abortOnCacheProblem := True, stopFile := Some optarg\<rparr>)
      else if opt = CHR ''x'' then (Ret (), s\<lparr>checkCache := True\<rparr>)
      else if opt = CHR ''d'' then (Ret (), s\<lparr>dumpCache := True\<rparr>)
      else if opt = CHR ''v'' then (Ret (), s\<lparr>verboseMask := atoi optarg\<rparr>)
      else if opt = CHR ''b'' then (Ret (), s\<lparr>readBufferSize := atoi optarg\<rparr>)
      else if opt = CHR ''l'' then
        (case fopen_sys A optarg (kern s) of
           (True, k) \<Rightarrow> (Ret (), s\<lparr>kern := k, logOpen := True\<rparr>)
         | (False, k) \<Rightarrow> (Exit EXIT_FAILURE, s\<lparr>kern := k\<rparr>))
      else (Exit EXIT_FAILURE, s))"

fun mainOptions :: "'k api \<Rightarrow> (char \<times> string) list \<Rightarrow> ('k, unit) act" where
  "mainOptions A [] s = (Ret (), s)"
| "mainOptions A ((c, a) # os) s = seq_res (mainOption A c a) (\<lambda>_. mainOptions A os) s"

text \<open>The state when \<open>main\<close> is entered: the static variables, and the kernel state.\<close>

definition initialState :: "'k \<Rightarrow> 'k dtree" where
  "initialState k =
     \<lparr>verboseMask = 0, checkCache = False, dumpCache = False, readBufferSize = 0, stopFile = None,
      abortOnCacheProblem = False, logOpen = False, logDump = [], inotifyReadCnt = 0,
      wlCache = [], rootDirPaths = [], ignoreRootDirs = 0, dirCnt = 0, ifd = 0,
      reinitCnt = 0, overflowCnt = 0, inotifyFd = -1, kern = k\<rparr>"

definition mainInit :: "'k api \<Rightarrow> (char \<times> string) list \<Rightarrow> string list \<Rightarrow> ('k, unit) act" where
  "mainInit A opts dirs =
     seq_res (mainOptions A opts) (\<lambda>_ s.
       if dirs = [] then (Exit EXIT_FAILURE, s)
       else seq_res (copyRootDirPaths A dirs) (\<lambda>_.
            seq_res (reinitialize A (-1)) (\<lambda>fd s. (Ret (), s\<lparr>inotifyFd := fd\<rparr>))) s)"

text \<open>
  One iteration of the endless loop. \<open>select\<close> fails, or reports the command line that is
  ready on standard input (if any) and the other descriptors left in the set \<open>rfds\<close>. A
  command may replace \<open>inotifyFd\<close> before it is looked up in that set.
\<close>

datatype selected = SelectError | Selected "string option" "int list"

definition mainStep :: "nat \<Rightarrow> 'k api \<Rightarrow> selected \<Rightarrow> 'k dtree \<Rightarrow> (unit res \<times> 'k dtree) option" where
  "mainStep fuel A sel s =
     (case sel of
        SelectError \<Rightarrow> Some (Exit EXIT_FAILURE, s)
      | Selected cmd rfds \<Rightarrow>
          (case (case cmd of None \<Rightarrow> (Ret (), s) | Some inp \<Rightarrow> executeCommand A inp s) of
             (Ret _, s') \<Rightarrow>
               if inotifyFd s' \<in> set rfds then processInotifyEvents fuel A s' else Some (Ret (), s')
           | r \<Rightarrow> Some r))"

fun mainLoop :: "nat \<Rightarrow> 'k api \<Rightarrow> selected list \<Rightarrow> 'k dtree \<Rightarrow> (unit res \<times> 'k dtree) option" where
  "mainLoop fuel A [] s = Some (Ret (), s)"
| "mainLoop fuel A (x # xs) s =
     (case mainStep fuel A x s of
        Some (Ret _, s') \<Rightarrow> mainLoop fuel A xs s'
      | r \<Rightarrow> r)"

end
