(* ===== verification/InotifyInv.thy ===== *)
theory InotifyInv
  imports InotifyMain
begin

text \<open>
  Invariants of \<open>inotify_dtree\<close>. The locale \<open>dtree_inv\<close> collects what a property of the
  program state must satisfy to be kept by all functions of the program: it is kept by the
  elementary changes they are made of. The functions are treated once, inside the locale. It
  is interpreted for the invariant \<open>tree_inv\<close> (the cache is well formed, and
  \<open>ignoreRootDirs\<close> counts the root pathnames that were removed), and for the supply of
  events, on which the termination of the event loop rests.
\<close>

section \<open>What an invariant has to satisfy\<close>

locale dtree_inv =
  fixes A :: "'k api" and I :: "'k dtree \<Rightarrow> bool"
  assumes I_dirCnt: "I s \<Longrightarrow> I (s\<lparr>dirCnt := n\<rparr>)"
    and I_ifd: "I s \<Longrightarrow> I (s\<lparr>ifd := n\<rparr>)"
    and I_reinitCnt: "I s \<Longrightarrow> I (s\<lparr>reinitCnt := n\<rparr>)"
    and I_overflowCnt: "I s \<Longrightarrow> I (s\<lparr>overflowCnt := n\<rparr>)"
    and I_inotifyFd: "I s \<Longrightarrow> I (s\<lparr>inotifyFd := n\<rparr>)"
    and I_inotifyReadCnt: "I s \<Longrightarrow> I (s\<lparr>inotifyReadCnt := n\<rparr>)"
    and I_logDump: "I s \<Longrightarrow> I (s\<lparr>logDump := x\<rparr>)"
    and I_verboseMask: "I s \<Longrightarrow> I (s\<lparr>verboseMask := n\<rparr>)"
    and I_dumpCache: "I s \<Longrightarrow> I (s\<lparr>dumpCache := b\<rparr>)"
    and I_checkCache: "I s \<Longrightarrow> I (s\<lparr>checkCache := b\<rparr>)"
    and I_lstat: "I s \<Longrightarrow> lstat_sys A p (kern s) = (y, k) \<Longrightarrow> I (s\<lparr>kern := k\<rparr>)"
    and I_init: "I s \<Longrightarrow> inotify_init_sys A (kern s) = (xi, k) \<Longrightarrow> I (s\<lparr>kern := k\<rparr>)"
    and I_add: "I s \<Longrightarrow> inotify_add_watch_sys A fd p m (kern s) = (xi, k) \<Longrightarrow> I (s\<lparr>kern := k\<rparr>)"
    and I_rm: "I s \<Longrightarrow> inotify_rm_watch_sys A fd w (kern s) = (u, k) \<Longrightarrow> I (s\<lparr>kern := k\<rparr>)"
    and I_close: "I s \<Longrightarrow> I (s\<lparr>kern := close_sys A fd (kern s)\<rparr>)"
    and I_creat: "I s \<Longrightarrow> I (s\<lparr>kern := creat_sys A p (kern s)\<rparr>)"
    and I_nftw: "I s \<Longrightarrow> nftw_lib A p (kern s) = (z, k) \<Longrightarrow> I (s\<lparr>kern := k\<rparr>)"
    and I_read: "I s \<Longrightarrow> read_sys A fd l (kern s) = (v, k) \<Longrightarrow> I (s\<lparr>kern := k\<rparr>)"
    and I_fopen: "I s \<Longrightarrow> fopen_sys A p (kern s) = (b, k) \<Longrightarrow> I (s\<lparr>kern := k\<rparr>)"
    and I_fputs: "I s \<Longrightarrow> I (s\<lparr>kern := fputs_sys A p t (kern s)\<rparr>)"
    and I_insert: "I s \<Longrightarrow> inotify_add_watch_sys A fd p m k0 = (Inr w, k1) \<Longrightarrow>
        findWatch (wlCache s) w = None \<Longrightarrow>
        addWatchToCache (realloc_ok A) (heap_junk A) w p (wlCache s) = Some (j, c) \<Longrightarrow>
        I (s\<lparr>wlCache := c\<rparr>)"
    and I_mark: "I s \<Longrightarrow> I (s\<lparr>wlCache := markCacheSlotEmpty j (wlCache s)\<rparr>)"
    and I_free: "I s \<Longrightarrow> I (s\<lparr>wlCache := freeCache\<rparr>)"
    and I_rewrite: "I s \<Longrightarrow> I (s\<lparr>wlCache := rewriteCachedPaths a x b' y' (wlCache s)\<rparr>)"
    and I_zapRoot: "I s \<Longrightarrow> findRootDirPath (rootDirPaths s) p = Some j \<Longrightarrow>
        I (s\<lparr>rootDirPaths := (rootDirPaths s)[j := None], ignoreRootDirs := ignoreRootDirs s + 1\<rparr>)"
begin

section \<open>The functions keep it\<close>

lemma keeps_traverseTree: "keeps I (traverseTree A p d)"
proof (rule keepsI)
  fix s r t
  assume run: "traverseTree A p d s = (r, t)" and inv: "I s"
  show "I t"
  proof (cases d)
    case False
    with run inv show ?thesis by (simp add: traverseTree_def)
  next
    case True
    obtain x k where x: "inotify_add_watch_sys A (ifd s) p
        (watchFlags (rootDirPaths s) p OR IN_ONLYDIR) (kern s) = (x, k)" by force
    have k: "I (s\<lparr>kern := k\<rparr>)" using inv x by (rule I_add)
    then have k1: "I (s\<lparr>kern := k, dirCnt := dirCnt s + 1\<rparr>)"
      using I_dirCnt [of "s\<lparr>kern := k\<rparr>"] by simp
    show ?thesis
    proof (cases x)
      case (Inl e)
      with run True x k show ?thesis by (auto simp: traverseTree_def split: if_splits)
    next
      case (Inr w)
      with run True x k k1 I_insert [OF k1 x [unfolded Inr]] show ?thesis
        by (auto simp: traverseTree_def Let_def split: if_splits option.splits)
    qed
  qed
qed

lemma keeps_nftwCalls: "keeps I (nftwCalls A es)"
proof (induction es)
  case (Cons e es)
  obtain p d where e: "e = (p, d)" by force
  have "nftwCalls A (e # es) = seq_res (traverseTree A p d) (\<lambda>_. nftwCalls A es)"
    by (simp add: e fun_eq_iff)
  with Cons keeps_traverseTree show ?case by (simp add: keeps_seq)
qed (simp add: keeps_def)

lemma keeps_watchDir: "keeps I (watchDir A fd p)"
proof (rule keepsI)
  fix s r t
  assume run: "watchDir A fd p s = (r, t)" and inv: "I s"
  define s1 where "s1 = s\<lparr>dirCnt := 0, ifd := fd\<rparr>"
  have i1: "I s1" using inv I_dirCnt [of s 0] I_ifd [of "s\<lparr>dirCnt := 0\<rparr>" fd] by (simp add: s1_def)
  obtain es failed k where n: "nftw_lib A p (kern s1) = ((es, failed), k)" by (metis surj_pair)
  have "keeps I (seq_res (nftwCalls A es) (\<lambda>_ s. (Ret (dirCnt s), s)))"
    by (intro keeps_seq keeps_nftwCalls keeps_update)
  from keepsD [OF this _ I_nftw [OF i1 n]] run n show "I t"
    by (simp add: watchDir_def s1_def Let_def)
qed

lemma keeps_watchSubtree: "keeps I (watchSubtree A fd p)"
  unfolding watchSubtree_def by (intro keeps_seq keeps_watchDir keeps_Ret)

lemma swap_fields: "s\<lparr>kern := k, wlCache := c\<rparr> = s\<lparr>wlCache := c, kern := k\<rparr>"
  by simp

lemma zapLoop_keeps:
  "zapLoop A fd pn cnt c k = (r, c', k') \<Longrightarrow> I (s\<lparr>wlCache := pre @ c, kern := k\<rparr>) \<Longrightarrow>
     I (s\<lparr>wlCache := pre @ c', kern := k'\<rparr>)"
proof (induction c arbitrary: cnt k r c' k' pre)
  case (Cons e c)
  show ?case
  proof (cases "0 \<le> wd e \<and> underPath pn (path e)")
    case zap: True
    obtain x k1 where x: "inotify_rm_watch_sys A fd (wd e) k = (x, k1)" by force
    have i: "I (s\<lparr>wlCache := pre @ e # c, kern := k1\<rparr>)"
      using I_rm [OF Cons.prems(2)] x by simp
    obtain r1 c1 k2 where rec: "zapLoop A fd pn (cnt + 1) c k1 = (r1, c1, k2)" by (rule prod_cases3)
    have "I (s\<lparr>wlCache := (pre @ [\<lparr>wd = -1, path = []\<rparr>]) @ c, kern := k1\<rparr>)"
      using I_mark [OF i, of "length pre"] by (simp add: markCacheSlotEmpty_def list_update_append swap_fields)
    from Cons.IH [OF rec this] Cons.prems(1) zap x i rec show ?thesis
      by (cases x) auto
  next
    case False
    obtain r1 c1 k2 where rec: "zapLoop A fd pn cnt c k = (r1, c1, k2)" by (rule prod_cases3)
    from Cons.IH [OF rec, of "pre @ [e]"] Cons.prems False rec show ?thesis by auto
  qed
qed simp

lemma keeps_zapSubtree: "keeps I (zapSubtree A fd p)"
proof (rule keepsI)
  fix s r t
  assume run: "zapSubtree A fd p s = (r, t)" and inv: "I s"
  obtain n c k where z: "zapLoop A fd p 0 (wlCache s) (kern s) = (n, c, k)" by (rule prod_cases3)
  from zapLoop_keeps [OF z, where s = s and pre = "[]"] inv run z show "I t"
    by (simp add: zapSubtree_def)
qed

lemma keeps_watchRoots: "keeps I (watchRoots A fd rs)"
proof (induction rs)
  case (Cons r rs)
  show ?case
  proof (cases r)
    case None
    then have "watchRoots A fd (r # rs) = watchRoots A fd rs" by (simp add: fun_eq_iff)
    with Cons show ?thesis by simp
  next
    case (Some p)
    then have "watchRoots A fd (r # rs) = seq_res (watchSubtree A fd p) (\<lambda>_. watchRoots A fd rs)"
      by (simp add: fun_eq_iff)
    with Cons keeps_watchSubtree show ?thesis by (simp add: keeps_seq)
  qed
qed (simp add: keeps_def)

lemma keeps_reinitialize: "keeps I (reinitialize A fd)"
proof (rule keepsI)
  fix s r t
  assume run: "reinitialize A fd s = (r, t)" and inv: "I s"
  define s1 where "s1 = (if 0 \<le> fd
    then s\<lparr>kern := close_sys A fd (kern s), reinitCnt := reinitCnt s + 1\<rparr> else s\<lparr>reinitCnt := 0\<rparr>)"
  have i1: "I s1"
    using I_close [OF inv] I_reinitCnt [OF inv] I_reinitCnt [OF I_close [OF inv]] by (simp add: s1_def)
  obtain x k where x: "inotify_init_sys A (kern s1) = (x, k)" by force
  have "keeps I (seq_res (watchRoots A fd' rs) (\<lambda>_ s. (Ret fd', s)))" for fd' rs
    by (intro keeps_seq keeps_watchRoots keeps_Ret)
  from keepsD [OF this _ I_free [OF I_init [OF i1 x]]] I_init [OF i1 x] run x show "I t"
    by (auto simp: reinitialize_def s1_def [symmetric] Let_def split: sum.splits)
qed

lemma keeps_dumpCacheToLog: "keeps I dumpCacheToLog"
  by (rule keepsI) (auto simp: dumpCacheToLog_def intro: I_logDump split: if_splits)

lemma keeps_createStopFileAndAbort: "keeps I (createStopFileAndAbort A)"
proof -
  have k: "keeps I (seq_res dumpCacheToLog (\<lambda>_ s. (Abort, s)))"
    by (intro keeps_seq keeps_dumpCacheToLog keeps_Abort)
  show ?thesis
    by (rule keepsI)
      (auto simp: createStopFileAndAbort_def intro: I_creat split: option.splits elim!: keepsD [OF k])
qed

lemma keeps_findWatchChecked: "keeps I (findWatchChecked A w)"
  by (rule keepsI)
    (auto simp: findWatchChecked_def split: option.splits if_splits
      elim: keepsD [OF keeps_createStopFileAndAbort])

lemma keeps_zapRootDirPath: "keeps I (zapRootDirPath p)"
  by (rule keepsI)
    (auto simp: zapRootDirPath_def Let_def dest: I_zapRoot split: option.splits if_splits)

lemma keeps_withSlot: "(\<And>j e. keeps I (f j e)) \<Longrightarrow> keeps I (withSlot slot f)"
  by (rule keepsI) (auto simp: withSlot_def split: option.splits if_splits dest: keepsD)

lemma keeps_reinitFd: "keeps I (reinitFd A)"
proof -
  have k: "keeps I (seq_res (reinitialize A fd) (\<lambda>fd s. (Ret (), s\<lparr>inotifyFd := fd\<rparr>)))" for fd
    by (intro keeps_seq keeps_reinitialize keeps_update I_inotifyFd)
  show ?thesis by (rule keepsI) (auto simp: reinitFd_def elim!: keepsD [OF k])
qed

lemma keeps_discardBuffer: "keeps I (discardBuffer A)"
  unfolding discardBuffer_def by (intro keeps_seq keeps_reinitFd keeps_Ret)

lemma keeps_mark: "keeps I (\<lambda>s. (r, s\<lparr>wlCache := markCacheSlotEmpty j (wlCache s)\<rparr>))"
  by (intro keeps_update I_mark)

text \<open>The descriptor that these calls use is read from the state.\<close>

lemma keeps_seq_fd:
  assumes "\<And>fd. keeps I (m fd)" "\<And>a. keeps I (f a)"
  shows "keeps I (\<lambda>s. seq_res (m (inotifyFd s)) f s)"
  using assms keeps_seq [of I "m _" f] by (auto simp: keeps_def)

lemmas keeps_zap = keeps_seq_fd [where m = "\<lambda>fd. zapSubtree A fd p" for p, OF keeps_zapSubtree]
lemmas keeps_watch = keeps_seq_fd [where m = "\<lambda>fd. watchSubtree A fd p" for p, OF keeps_watchSubtree]

lemma keeps_handleCreate: "keeps I (handleCreate A slot ev)"
  unfolding handleCreate_def by (intro keeps_withSlot keeps_if_state keeps_watch keeps_Ret)

lemma keeps_handleDeleteSelf: "keeps I (handleDeleteSelf slot ev)"
  unfolding handleDeleteSelf_def
  by (intro keeps_withSlot keeps_seq keeps_if_state keeps_zapRootDirPath keeps_Ret keeps_mark)

lemma keeps_handleMovedFrom: "keeps I (handleMovedFrom A slot ev rest n first)"
  unfolding handleMovedFrom_def Let_def
  by (intro keeps_withSlot keeps_if_state keeps_seq keeps_findWatchChecked keeps_case_option
      keeps_discardBuffer keeps_update I_rewrite keeps_zap keeps_if keeps_Ret keeps_Undef)

lemma keeps_handleUnmount: "keeps I (handleUnmount slot ev)"
  unfolding handleUnmount_def by (intro keeps_withSlot keeps_mark)

lemma keeps_handleMoveSelf: "keeps I (handleMoveSelf A slot ev)"
  unfolding handleMoveSelf_def
  by (intro keeps_withSlot keeps_if_state keeps_seq keeps_zapRootDirPath keeps_zap keeps_if
      keeps_discardBuffer keeps_Ret)

lemma keeps_handleOverflow: "keeps I (handleOverflow A)"
proof -
  have k: "keeps I (seq_res (reinitFd A) (\<lambda>_ s. (Ret x, s)))" for x
    by (intro keeps_seq keeps_reinitFd keeps_Ret)
  show ?thesis
    by (rule keepsI) (auto simp: handleOverflow_def intro: I_overflowCnt elim!: keepsD [OF k])
qed

lemma keeps_dispatchEvent: "keeps I (dispatchEvent A slot ev rest n first)"
  unfolding dispatchEvent_def Let_def
  by (intro keeps_if keeps_handleCreate keeps_handleDeleteSelf keeps_handleMovedFrom
      keeps_handleOverflow keeps_handleUnmount keeps_handleMoveSelf keeps_Ret)

lemma checkLoop_keeps:
  "checkLoop A sb c n k = (r, k') \<Longrightarrow> I (s\<lparr>kern := k\<rparr>) \<Longrightarrow> I (s\<lparr>kern := k'\<rparr>)"
proof (induction c arbitrary: sb n k)
  case (Cons e c)
  obtain x k1 where x: "lstat_sys A (path e) k = (x, k1)" by force
  from Cons x I_lstat [OF Cons.prems(2), of "path e"] show ?case
    by (auto split: if_splits sum.splits)
qed simp

lemma keeps_checkCacheConsistency: "keeps I (checkCacheConsistency A)"
proof (rule keepsI)
  fix s r t
  assume "checkCacheConsistency A s = (r, t)" "I s"
  then show "I t"
    using checkLoop_keeps [where s = s and k = "kern s"]
    by (auto simp: checkCacheConsistency_def split: prod.splits)
qed

lemma keeps_finishEvent: "keeps I (finishEvent A b)"
  unfolding finishEvent_def
  by (cases b) (auto intro!: keeps_seq keeps_if_state keeps_checkCacheConsistency
      keeps_dumpCacheToLog keeps_Ret)

lemma keeps_processNextInotifyEvent: "keeps I (processNextInotifyEvent A evs n first)"
  unfolding processNextInotifyEvent_def
  by (cases evs) (auto intro!: keeps_seq keeps_if keeps_findWatchChecked keeps_case_option
      keeps_discardBuffer keeps_dispatchEvent keeps_finishEvent keeps_Undef)

lemma keeps_secondaryRead: "keeps I (secondaryRead A evs n)"
proof (rule keepsI)
  fix s r t
  assume run: "secondaryRead A evs n s = (r, t)" and inv: "I s"
  obtain x k where x: "read_sys A (inotifyFd s) (INOTIFY_READ_BUF_LEN - n) (kern s) = (x, k)" by force
  from I_read [OF inv x] I_inotifyReadCnt [OF I_read [OF inv x]] run x show "I t"
    by (auto simp: secondaryRead_def split: sum.splits if_splits)
qed

lemma eventLoop_keeps:
  "eventLoop fuel A evs n first s = Some (r, t) \<Longrightarrow> I s \<Longrightarrow> I t"
proof (induction fuel arbitrary: evs n first s)
  case 0
  then show ?case by (simp add: eventLoop.simps split: if_splits)
next
  case (Suc fuel)
  obtain x s1 where x: "processNextInotifyEvent A evs n first s = (x, s1)" by force
  then have i1: "I s1"
    using keepsD [OF keeps_processNextInotifyEvent] Suc.prems(2) by blast
  obtain y s2 where y: "secondaryRead A evs n s1 = (y, s2)" by force
  then have i2: "I s2"
    using keepsD [OF keeps_secondaryRead] i1 by blast
  show ?case
    using Suc.prems i1 i2 Suc.IH x y
    by (auto simp: eventLoop.simps [of "Suc fuel"] split: if_splits res.splits)
qed

lemma processInotifyEvents_keeps:
  assumes run: "processInotifyEvents fuel A s = Some (r, t)" and inv: "I s"
  shows "I t"
proof -
  obtain x k where x: "read_sys A (inotifyFd s)
      (if 0 < readBufferSize s then readBufferSize s else INOTIFY_READ_BUF_LEN) (kern s) = (x, k)" by force
  from I_read [OF inv x] I_inotifyReadCnt [OF I_read [OF inv x]] run x eventLoop_keeps show ?thesis
    by (fastforce simp: processInotifyEvents_def Let_def split: sum.splits if_splits)
qed

section \<open>Commands and the main loop\<close>

lemma keeps_withArg: "(\<And>a. keeps I (f a)) \<Longrightarrow> keeps I (withArg arg f)"
  by (rule keepsI) (auto simp: withArg_def split: option.splits dest: keepsD)

lemma keeps_cmdAdd: "keeps I (cmdAdd A arg)"
proof -
  have "keeps I (\<lambda>s. watchSubtree A (inotifyFd s) a s)" for a
    using keeps_watchSubtree by (auto simp: keeps_def)
  then show ?thesis unfolding cmdAdd_def by (intro keeps_withArg keeps_zap)
qed

lemma keeps_cmdZap: "keeps I (cmdZap A arg)"
  unfolding cmdZap_def by (intro keeps_withArg keeps_zap keeps_Ret)

lemma keeps_cmdWrite: "keeps I (cmdWrite A arg)"
proof -
  have "keeps I (\<lambda>s. case fopen_sys A a (kern s) of
      (True, k) \<Rightarrow> (Ret (), s\<lparr>kern := fputs_sys A a (cacheListing (wlCache s)) k\<rparr>)
    | (False, k) \<Rightarrow> (Undef, s\<lparr>kern := k\<rparr>))" for a
  proof (rule keepsI)
    fix s :: "'k dtree" and r t
    assume inv: "I s" and run: "(case fopen_sys A a (kern s) of
        (True, k) \<Rightarrow> (Ret (), s\<lparr>kern := fputs_sys A a (cacheListing (wlCache s)) k\<rparr>)
      | (False, k) \<Rightarrow> (Undef, s\<lparr>kern := k\<rparr>)) = (r, t)"
    obtain b k where b: "fopen_sys A a (kern s) = (b, k)" by force
    from I_fopen [OF inv b] I_fputs [OF I_fopen [OF inv b]] run b show "I t"
      by (auto split: bool.splits)
  qed
  then show ?thesis unfolding cmdWrite_def by (intro keeps_withArg)
qed

lemma keeps_cmdRebuild: "keeps I (cmdRebuild A)"
proof -
  have k: "keeps I (seq_res (reinitialize A (-1)) (\<lambda>fd s. (Ret (), s\<lparr>inotifyFd := fd\<rparr>)))"
    by (intro keeps_seq keeps_reinitialize keeps_update I_inotifyFd)
  show ?thesis
    by (rule keepsI) (auto simp: cmdRebuild_def intro: I_close elim!: keepsD [OF k])
qed

lemma keeps_cmdVerbose: "keeps I (cmdVerbose arg)"
  unfolding cmdVerbose_def by (intro keeps_update I_verboseMask)

lemma verifyLoop_keeps:
  "verifyLoop A c n m k = (r, k') \<Longrightarrow> I (s\<lparr>kern := k\<rparr>) \<Longrightarrow> I (s\<lparr>kern := k'\<rparr>)"
proof (induction c arbitrary: n m k)
  case (Cons e c)
  obtain x k1 where x: "lstat_sys A (path e) k = (x, k1)" by force
  from Cons x I_lstat [OF Cons.prems(2), of "path e"] show ?case
    by (auto split: if_splits sum.splits)
qed simp

lemma keeps_checkAll: "keeps I (checkAllCachedPathnamesExist A)"
proof (rule keepsI)
  fix s r t
  assume "checkAllCachedPathnamesExist A s = (r, t)" "I s"
  then show "I t"
    using verifyLoop_keeps [where s = s and k = "kern s"]
    by (auto simp: checkAllCachedPathnamesExist_def split: prod.splits)
qed

lemma keeps_executeCommand: "keeps I (executeCommand A inp)"
proof (rule keepsI)
  fix s r t
  have v: "keeps I (seq_res (checkAllCachedPathnamesExist A) (\<lambda>_ s. (Ret (), s)))"
    by (intro keeps_seq keeps_checkAll keeps_Ret)
  assume "executeCommand A inp s = (r, t)" "I s"
  then show "I t"
    by (auto simp: executeCommand_def Let_def intro: I_dumpCache I_checkCache split: if_splits prod.splits
        elim!: keepsD [OF v] keepsD [OF keeps_cmdAdd] keepsD [OF keeps_cmdZap] keepsD [OF keeps_cmdWrite]
          keepsD [OF keeps_cmdRebuild] keepsD [OF keeps_cmdVerbose])
qed

lemma mainStep_keeps:
  assumes "mainStep fuel A x s = Some (r, t)" "I s"
  shows "I t"
proof (cases x)
  case SelectError
  with assms show ?thesis by (simp add: mainStep_def)
next
  case (Selected cmd rfds)
  define e where "e = (case cmd of None \<Rightarrow> (Ret (), s) | Some inp \<Rightarrow> executeCommand A inp s)"
  obtain r1 s1 where e1: "e = (r1, s1)" by force
  have "I s1"
    using e1 assms(2) keepsD [OF keeps_executeCommand] by (auto simp: e_def split: option.splits)
  with assms(1) Selected e1 processInotifyEvents_keeps show ?thesis
    by (auto simp: mainStep_def e_def [symmetric] split: res.splits if_splits)
qed

lemma mainLoop_keeps: "mainLoop fuel A xs s = Some (r, t) \<Longrightarrow> I s \<Longrightarrow> I t"
proof (induction xs arbitrary: s)
  case (Cons x xs)
  obtain y s1 where "mainStep fuel A x s = Some (y, s1)"
    using Cons.prems(1) by (cases "mainStep fuel A x s") auto
  with Cons mainStep_keeps [of fuel x s] show ?case by (auto split: res.splits)
qed simp

end

section \<open>The cache and the root directories\<close>

definition add_watch_nonneg :: "'k api \<Rightarrow> bool" where
  "add_watch_nonneg A \<longleftrightarrow>
     (\<forall>fd p m k w k'. inotify_add_watch_sys A fd p m k = (Inr w, k') \<longrightarrow> 0 \<le> w)"

definition zapped :: "string option list \<Rightarrow> nat" where
  "zapped roots = length (filter (\<lambda>r. r = None) roots)"

definition tree_inv :: "'k dtree \<Rightarrow> bool" where
  "tree_inv s \<longleftrightarrow> cache_ok (wlCache s) \<and> ignoreRootDirs s = zapped (rootDirPaths s)"

lemma add_watch_nonnegD:
  "add_watch_nonneg A \<Longrightarrow> inotify_add_watch_sys A fd p m k = (Inr w, k') \<Longrightarrow> 0 \<le> w"
  unfolding add_watch_nonneg_def by blast

lemma zapped_update:
  "j < length rs \<Longrightarrow> rs ! j \<noteq> None \<Longrightarrow> zapped (rs[j := None]) = Suc (zapped rs)"
proof (induction rs arbitrary: j)
  case (Cons r rs)
  then show ?case by (cases j) (auto simp: zapped_def)
qed simp

lemma findRootDirPath_Some:
  "findRootDirPath roots p = Some j \<Longrightarrow> j < length roots \<and> roots ! j = Some p"
  using find_slot_Some by (fastforce simp: findRootDirPath_def)

lemma cache_ok_mark: "cache_ok c \<Longrightarrow> cache_ok (markCacheSlotEmpty j c)"
  using markCacheSlotEmpty_spec(1) [of c j]
  by (cases "j < length c") (auto simp: markCacheSlotEmpty_def list_update_beyond)

interpretation tree: dtree_inv A "\<lambda>s. add_watch_nonneg A \<longrightarrow> tree_inv s" for A
proof unfold_locales
  fix s :: "'a dtree" and fd p m k0 w k1 j c
  assume inv: "add_watch_nonneg A \<longrightarrow> tree_inv s"
    and add: "inotify_add_watch_sys A fd p m k0 = (Inr w, k1)"
    and new: "findWatch (wlCache s) w = None"
    and c: "addWatchToCache (realloc_ok A) (heap_junk A) w p (wlCache s) = Some (j, c)"
  show "add_watch_nonneg A \<longrightarrow> tree_inv (s\<lparr>wlCache := c\<rparr>)"
  proof
    assume A: "add_watch_nonneg A"
    from A add have "0 \<le> w" by (rule add_watch_nonnegD)
    with A inv new addWatchToCache_spec(1) [OF _ _ _ c] show "tree_inv (s\<lparr>wlCache := c\<rparr>)"
      by (simp add: tree_inv_def findWatch_None_iff)
  qed
qed (auto simp: tree_inv_def cache_ok_mark freeCache_def cache_ok_rewriteCachedPaths
    zapped_update dest: findRootDirPath_Some)


section \<open>Start of the program\<close>

lemma mainOption_fields:
  assumes "mainOption A c a s = (r, t)"
  shows "wlCache t = wlCache s \<and> rootDirPaths t = rootDirPaths s \<and> ignoreRootDirs t = ignoreRootDirs s"
  using assms by (auto simp: mainOption_def split: if_splits prod.splits bool.splits)

lemma mainOptions_fields:
  "mainOptions A os s = (r, t) \<Longrightarrow>
     wlCache t = wlCache s \<and> rootDirPaths t = rootDirPaths s \<and> ignoreRootDirs t = ignoreRootDirs s"
proof (induction os arbitrary: s)
  case (Cons o1 os)
  obtain c a where "o1 = (c, a)" by force
  with Cons show ?case
    by (auto simp: seq_res_def split: prod.splits res.splits dest!: mainOption_fields)
qed simp

lemma checkRootArgs_fields:
  "checkRootArgs A ps s = (r, t) \<Longrightarrow> \<exists>k. t = s\<lparr>kern := k\<rparr>"
proof (induction A ps s arbitrary: r t rule: checkRootArgs.induct)
  case (1 A s)
  then have "t = s\<lparr>kern := kern s\<rparr>" by simp
  then show ?case by blast
next
  case (2 A p ps s)
  then show ?case by (fastforce split: prod.splits sum.splits if_splits)
qed

text \<open>\<open>distinctObjs\<close>: no two of the root directories are the same file system object.\<close>

definition distinctObjs :: "stat_t list \<Rightarrow> bool" where
  "distinctObjs sts \<longleftrightarrow> distinct (map (\<lambda>sb. (st_ino sb, st_dev sb)) sts)"

lemma list_ex_sameObject:
  "list_ex (sameObject sb) seen \<longleftrightarrow> (st_ino sb, st_dev sb) \<in> (\<lambda>sb. (st_ino sb, st_dev sb)) ` set seen"
  by (auto simp: list_ex_iff sameObject_def)

lemma copyRootArgs_spec:
  assumes "copyRootArgs A seen ps s = (Ret sts, t)" "distinctObjs seen"
  shows "distinctObjs sts \<and> length sts = length seen + length ps \<and>
    rootDirPaths t = rootDirPaths s @ map Some ps \<and> wlCache t = wlCache s"
  using assms
proof (induction A seen ps s rule: copyRootArgs.induct)
  case (1 A seen s)
  then show ?case by simp
next
  case (2 A seen p ps s)
  obtain x k where x: "lstat_sys A p (kern s) = (x, k)" by force
  show ?case
  proof (cases x)
    case (Inl e)
    with "2.prems" x show ?thesis by simp
  next
    case (Inr sb)
    with "2.prems" x have new: "\<not> list_ex (sameObject sb) seen"
      and rec: "copyRootArgs A (seen @ [sb]) ps (s\<lparr>rootDirPaths := rootDirPaths s @ [Some p], kern := k\<rparr>) = (Ret sts, t)"
      by (auto simp: Let_def split: if_splits)
    from new "2.prems"(2) have "distinctObjs (seen @ [sb])"
      by (auto simp: distinctObjs_def list_ex_sameObject)
    with "2.IH" [OF x [symmetric] Inr refl new rec] show ?thesis by simp
  qed
qed

lemma copyRootDirPaths_spec:
  assumes "copyRootDirPaths A argv s = (Ret sts, t)"
  shows "distinctObjs sts \<and> length sts = length argv \<and> rootDirPaths t = map Some argv \<and>
    ignoreRootDirs t = 0 \<and> wlCache t = wlCache s"
proof -
  from assms obtain s1 s2 where c: "checkRootArgs A argv s = (Ret (), s1)"
    and d: "copyRootArgs A [] argv (s1\<lparr>rootDirPaths := []\<rparr>) = (Ret sts, s2)"
    and t: "t = s2\<lparr>ignoreRootDirs := 0\<rparr>"
    by (auto simp: copyRootDirPaths_def elim!: seq_res_RetE)
  from copyRootArgs_spec [OF d] checkRootArgs_fields [OF c] t show ?thesis
    by (auto simp: distinctObjs_def)
qed

lemma zapped_Some [simp]: "zapped (map Some ps) = 0"
  by (simp add: zapped_def comp_def)

lemma mainInit_inv:
  assumes "add_watch_nonneg A" "mainInit A opts dirs (initialState k) = (Ret (), s)"
  shows "tree_inv s"
proof -
  from assms(2) obtain s1 sts s2 fd s3
    where o: "mainOptions A opts (initialState k) = (Ret (), s1)"
      and c: "copyRootDirPaths A dirs s1 = (Ret sts, s2)"
      and r: "reinitialize A (-1) s2 = (Ret fd, s3)" and s: "s = s3\<lparr>inotifyFd := fd\<rparr>"
    by (auto simp: mainInit_def split: if_splits elim!: seq_res_RetE)
  have "tree_inv s2"
    using mainOptions_fields [OF o] copyRootDirPaths_spec [OF c]
    by (simp add: tree_inv_def initialState_def)
  with keepsD [OF tree.keeps_reinitialize r] assms(1) have "tree_inv s3" by blast
  with s show ?thesis by (simp add: tree_inv_def)
qed

section \<open>Supply of events\<close>

text \<open>
  \<open>finite_supply A q\<close>: \<open>q\<close> bounds the number of events that the kernel still delivers. A
  \<open>read\<close> takes the events it returns from that supply, and no call increases it.
\<close>

definition finite_supply :: "'k api \<Rightarrow> ('k \<Rightarrow> nat) \<Rightarrow> bool" where
  "finite_supply A q \<longleftrightarrow>
     (\<forall>p k. q (snd (lstat_sys A p k)) \<le> q k) \<and> (\<forall>k. q (snd (inotify_init_sys A k)) \<le> q k) \<and>
     (\<forall>fd p m k. q (snd (inotify_add_watch_sys A fd p m k)) \<le> q k) \<and>
     (\<forall>fd w k. q (snd (inotify_rm_watch_sys A fd w k)) \<le> q k) \<and>
     (\<forall>fd k. q (close_sys A fd k) \<le> q k) \<and> (\<forall>p k. q (creat_sys A p k) \<le> q k) \<and>
     (\<forall>p k. q (snd (nftw_lib A p k)) \<le> q k) \<and> (\<forall>p k. q (snd (fopen_sys A p k)) \<le> q k) \<and>
     (\<forall>p t k. q (fputs_sys A p t k) \<le> q k) \<and>
     (\<forall>fd n k. q (snd (read_sys A fd n k)) +
        (case fst (read_sys A fd n k) of Inl e \<Rightarrow> 0 | Inr evs \<Rightarrow> length evs) \<le> q k)"

lemma finite_supply_read:
  assumes "finite_supply A q" "read_sys A fd n k = (x, k')"
  shows "q k' \<le> q k" and "x = Inr evs \<Longrightarrow> q k' + length evs \<le> q k"
proof -
  have "q (snd (read_sys A fd n k)) +
      (case fst (read_sys A fd n k) of Inl e \<Rightarrow> 0 | Inr evs \<Rightarrow> length evs) \<le> q k"
    using assms(1) unfolding finite_supply_def by meson
  with assms(2) show "q k' \<le> q k" and "x = Inr evs \<Longrightarrow> q k' + length evs \<le> q k"
    by (auto split: sum.splits)
qed

lemma finite_supply_calls:
  assumes "finite_supply A q"
  shows "lstat_sys A p k = (x1, k') \<Longrightarrow> q k' \<le> q k"
    and "inotify_init_sys A k = (x2, k') \<Longrightarrow> q k' \<le> q k"
    and "inotify_add_watch_sys A fd p m k = (x2, k') \<Longrightarrow> q k' \<le> q k"
    and "inotify_rm_watch_sys A fd w k = (x3, k') \<Longrightarrow> q k' \<le> q k"
    and "q (close_sys A fd k) \<le> q k" and "q (creat_sys A p k) \<le> q k"
    and "nftw_lib A p k = (x4, k') \<Longrightarrow> q k' \<le> q k"
    and "fopen_sys A p k = (x5, k') \<Longrightarrow> q k' \<le> q k"
    and "q (fputs_sys A p txt k) \<le> q k"
  using assms unfolding finite_supply_def by (metis snd_conv)+

interpretation events: dtree_inv A "\<lambda>s. finite_supply A q \<longrightarrow> q (kern s) \<le> n" for A q n
  by (unfold_locales; clarsimp; (drule (1) finite_supply_calls finite_supply_read(1))?;
      (blast intro: order_trans finite_supply_calls)?)

end
