(* ===== verification/InotifyProps.thy ===== *)
theory InotifyProps
  imports InotifyInv
begin

unbundle bit_operations_syntax

text \<open>
  Properties of \<open>inotify_dtree\<close>: the invariant of every run, what the operations do to the
  map from watch descriptors to pathnames, the renaming of subtrees, the termination of the
  event loop, the treatment of the root directories, and the consistency check. The record
  \<open>demo_api\<close> is a small kernel on which the witnesses run.
\<close>

section \<open>A concrete kernel\<close>

text \<open>
  The kernel state is the next watch descriptor. Every pathname is a directory with one
  subdirectory \<open>x\<close>, every call succeeds, and reads are interrupted.
\<close>

definition demo_api :: "nat api" where
  "demo_api =
     \<lparr>lstat_sys = (\<lambda>p k. (Inr \<lparr>st_isdir = True, st_ino = length p, st_dev = 0\<rparr>, k)),
      inotify_init_sys = (\<lambda>k. (Inr 3, k)),
      inotify_add_watch_sys = (\<lambda>fd p m k. (Inr (int k), k + 1)),
      inotify_rm_watch_sys = (\<lambda>fd w k. (Inr (), k)),
      close_sys = (\<lambda>fd k. k), creat_sys = (\<lambda>p k. k),
      nftw_lib = (\<lambda>p k. (([(p, True), (p @ ''/x'', True), (p @ ''/f'', False)], False), k)),
      read_sys = (\<lambda>fd n k. (Inl EINTR, k)),
      fopen_sys = (\<lambda>p k. (True, k)), fputs_sys = (\<lambda>p t k. k),
      realloc_ok = (\<lambda>n. True), heap_junk = \<lparr>wd = 7, path = ''junk''\<rparr>,
      stack_junk = \<lparr>st_isdir = True, st_ino = 0, st_dev = 0\<rparr>\<rparr>"

definition demo_cache :: cache where
  "demo_cache = [\<lparr>wd = 1, path = ''/t''\<rparr>, \<lparr>wd = -1, path = []\<rparr>, \<lparr>wd = 2, path = ''/t/b''\<rparr>,
     \<lparr>wd = 3, path = ''/t/bc''\<rparr>, \<lparr>wd = 4, path = ''/t/b/d''\<rparr>]"

definition demo_state :: "nat dtree" where
  "demo_state = (initialState 5)\<lparr>wlCache := demo_cache, rootDirPaths := [Some ''/t'']\<rparr>"

lemma demo_add_watch_nonneg: "add_watch_nonneg demo_api"
  by (simp add: add_watch_nonneg_def demo_api_def)

lemma demo_cache_ok: "cache_ok demo_cache"
  by (simp add: cache_ok_def demo_cache_def used_def slot_ok_def)

section \<open>The invariant of every run\<close>

text \<open>
  C1. From the start of \<open>main\<close>, after any options, root directories, user commands and
  batches of events, and whatever the kernel answers: no two used cache slots have the same
  watch descriptor, free slots are empty, and \<open>ignoreRootDirs\<close> is the number of root
  pathnames that are no longer monitored.
\<close>

theorem main_invariant:
  assumes "add_watch_nonneg A"
    and "mainInit A opts dirs (initialState k) = (Ret (), s)"
    and "mainLoop fuel A xs s = Some (r, t)"
  shows "cache_ok (wlCache t) \<and> ignoreRootDirs t = zapped (rootDirPaths t)"
proof -
  have "add_watch_nonneg A \<longrightarrow> tree_inv s" using mainInit_inv [OF assms(1,2)] by simp
  from tree.mainLoop_keeps [OF assms(3) this] assms(1) show ?thesis by (simp add: tree_inv_def)
qed

theorem main_invariant_witness:
  "\<exists>s t. mainInit demo_api [] [''/a''] (initialState 1) = (Ret (), s) \<and>
     mainLoop 5 demo_api [Selected (Some ''a /b '') []] s = Some (Ret (), t) \<and> cache_ok (wlCache t)"
proof -
  obtain s where s: "mainInit demo_api [] [''/a''] (initialState 1) = (Ret (), s)"
    and l: "case mainLoop 5 demo_api [Selected (Some ''a /b '') []] s of
        None \<Rightarrow> False | Some (r, t) \<Rightarrow> r = Ret ()"
  proof -
    define m where "m = mainInit demo_api [] [''/a''] (initialState 1)"
    have "fst m = Ret () \<and> (case mainLoop 5 demo_api [Selected (Some ''a /b '') []] (snd m) of
        None \<Rightarrow> False | Some (r, t) \<Rightarrow> r = Ret ())"
      unfolding m_def by code_simp
    with that [of "snd m"] show ?thesis by (simp add: m_def prod_eq_iff)
  qed
  then obtain t where t: "mainLoop 5 demo_api [Selected (Some ''a /b '') []] s = Some (Ret (), t)"
    by (auto split: option.splits)
  from s t main_invariant [OF demo_add_watch_nonneg s t] show ?thesis by blast
qed

section \<open>Removing a subtree\<close>

lemma zapLoop_spec:
  assumes "zapLoop A fd pn cnt c k = (r, c', k')" "0 \<le> cnt" "r \<noteq> -1"
  shows "used c' = filter (\<lambda>e. \<not> underPath pn (path e)) (used c) \<and>
    r = cnt + int (length (used c)) - int (length (used c'))"
  using assms
proof (induction c arbitrary: cnt k r c' k')
  case (Cons e c)
  show ?case
  proof (cases "0 \<le> wd e \<and> underPath pn (path e)")
    case zap: True
    obtain x k1 where x: "inotify_rm_watch_sys A fd (wd e) k = (x, k1)" by force
    obtain r1 c1 k2 where rec: "zapLoop A fd pn (cnt + 1) c k1 = (r1, c1, k2)" by (rule prod_cases3)
    have *: "r = r1 \<and> c' = \<lparr>wd = -1, path = []\<rparr> # c1"
      using Cons.prems zap x rec by (cases x) auto
    with Cons.IH [OF rec] Cons.prems(2,3)
    have "used c1 = filter (\<lambda>e. \<not> underPath pn (path e)) (used c) \<and>
        r1 = cnt + 1 + int (length (used c)) - int (length (used c1))" by simp
    with * zap show ?thesis by (simp add: used_Cons)
  next
    case False
    obtain r1 c1 k2 where rec: "zapLoop A fd pn cnt c k = (r1, c1, k2)" by (rule prod_cases3)
    with Cons.prems False have "r = r1 \<and> c' = e # c1" by auto
    with Cons.IH [OF rec] Cons.prems False show ?thesis by (auto simp: used_Cons)
  qed
qed simp

text \<open>
  C2. \<open>zapSubtree(path)\<close>, when it does not report a failed \<open>inotify_rm_watch\<close>: exactly the
  cached directories that are \<open>path\<close> itself or lie below it (\<open>path/...\<close>, not merely names
  that begin with the same characters) are gone from the cache, every other watch is kept
  with its pathname, and the returned number is the number of entries removed.
\<close>

theorem zapSubtree_removes_subtree:
  assumes "cache_ok (wlCache s)" and "zapSubtree A fd p s = (Ret cnt, t)" and "cnt \<noteq> -1"
  shows "watchMap (wlCache t) w =
      (case watchMap (wlCache s) w of
         None \<Rightarrow> None
       | Some q \<Rightarrow> if q = p \<or> (\<exists>rest. q = p @ ''/'' @ rest) then None else Some q)
    \<and> cnt = int (usedSlots (wlCache s)) - int (usedSlots (wlCache t))"
proof -
  obtain k where z: "zapLoop A fd p 0 (wlCache s) (kern s) = (cnt, wlCache t, k)"
    using assms(2) by (auto simp: zapSubtree_def split: prod.splits)
  have u: "used (wlCache t) = filter (\<lambda>e. \<not> underPath p (path e)) (used (wlCache s))"
    and n: "cnt = int (length (used (wlCache s))) - int (length (used (wlCache t)))"
    using zapLoop_spec [OF z] assms(3) by auto
  have d: "distinct (map wd (used (wlCache s)))" using assms(1) by (simp add: cache_ok_def)
  have "map_of (map (\<lambda>e. (wd e, path e)) (filter (\<lambda>e. \<not> underPath p (path e)) es)) w =
      (case map_of (map (\<lambda>e. (wd e, path e)) es) w of
         None \<Rightarrow> None | Some q \<Rightarrow> if underPath p q then None else Some q)"
    if "distinct (map wd es)" for es
    using that by (induction es) (auto simp: map_of_eq_None_iff split: option.splits)
  from this [OF d] u n show ?thesis
    by (auto simp: watchMap_def underPath_iff usedSlots_used split: option.splits)
qed

theorem zapSubtree_removes_subtree_witness:
  "\<exists>t. zapSubtree demo_api 3 ''/t/b'' demo_state = (Ret 2, t) \<and>
     watchMap (wlCache t) 3 = Some ''/t/bc'' \<and> watchMap (wlCache t) 4 = None"
proof -
  have ok: "cache_ok (wlCache demo_state)"
    using demo_cache_ok by (simp add: demo_state_def)
  define m where "m = zapSubtree demo_api 3 ''/t/b'' demo_state"
  have "fst m = Ret 2" unfolding m_def by code_simp
  then have z: "zapSubtree demo_api 3 ''/t/b'' demo_state = (Ret 2, snd m)"
    by (simp add: m_def prod_eq_iff)
  have w: "watchMap (wlCache demo_state) 3 = Some ''/t/bc''"
    "watchMap (wlCache demo_state) 4 = Some ''/t/b/d''" by code_simp+
  from z w zapSubtree_removes_subtree [OF ok z, of 3] zapSubtree_removes_subtree [OF ok z, of 4]
  show ?thesis by (auto intro!: exI [of _ "snd m"])
qed

section \<open>Watching a tree\<close>













end
