(* ===== verification/InotifyEventProps.thy ===== *)
theory InotifyEventProps
  imports InotifyProps
begin

unbundle bit_operations_syntax

text \<open>
  Properties of the event handler and of the event loop of \<open>inotify_dtree\<close>, of the root
  directories, and of the consistency check.
\<close>

section \<open>Renaming inside the tree\<close>

lemma findWatchChecked_known:
  assumes "cache_ok (wlCache s)" "0 \<le> w" "watchMap (wlCache s) w = Some a"
  obtains j where "findWatchChecked A w s = (Ret (Some j), s)" "j < length (wlCache s)" "path (wlCache s ! j) = a"
proof -
  from assms(2,3) obtain j where j: "findWatch (wlCache s) w = Some j"
    using findWatch_None_iff [of w "wlCache s"] by auto
  with findWatch_Some [OF assms(1,2) j] assms(3) that show thesis by (simp add: findWatchChecked_def)
qed

lemma finishEvent_quiet:
  "\<not> checkCache s \<Longrightarrow> \<not> dumpCache s \<Longrightarrow> finishEvent A (Inr n) s = (Ret n, s)"
  by (simp add: finishEvent_def seq_res_def)

text \<open>
  C33. A directory renamed inside the monitored trees: for an \<open>IN_MOVED_FROM\<close> event that is
  followed in the buffer by the \<open>IN_MOVED_TO\<close> event with the same cookie, one call of
  \<open>processNextInotifyEvent\<close> consumes both events, changes no watch (no call is made to the
  kernel), and rewrites the cached pathname of the directory and of everything below it, and
  of nothing else.
\<close>

theorem rename_event_pair:
  assumes ok: "cache_ok (wlCache s)" and quiet: "\<not> checkCache s" "\<not> dumpCache s"
    and m: "ev_mask ev = IN_MOVED_FROM OR IN_ISDIR" "ev_mask nx AND IN_MOVED_TO \<noteq> 0"
    and ck: "ev_cookie nx = ev_cookie ev"
    and a: "0 \<le> ev_wd ev" "watchMap (wlCache s) (ev_wd ev) = Some a"
    and b: "0 \<le> ev_wd nx" "watchMap (wlCache s) (ev_wd nx) = Some b"
    and sh: "short (a @ ''/'' @ ev_name ev) (b @ ''/'' @ ev_name nx) (wlCache s)"
  shows "\<exists>t. processNextInotifyEvent A (ev # nx # rest) (bufBytes (ev # nx # rest)) firstTry s =
        (Ret (evSize ev + evSize nx), t) \<and> kern t = kern s \<and> cache_ok (wlCache t) \<and>
      watchMap (wlCache t) =
        (\<lambda>w. map_option (renamePath (a @ ''/'' @ ev_name ev) (b @ ''/'' @ ev_name nx))
          (watchMap (wlCache s) w))"
proof -
  obtain i where i: "findWatchChecked A (ev_wd ev) s = (Ret (Some i), s)" "i < length (wlCache s)"
      "path (wlCache s ! i) = a"
    using findWatchChecked_known [OF ok a] by blast
  obtain j where j: "findWatchChecked A (ev_wd nx) s = (Ret (Some j), s)" "j < length (wlCache s)"
      "path (wlCache s ! j) = b"
    using findWatchChecked_known [OF ok b] by blast
  define c where "c = rewriteCachedPaths a (ev_name ev) b (ev_name nx) (wlCache s)"
  have c: "c = map (rewriteEntry (a @ ''/'' @ ev_name ev) (b @ ''/'' @ ev_name nx)) (wlCache s)"
    unfolding c_def using sh by (intro rewriteCachedPaths_eq) (auto simp: short_def)
  have "bufBytes rest \<ge> 0" by (auto simp: bufBytes_def evSize_def intro!: sum_list_nonneg)
  then have more: "evSize ev < bufBytes (ev # nx # rest)" by (simp add: bufBytes_def evSize_def)
  have "handleMovedFrom A (Some i) ev (nx # rest) (bufBytes (ev # nx # rest)) firstTry s =
      (Ret (Inr (evSize ev + evSize nx)), s\<lparr>wlCache := c\<rparr>)"
    using i j m(2) ck more by (simp add: handleMovedFrom_def withSlot_def seq_res_def Let_def c_def)
  then have "dispatchEvent A (Some i) ev (nx # rest) (bufBytes (ev # nx # rest)) firstTry s =
      (Ret (Inr (evSize ev + evSize nx)), s\<lparr>wlCache := c\<rparr>)"
    by (simp add: dispatchEvent_def m(1))
  then have "processNextInotifyEvent A (ev # nx # rest) (bufBytes (ev # nx # rest)) firstTry s =
      (Ret (evSize ev + evSize nx), s\<lparr>wlCache := c\<rparr>)"
    using i(1) a(1) quiet
    by (auto simp: processNextInotifyEvent_def seq_res_def m(1) finishEvent_quiet)
  moreover have "watchMap c = (\<lambda>w. map_option (renamePath (a @ ''/'' @ ev_name ev) (b @ ''/'' @ ev_name nx))
      (watchMap (wlCache s) w))" "cache_ok c"
    unfolding c using wc.look_ren [OF sh] wc.invar_ren [OF ok] by auto
  ultimately show ?thesis by simp
qed

theorem rename_event_pair_witness:
  "\<exists>t. processNextInotifyEvent demo_api
       [\<lparr>ev_wd = 1, ev_mask = IN_MOVED_FROM OR IN_ISDIR, ev_cookie = 9, ev_len = 16, ev_name = ''b''\<rparr>,
        \<lparr>ev_wd = 3, ev_mask = IN_MOVED_TO OR IN_ISDIR, ev_cookie = 9, ev_len = 16, ev_name = ''e''\<rparr>]
       64 True demo_state = (Ret 64, t) \<and> watchMap (wlCache t) 4 = Some ''/t/bc/e/d''"
proof -
  let ?ev = "\<lparr>ev_wd = 1, ev_mask = IN_MOVED_FROM OR IN_ISDIR, ev_cookie = 9, ev_len = 16, ev_name = ''b''\<rparr>"
  let ?nx = "\<lparr>ev_wd = 3, ev_mask = IN_MOVED_TO OR IN_ISDIR, ev_cookie = 9, ev_len = 16, ev_name = ''e''\<rparr>"
  have w: "watchMap (wlCache demo_state) 1 = Some ''/t''" "watchMap (wlCache demo_state) 3 = Some ''/t/bc''"
    "watchMap (wlCache demo_state) 4 = Some ''/t/b/d''" by code_simp+
  have sh: "short (''/t'' @ ''/'' @ ev_name ?ev) (''/t/bc'' @ ''/'' @ ev_name ?nx) (wlCache demo_state)"
    by (simp add: short_def demo_state_def demo_cache_def renamePath_def underPath_def strncmp0_def)
  have q: "\<not> checkCache demo_state" "\<not> dumpCache demo_state" and ok: "cache_ok (wlCache demo_state)"
    using demo_cache_ok by (simp_all add: demo_state_def initialState_def)
  have r: "renamePath ''/t/b'' ''/t/bc/e'' ''/t/b/d'' = ''/t/bc/e/d''" by code_simp
  show ?thesis
    using rename_event_pair [OF ok q, of ?ev ?nx "''/t''" "''/t/bc''" demo_api "[]" True] w sh r
    by (auto simp: bufBytes_def evSize_def)
qed

text \<open>
  Renaming a directory and renaming it back restores the map of watches, provided that no
  cached directory was at the new place before and no pathname outgrows \<open>PATH_MAX\<close>.
\<close>

theorem rewriteCachedPaths_inverse:
  assumes "length (a @ ''/'' @ x) < PATH_MAX" "length (b @ ''/'' @ y) < PATH_MAX"
    and "short (a @ ''/'' @ x) (b @ ''/'' @ y) c"
    and "short (b @ ''/'' @ y) (a @ ''/'' @ x) (rewriteCachedPaths a x b y c)"
    and "\<forall>s \<in> ran (watchMap c). \<not> underPath (b @ ''/'' @ y) s"
  shows "watchMap (rewriteCachedPaths b y a x (rewriteCachedPaths a x b y c)) = watchMap c"
  using wc.ren_inverse [OF assms(3) _ assms(5)] assms(4)
  by (simp only: rewriteCachedPaths_eq [OF assms(1,2)] rewriteCachedPaths_eq [OF assms(2,1)])

theorem rewriteCachedPaths_inverse_witness:
  "watchMap (rewriteCachedPaths ''/t'' ''n'' ''/t'' ''b''
     (rewriteCachedPaths ''/t'' ''b'' ''/t'' ''n'' demo_cache)) = watchMap demo_cache"
proof -
  have c: "rewriteCachedPaths ''/t'' ''b'' ''/t'' ''n'' demo_cache =
      [\<lparr>wd = 1, path = ''/t''\<rparr>, \<lparr>wd = -1, path = []\<rparr>, \<lparr>wd = 2, path = ''/t/n''\<rparr>,
       \<lparr>wd = 3, path = ''/t/bc''\<rparr>, \<lparr>wd = 4, path = ''/t/n/d''\<rparr>]"
    by code_simp
  have s1: "short (''/t'' @ ''/'' @ ''b'') (''/t'' @ ''/'' @ ''n'') demo_cache"
    by (simp add: short_def demo_cache_def renamePath_def underPath_def strncmp0_def)
  have s2: "short (''/t'' @ ''/'' @ ''n'') (''/t'' @ ''/'' @ ''b'')
      (rewriteCachedPaths ''/t'' ''b'' ''/t'' ''n'' demo_cache)"
    unfolding c by (simp add: short_def renamePath_def underPath_def strncmp0_def)
  have "\<forall>s \<in> ran (watchMap demo_cache). \<not> underPath (''/t'' @ ''/'' @ ''n'') s"
    by (auto simp: demo_cache_def watchMap_def used_def ran_def underPath_def strncmp0_def split: if_splits)
  from rewriteCachedPaths_inverse [OF _ _ s1 s2 this] show ?thesis by simp
qed

section \<open>Progress of the event loop\<close>

text \<open>Every value that a branch hands on is positive, except the request for another read.\<close>

definition progress :: "bool \<Rightarrow> branch \<Rightarrow> bool" where
  "progress defer b = (case b of Inl r \<Rightarrow> 0 < r \<or> (defer \<and> r = -1) | Inr n \<Rightarrow> 0 < n)"

lemma evSize_pos [simp]: "0 < evSize ev"
  by (simp add: evSize_def)

lemma gives_withSlot: "(\<And>j e. gives P (f j e)) \<Longrightarrow> gives P (withSlot slot f)"
  by (auto simp: gives_def withSlot_def split: option.splits if_splits)

lemma gives_discardBuffer: "gives (progress d) (discardBuffer A)"
  unfolding discardBuffer_def by (intro gives_seq_any gives_Ret) (simp add: progress_def)

lemma gives_seq_state: "(\<And>a. gives P (f a)) \<Longrightarrow> gives P (\<lambda>s. seq_res (m s) f s)"
  by (auto simp: gives_def elim!: seq_res_RetE)

lemma gives_dispatchEvent:
  assumes "d \<longleftrightarrow> firstTry \<and> \<not> evSize ev < bufSize"
  shows "gives (progress d) (dispatchEvent A slot ev rest bufSize firstTry)"
proof -
  have mf: "gives (progress d) (handleMovedFrom A slot ev rest bufSize firstTry)"
  proof (cases "evSize ev < bufSize")
    case True
    then show ?thesis unfolding handleMovedFrom_def Let_def
      by (simp cong: if_cong)
        (auto intro!: gives_withSlot gives_if_state gives_seq_any gives_seq_state gives_case_option
          gives_discardBuffer gives_Ret gives_Undef gives_if simp: progress_def add_pos_pos)
  next
    case False
    with assms show ?thesis unfolding handleMovedFrom_def Let_def
      by (cases firstTry) (auto intro!: gives_withSlot gives_seq_any gives_seq_state gives_discardBuffer
          gives_Ret gives_if simp: progress_def)
  qed
  have "gives (progress d) (handleCreate A slot ev)" "gives (progress d) (handleUnmount slot ev)"
    unfolding handleCreate_def handleUnmount_def
    by (intro gives_withSlot gives_if_state gives_seq_state gives_Ret; simp add: progress_def)+
  moreover have "gives (progress d) (handleDeleteSelf slot ev)" "gives (progress d) (handleOverflow A)"
    unfolding handleDeleteSelf_def handleOverflow_def
    by (intro gives_withSlot gives_seq_state gives_Ret; simp add: progress_def)
      (auto simp: gives_def progress_def elim!: seq_res_RetE)
  moreover have "gives (progress d) (handleMoveSelf A slot ev)"
    unfolding handleMoveSelf_def
    by (intro gives_withSlot gives_if_state gives_seq_any gives_seq_state gives_if gives_discardBuffer gives_Ret)
      (simp_all add: progress_def)
  ultimately show ?thesis
    using mf unfolding dispatchEvent_def Let_def
    by (auto intro!: gives_Ret simp: progress_def)
qed

lemma finishEvent_value:
  "finishEvent A b s = (Ret v, t) \<Longrightarrow> v = (case b of Inl r \<Rightarrow> r | Inr n \<Rightarrow> n)"
  by (auto simp: finishEvent_def split: sum.splits elim!: seq_res_RetE)

text \<open>
  \<open>processNextInotifyEvent\<close> always consumes at least one event, with one exception: it
  asks for another \<open>read\<close> (it returns \<open>-1\<close>) only for the last event of the buffer and only
  on the first try. So a hanging \<open>IN_MOVED_FROM\<close> event delays the program by at most one
  extra \<open>read\<close>.
\<close>

theorem processNext_progress:
  assumes "processNextInotifyEvent A (ev # rest) bufSize firstTry s = (Ret v, t)"
  shows "0 < v \<or> (v = -1 \<and> firstTry \<and> bufSize \<le> evSize ev)"
proof -
  let ?d = "firstTry \<and> \<not> evSize ev < bufSize"
  have g: "gives (progress ?d)
      (if ev_wd ev \<noteq> -1 \<and> ev_mask ev AND IN_IGNORED = 0
       then seq_res (findWatchChecked A (ev_wd ev)) (\<lambda>r. case r of
                None \<Rightarrow> discardBuffer A
              | Some slot \<Rightarrow> dispatchEvent A (Some slot) ev rest bufSize firstTry)
       else dispatchEvent A None ev rest bufSize firstTry)"
    by (intro gives_if gives_seq_any gives_case_option gives_discardBuffer gives_dispatchEvent refl)
  from assms obtain b s1 where "progress ?d b" "finishEvent A b s1 = (Ret v, t)"
    unfolding processNextInotifyEvent_def list.case
    by (elim seq_res_RetE) (auto dest!: givesD [OF g])
  then show ?thesis
    by (auto simp: progress_def dest!: finishEvent_value split: sum.splits)
qed

theorem processNext_progress_witness:
  "\<exists>t. processNextInotifyEvent demo_api
     [\<lparr>ev_wd = 1, ev_mask = IN_MOVED_FROM OR IN_ISDIR, ev_cookie = 9, ev_len = 16, ev_name = ''b''\<rparr>]
     32 True demo_state = (Ret (-1), t) \<and> (32::int) \<le> 32"
proof -
  define m where "m = processNextInotifyEvent demo_api
     [\<lparr>ev_wd = 1, ev_mask = IN_MOVED_FROM OR IN_ISDIR, ev_cookie = 9, ev_len = 16, ev_name = ''b''\<rparr>]
     32 True demo_state"
  have "fst m = Ret (-1)" unfolding m_def by code_simp
  then have "processNextInotifyEvent demo_api
     [\<lparr>ev_wd = 1, ev_mask = IN_MOVED_FROM OR IN_ISDIR, ev_cookie = 9, ev_len = 16, ev_name = ''b''\<rparr>]
     32 True demo_state = (Ret (-1), snd m)"
    by (simp add: m_def prod_eq_iff)
  with processNext_progress [OF this] show ?thesis by (auto simp: evSize_def)
qed

section \<open>Termination of the event loop\<close>







section \<open>Root directories\<close>

text \<open>
  \<open>copyRootDirPaths\<close> returns only if the arguments name pairwise different file system
  objects, also when the same directory is given under two names; the pathnames are then
  stored as they were given and none is ignored.
\<close>

theorem copyRootDirPaths_no_duplicates:
  assumes "copyRootDirPaths A argv s = (Ret sts, t)"
  shows "distinct (map (\<lambda>sb. (st_ino sb, st_dev sb)) sts) \<and> length sts = length argv \<and>
    rootDirPaths t = map Some argv \<and> ignoreRootDirs t = 0"
  using copyRootDirPaths_spec [OF assms] by (simp add: distinctObjs_def)

theorem copyRootDirPaths_no_duplicates_witness:
  "\<exists>sts t. copyRootDirPaths demo_api [''/a'', ''/bb''] demo_state = (Ret sts, t) \<and> length sts = 2"
proof -
  define m where "m = copyRootDirPaths demo_api [''/a'', ''/bb''] demo_state"
  have "returned (fst m)" unfolding m_def by code_simp
  then obtain sts where "copyRootDirPaths demo_api [''/a'', ''/bb''] demo_state = (Ret sts, snd m)"
    using returned_Ret [of m] unfolding m_def by blast
  with copyRootDirPaths_no_duplicates [OF this] show ?thesis
    by (intro exI [of _ sts] exI [of _ "snd m"]) simp
qed

lemma zapped_all: "zapped rs = length rs \<longleftrightarrow> list_all (\<lambda>r. r = None) rs"
proof (induction rs)
  case (Cons r rs)
  have "length (filter (\<lambda>r. r = None) rs) \<noteq> Suc (length rs)"
    using length_filter_le [of "\<lambda>r. r = None" rs] by linarith
  with Cons show ?case by (auto simp: zapped_def)
qed (simp add: zapped_def)

text \<open>
  When a root directory is no longer monitored, the program ends (successfully) exactly
  if no root pathname is left, and never because of a pathname that is still in the list;
  the other root pathnames stay.
\<close>

theorem zapRootDirPath_last:
  assumes "tree_inv s" and "isRootDirPath (rootDirPaths s) p"
  shows "fst (zapRootDirPath p s) =
      (if list_all (\<lambda>r. r = None) (rootDirPaths (snd (zapRootDirPath p s)))
       then Exit EXIT_SUCCESS else Ret ()) \<and>
    (\<forall>q. q \<noteq> p \<longrightarrow> isRootDirPath (rootDirPaths (snd (zapRootDirPath p s))) q =
                  isRootDirPath (rootDirPaths s) q)"
proof -
  from assms(2) obtain j where j: "findRootDirPath (rootDirPaths s) p = Some j"
    by (auto simp: isRootDirPath_def)
  note jp = findRootDirPath_Some [OF j]
  let ?rs = "(rootDirPaths s)[j := None]"
  have "ignoreRootDirs s + 1 = zapped ?rs"
    using assms(1) jp zapped_update [of j "rootDirPaths s"] by (simp add: tree_inv_def)
  moreover have "isRootDirPath ?rs q = isRootDirPath (rootDirPaths s) q" if "q \<noteq> p" for q
  proof -
    have "Some q \<in> set ?rs \<longleftrightarrow> Some q \<in> set (rootDirPaths s)"
      using jp that by (metis length_list_update in_set_conv_nth nth_list_update_eq nth_list_update_neq
          option.inject option.distinct(1))
    then show ?thesis by (auto simp: isRootDirPath_def findRootDirPath_def find_slot_None)
  qed
  ultimately show ?thesis
    using j by (auto simp: zapRootDirPath_def Let_def zapped_all [symmetric])
qed

theorem zapRootDirPath_last_witness:
  "tree_inv demo_state \<and> fst (zapRootDirPath ''/t'' demo_state) = Exit EXIT_SUCCESS"
proof -
  have h: "tree_inv demo_state" "isRootDirPath (rootDirPaths demo_state) ''/t''"
    using demo_cache_ok
    by (simp_all add: tree_inv_def demo_state_def initialState_def zapped_def isRootDirPath_def
        findRootDirPath_def)
  have "rootDirPaths (snd (zapRootDirPath ''/t'' demo_state)) = [None]" by code_simp
  with h zapRootDirPath_last [OF h] show ?thesis by simp
qed

section \<open>The consistency check\<close>

lemma checkLoop_full:
  assumes "\<And>p. \<exists>sb. \<forall>k. lstat_sys A p k = (Inr sb, k)"
  shows "\<forall>e\<in>set c. 0 \<le> wd e \<Longrightarrow> checkLoop A sb c n k = (Ret n, k)"
proof (induction c arbitrary: sb)
  case (Cons e c)
  obtain sb' where "\<forall>k. lstat_sys A (path e) k = (Inr sb', k)" using assms by blast
  with Cons show ?case by simp
qed simp

lemma verifyLoop_nondir:
  assumes "\<And>p. \<exists>sb. \<forall>k. lstat_sys A p k = (Inr sb, k)"
    and "lstat_sys A (path e) k = (Inr sb0, k)" "\<not> st_isdir sb0" "0 \<le> wd e"
  shows "e \<in> set c \<Longrightarrow> verifyLoop A c n m k = (Exit EXIT_FAILURE, k)"
proof (induction c arbitrary: n)
  case (Cons e' c)
  obtain sb' where "\<forall>k. lstat_sys A (path e') k = (Inr sb', k)" using assms(1) by blast
  with Cons assms(2-4) show ?case by auto
qed simp

text \<open>
  The comment on \<open>checkCacheConsistency\<close> says that it checks that the cached pathnames
  refer to directories. It does not: because the type test is attached to the wrong \<open>if\<close>,
  a cache without free slots passes whatever its pathnames refer to, while
  \<open>checkAllCachedPathnamesExist\<close>, the \<open>c\<close> command, ends the process if one of them is not a
  directory.
\<close>

theorem check_misses_nondirectories:
  assumes "\<And>p. \<exists>sb. \<forall>k. lstat_sys A p k = (Inr sb, k)"
    and "\<forall>e\<in>set (wlCache s). 0 \<le> wd e"
    and "e \<in> set (wlCache s)" "lstat_sys A (path e) (kern s) = (Inr sb0, kern s)" "\<not> st_isdir sb0"
  shows "checkCacheConsistency A s = (Ret 0, s) \<and>
    fst (checkAllCachedPathnamesExist A s) = Exit EXIT_FAILURE"
  using checkLoop_full [OF assms(1,2)] verifyLoop_nondir [OF assms(1,4,5) _ assms(3)] assms(2,3)
  by (simp add: checkCacheConsistency_def checkAllCachedPathnamesExist_def)

text \<open>A kernel in which every pathname is a plain file.\<close>

definition files_api :: "nat api" where
  "files_api = demo_api\<lparr>lstat_sys := (\<lambda>p k. (Inr \<lparr>st_isdir = False, st_ino = 1, st_dev = 0\<rparr>, k))\<rparr>"

theorem check_misses_nondirectories_witness:
  "checkCacheConsistency files_api (demo_state\<lparr>wlCache := [\<lparr>wd = 1, path = ''/f''\<rparr>]\<rparr>) =
     (Ret 0, demo_state\<lparr>wlCache := [\<lparr>wd = 1, path = ''/f''\<rparr>]\<rparr>)"
proof -
  let ?s = "demo_state\<lparr>wlCache := [\<lparr>wd = 1, path = ''/f''\<rparr>]\<rparr>"
  have l: "lstat_sys files_api p k = (Inr \<lparr>st_isdir = False, st_ino = 1, st_dev = 0\<rparr>, k)" for p k
    by (simp add: files_api_def)
  have h1: "\<And>p. \<exists>sb. \<forall>k. lstat_sys files_api p k = (Inr sb, k)" by (simp add: l)
  have h2: "\<forall>e\<in>set (wlCache ?s). 0 \<le> wd e" by simp
  have h3: "\<lparr>wd = 1, path = ''/f''\<rparr> \<in> set (wlCache ?s)" by simp
  from check_misses_nondirectories [OF h1 h2 h3 l] show ?thesis by simp
qed

end
