(* ===== verification/StreamIO.thy ===== *)
theory StreamIO
  imports Prelude
begin

text \<open>
  Reading lines and blocks from a descriptor: \<open>readLine\<close> (\<open>sockets/read_line.c\<close>),
  \<open>readLineBuf\<close> (\<open>sockets/read_line_buf.c\<close>), \<open>readn\<close> and \<open>writen\<close> (\<open>sockets/rdwrn.c\<close>).

  A descriptor open for reading is the bytes that the other end still delivers and a
  schedule: one element per \<open>read\<close> call, which either fails with an error number (\<open>EINTR\<close>
  for an interruption by a signal handler) or delivers at most a given number of bytes (at
  least one while there are bytes). When the schedule is used up, the call blocks: the model
  returns \<open>None\<close>. A descriptor open for writing is the bytes written so far and a schedule
  of the same kind. All theorems hold for every schedule they do not exclude.
\<close>

section \<open>Descriptors\<close>

datatype io_event = Fail errno | Give nat

record rdesc =
  avail :: string
  rsched :: "io_event list"

record wdesc =
  written :: string
  wsched :: "io_event list"

text \<open>\<open>read(fd, buf, n)\<close>: the bytes read; no bytes is end of file (or \<open>n = 0\<close>).\<close>

definition read_fd :: "nat \<Rightarrow> rdesc \<Rightarrow> ((errno + string) \<times> rdesc) option" where
  "read_fd n f =
     (case rsched f of
        [] \<Rightarrow> None
      | Fail e # es \<Rightarrow> Some (Inl e, f\<lparr>rsched := es\<rparr>)
      | Give k # es \<Rightarrow>
          let m = min n (max 1 k) in
          Some (Inr (take m (avail f)), f\<lparr>avail := drop m (avail f), rsched := es\<rparr>))"

text \<open>\<open>write(fd, buf, strlen)\<close>: the number of bytes accepted, which may be 0.\<close>

definition write_fd :: "string \<Rightarrow> wdesc \<Rightarrow> ((errno + nat) \<times> wdesc) option" where
  "write_fd buf f =
     (case wsched f of
        [] \<Rightarrow> None
      | Fail e # es \<Rightarrow> Some (Inl e, f\<lparr>wsched := es\<rparr>)
      | Give k # es \<Rightarrow>
          let m = min k (length buf) in
          Some (Inr m, f\<lparr>written := written f @ take m buf, wsched := es\<rparr>))"

lemma read_fd_sched: "read_fd n f = Some (x, f') \<Longrightarrow> length (rsched f') < length (rsched f)"
  by (auto simp: read_fd_def Let_def split: list.splits io_event.splits)

lemma write_fd_sched: "write_fd b f = Some (x, f') \<Longrightarrow> length (wsched f') < length (wsched f)"
  by (auto simp: write_fd_def Let_def split: list.splits io_event.splits)

section \<open>readLine\<close>

abbreviation (input) NEWLINE :: char where "NEWLINE \<equiv> CHR 0x0A"

text \<open>
  The loop of \<open>readLine\<close>. \<open>out\<close> holds the bytes stored so far, so \<open>totRead\<close> is its length.
  The result is the return value (\<open>Inl errno\<close> for \<open>-1\<close>), the bytes in the caller's buffer,
  and the descriptor.
\<close>

function readLineLoop :: "nat \<Rightarrow> string \<Rightarrow> rdesc \<Rightarrow> ((errno + nat) \<times> string \<times> rdesc) option" where
  "readLineLoop n out f =
     (case read_fd 1 f of
        None \<Rightarrow> None
      | Some (Inl e, f') \<Rightarrow>
          if e = EINTR then readLineLoop n out f' else Some (Inl e, out, f')
      | Some (Inr [], f') \<Rightarrow>
          if length out = 0 then Some (Inr 0, out, f')
          else Some (Inr (length out), out @ [CHR 0x00], f')
      | Some (Inr (ch # _), f') \<Rightarrow>
          let out' = (if length out < n - 1 then out @ [ch] else out) in
          if ch = NEWLINE then Some (Inr (length out'), out' @ [CHR 0x00], f')
          else readLineLoop n out' f')"
  by pat_completeness auto
termination
  by (relation "measure (\<lambda>(n, out, f). length (rsched f))") (auto dest: read_fd_sched)

declare readLineLoop.simps [simp del]

text \<open>\<open>buffer\<close> says whether the pointer argument is not \<open>NULL\<close>.\<close>

definition readLine :: "nat \<Rightarrow> bool \<Rightarrow> rdesc \<Rightarrow> ((errno + nat) \<times> string \<times> rdesc) option" where
  "readLine n buffer f =
     (if n = 0 \<or> \<not> buffer then Some (Inl EINVAL, [], f) else readLineLoop n [] f)"

section \<open>readLineBuf\<close>

abbreviation (input) RL_MAX_BUF :: nat where "RL_MAX_BUF \<equiv> 10"

text \<open>
  \<open>struct ReadLineBuf\<close>: \<open>rl_buf\<close> holds the bytes of the last \<open>read\<close>, \<open>rl_next\<close> the index of
  the next unread one, \<open>rl_len\<close> the number of bytes (\<open>-1\<close> after an error).
\<close>

record rlbuf =
  rl_fd :: rdesc
  rl_buf :: string
  rl_next :: nat
  rl_len :: int

definition readLineBufInit :: "rdesc \<Rightarrow> rlbuf \<Rightarrow> rlbuf" where
  "readLineBufInit f rl = rl\<lparr>rl_fd := f, rl_len := 0, rl_next := 0\<rparr>"

text \<open>
  The refill at the top of the loop: \<open>None\<close> is a blocked \<open>read\<close>; otherwise an error number,
  or whether end of file was found.
\<close>

definition refill :: "rlbuf \<Rightarrow> ((errno + bool) \<times> rlbuf) option" where
  "refill rl =
     (if int (rl_next rl) < rl_len rl then Some (Inr False, rl)
      else case read_fd RL_MAX_BUF (rl_fd rl) of
        None \<Rightarrow> None
      | Some (Inl e, f') \<Rightarrow> Some (Inl e, rl\<lparr>rl_fd := f', rl_len := -1\<rparr>)
      | Some (Inr bs, f') \<Rightarrow>
          if bs = [] then Some (Inr True, rl\<lparr>rl_fd := f', rl_len := 0\<rparr>)
          else Some (Inr False, rl\<lparr>rl_fd := f', rl_buf := bs @ drop (length bs) (rl_buf rl),
                                   rl_len := int (length bs), rl_next := 0\<rparr>))"

text \<open>
  The bytes not yet handed to a caller: those left in \<open>rl_buf\<close>, then those of the
  descriptor. Every iteration takes one byte from them or one element of the schedule.
\<close>

definition rl_pending :: "rlbuf \<Rightarrow> string" where
  "rl_pending rl = drop (rl_next rl) (take (nat (rl_len rl)) (rl_buf rl)) @ avail (rl_fd rl)"

definition rl_ok :: "rlbuf \<Rightarrow> bool" where
  "rl_ok rl \<longleftrightarrow> rl_len rl \<le> int (length (rl_buf rl))"

function readLineBufLoop :: "nat \<Rightarrow> string \<Rightarrow> rlbuf \<Rightarrow> ((errno + nat) \<times> string \<times> rlbuf) option" where
  "readLineBufLoop n out rl =
     (case refill rl of
        None \<Rightarrow> None
      | Some (Inl e, rl') \<Rightarrow> Some (Inl e, out, rl')
      | Some (Inr True, rl') \<Rightarrow> Some (Inr (length out), out, rl')
      | Some (Inr False, rl') \<Rightarrow>
          let c = rl_buf rl' ! rl_next rl';
              rl'' = rl'\<lparr>rl_next := rl_next rl' + 1\<rparr>;
              out' = (if length out < n then out @ [c] else out)
          in if c = NEWLINE then Some (Inr (length out'), out', rl'')
             else readLineBufLoop n out' rl'')"
  by pat_completeness auto
termination
  by (relation "measures [\<lambda>(n, out, rl). length (rsched (rl_fd rl)),
        \<lambda>(n, out, rl). nat (rl_len rl) - rl_next rl]")
    (auto simp: refill_def dest!: read_fd_sched split: if_splits option.splits sum.splits)

declare readLineBufLoop.simps [simp del]

definition readLineBuf :: "rlbuf \<Rightarrow> bool \<Rightarrow> nat \<Rightarrow> ((errno + nat) \<times> string \<times> rlbuf) option" where
  "readLineBuf rl buffer n =
     (if n = 0 \<or> \<not> buffer then Some (Inl EINVAL, [], rl) else readLineBufLoop n [] rl)"

section \<open>readn and writen\<close>

text \<open>\<open>out\<close> holds the bytes read so far; \<open>totRead\<close> is its length.\<close>

function readnLoop :: "nat \<Rightarrow> string \<Rightarrow> rdesc \<Rightarrow> ((errno + nat) \<times> string \<times> rdesc) option" where
  "readnLoop n out f =
     (if length out < n then
        (case read_fd (n - length out) f of
           None \<Rightarrow> None
         | Some (Inr [], f') \<Rightarrow> Some (Inr (length out), out, f')
         | Some (Inl e, f') \<Rightarrow> if e = EINTR then readnLoop n out f' else Some (Inl e, out, f')
         | Some (Inr bs, f') \<Rightarrow> readnLoop n (out @ bs) f')
      else Some (Inr (length out), out, f))"
  by pat_completeness auto
termination
  by (relation "measure (\<lambda>(n, out, f). length (rsched f))") (auto dest: read_fd_sched)

declare readnLoop.simps [simp del]

definition readn :: "nat \<Rightarrow> rdesc \<Rightarrow> ((errno + nat) \<times> string \<times> rdesc) option" where
  "readn n f = readnLoop n [] f"

text \<open>
  \<open>buf\<close> holds the bytes still to be written. A return value of \<open>-1\<close> is \<open>Inl (Some errno)\<close>
  after a failed \<open>write\<close> and \<open>Inl None\<close> after a \<open>write\<close> that accepted nothing (\<open>errno\<close> is
  then whatever it was before).
\<close>

function writenLoop :: "nat \<Rightarrow> string \<Rightarrow> wdesc \<Rightarrow> ((errno option + nat) \<times> wdesc) option" where
  "writenLoop tot buf f =
     (if buf \<noteq> [] then
        (case write_fd buf f of
           None \<Rightarrow> None
         | Some (Inl e, f') \<Rightarrow> if e = EINTR then writenLoop tot buf f' else Some (Inl (Some e), f')
         | Some (Inr 0, f') \<Rightarrow> Some (Inl None, f')
         | Some (Inr m, f') \<Rightarrow> writenLoop (tot + m) (drop m buf) f')
      else Some (Inr tot, f))"
  by pat_completeness auto
termination
  by (relation "measure (\<lambda>(tot, buf, f). length (wsched f))") (auto dest: write_fd_sched)

declare writenLoop.simps [simp del]

definition writen :: "string \<Rightarrow> wdesc \<Rightarrow> ((errno option + nat) \<times> wdesc) option" where
  "writen buf f = writenLoop 0 buf f"

end
