(* ===== verification/StreamProps.thy ===== *)
theory StreamProps
  imports StreamIO
begin

text \<open>
  What the reading functions deliver, for every schedule of partial transfers and
  interruptions. The locale \<open>line_reader\<close> is the contract of a function that reads one line;
  \<open>readLine\<close> and \<open>readLineBuf\<close> both satisfy it, so a client that reads line after line gets
  the same lines from either.
\<close>

section \<open>Lines of a stream\<close>

fun lineOf :: "string \<Rightarrow> string" where
  "lineOf [] = []"
| "lineOf (c # cs) = (if c = NEWLINE then [c] else c # lineOf cs)"

fun restOf :: "string \<Rightarrow> string" where
  "restOf [] = []"
| "restOf (c # cs) = (if c = NEWLINE then cs else restOf cs)"

lemma lineOf_restOf: "lineOf d @ restOf d = d"
  by (induction d) auto

text \<open>The first \<open>k\<close> lines, and what is left after them.\<close>

fun firstLines :: "nat \<Rightarrow> string \<Rightarrow> string list" where
  "firstLines 0 d = []"
| "firstLines (Suc k) d = lineOf d # firstLines k (restOf d)"

lemma firstLines_concat: "\<exists>r. concat (firstLines k d) @ r = d"
proof (induction k arbitrary: d)
  case (Suc k)
  then obtain r where "concat (firstLines k (restOf d)) @ r = restOf d" by blast
  then show ?case using lineOf_restOf [of d] by (intro exI [of _ r]) (metis append_assoc concat.simps(2) firstLines.simps(2))
qed simp

text \<open>Schedules: the only errors are interruptions, and how many calls transfer data.\<close>

definition only_eintr :: "io_event list \<Rightarrow> bool" where
  "only_eintr es \<longleftrightarrow> (\<forall>e. Fail e \<in> set es \<longrightarrow> e = EINTR)"

definition transfers :: "io_event list \<Rightarrow> nat" where
  "transfers es = length (filter (\<lambda>e. case e of Fail _ \<Rightarrow> False | Give _ \<Rightarrow> True) es)"

lemma only_eintr_Cons [simp]:
  "only_eintr (Fail e # es) \<longleftrightarrow> e = EINTR \<and> only_eintr es" "only_eintr (Give k # es) \<longleftrightarrow> only_eintr es"
  by (auto simp: only_eintr_def)

lemma transfers_Cons [simp]:
  "transfers [] = 0" "transfers (Fail e # es) = transfers es" "transfers (Give k # es) = Suc (transfers es)"
  by (simp_all add: transfers_def)

text \<open>Storing a byte only while there is room keeps the first \<open>n\<close> bytes of the line.\<close>

lemma take_snoc_or_full:
  assumes "length out \<le> (n::nat)"
  shows "take n ((if length out < n then out @ [c] else out) @ l) = take n (out @ c # l)"
    and "length (if length out < n then out @ [c] else out) \<le> n"
  using assms by (auto simp: take_Cons' Suc_diff_Suc)

section \<open>readLine\<close>

lemma read_fd_1:
  "read_fd (Suc 0) f = (case rsched f of [] \<Rightarrow> None
     | Fail e # es \<Rightarrow> Some (Inl e, f\<lparr>rsched := es\<rparr>)
     | Give k # es \<Rightarrow> (case avail f of
         [] \<Rightarrow> Some (Inr [], f\<lparr>rsched := es\<rparr>)
       | c # cs \<Rightarrow> Some (Inr [c], f\<lparr>avail := cs, rsched := es\<rparr>)))"
  by (auto simp: read_fd_def Let_def min_def max_def split: list.splits io_event.splits)

lemma readLineLoop_unfold:
  "readLineLoop n out f =
     (case rsched f of
        [] \<Rightarrow> None
      | Fail e # es \<Rightarrow> if e = EINTR then readLineLoop n out (f\<lparr>rsched := es\<rparr>) else Some (Inl e, out, f\<lparr>rsched := es\<rparr>)
      | Give k # es \<Rightarrow> (case avail f of
          [] \<Rightarrow> Some (Inr (length out), if out = [] then [] else out @ [CHR 0x00], f\<lparr>rsched := es\<rparr>)
        | c # cs \<Rightarrow>
            let out' = (if length out < n - 1 then out @ [c] else out) in
            if c = NEWLINE then Some (Inr (length out'), out' @ [CHR 0x00], f\<lparr>avail := cs, rsched := es\<rparr>)
            else readLineLoop n out' (f\<lparr>avail := cs, rsched := es\<rparr>)))"
  by (subst readLineLoop.simps) (auto simp: read_fd_1 Let_def split: list.splits io_event.splits)

lemma readLineLoop_sound:
  assumes "readLineLoop n out f = Some (Inr k, buf, f')" "length out \<le> n - 1"
  shows "k = length (take (n - 1) (out @ lineOf (avail f))) \<and> avail f' = restOf (avail f) \<and>
    take k buf = take (n - 1) (out @ lineOf (avail f)) \<and> length buf \<le> n - 1 + 1"
  using assms
proof (induction "rsched f" arbitrary: out f)
  case Nil
  then show ?case by (simp add: readLineLoop_unfold [of n out f])
next
  case (Cons x es)
  note s = \<open>x # es = rsched f\<close> [symmetric] and r = Cons.prems(1) and len = Cons.prems(2)
    and IH = Cons.hyps(1)
  note un = readLineLoop_unfold [of n out f]
  show ?case
  proof (cases x)
    case (Fail e)
    with r s un have "readLineLoop n out (f\<lparr>rsched := es\<rparr>) = Some (Inr k, buf, f')"
      by (simp split: if_splits)
    from IH [OF _ this len] show ?thesis by (auto simp del: take_append length_take length_append)
  next
    case (Give m)
    show ?thesis
    proof (cases "avail f")
      case Nil
      with r Give s un len show ?thesis by (auto split: if_splits)
    next
      case (Cons c cs)
      let ?out = "if length out < n - 1 then out @ [c] else out"
      note t = take_snoc_or_full [OF len, of c]
      show ?thesis
      proof (cases "c = NEWLINE")
        case True
        with r s un Cons Give have "k = length ?out" "buf = ?out @ [CHR 0x00]" "avail f' = cs"
          by (auto simp: Let_def)
        moreover have "take (n - 1) (out @ lineOf (avail f)) = ?out"
          using t(1) [of "[]", symmetric] t(2) Cons True by (simp only: lineOf.simps refl if_True append_Nil2 take_all)
        ultimately show ?thesis using t(2) Cons True by simp
      next
        case False
        with r s un Cons Give
        have "readLineLoop n ?out (f\<lparr>avail := cs, rsched := es\<rparr>) = Some (Inr k, buf, f')"
          by (simp add: Let_def)
        from IH [OF _ this t(2)] Cons False show ?thesis
          unfolding t(1) by (auto simp del: take_append length_take length_append)
      qed
    qed
  qed
qed

lemma readLineLoop_returns:
  "only_eintr (rsched f) \<Longrightarrow> length (lineOf (avail f)) < transfers (rsched f) \<Longrightarrow>
     \<exists>k buf f'. readLineLoop n out f = Some (Inr k, buf, f')"
proof (induction "rsched f" arbitrary: out f)
  case Nil
  from Nil(1) [symmetric] Nil.prems show ?case by simp
next
  case (Cons x es)
  note s = \<open>x # es = rsched f\<close> [symmetric]
  note un = readLineLoop_unfold [of n out f]
  show ?case
  proof (cases x)
    case (Fail e)
    with Cons.hyps(1) [of "f\<lparr>rsched := es\<rparr>" out] Cons.prems s un show ?thesis by simp
  next
    case (Give m)
    with Cons.hyps(1) [of "f\<lparr>avail := tl (avail f), rsched := es\<rparr>"] Cons.prems s un show ?thesis
      by (cases "avail f") (auto simp: Let_def split: if_splits)
  qed
qed

text \<open>
  C3. \<open>readLine(fd, buffer, n)\<close> returns, however the bytes arrive and however often \<open>read\<close> is
  interrupted, as soon as enough calls deliver data: the buffer then holds the first
  \<open>n - 1\<close> bytes of the line (with its newline if that fits), the return value is their
  number, the rest of the line is discarded, and the next byte to be read is the first one
  of the following line.
\<close>

theorem readLine_reads_one_line:
  assumes "0 < n" and "only_eintr (rsched f)" and "length (lineOf (avail f)) < transfers (rsched f)"
  shows "\<exists>buf f'. readLine n True f = Some (Inr (min (n - 1) (length (lineOf (avail f)))), buf, f') \<and>
      take (min (n - 1) (length (lineOf (avail f)))) buf = take (n - 1) (lineOf (avail f)) \<and>
      avail f' = restOf (avail f)"
proof -
  obtain k buf f' where r: "readLineLoop n [] f = Some (Inr k, buf, f')"
    using readLineLoop_returns [OF assms(2,3)] by blast
  from readLineLoop_sound [OF r] assms(1) r show ?thesis
    by (auto simp: readLine_def min.commute)
qed

theorem readLine_reads_one_line_witness:
  "\<exists>buf f'. readLine 4 True \<lparr>avail = ''hello'' @ [NEWLINE] @ ''x'',
       rsched = [Give 1, Fail EINTR] @ replicate 6 (Give 3)\<rparr> = Some (Inr 3, buf, f') \<and> avail f' = ''x''"
proof -
  let ?f = "\<lparr>avail = ''hello'' @ [NEWLINE] @ ''x'', rsched = [Give 1, Fail EINTR] @ replicate 6 (Give 3)\<rparr>"
  have "only_eintr (rsched ?f)" "length (lineOf (avail ?f)) < transfers (rsched ?f)"
    by (simp_all add: only_eintr_def transfers_def)
  from readLine_reads_one_line [OF _ this, of 4] show ?thesis by (auto simp: min_def)
qed

text \<open>
  No schedule makes \<open>readLine\<close> write beyond the caller's buffer: at most \<open>n\<close> bytes are
  stored, the terminating null byte included.
\<close>

theorem readLine_no_overflow:
  assumes "readLine n True f = Some (Inr k, buf, f')"
  shows "length buf \<le> n \<and> k < n"
  using assms readLineLoop_sound [of n "[]" f k buf f']
  by (auto simp: readLine_def split: if_splits)

theorem readLine_no_overflow_witness:
  "\<exists>buf f'. readLine 2 True \<lparr>avail = ''ab'', rsched = replicate 3 (Give 9)\<rparr> = Some (Inr 1, buf, f') \<and>
     length buf \<le> 2"
proof -
  define m where "m = readLine 2 True \<lparr>avail = ''ab'', rsched = replicate 3 (Give 9)\<rparr>"
  have "map_option fst m = Some (Inr 1)" unfolding m_def by code_simp
  then obtain buf f' where h: "readLine 2 True \<lparr>avail = ''ab'', rsched = replicate 3 (Give 9)\<rparr> = Some (Inr 1, buf, f')"
    unfolding m_def by auto
  with readLine_no_overflow [OF h] show ?thesis by blast
qed

section \<open>readLineBuf\<close>

lemma rl_pending_step:
  assumes "int (rl_next rl) < rl_len rl" "rl_ok rl"
  shows "rl_pending rl = rl_buf rl ! rl_next rl # rl_pending (rl\<lparr>rl_next := rl_next rl + 1\<rparr>)"
proof -
  let ?t = "take (nat (rl_len rl)) (rl_buf rl)"
  have "rl_next rl < length ?t" using assms by (simp add: rl_ok_def)
  from Cons_nth_drop_Suc [OF this] show ?thesis
    using assms by (simp add: rl_pending_def)
qed

lemma read_fd_pos:
  "read_fd n f = Some (Inr bs, f') \<Longrightarrow> 0 < n \<Longrightarrow> avail f = bs @ avail f' \<and> (bs = [] \<longleftrightarrow> avail f = [])"
  by (auto simp: read_fd_def Let_def split: list.splits io_event.splits)

lemma refill_eof: "refill rl = Some (Inr True, rl') \<Longrightarrow> rl_pending rl = [] \<and> rl_pending rl' = [] \<and> (rl_ok rl \<longrightarrow> rl_ok rl')"
  by (auto simp: refill_def rl_pending_def rl_ok_def dest!: read_fd_pos [of 10]
      split: if_splits option.splits sum.splits)

lemma refill_more:
  assumes "refill rl = Some (Inr False, rl')" "rl_ok rl"
  shows "rl_pending rl' = rl_pending rl \<and> int (rl_next rl') < rl_len rl' \<and> rl_ok rl'"
  using assms
  by (auto simp: refill_def rl_pending_def rl_ok_def dest!: read_fd_pos [of 10]
      split: if_splits option.splits sum.splits)

lemma readLineBufLoop_sound:
  assumes "readLineBufLoop n out rl = Some (Inr k, buf, rl')" "length out \<le> n" "rl_ok rl"
  shows "buf = take n (out @ lineOf (rl_pending rl)) \<and> k = length buf \<and>
    rl_pending rl' = restOf (rl_pending rl) \<and> rl_ok rl'"
  using assms
proof (induction n out rl rule: readLineBufLoop.induct)
  case (1 n out rl)
  note un = readLineBufLoop.simps [of n out rl]
  from "1.prems"(1) obtain b rl1 where r: "refill rl = Some (Inr b, rl1)"
    unfolding un by (auto split: option.splits sum.splits)
  show ?case
  proof (cases b)
    case True
    with "1.prems" r refill_eof [of rl rl1] show ?thesis unfolding un by auto
  next
    case False
    let ?c = "rl_buf rl1 ! rl_next rl1" and ?rl = "rl1\<lparr>rl_next := rl_next rl1 + 1\<rparr>"
    let ?out = "if length out < n then out @ [?c] else out"
    have m: "rl_pending rl = ?c # rl_pending ?rl" "rl_ok ?rl"
      using refill_more [of rl rl1] rl_pending_step [of rl1] r False "1.prems"(3) by (auto simp: rl_ok_def)
    note t = take_snoc_or_full [OF "1.prems"(2), of ?c]
    show ?thesis
    proof (cases "?c = NEWLINE")
      case True
      with "1.prems"(1) r False have "buf = ?out" "k = length ?out" "rl' = ?rl"
        unfolding un by (auto simp: Let_def)
      moreover have "take n (out @ lineOf (rl_pending rl)) = ?out"
        using t(1) [of "[]", symmetric] t(2) m True by (simp only: lineOf.simps refl if_True append_Nil2 take_all)
      ultimately show ?thesis using m True by simp
    next
      case nl: False
      with "1.prems"(1) r False have "readLineBufLoop n ?out ?rl = Some (Inr k, buf, rl')"
        unfolding un by (simp add: Let_def)
      from "1.IH" [OF r refl refl _ refl refl refl nl this t(2) m(2)] False nl show ?thesis
        unfolding m t(1) by (auto simp del: take_append)
    qed
  qed
qed

section \<open>The contract of a line reader\<close>

text \<open>
  A line reader hands out the first \<open>cap n\<close> bytes of the next line and leaves the bytes
  after it pending.
\<close>

locale line_reader =
  fixes rd :: "nat \<Rightarrow> 's \<Rightarrow> (string \<times> 's) option"
    and pend :: "'s \<Rightarrow> string" and ok :: "'s \<Rightarrow> bool" and cap :: "nat \<Rightarrow> nat"
  assumes rd_line: "rd n s = Some (l, s') \<Longrightarrow> ok s \<Longrightarrow> l = take (cap n) (lineOf (pend s))"
    and rd_rest: "rd n s = Some (l, s') \<Longrightarrow> ok s \<Longrightarrow> pend s' = restOf (pend s)"
    and rd_ok: "rd n s = Some (l, s') \<Longrightarrow> ok s \<Longrightarrow> ok s'"

text \<open>A client that reads \<open>k\<close> lines into a buffer of \<open>n\<close> bytes, one after the other.\<close>

fun readLines :: "(nat \<Rightarrow> 's \<Rightarrow> (string \<times> 's) option) \<Rightarrow> nat \<Rightarrow> nat \<Rightarrow> 's \<Rightarrow> (string list \<times> 's) option" where
  "readLines rd n 0 s = Some ([], s)"
| "readLines rd n (Suc k) s =
     (case rd n s of
        None \<Rightarrow> None
      | Some (l, s') \<Rightarrow> (case readLines rd n k s' of None \<Rightarrow> None | Some (ls, t) \<Rightarrow> Some (l # ls, t)))"

context line_reader begin

lemma readLines_firstLines:
  assumes "readLines rd n k s = Some (ls, t)" "ok s"
  shows "ls = map (take (cap n)) (firstLines k (pend s))"
  using assms
proof (induction k arbitrary: s ls)
  case (Suc k)
  then obtain l s' ls' where "rd n s = Some (l, s')" "readLines rd n k s' = Some (ls', t)" "ls = l # ls'"
    by (auto split: option.splits)
  with Suc.IH [of s' ls'] Suc.prems(2) rd_line rd_rest rd_ok show ?case by auto
qed simp

end

text \<open>The bytes that the two functions hand out when they do not fail.\<close>

definition readLineText :: "nat \<Rightarrow> rdesc \<Rightarrow> (string \<times> rdesc) option" where
  "readLineText n f =
     (case readLine n True f of Some (Inr k, buf, f') \<Rightarrow> Some (take k buf, f') | _ \<Rightarrow> None)"

definition readLineBufText :: "nat \<Rightarrow> rlbuf \<Rightarrow> (string \<times> rlbuf) option" where
  "readLineBufText n rl =
     (case readLineBuf rl True n of Some (Inr k, buf, rl') \<Rightarrow> Some (take k buf, rl') | _ \<Rightarrow> None)"

interpretation plain: line_reader readLineText avail "\<lambda>_. True" "\<lambda>n. n - 1"
proof
  fix n s l s'
  assume "readLineText n s = Some (l, s')"
  then obtain k buf where "readLineLoop n [] s = Some (Inr k, buf, s')" "l = take k buf"
    by (auto simp: readLineText_def readLine_def split: option.splits sum.splits if_splits)
  with readLineLoop_sound [of n "[]" s k buf s']
  show "l = take (n - 1) (lineOf (avail s))" "avail s' = restOf (avail s)" by auto
qed simp

interpretation buffered: line_reader readLineBufText rl_pending rl_ok "\<lambda>n. n"
proof
  fix n s l s'
  assume "readLineBufText n s = Some (l, s')" and ok: "rl_ok s"
  then obtain k buf where "readLineBufLoop n [] s = Some (Inr k, buf, s')" "l = take k buf"
    by (auto simp: readLineBufText_def readLineBuf_def split: option.splits sum.splits if_splits)
  with readLineBufLoop_sound [of n "[]" s k buf s'] ok
  show "l = take n (lineOf (rl_pending s))" "rl_pending s' = restOf (rl_pending s)" "rl_ok s'"
    by (auto simp: min_def)
qed

text \<open>
  C35. The buffered \<open>readLineBuf\<close> delivers the same lines as the byte-at-a-time \<open>readLine\<close>:
  reading \<open>k\<close> lines of a stream with either gives the same texts, whatever the transfer
  sizes and interruptions were on each side, if \<open>readLine\<close> is given one byte more of buffer
  (it stores a terminating null byte and \<open>readLineBuf\<close> does not).
\<close>

theorem readLineBuf_equals_readLine:
  assumes "readLines readLineText (n + 1) k f = Some (ls, f')"
    and "readLines readLineBufText n k (readLineBufInit g rl) = Some (ls', rl')"
    and "avail f = avail g"
  shows "ls = ls'"
proof -
  have "rl_ok (readLineBufInit g rl)" "rl_pending (readLineBufInit g rl) = avail g"
    by (simp_all add: rl_ok_def readLineBufInit_def rl_pending_def)
  with plain.readLines_firstLines [OF assms(1)] buffered.readLines_firstLines [OF assms(2)] assms(3)
  show ?thesis by simp
qed

definition demo_text :: string where "demo_text = ''one'' @ [NEWLINE] @ ''three'' @ [NEWLINE] @ ''x''"

theorem readLineBuf_equals_readLine_witness:
  "map_option fst (readLines readLineText 5 3 \<lparr>avail = demo_text, rsched = Fail EINTR # replicate 12 (Give 1)\<rparr>) =
   map_option fst (readLines readLineBufText 4 3 (readLineBufInit
     \<lparr>avail = demo_text, rsched = [Give 7, Give 3, Give 9, Give 1]\<rparr>
     \<lparr>rl_fd = \<lparr>avail = [], rsched = []\<rparr>, rl_buf = [], rl_next = 3, rl_len = 0\<rparr>))"
  (is "map_option fst ?a = map_option fst ?b")
proof -
  have "?a \<noteq> None" "?b \<noteq> None" by code_simp+
  then obtain ls f' ls' rl' where h: "?a = Some (ls, f')" "?b = Some (ls', rl')" by auto
  have "5 = 4 + (1::nat)" by simp
  from readLineBuf_equals_readLine [OF h(1) [unfolded this] h(2)] h show ?thesis by simp
qed

section \<open>readn and writen\<close>

lemma readnLoop_spec:
  assumes "only_eintr (rsched f)" "length out \<le> n"
    and "min (n - length out) (Suc (length (avail f))) \<le> transfers (rsched f)"
  shows "\<exists>f'. readnLoop n out f =
      Some (Inr (min n (length out + length (avail f))), out @ take (n - length out) (avail f), f') \<and>
      avail f' = drop (n - length out) (avail f)"
  using assms
proof (induction "rsched f" arbitrary: out f)
  case Nil
  from Nil(1) [symmetric] Nil.prems show ?case by (auto simp: readnLoop.simps [of n out f] min_def split: if_splits)
next
  case (Cons x es)
  note s = \<open>x # es = rsched f\<close> [symmetric] and IH = Cons.hyps(1) and pre = Cons.prems
  note un = readnLoop.simps [of n out f] and rd = read_fd_def [of "n - length out" f]
  show ?case
  proof (cases "length out < n")
    case False
    with pre un show ?thesis by (auto simp: min_def)
  next
    case True
    show ?thesis
    proof (cases x)
      case (Fail e)
      with IH [of "f\<lparr>rsched := es\<rparr>" out] pre s un rd True show ?thesis by simp
    next
      case (Give k)
      from Give s obtain bs g where rf: "read_fd (n - length out) f = Some (Inr bs, g)"
        and g: "rsched g = es" "length bs \<le> n - length out"
        by (simp add: rd Let_def)
      note av = read_fd_pos [OF rf zero_less_diff [THEN iffD2, OF True]]
      show ?thesis
      proof (cases bs)
        case Nil
        with True rf av show ?thesis by (auto simp: un min_def)
      next
        case (Cons c cs)
        with True rf have "readnLoop n out f = readnLoop n (out @ bs) g"
          by (simp add: un)
        moreover have "\<exists>f'. readnLoop n (out @ bs) g =
            Some (Inr (min n (length (out @ bs) + length (avail g))),
              (out @ bs) @ take (n - length (out @ bs)) (avail g), f') \<and>
            avail f' = drop (n - length (out @ bs)) (avail g)"
          using pre s Give g True Cons av by (intro IH) auto
        ultimately show ?thesis using av True g by (simp add: add.assoc)
      qed
    qed
  qed
qed

text \<open>
  \<open>readn(fd, buf, n)\<close> restarts after partial reads and interruptions: it returns \<open>n\<close>, or
  the number of bytes up to end of file if there are fewer, the buffer holds exactly these
  bytes, and nothing after them has been consumed.
\<close>

theorem readn_reads_all:
  assumes "only_eintr (rsched f)" and "min n (Suc (length (avail f))) \<le> transfers (rsched f)"
  shows "\<exists>f'. readn n f = Some (Inr (min n (length (avail f))), take n (avail f), f') \<and>
    avail f' = drop n (avail f)"
  using readnLoop_spec [OF assms(1), of "[]" n] assms(2) by (simp add: readn_def)

theorem readn_reads_all_witness:
  "\<exists>f'. readn 5 \<lparr>avail = ''abcdefg'', rsched = [Give 2, Fail EINTR, Give 1, Give 9, Give 1, Give 1]\<rparr> =
      Some (Inr 5, ''abcde'', f') \<and> avail f' = ''fg''"
proof -
  let ?f = "\<lparr>avail = ''abcdefg'', rsched = [Give 2, Fail EINTR, Give 1, Give 9, Give 1, Give 1]\<rparr>"
  have "only_eintr (rsched ?f)" "min 5 (Suc (length (avail ?f))) \<le> transfers (rsched ?f)"
    by (simp_all add: only_eintr_def)
  from readn_reads_all [OF this] show ?thesis by (simp add: eval_nat_numeral)
qed

lemma write_fd_Give:
  "wsched f = Give k # es \<Longrightarrow> write_fd buf f =
     Some (Inr (min k (length buf)), f\<lparr>written := written f @ take k buf, wsched := es\<rparr>)"
  by (cases "k \<le> length buf") (simp_all add: write_fd_def min_def)

lemma writenLoop_prefix:
  assumes "writenLoop tot buf f = Some (r, f')"
  shows "\<exists>p. written f' = written f @ take p buf \<and>
    (case r of Inr m \<Rightarrow> m = tot + length buf \<and> p = length buf | Inl _ \<Rightarrow> p < length buf)"
  using assms
proof (induction tot buf f rule: writenLoop.induct)
  case (1 tot buf f)
  note un = writenLoop.simps [of tot buf f]
  show ?case
  proof (cases "buf = []")
    case True
    with "1.prems" un show ?thesis by (intro exI [of _ 0]) auto
  next
    case False
    with "1.prems" un obtain w f1 where w: "write_fd buf f = Some (w, f1)"
      by (auto split: option.splits)
    show ?thesis
    proof (cases w)
      case (Inl e)
      with w have wr: "written f1 = written f"
        by (auto simp: write_fd_def Let_def split: list.splits io_event.splits)
      show ?thesis
      proof (cases "e = EINTR")
        case True
        with "1.prems" un w Inl False have "writenLoop tot buf f1 = Some (r, f')" by simp
        from "1.IH"(1) [OF False w [unfolded Inl] refl refl True this] wr show ?thesis by simp
      next
        case ne: False
        with "1.prems" un w Inl False have "r = Inl (Some e)" "f' = f1" by auto
        with wr False show ?thesis by (intro exI [of _ 0]) simp
      qed
    next
      case (Inr m)
      with w have wr: "written f1 = written f @ take m buf" "m \<le> length buf"
        by (auto simp: write_fd_def Let_def split: list.splits io_event.splits)
      show ?thesis
      proof (cases m)
        case 0
        with "1.prems" un w Inr False have "r = Inl None" "f' = f1" by auto
        with wr 0 False show ?thesis by (intro exI [of _ 0]) simp
      next
        case (Suc m')
        with "1.prems" un w Inr False have "writenLoop (tot + m) (drop m buf) f1 = Some (r, f')" by simp
        from "1.IH"(2) [OF False w [unfolded Inr Suc] refl refl refl this [unfolded Suc]]
        obtain p where p: "written f' = written f1 @ take p (drop m buf)"
          "case r of Inr k \<Rightarrow> k = tot + m + length (drop m buf) \<and> p = length (drop m buf) | Inl _ \<Rightarrow> p < length (drop m buf)"
          unfolding Suc by blast
        with wr show ?thesis
          by (intro exI [of _ "m + p"]) (auto simp: take_add split: sum.splits)
      qed
    qed
  qed
qed

lemma writenLoop_returns:
  assumes "only_eintr (wsched f)" "Give 0 \<notin> set (wsched f)" "length buf \<le> transfers (wsched f)"
  shows "\<exists>f'. writenLoop tot buf f = Some (Inr (tot + length buf), f') \<and> written f' = written f @ buf"
  using assms
proof (induction "wsched f" arbitrary: tot buf f)
  case Nil
  from Nil(1) [symmetric] Nil.prems show ?case by (simp add: writenLoop.simps [of tot "[]" f])
next
  case (Cons x es)
  note s = \<open>x # es = wsched f\<close> [symmetric] and IH = Cons.hyps(1) and pre = Cons.prems
  note un = writenLoop.simps [of tot buf f]
  show ?case
  proof (cases "buf = []")
    case True
    with un show ?thesis by simp
  next
    case False
    show ?thesis
    proof (cases x)
      case (Fail e)
      with IH [of "f\<lparr>wsched := es\<rparr>" buf tot] pre s un False show ?thesis by (simp add: write_fd_def)
    next
      case (Give k)
      let ?m = "min k (length buf)" and ?f = "f\<lparr>written := written f @ take k buf, wsched := es\<rparr>"
      have w: "write_fd buf f = Some (Inr ?m, ?f)" using Give s by (simp add: write_fd_Give)
      have k: "0 < k" using Give pre s by (cases k) auto
      with False obtain m' where m': "?m = Suc m'" by (cases ?m) (auto simp: min_def split: if_splits)
      have "writenLoop tot buf f = writenLoop (tot + ?m) (drop ?m buf) ?f"
        using False w unfolding m' by (simp add: un)
      moreover have "\<exists>f'. writenLoop (tot + ?m) (drop ?m buf) ?f =
          Some (Inr (tot + ?m + length (drop ?m buf)), f') \<and> written f' = written ?f @ drop ?m buf"
        using pre s Give k by (intro IH) auto
      ultimately show ?thesis by (auto simp: min_def)
    qed
  qed
qed

text \<open>
  \<open>writen(fd, buf, n)\<close> writes the whole buffer, in order and once, and returns \<open>n\<close>,
  through every sequence of partial writes and interruptions in which each successful call
  accepts at least one byte.
\<close>

theorem writen_writes_all:
  assumes "only_eintr (wsched f)" and "Give 0 \<notin> set (wsched f)" and "length buf \<le> transfers (wsched f)"
  shows "\<exists>f'. writen buf f = Some (Inr (length buf), f') \<and> written f' = written f @ buf"
  using writenLoop_returns [OF assms, of 0] by (simp add: writen_def)

theorem writen_writes_all_witness:
  "\<exists>f'. writen ''abc'' \<lparr>written = ''x'', wsched = [Give 1, Fail EINTR, Give 1, Give 1]\<rparr> = Some (Inr 3, f') \<and>
     written f' = ''xabc''"
  using writen_writes_all [of "\<lparr>written = ''x'', wsched = [Give 1, Fail EINTR, Give 1, Give 1]\<rparr>" "''abc''"]
  by (simp add: only_eintr_def eval_nat_numeral)

text \<open>
  Whatever happens, \<open>writen\<close> has written a prefix of the buffer, and it returns a count
  only if that prefix is the whole buffer: a failure never follows a complete write.
\<close>

theorem writen_failure_prefix:
  assumes "writen buf f = Some (r, f')"
  shows "\<exists>p. written f' = written f @ take p buf \<and>
    (case r of Inr m \<Rightarrow> m = length buf \<and> p = length buf | Inl _ \<Rightarrow> p < length buf)"
  using writenLoop_prefix [of 0 buf f r f'] assms by (simp only: writen_def add_0)

theorem writen_failure_prefix_witness:
  "\<exists>f' p. writen ''abc'' \<lparr>written = [], wsched = [Give 2, Fail EAGAIN]\<rparr> = Some (Inl (Some EAGAIN), f') \<and>
     written f' = take p ''abc'' \<and> p < 3"
proof -
  define m where "m = writen ''abc'' \<lparr>written = [], wsched = [Give 2, Fail EAGAIN]\<rparr>"
  have "map_option fst m = Some (Inl (Some EAGAIN))" unfolding m_def by code_simp
  then obtain f' where h: "writen ''abc'' \<lparr>written = [], wsched = [Give 2, Fail EAGAIN]\<rparr> = Some (Inl (Some EAGAIN), f')"
    unfolding m_def by auto
  from writen_failure_prefix [OF h] h show ?thesis by auto
qed

end
