(* ===== verification/Execlp.thy ===== *)
theory Execlp
  imports Prelude
begin

text \<open>
  \<open>execlp\<close> of \<open>procexec/execlp.c\<close>: the argument vector built from the variable argument
  list, the search along \<open>PATH\<close>, the attempt to run a script with the shell, and the error
  number that is left when every attempt failed.

  The kernel's \<open>execve\<close> is the parameter \<open>K\<close>: for a pathname, an argument vector and an
  environment it gives \<open>None\<close> when the process is replaced, or the error number. The
  allocator is the parameter \<open>alloc\<close>: whether a request for so many bytes succeeds. A vector
  is the list of its elements, \<open>None\<close> for a null pointer; \<open>execve\<close> reads it up to the first
  null pointer.
\<close>

type_synonym argvec = "string option list"
type_synonym kexecve = "string \<Rightarrow> string list \<Rightarrow> string list \<Rightarrow> errno option"

definition upto_null :: "argvec \<Rightarrow> string list" where
  "upto_null v = map the (takeWhile (\<lambda>x. x \<noteq> None) v)"

text \<open>
  How a call ends: the process runs another program, the call returns \<open>-1\<close> with an error
  number, or the behaviour is undefined.
\<close>

datatype exec_end = Replaced string "string list" "string list" | Failed errno | Broken

text \<open>\<open>a[i] = v\<close> on an array of \<open>length a\<close> elements: \<open>None\<close> out of range.\<close>

definition store_at :: "'a list \<Rightarrow> nat \<Rightarrow> 'a \<Rightarrow> 'a list option" where
  "store_at a i v = (if i < length a then Some (a[i := v]) else None)"

text \<open>
  The copying loop of \<open>execShScript\<close>, from \<open>j\<close> to \<open>argc\<close>: \<open>argv\<close> is the whole array, so
  reading beyond it is undefined, as is writing beyond \<open>shArgv\<close>.
\<close>

function shCopy :: "nat \<Rightarrow> nat \<Rightarrow> argvec \<Rightarrow> argvec \<Rightarrow> argvec option" where
  "shCopy j argc argv shArgv =
     (if j \<le> argc then
        if length argv \<le> j then None
        else (case store_at shArgv (j + 1) (argv ! j) of
                None \<Rightarrow> None
              | Some shArgv' \<Rightarrow> shCopy (j + 1) argc argv shArgv')
      else Some shArgv)"
  by pat_completeness auto
termination by (relation "measure (\<lambda>(j, argc, _). Suc argc - j)") auto

declare shCopy.simps [simp del]

abbreviation (input) SHELL_PATH :: string where "SHELL_PATH \<equiv> ''/bin/sh''"

text \<open>\<open>execShScript\<close>: \<open>None\<close> when it returns, with the error number of \<open>execve\<close>.\<close>

definition execShScript :: "kexecve \<Rightarrow> nat \<Rightarrow> argvec \<Rightarrow> string list \<Rightarrow> exec_end" where
  "execShScript K argc argv envp =
     (case shCopy 0 argc argv ((replicate (argc + 1) None)[0 := Some SHELL_PATH]) of
        None \<Rightarrow> Broken
      | Some shArgv \<Rightarrow>
          (case K SHELL_PATH (upto_null shArgv) envp of
             None \<Rightarrow> Replaced SHELL_PATH (upto_null shArgv) envp
           | Some e \<Rightarrow> Failed e))"

text \<open>
  The loop over the variable argument list. \<open>argv\<close> holds the \<open>argc\<close> elements stored so far
  and \<open>argvSize\<close> is the number of elements allocated. \<open>Inl True\<close>: out of memory;
  \<open>Inl False\<close>: undefined (the list has no null pointer, or a store beyond the array).
\<close>

function argvLoop :: "(nat \<Rightarrow> bool) \<Rightarrow> argvec \<Rightarrow> nat \<Rightarrow> argvec \<Rightarrow> bool + (argvec \<times> nat)" where
  "argvLoop alloc argv argvSize args =
     (if last argv \<noteq> None then
        let grow = (length argv + 1 \<ge> argvSize);
            size' = (if grow then argvSize + 100 else argvSize)
        in if grow \<and> \<not> alloc (size' * 8) then Inl True
           else if size' \<le> length argv then Inl False
           else (case args of
                   [] \<Rightarrow> Inl False
                 | a # as \<Rightarrow> argvLoop alloc (argv @ [a]) size' as)
      else Inr (argv, argvSize))"
  by pat_completeness auto
termination by (relation "measure (\<lambda>(_, _, _, args). length args)") auto

declare argvLoop.simps [simp del]

text \<open>The pathname for one prefix of \<open>PATH\<close>, and the size of the buffer it is built in.\<close>

definition candidate :: "string \<Rightarrow> string \<Rightarrow> string" where
  "candidate prefix filename = (if prefix = [] then ''.'' else prefix) @ ''/'' @ filename"

definition candidateSize :: "string \<Rightarrow> string \<Rightarrow> nat" where
  "candidateSize prefix filename = max 1 (length prefix) + length filename + 2"

text \<open>
  The search loop. \<open>fnd\<close> is \<open>fndEACCES\<close>, and \<open>argv\<close> the whole allocated array. The result
  also has the list of pathnames tried, in order.
\<close>

function pathLoop :: "kexecve \<Rightarrow> (nat \<Rightarrow> bool) \<Rightarrow> string \<Rightarrow> nat \<Rightarrow> argvec \<Rightarrow> string list \<Rightarrow> string \<Rightarrow> bool
    \<Rightarrow> string list \<Rightarrow> exec_end \<times> string list" where
  "pathLoop K alloc filename argc argv envp prStart fnd tried =
     (let (prefix, next) = (case strchr prStart (CHR '':'') of
                              None \<Rightarrow> (prStart, None)
                            | Some (p, r) \<Rightarrow> (p, Some r));
          pathname = candidate prefix filename
      in if \<not> alloc (candidateSize prefix filename) \<or> candidateSize prefix filename < length pathname + 1
         then (Broken, tried)
         else (case K pathname (upto_null argv) envp of
                 None \<Rightarrow> (Replaced pathname (upto_null argv) envp, tried @ [pathname])
               | Some err \<Rightarrow>
                   let fnd' = (fnd \<or> err = EACCES);
                       continue = (case next of
                          None \<Rightarrow> (Failed (if fnd' then EACCES else err), tried @ [pathname])
                        | Some r \<Rightarrow> pathLoop K alloc filename argc argv envp r fnd' (tried @ [pathname]))
                   in if err = ENOEXEC then
                        (case execShScript K argc argv envp of
                           Failed e \<Rightarrow> continue
                         | r \<Rightarrow> (r, tried @ [pathname]))
                      else continue))"
  by pat_completeness auto
termination
  by (relation "measure (\<lambda>(_, _, _, _, _, _, prStart, _, _). length prStart)")
    (auto simp: cstr_simps split: option.splits prod.splits)

declare pathLoop.simps [simp del]

text \<open>
  \<open>execlp(filename, args..., NULL)\<close>. \<open>vargs\<close> is the argument list with its null pointer;
  \<open>environ\<close> the environment strings, \<open>path\<close> the value of \<open>getenv("PATH")\<close>. A copy of an
  environment string that cannot be allocated ends the copied vector there. The elements of
  \<open>argv\<close> after the null pointer are null pointers too (\<open>calloc\<close>; indeterminate after an
  enlargement, and then read by \<open>execShScript\<close> only).
\<close>

definition execlp :: "kexecve \<Rightarrow> (nat \<Rightarrow> bool) \<Rightarrow> string list \<Rightarrow> string option \<Rightarrow> string \<Rightarrow> argvec
    \<Rightarrow> exec_end \<times> string list" where
  "execlp K alloc environ path filename vargs =
     (if \<not> alloc (100 * 8) then (Failed ENOMEM, [])
      else case vargs of
        [] \<Rightarrow> (Broken, [])
      | arg # rest \<Rightarrow>
        (case argvLoop alloc [arg] 100 rest of
           Inl True \<Rightarrow> (Failed ENOMEM, [])
         | Inl False \<Rightarrow> (Broken, [])
         | Inr (stored, argvSize) \<Rightarrow>
           if \<not> alloc ((length environ + 1) * 8) then (Failed ENOMEM, [])
           else
             let argc = length stored;
                 argv = stored @ replicate (argvSize - argc) None;
                 envp = takeWhile (\<lambda>e. alloc (length e + 1)) environ
             in if strchr filename (CHR ''/'') \<noteq> None then
                  if \<not> alloc (length filename + 1) then (Broken, [])
                  else (case K filename (upto_null argv) envp of
                          None \<Rightarrow> (Replaced filename (upto_null argv) envp, [filename])
                        | Some err \<Rightarrow>
                            if err = ENOEXEC then
                              (case execShScript K argc argv envp of
                                 Failed _ \<Rightarrow> (Failed err, [filename])
                               | r \<Rightarrow> (r, [filename]))
                            else (Failed err, [filename]))
                else
                  let PATH = (case path of None \<Rightarrow> ''.'' | Some p \<Rightarrow> if p = [] then ''.'' else p)
                  in if \<not> alloc (length PATH + 1) then (Broken, [])
                     else pathLoop K alloc filename argc argv envp PATH False []))"

section \<open>The argument vector\<close>

text \<open>
  The array always has room for the element that is stored next, so the loop ends with the
  whole list, or because memory ran out; it never stores beyond the array.
\<close>

lemma argvLoop_result:
  assumes "pre \<noteq> []" "last pre \<noteq> None" "length pre < room"
  shows "argvLoop alloc pre room (map Some args @ [None]) = Inl True \<and> (\<exists>n. \<not> alloc n) \<or>
    (\<exists>sz. argvLoop alloc pre room (map Some args @ [None]) = Inr (pre @ map Some args @ [None], sz) \<and>
      length pre + length args + 1 < sz)"
  using assms
proof (induction args arbitrary: pre room)
  case Nil
  then show ?case
    using argvLoop.simps [of alloc pre room "[None]"] by (auto simp: Let_def argvLoop.simps [of _ "_ @ [None]"])
next
  case (Cons a args)
  define room' where "room' = (if room \<le> length pre + 1 then room + 100 else room)"
  have "argvLoop alloc pre room (map Some (a # args) @ [None]) =
      (if room \<le> length pre + 1 \<and> \<not> alloc (room' * 8) then Inl True
       else argvLoop alloc (pre @ [Some a]) room' (map Some args @ [None]))"
    using Cons.prems by (subst argvLoop.simps) (auto simp: Let_def room'_def)
  moreover have "length (pre @ [Some a]) < room'" using Cons.prems by (auto simp: room'_def)
  ultimately show ?case using Cons.IH [of "pre @ [Some a]" room'] by auto
qed

lemma upto_null_args: "upto_null (map Some args @ None # r) = args"
proof -
  have "takeWhile (\<lambda>x. x \<noteq> None) (map Some args @ None # r) = map Some args"
    by (induction args) auto
  then show ?thesis by (simp add: upto_null_def comp_def)
qed

section \<open>The search along PATH\<close>

fun splitPath :: "string \<Rightarrow> string list" where
  "splitPath [] = [[]]"
| "splitPath (c # cs) =
     (if c = CHR '':'' then [] # splitPath cs
      else case splitPath cs of [] \<Rightarrow> [[c]] | p # ps \<Rightarrow> (c # p) # ps)"

definition candidates :: "string \<Rightarrow> string \<Rightarrow> string list" where
  "candidates PATH filename = map (\<lambda>p. candidate p filename) (splitPath PATH)"

lemma splitPath_strchr:
  "splitPath s = (case strchr s (CHR '':'') of None \<Rightarrow> [s] | Some (p, r) \<Rightarrow> p # splitPath r)"
  by (induction s) (auto split: option.splits)

text \<open>What the search should do: run the first candidate that can be run.\<close>

fun searchSpec :: "kexecve \<Rightarrow> string list \<Rightarrow> string list \<Rightarrow> bool \<Rightarrow> string list \<Rightarrow> exec_end" where
  "searchSpec K args envp fnd [] = Failed ENOENT"
| "searchSpec K args envp fnd (c # cs) =
     (case K c args envp of
        None \<Rightarrow> Replaced c args envp
      | Some err \<Rightarrow> if cs = [] then Failed (if fnd \<or> err = EACCES then EACCES else err)
                    else searchSpec K args envp (fnd \<or> err = EACCES) cs)"

lemma splitPath_nonempty [simp]: "splitPath s \<noteq> []"
  by (subst splitPath_strchr) (auto split: option.splits)

lemma candidate_fits: "length (candidate p f) + 1 \<le> candidateSize p f"
  by (auto simp: candidate_def candidateSize_def Suc_le_eq)

lemma pathLoop_searches:
  assumes "\<forall>c\<in>set (candidates PATH filename). K c (upto_null argv) envp \<noteq> Some ENOEXEC"
  shows "fst (pathLoop K (\<lambda>_. True) filename argc argv envp PATH fnd tried) =
    searchSpec K (upto_null argv) envp fnd (candidates PATH filename)"
  using assms
proof (induction "length PATH" arbitrary: PATH fnd tried rule: less_induct)
  case less
  note un = pathLoop.simps [of K "\<lambda>_. True" filename argc argv envp PATH fnd tried]
  show ?case
  proof (cases "strchr PATH (CHR '':'')")
    case None
    with less.prems candidate_fits [of PATH filename] show ?thesis
      by (auto simp: un splitPath_strchr [of PATH] candidates_def Let_def split: option.splits)
  next
    case (Some pr)
    then obtain p r where pr: "strchr PATH (CHR '':'') = Some (p, r)" by (cases pr) auto
    then have c: "candidates PATH filename = candidate p filename # candidates r filename"
      by (simp add: candidates_def splitPath_strchr [of PATH])
    have ne: "candidates r filename \<noteq> []" by (simp add: candidates_def)
    have "length r < length PATH" using pr by (simp add: cstr_simps)
    from less.hyps [OF this] less.prems c ne pr candidate_fits [of p filename] show ?thesis
      by (auto simp: un Let_def split: option.splits)
  qed
qed

lemma searchSpec_found:
  assumes "find_slot (\<lambda>c. K c args envp = None) cs = Some i"
  shows "searchSpec K args envp fnd cs = Replaced (cs ! i) args envp"
  using assms
proof (induction cs arbitrary: i fnd)
  case (Cons c cs)
  then show ?case by (cases i) (auto split: if_splits option.splits)
qed simp

lemma searchSpec_none:
  assumes "find_slot (\<lambda>c. K c args envp = None) cs = None" "cs \<noteq> []"
  shows "searchSpec K args envp fnd cs =
    Failed (if fnd \<or> (\<exists>c\<in>set cs. K c args envp = Some EACCES) then EACCES else the (K (last cs) args envp))"
  using assms
proof (induction cs arbitrary: fnd)
  case (Cons c cs)
  then show ?case by (cases "cs = []") (auto split: if_splits option.splits)
qed simp

lemma execlp_search:
  assumes "CHR ''/'' \<notin> set filename"
    and "\<forall>c\<in>set (candidates PATH filename). K c args environ \<noteq> Some ENOEXEC"
    and "PATH \<noteq> []"
  shows "fst (execlp K (\<lambda>_. True) environ (Some PATH) filename (map Some args @ [None])) =
    searchSpec K args environ False (candidates PATH filename)"
proof (cases args)
  case Nil
  with assms upto_null_args [of "[]"] show ?thesis
    by (simp add: execlp_def cstr_simps argvLoop.simps [of _ "[None]"] pathLoop_searches upto_null_def
        takeWhile_eq_all_conv [THEN iffD2])
next
  case (Cons a as)
  from argvLoop_result [of "[Some a]" 100 "\<lambda>_. True" as] obtain sz where
    "argvLoop (\<lambda>_. True) [Some a] 100 (map Some as @ [None]) = Inr (map Some args @ [None], sz)"
    by (auto simp: Cons)
  moreover have "upto_null ((map Some args @ [None]) @ replicate n None) = args" for n
    using upto_null_args [of args "replicate n None"] by simp
  ultimately show ?thesis using assms Cons
    by (simp add: execlp_def cstr_simps pathLoop_searches takeWhile_eq_all_conv [THEN iffD2])
qed

text \<open>
  \<open>execlp\<close> with a filename without a slash runs the first file along \<open>PATH\<close> that
  \<open>execve\<close> accepts, with the caller's arguments and environment. If none is accepted it
  returns \<open>-1\<close>, with \<open>EACCES\<close> if any attempt failed for that reason and with the error of
  the last attempt otherwise (attempts that end in \<open>ENOEXEC\<close> aside).
\<close>

theorem execlp_path_search:
  assumes "CHR ''/'' \<notin> set filename" and "PATH \<noteq> []"
    and "\<forall>c\<in>set (candidates PATH filename). K c args environ \<noteq> Some ENOEXEC"
  shows "fst (execlp K (\<lambda>_. True) environ (Some PATH) filename (map Some args @ [None])) =
    (case find_slot (\<lambda>c. K c args environ = None) (candidates PATH filename) of
       Some i \<Rightarrow> Replaced (candidates PATH filename ! i) args environ
     | None \<Rightarrow> Failed (if \<exists>c\<in>set (candidates PATH filename). K c args environ = Some EACCES then EACCES
                       else the (K (last (candidates PATH filename)) args environ)))"
  using execlp_search [of filename PATH K args environ, OF assms(1,3,2)] searchSpec_found [of K args environ "candidates PATH filename"]
    searchSpec_none [of K args environ "candidates PATH filename" False]
  by (auto simp: candidates_def split: option.splits)

definition demo_exec :: kexecve where
  "demo_exec p args env = (if p = ''./ls'' then None else if p = ''/a/ls'' then Some EACCES else Some ENOENT)"

theorem execlp_path_search_witness:
  "fst (execlp demo_exec (\<lambda>_. True) [''HOME=/''] (Some ''/a::/b'') ''ls'' (map Some [''ls'', ''-l''] @ [None])) =
   Replaced ''./ls'' [''ls'', ''-l''] [''HOME=/'']"
proof -
  have c: "candidates ''/a::/b'' ''ls'' = [''/a/ls'', ''./ls'', ''/b/ls'']" by code_simp
  have "\<forall>c\<in>set (candidates ''/a::/b'' ''ls''). demo_exec c [''ls'', ''-l''] [''HOME=/''] \<noteq> Some ENOEXEC"
    unfolding c by (simp add: demo_exec_def)
  from execlp_path_search [of "''ls''" "''/a::/b''" demo_exec "[''ls'', ''-l'']" "[''HOME=/'']", OF _ _ this] show ?thesis unfolding c by (simp add: demo_exec_def)
qed

lemma shCopy_overflows:
  assumes "j \<le> argc" "length shArgv = argc + 1"
  shows "shCopy j argc argv shArgv = None"
  using assms
proof (induction "argc - j" arbitrary: j shArgv)
  case 0
  then show ?case by (subst shCopy.simps) (simp add: store_at_def)
next
  case (Suc d)
  then have "shCopy (j + 1) argc argv sh = None" if "length sh = argc + 1" for sh
    using that by (intro Suc.hyps(1)) auto
  with Suc.prems show ?case by (subst shCopy.simps) (simp add: store_at_def)
qed

text \<open>
  \<open>execShScript\<close> stores one element beyond its array whenever it is called: \<open>execlp\<close>
  passes a count that includes the terminating null pointer, and the copying loop runs to
  \<open>argc\<close> inclusive although \<open>shArgv\<close> has only \<open>argc + 1\<close> elements. So a file that \<open>execve\<close>
  refuses with \<open>ENOEXEC\<close> is never run by the shell in a defined way.
\<close>

theorem execShScript_overflows:
  "execShScript K argc argv envp = Broken"
  by (simp add: execShScript_def shCopy_overflows)

end
