(* ===== verification/SystemCmd.thy ===== *)
theory SystemCmd
  imports Prelude
begin

text \<open>
  \<open>system\<close> of \<open>procexec/system.c\<close>. The process state is the signal mask, the disposition of
  every signal, and \<open>errno\<close>. The kernel is the parameter \<open>sysk\<close>: whether \<open>fork\<close> succeeds,
  the error numbers with which \<open>waitpid\<close> fails before it collects the child, and, for the
  signal settings and the command with which the shell is executed, the wait status of the
  shell (\<open>None\<close> if the shell cannot be executed).
\<close>

abbreviation (input) SIGINT :: nat where "SIGINT \<equiv> 2"
abbreviation (input) SIGQUIT :: nat where "SIGQUIT \<equiv> 3"
abbreviation (input) SIGCHLD :: nat where "SIGCHLD \<equiv> 17"

datatype handler = SIG_DFL | SIG_IGN | Handler nat

record sigaction_t =
  sa_handler :: handler
  sa_flags :: nat
  sa_mask :: "nat set"

record proc =
  sigmask :: "nat set"
  actions :: "nat \<Rightarrow> sigaction_t"
  proc_errno :: errno

record sysk =
  fork_error :: "errno option"
  wait_errors :: "errno list"
  shell :: "nat set \<Rightarrow> (nat \<Rightarrow> sigaction_t) \<Rightarrow> string \<Rightarrow> int option"

definition sigaction :: "nat \<Rightarrow> sigaction_t \<Rightarrow> proc \<Rightarrow> proc" where
  "sigaction sig a p = p\<lparr>actions := (actions p)(sig := a)\<rparr>"

definition plain_action :: "handler \<Rightarrow> sigaction_t" where
  "plain_action h = \<lparr>sa_handler = h, sa_flags = 0, sa_mask = {}\<rparr>"

text \<open>Lines 40 to 48: block \<open>SIGCHLD\<close>, ignore \<open>SIGINT\<close> and \<open>SIGQUIT\<close>.\<close>

definition systemPrepare :: "proc \<Rightarrow> proc" where
  "systemPrepare p =
     (let p = p\<lparr>sigmask := sigmask p \<union> {SIGCHLD}\<rparr>;
          p = sigaction SIGINT (plain_action SIG_IGN) p
      in sigaction SIGQUIT (plain_action SIG_IGN) p)"

text \<open>
  The child, from its copy \<open>p\<close> of the prepared state: the wait status that the parent can
  collect. \<open>_exit(127)\<close> is the wait status \<open>127 * 256\<close>.
\<close>

definition systemChild :: "sysk \<Rightarrow> nat set \<Rightarrow> sigaction_t \<Rightarrow> sigaction_t \<Rightarrow> string \<Rightarrow> proc \<Rightarrow> int" where
  "systemChild k origMask saOrigInt saOrigQuit command p =
     (let p = (if sa_handler saOrigInt \<noteq> SIG_IGN then sigaction SIGINT (plain_action SIG_DFL) p else p);
          p = (if sa_handler saOrigQuit \<noteq> SIG_IGN then sigaction SIGQUIT (plain_action SIG_DFL) p else p);
          p = p\<lparr>sigmask := origMask\<rparr>
      in case shell k (sigmask p) (actions p) command of
           Some status \<Rightarrow> status
         | None \<Rightarrow> 127 * 256)"

text \<open>The \<open>waitpid\<close> loop: the status and \<open>errno\<close>.\<close>

fun waitLoop :: "errno list \<Rightarrow> int \<Rightarrow> errno \<Rightarrow> int \<times> errno" where
  "waitLoop [] status err = (status, err)"
| "waitLoop (e # es) status err = (if e \<noteq> EINTR then (-1, e) else waitLoop es status e)"

definition systemRestore :: "nat set \<Rightarrow> sigaction_t \<Rightarrow> sigaction_t \<Rightarrow> proc \<Rightarrow> proc" where
  "systemRestore origMask saOrigInt saOrigQuit p =
     (let savedErrno = proc_errno p;
          p = p\<lparr>sigmask := origMask\<rparr>;
          p = sigaction SIGINT saOrigInt p;
          p = sigaction SIGQUIT saOrigQuit p
      in p\<lparr>proc_errno := savedErrno\<rparr>)"

definition systemRun :: "sysk \<Rightarrow> string \<Rightarrow> proc \<Rightarrow> int \<times> proc" where
  "systemRun k command p0 =
     (let origMask = sigmask p0; saOrigInt = actions p0 SIGINT; saOrigQuit = actions p0 SIGQUIT;
          p = systemPrepare p0;
          (status, p) =
            (case fork_error k of
               Some e \<Rightarrow> (-1, p\<lparr>proc_errno := e\<rparr>)
             | None \<Rightarrow>
                 let cs = systemChild k origMask saOrigInt saOrigQuit command p;
                     (status, err) = waitLoop (wait_errors k) cs (proc_errno p)
                 in (status, p\<lparr>proc_errno := err\<rparr>))
      in (status, systemRestore origMask saOrigInt saOrigQuit p))"

definition system :: "sysk \<Rightarrow> string option \<Rightarrow> proc \<Rightarrow> int \<times> proc" where
  "system k command p =
     (case command of
        None \<Rightarrow> let (r, p) = systemRun k '':'' p in (if r = 0 then 1 else 0, p)
      | Some c \<Rightarrow> systemRun k c p)"

section \<open>Correctness\<close>

lemma systemRestore_prepared:
  "actions p = actions (systemPrepare p0) \<Longrightarrow>
     sigmask (systemRestore (sigmask p0) (actions p0 SIGINT) (actions p0 SIGQUIT) p) = sigmask p0 \<and>
     actions (systemRestore (sigmask p0) (actions p0 SIGINT) (actions p0 SIGQUIT) p) = actions p0"
  by (auto simp: systemRestore_def systemPrepare_def sigaction_def Let_def fun_eq_iff)

lemma waitLoop_eintr: "list_all (\<lambda>e. e = EINTR) es \<Longrightarrow> fst (waitLoop es st err) = st"
  by (induction es arbitrary: err) auto

text \<open>
  However \<open>system\<close> ends (no shell, failed \<open>fork\<close>, failed wait, any status), the caller's
  signal mask and the dispositions of all signals are afterwards what they were before.
\<close>

theorem system_restores_signals:
  "sigmask (snd (system k command p)) = sigmask p \<and> actions (snd (system k command p)) = actions p"
proof -
  have "sigmask (snd (systemRun k c p)) = sigmask p \<and> actions (snd (systemRun k c p)) = actions p" for c
    by (auto simp: systemRun_def Let_def systemRestore_prepared split: option.splits prod.splits)
  then show ?thesis by (cases command) (simp_all add: system_def Let_def prod.case_eq_if)
qed

text \<open>
  C30. The command is run with the caller's signal mask and with every signal as the caller
  had it, except that \<open>SIGINT\<close> and \<open>SIGQUIT\<close> are ignored if the caller ignored them and have
  the default action otherwise; its wait status is returned, however often the wait was
  interrupted, and \<open>127 * 256\<close> if the shell could not be executed.
\<close>

definition childAction :: "sigaction_t \<Rightarrow> sigaction_t" where
  "childAction a = plain_action (if sa_handler a = SIG_IGN then SIG_IGN else SIG_DFL)"

theorem system_runs_command:
  assumes "fork_error k = None" and "list_all (\<lambda>e. e = EINTR) (wait_errors k)"
  shows "fst (system k (Some command) p) =
    (case shell k (sigmask p) ((actions p)(SIGINT := childAction (actions p SIGINT),
            SIGQUIT := childAction (actions p SIGQUIT))) command of
       Some status \<Rightarrow> status | None \<Rightarrow> 127 * 256)"
proof -
  let ?a = "(actions p)(SIGINT := childAction (actions p SIGINT), SIGQUIT := childAction (actions p SIGQUIT))"
  have "systemChild k (sigmask p) (actions p SIGINT) (actions p SIGQUIT) command (systemPrepare p) =
      (case shell k (sigmask p) ?a command of Some status \<Rightarrow> status | None \<Rightarrow> 127 * 256)"
    by (simp add: systemChild_def systemPrepare_def sigaction_def childAction_def Let_def fun_upd_twist)
  then show ?thesis using assms waitLoop_eintr [OF assms(2)]
    by (simp add: system_def systemRun_def Let_def prod.case_eq_if)
qed

definition demo_sysk :: sysk where
  "demo_sysk = \<lparr>fork_error = None, wait_errors = [EINTR, EINTR],
     shell = (\<lambda>m a c. if sa_handler (a SIGINT) = SIG_DFL \<and> SIGCHLD \<notin> m then Some 256 else None)\<rparr>"

theorem system_runs_command_witness:
  "fst (system demo_sysk (Some ''false'') \<lparr>sigmask = {}, actions = (\<lambda>_. plain_action (Handler 7)), proc_errno = 0\<rparr>) = 256"
  using system_runs_command [of demo_sysk "''false''" "\<lparr>sigmask = {}, actions = (\<lambda>_. plain_action (Handler 7)), proc_errno = 0\<rparr>"]
  by (simp add: demo_sysk_def childAction_def plain_action_def)

end
