(* ===== verification/EnvVars.thy ===== *)
theory EnvVars
  imports Prelude
begin

text \<open>
  \<open>setenv\<close> and \<open>unsetenv\<close> of \<open>proc/setenv.c\<close>. The environment is the list of the strings
  that \<open>environ\<close> points to. \<open>getenv\<close> and \<open>putenv\<close> are those of the C library. The locale
  \<open>environment\<close> states what a program relies on (a variable that has been set is read back,
  the others are not touched), and the implementation is an instance of it.
\<close>

section \<open>The C library's view of the environment\<close>

text \<open>\<open>strncmp(e, name, len) == 0 && e[len] == '='\<close>\<close>

definition names :: "string \<Rightarrow> string \<Rightarrow> bool" where
  "names name e \<longleftrightarrow> strncmp0 name e \<and> length name < length e \<and> e ! length name = CHR ''=''"

definition getenv :: "string list \<Rightarrow> string \<Rightarrow> string option" where
  "getenv env name = map_option (\<lambda>i. drop (length name + 1) (env ! i)) (find_slot (names name) env)"

text \<open>
  \<open>putenv(es)\<close> for a string \<open>es\<close> that contains \<open>=\<close>: the first entry of that name is
  replaced, or the string is appended if there is none. \<open>room\<close> says whether the vector could
  be enlarged.
\<close>

definition putenv :: "bool \<Rightarrow> string \<Rightarrow> string list \<Rightarrow> (errno + unit) \<times> string list" where
  "putenv room es env =
     (case strchr es (CHR ''='') of
        None \<Rightarrow> (Inr (), env)
      | Some (name, _) \<Rightarrow>
          (case find_slot (names name) env of
             Some i \<Rightarrow> (Inr (), env[i := es])
           | None \<Rightarrow> if room then (Inr (), env @ [es]) else (Inl ENOMEM, env)))"

section \<open>unsetenv\<close>

definition badName :: "string option \<Rightarrow> bool" where
  "badName name = (case name of None \<Rightarrow> True | Some n \<Rightarrow> n = [] \<or> strchr n (CHR ''='') \<noteq> None)"

text \<open>The inner loop: every entry after index \<open>ep\<close> moves back one place.\<close>

definition shiftBack :: "nat \<Rightarrow> 'a list \<Rightarrow> 'a list" where
  "shiftBack ep env = take ep env @ drop (ep + 1) env"

function unsetLoop :: "string \<Rightarrow> nat \<Rightarrow> string list \<Rightarrow> string list" where
  "unsetLoop name ep env =
     (if ep < length env then
        if names name (env ! ep) then unsetLoop name ep (shiftBack ep env)
        else unsetLoop name (ep + 1) env
      else env)"
  by pat_completeness auto
termination
  by (relation "measure (\<lambda>(_, ep, env). length env - ep)") (auto simp: shiftBack_def)

declare unsetLoop.simps [simp del]

definition unsetenv :: "string option \<Rightarrow> string list \<Rightarrow> (errno + unit) \<times> string list" where
  "unsetenv name env =
     (if badName name then (Inl EINVAL, env) else (Inr (), unsetLoop (the name) 0 env))"

section \<open>setenv\<close>

text \<open>\<open>mem\<close> and \<open>room\<close>: whether \<open>malloc\<close> and the enlargement in \<open>putenv\<close> succeed.\<close>

definition setenv :: "bool \<Rightarrow> bool \<Rightarrow> string option \<Rightarrow> string option \<Rightarrow> int \<Rightarrow> string list
    \<Rightarrow> (errno + unit) \<times> string list" where
  "setenv mem room name value overwrite env =
     (if badName name \<or> value = None then (Inl EINVAL, env)
      else if getenv env (the name) \<noteq> None \<and> overwrite = 0 then (Inr (), env)
      else
        let env = snd (unsetenv name env) in
        if \<not> mem then (Inl ENOMEM, env)
        else putenv room (the name @ ''='' @ the value) env)"

section \<open>Correctness\<close>

lemma unsetLoop_filter:
  "ep \<le> length env \<Longrightarrow> unsetLoop name ep env = take ep env @ filter (\<lambda>e. \<not> names name e) (drop ep env)"
proof (induction name ep env rule: unsetLoop.induct)
  case (1 name ep env)
  show ?case
  proof (cases "ep < length env")
    case False
    with "1.prems" show ?thesis using unsetLoop.simps [of name ep env] by simp
  next
    case True
    note d = Cons_nth_drop_Suc [OF True, symmetric]
    show ?thesis
    proof (cases "names name (env ! ep)")
      case nm: True
      with True "1.IH"(1) [OF True nm] show ?thesis
        by (subst unsetLoop.simps) (simp add: d shiftBack_def)
    next
      case False
      with True "1.IH"(2) [OF True False] show ?thesis
        by (subst unsetLoop.simps) (simp add: d take_Suc_conv_app_nth)
    qed
  qed
qed

lemma names_iff: "names n e \<longleftrightarrow> (\<exists>v. e = n @ CHR ''='' # v)"
proof
  assume "names n e"
  then obtain t where "e = n @ t" "t \<noteq> []" "e ! length n = CHR ''=''" by (auto simp: names_def cstr_simps)
  then show "\<exists>v. e = n @ CHR ''='' # v" by (cases t) auto
qed (auto simp: names_def cstr_simps)

lemma names_unique:
  assumes "names n e" "names m e" "CHR ''='' \<notin> set n" "CHR ''='' \<notin> set m"
  shows "m = n"
proof -
  from assms obtain v w where "strchr e (CHR ''='') = Some (n, v)" "strchr e (CHR ''='') = Some (m, w)"
    by (metis names_iff strchr_Some)
  then show ?thesis by simp
qed

lemma names_self: "names n (n @ CHR ''='' # v)"
  by (auto simp: names_iff)

lemma getenv_Nil [simp]: "getenv [] n = None"
  and getenv_Cons [simp]:
    "getenv (e # es) n = (if names n e then Some (drop (length n + 1) e) else getenv es n)"
  by (auto simp: getenv_def option.map_comp comp_def)

lemma getenv_append:
  "getenv (xs @ ys) n = (case getenv xs n of None \<Rightarrow> getenv ys n | Some v \<Rightarrow> Some v)"
  by (induction xs) auto

lemma getenv_filter_same: "getenv (filter (\<lambda>e. \<not> names n e) env) n = None"
  by (induction env) auto

lemma getenv_filter_other:
  assumes "m \<noteq> n" "CHR ''='' \<notin> set n" "CHR ''='' \<notin> set m"
  shows "getenv (filter (\<lambda>e. \<not> names n e) env) m = getenv env m"
  using assms names_unique [of n _ m] by (induction env) auto

definition validName :: "string \<Rightarrow> bool" where
  "validName n \<longleftrightarrow> n \<noteq> [] \<and> CHR ''='' \<notin> set n"

lemma badName_iff: "badName (Some n) \<longleftrightarrow> \<not> validName n"
  by (auto simp: badName_def validName_def cstr_simps)

lemma unsetenv_filter:
  "validName n \<Longrightarrow> unsetenv (Some n) env = (Inr (), filter (\<lambda>e. \<not> names n e) env)"
  by (simp add: unsetenv_def badName_iff unsetLoop_filter)

lemma setenv_appends:
  assumes "validName n" "getenv env n = None \<or> overwrite \<noteq> 0"
  shows "setenv True True (Some n) (Some v) overwrite env =
    (Inr (), filter (\<lambda>e. \<not> names n e) env @ [n @ CHR ''='' # v])"
proof -
  have "strchr (n @ CHR ''='' # v) (CHR ''='') = Some (n, v)"
    using assms(1) by (simp add: validName_def strchr_Some)
  moreover have "find_slot (names n) (filter (\<lambda>e. \<not> names n e) env) = None"
    by (simp add: find_slot_None)
  ultimately show ?thesis
    using assms by (auto simp: setenv_def badName_iff unsetenv_filter putenv_def)
qed

section \<open>The contract\<close>

text \<open>
  What a program expects of an environment: reading after setting and unsetting, for
  variable names that are allowed.
\<close>

locale environment =
  fixes get :: "'e \<Rightarrow> 'n \<Rightarrow> 'v option" and set_var :: "'n \<Rightarrow> 'v \<Rightarrow> 'e \<Rightarrow> 'e"
    and unset :: "'n \<Rightarrow> 'e \<Rightarrow> 'e" and ok :: "'n \<Rightarrow> bool"
  assumes get_set: "ok n \<Longrightarrow> ok m \<Longrightarrow> get (set_var n v e) m = (if m = n then Some v else get e m)"
    and get_unset: "ok n \<Longrightarrow> ok m \<Longrightarrow> get (unset n e) m = (if m = n then None else get e m)"
begin

text \<open>A sequence of assignments behaves like the finite map it describes.\<close>

lemma get_assign_all:
  assumes "list_all (\<lambda>(n, v). ok n) as" "ok m"
  shows "get (fold (\<lambda>(n, v). set_var n v) as e) m = (case map_of (rev as) m of None \<Rightarrow> get e m | Some v \<Rightarrow> Some v)"
  using assms
  by (induction as arbitrary: e) (auto simp: get_set map_add_def split: option.splits)

lemma unset_after_assign:
  assumes "list_all (\<lambda>(n, v). ok n) as" "ok m"
  shows "get (unset m (fold (\<lambda>(n, v). set_var n v) as e)) m = None"
  using assms by (simp add: get_unset)

end

interpretation env: environment getenv
  "\<lambda>n v e. snd (setenv True True (Some n) (Some v) 1 e)" "\<lambda>n e. snd (unsetenv (Some n) e)" validName
proof
  fix n m v e
  assume ok: "validName n" "validName m"
  then show "getenv (snd (setenv True True (Some n) (Some v) 1 e)) m = (if m = n then Some v else getenv e m)"
    using names_unique [of m "n @ CHR ''='' # v" n] names_self [of n v]
    by (auto simp: setenv_appends getenv_append getenv_filter_same getenv_filter_other validName_def split: option.splits)
  from ok show "getenv (snd (unsetenv (Some n) e)) m = (if m = n then None else getenv e m)"
    by (auto simp: unsetenv_filter getenv_filter_same getenv_filter_other validName_def)
qed

text \<open>
  After any sequence of successful \<open>setenv(name, value, 1)\<close> calls with valid names,
  \<open>getenv\<close> gives for every name the value of the last call for it, and what it gave before
  for a name that was not set, whatever the environment held (several definitions of one name
  included); and a final \<open>unsetenv\<close> removes a name entirely.
\<close>

theorem setenv_getenv:
  assumes "list_all (\<lambda>(n, v). validName n) as" and "validName m"
  shows "let env' = fold (\<lambda>(n, v) e. snd (setenv True True (Some n) (Some v) 1 e)) as environ in
    getenv env' m = (case map_of (rev as) m of None \<Rightarrow> getenv environ m | Some v \<Rightarrow> Some v) \<and>
    getenv (snd (unsetenv (Some m) env')) m = None"
  using env.get_assign_all [OF assms(1,2), of environ] env.unset_after_assign [OF assms(1,2), of environ]
  unfolding Let_def by blast

theorem setenv_getenv_witness:
  "getenv (fold (\<lambda>(n, v) e. snd (setenv True True (Some n) (Some v) 1 e)) [(''A'', ''x''), (''AB'', ''y''), (''A'', ''z'')]
     [''A=1'', ''B=2'', ''A=3'']) ''A'' = Some ''z''"
  using setenv_getenv [unfolded Let_def, of "[(''A'', ''x''), (''AB'', ''y''), (''A'', ''z'')]" "''A''" "[''A=1'', ''B=2'', ''A=3'']"]
  by (simp add: validName_def)

text \<open>
  The error cases: an invalid name or a null value changes nothing and gives \<open>EINVAL\<close>;
  \<open>overwrite = 0\<close> changes nothing for a variable that exists. When memory runs out, however,
  the old definition is already gone: \<open>setenv\<close> fails with \<open>ENOMEM\<close> and the variable is no
  longer defined.
\<close>

theorem setenv_failures:
  "(badName name \<or> value = None \<longrightarrow> setenv mem room name value overwrite env = (Inl EINVAL, env)) \<and>
   (validName n \<and> getenv env n \<noteq> None \<longrightarrow> setenv mem room (Some n) (Some v) 0 env = (Inr (), env)) \<and>
   (validName n \<and> overwrite \<noteq> 0 \<longrightarrow>
      fst (setenv False room (Some n) (Some v) overwrite env) = Inl ENOMEM \<and>
      getenv (snd (setenv False room (Some n) (Some v) overwrite env)) n = None)"
  by (auto simp: setenv_def badName_iff unsetenv_filter getenv_filter_same)

theorem setenv_failures_witness:
  "getenv [''A=1''] ''A'' = Some ''1'' \<and>
   fst (setenv False True (Some ''A'') (Some ''2'') 1 [''A=1'']) = Inl ENOMEM \<and>
   getenv (snd (setenv False True (Some ''A'') (Some ''2'') 1 [''A=1''])) ''A'' = None"
  using setenv_failures [of None None False True 1 "[''A=1'']" "''A''" "''2''"]
  by (simp add: validName_def names_def strncmp0_def)

end
