(* ===== verification/SysVSem.thy ===== *)
theory SysVSem
  imports Prelude
begin

text \<open>
  System V semaphores and the two protocols built on them: the binary semaphores of
  \<open>svsem/binary_sems.c\<close> and the event flags of \<open>svsem/event_flags.c\<close>.

  A semaphore set is the list of its values and, for the calling process, the list of its
  undo adjustments. \<open>semop\<close> performs all its operations or none. A call that cannot proceed
  blocks; what happens to it is a list of events: a signal handler interrupts it, or the
  kernel tries it again on the values that the other processes have left. When the events
  are used up the call is still blocked, and the model returns \<open>None\<close>.
\<close>

section \<open>semop\<close>

type_synonym short = "16 word"

record sembuf =
  sem_num :: short
  sem_op :: short
  sem_flg :: short

abbreviation (input) IPC_NOWAIT :: short where "IPC_NOWAIT \<equiv> 2048"
abbreviation (input) SEM_UNDO :: short where "SEM_UNDO \<equiv> 4096"
abbreviation (input) SEMVMX :: int where "SEMVMX \<equiv> 32767"
abbreviation (input) EFBIG :: errno where "EFBIG \<equiv> 27"
abbreviation (input) EIDRM :: errno where "EIDRM \<equiv> 43"

record semset =
  semval :: "int list"
  semadj :: "int list"

datatype semres = Performed semset | WouldBlock | SemError errno

definition semop1 :: "sembuf \<Rightarrow> semset \<Rightarrow> semres" where
  "semop1 b s =
     (let i = unat (sem_num b); d = sint (sem_op b) in
      if length (semval s) \<le> i then SemError EFBIG
      else
        let v = semval s ! i + d in
        if (d = 0 \<and> v \<noteq> 0) \<or> v < 0 then (if sem_flg b AND IPC_NOWAIT \<noteq> 0 then SemError EAGAIN else WouldBlock)
        else if SEMVMX < v then SemError ERANGE
        else Performed (s\<lparr>semval := (semval s)[i := v],
                          semadj := (if sem_flg b AND SEM_UNDO \<noteq> 0
                                     then (semadj s)[i := semadj s ! i - d] else semadj s)\<rparr>))"

fun semop :: "sembuf list \<Rightarrow> semset \<Rightarrow> semres" where
  "semop [] s = Performed s"
| "semop (b # bs) s =
     (case semop1 b s of
        Performed t \<Rightarrow> semop bs t
      | WouldBlock \<Rightarrow> WouldBlock
      | SemError e \<Rightarrow> SemError e)"

text \<open>\<open>semctl(id, n, SETVAL, v)\<close> also clears the undo adjustment.\<close>

definition semctl_SETVAL :: "nat \<Rightarrow> int \<Rightarrow> semset \<Rightarrow> (errno + unit) \<times> semset" where
  "semctl_SETVAL n v s =
     (if length (semval s) \<le> n then (Inl EINVAL, s)
      else (Inr (), s\<lparr>semval := (semval s)[n := v], semadj := (semadj s)[n := 0]\<rparr>))"

definition semctl_GETVAL :: "nat \<Rightarrow> semset \<Rightarrow> errno + int" where
  "semctl_GETVAL n s = (if length (semval s) \<le> n then Inl EINVAL else Inr (semval s ! n))"

text \<open>What the kernel does with the undo adjustments when the process terminates.\<close>

definition exit_undo :: "semset \<Rightarrow> semset" where
  "exit_undo s = s\<lparr>semval := map2 (+) (semval s) (semadj s), semadj := map (\<lambda>_. 0) (semadj s)\<rparr>"

text \<open>
  One call of \<open>semop\<close> that may block. \<open>Retry vals\<close>: the other processes have left the values
  \<open>vals\<close>, and the kernel tries the operation on them.
\<close>

datatype sem_event = Signal | Retry "int list"

fun semop_call :: "sembuf list \<Rightarrow> sem_event list \<Rightarrow> semset \<Rightarrow> ((errno + unit) \<times> sem_event list \<times> semset) option" where
  "semop_call bs [] s = None"
| "semop_call bs (Signal # es) s = Some (Inl EINTR, es, s)"
| "semop_call bs (Retry vals # es) s =
     (case semop bs (s\<lparr>semval := vals\<rparr>) of
        Performed t \<Rightarrow> Some (Inr (), es, t)
      | SemError e \<Rightarrow> Some (Inl e, es, s\<lparr>semval := vals\<rparr>)
      | WouldBlock \<Rightarrow> semop_call bs es (s\<lparr>semval := vals\<rparr>))"

lemma semop_call_events: "semop_call bs es s = Some (r, es', t) \<Longrightarrow> length es' < length es"
proof (induction bs es s rule: semop_call.induct)
  case (3 bs vals es s)
  then show ?case by (auto split: semres.splits)
qed auto

section \<open>Binary semaphores\<close>

definition initSemAvailable :: "nat \<Rightarrow> semset \<Rightarrow> (errno + unit) \<times> semset" where
  "initSemAvailable semNum s = semctl_SETVAL semNum 1 s"

definition initSemInUse :: "nat \<Rightarrow> semset \<Rightarrow> (errno + unit) \<times> semset" where
  "initSemInUse semNum s = semctl_SETVAL semNum 0 s"

definition reserveOp :: "bool \<Rightarrow> nat \<Rightarrow> sembuf" where
  "reserveOp bsUseSemUndo semNum =
     \<lparr>sem_num = of_nat semNum, sem_op = -1, sem_flg = (if bsUseSemUndo then SEM_UNDO else 0)\<rparr>"

definition releaseOp :: "bool \<Rightarrow> nat \<Rightarrow> sembuf" where
  "releaseOp bsUseSemUndo semNum =
     \<lparr>sem_num = of_nat semNum, sem_op = 1, sem_flg = (if bsUseSemUndo then SEM_UNDO else 0)\<rparr>"

function reserveSem :: "bool \<Rightarrow> bool \<Rightarrow> nat \<Rightarrow> sem_event list \<Rightarrow> semset
    \<Rightarrow> ((errno + unit) \<times> sem_event list \<times> semset) option" where
  "reserveSem bsUseSemUndo bsRetryOnEintr semNum es s =
     (case semop_call [reserveOp bsUseSemUndo semNum] es s of
        None \<Rightarrow> None
      | Some (Inl e, es', t) \<Rightarrow>
          if e \<noteq> EINTR \<or> \<not> bsRetryOnEintr then Some (Inl e, es', t)
          else reserveSem bsUseSemUndo bsRetryOnEintr semNum es' t
      | Some (Inr _, es', t) \<Rightarrow> Some (Inr (), es', t))"
  by pat_completeness auto
termination
  by (relation "measure (\<lambda>(_, _, _, es, _). length es)") (auto dest: semop_call_events)

declare reserveSem.simps [simp del]

definition releaseSem :: "bool \<Rightarrow> nat \<Rightarrow> sem_event list \<Rightarrow> semset
    \<Rightarrow> ((errno + unit) \<times> sem_event list \<times> semset) option" where
  "releaseSem bsUseSemUndo semNum es s = semop_call [releaseOp bsUseSemUndo semNum] es s"

section \<open>Event flags\<close>

text \<open>A flag is set when its semaphore is 0.\<close>

definition waitOp :: "nat \<Rightarrow> sembuf" where
  "waitOp semNum = \<lparr>sem_num = of_nat semNum, sem_op = 0, sem_flg = 0\<rparr>"

function waitForEventFlag :: "nat \<Rightarrow> sem_event list \<Rightarrow> semset
    \<Rightarrow> ((errno + unit) \<times> sem_event list \<times> semset) option" where
  "waitForEventFlag semNum es s =
     (case semop_call [waitOp semNum] es s of
        None \<Rightarrow> None
      | Some (Inl e, es', t) \<Rightarrow>
          if e \<noteq> EINTR then Some (Inl e, es', t) else waitForEventFlag semNum es' t
      | Some (Inr _, es', t) \<Rightarrow> Some (Inr (), es', t))"
  by pat_completeness auto
termination
  by (relation "measure (\<lambda>(_, es, _). length es)") (auto dest: semop_call_events)

declare waitForEventFlag.simps [simp del]

definition clearEventFlag :: "nat \<Rightarrow> semset \<Rightarrow> (errno + unit) \<times> semset" where
  "clearEventFlag semNum s = semctl_SETVAL semNum 1 s"

definition setEventFlag :: "nat \<Rightarrow> semset \<Rightarrow> (errno + unit) \<times> semset" where
  "setEventFlag semNum s = semctl_SETVAL semNum 0 s"

definition getFlagState :: "nat \<Rightarrow> semset \<Rightarrow> errno + bool" where
  "getFlagState semNum s =
     (case semctl_GETVAL semNum s of Inl e \<Rightarrow> Inl e | Inr v \<Rightarrow> Inr (v = 0))"

section \<open>What the operations do\<close>

definition sem_exists :: "nat \<Rightarrow> semset \<Rightarrow> bool" where
  "sem_exists n s \<longleftrightarrow> n < length (semval s) \<and> n < 65536 \<and> length (semadj s) = length (semval s)"

lemma unat_short [simp]: "n < 65536 \<Longrightarrow> unat (of_nat n :: short) = n"
  by (simp add: unat_of_nat)

lemma sint_short_minus_1 [simp]: "sint (- 1 :: short) = -1"
  by simp

lemma semop_reserve:
  assumes "sem_exists n s" "0 \<le> semval s ! n" "semval s ! n \<le> SEMVMX + 1"
  shows "semop [reserveOp u n] s =
    (if semval s ! n = 0 then WouldBlock
     else Performed (s\<lparr>semval := (semval s)[n := semval s ! n - 1],
                       semadj := (if u then (semadj s)[n := semadj s ! n + 1] else semadj s)\<rparr>))"
  using assms by (auto simp: semop1_def reserveOp_def Let_def sem_exists_def)

lemma semop_release:
  assumes "sem_exists n s" "0 \<le> semval s ! n" "semval s ! n < SEMVMX"
  shows "semop [releaseOp u n] s =
    Performed (s\<lparr>semval := (semval s)[n := semval s ! n + 1],
                  semadj := (if u then (semadj s)[n := semadj s ! n - 1] else semadj s)\<rparr>)"
  using assms by (auto simp: semop1_def releaseOp_def Let_def sem_exists_def)

lemma semop_wait:
  assumes "sem_exists n s" "0 \<le> semval s ! n"
  shows "semop [waitOp n] s = (if semval s ! n = 0 then Performed s else WouldBlock)"
proof -
  have "semval s ! n = 0 \<Longrightarrow> s\<lparr>semval := (semval s)[n := 0]\<rparr> = s"
    by (metis list_update_id semset.surjective semset.update_convs(1))
  then show ?thesis using assms by (auto simp: semop1_def waitOp_def Let_def sem_exists_def)
qed

text \<open>Events after which a reservation of semaphore \<open>n\<close> still has to wait.\<close>

definition still_waiting :: "nat \<Rightarrow> nat \<Rightarrow> sem_event \<Rightarrow> bool" where
  "still_waiting len n e = (case e of Signal \<Rightarrow> True | Retry vals \<Rightarrow> length vals = len \<and> vals ! n = 0)"

definition after_event :: "sem_event \<Rightarrow> semset \<Rightarrow> semset" where
  "after_event e s = (case e of Signal \<Rightarrow> s | Retry v \<Rightarrow> s\<lparr>semval := v\<rparr>)"

lemma after_event_keeps:
  assumes "still_waiting (length (semval s)) n e" "sem_exists n s"
  shows "sem_exists n (after_event e s)" "length (semval (after_event e s)) = length (semval s)"
    "semadj (after_event e s) = semadj s" "(after_event e s)\<lparr>semval := v\<rparr> = s\<lparr>semval := v\<rparr>"
  using assms by (auto simp: after_event_def sem_exists_def still_waiting_def split: sem_event.splits)

lemma reserveSem_skip:
  assumes "still_waiting (length (semval s)) n e" "sem_exists n s"
  shows "reserveSem u True n (e # es) s = reserveSem u True n es (after_event e s)"
proof (cases e)
  case Signal
  then show ?thesis by (subst reserveSem.simps) (simp add: after_event_def)
next
  case (Retry v)
  let ?s = "s\<lparr>semval := v\<rparr>"
  have "sem_exists n ?s" "v ! n = 0"
    using assms Retry by (auto simp: sem_exists_def still_waiting_def)
  with semop_reserve [of n ?s u] have "semop [reserveOp u n] ?s = WouldBlock" by simp
  then show ?thesis
    using Retry by (subst (1 2) reserveSem.simps) (simp add: after_event_def del: semop.simps)
qed

lemma reserveSem_blocked:
  "list_all (still_waiting (length (semval s)) n) es \<Longrightarrow> sem_exists n s \<Longrightarrow> reserveSem u True n es s = None"
proof (induction es arbitrary: s)
  case Nil
  then show ?case by (simp add: reserveSem.simps)
next
  case (Cons e es)
  with after_event_keeps [of s n e] show ?case by (simp add: reserveSem_skip)
qed

lemma reserveSem_waits:
  assumes "list_all (still_waiting (length (semval s)) n) es" "sem_exists n s"
    and "length vals = length (semval s)" "0 < vals ! n" "vals ! n \<le> SEMVMX"
  shows "reserveSem u True n (es @ [Retry vals]) s =
    Some (Inr (), [], s\<lparr>semval := vals[n := vals ! n - 1],
                        semadj := (if u then (semadj s)[n := semadj s ! n + 1] else semadj s)\<rparr>)"
  using assms
proof (induction es arbitrary: s)
  case Nil
  have "sem_exists n (s\<lparr>semval := vals\<rparr>)" using Nil.prems by (simp add: sem_exists_def)
  from semop_reserve [OF this] Nil.prems show ?case by (simp add: reserveSem.simps del: semop.simps)
next
  case (Cons e es)
  then show ?case
    using after_event_keeps [of s n e] by (simp add: reserveSem_skip after_event_def split: sem_event.splits)
qed

text \<open>
  With \<open>bsRetryOnEintr\<close>, \<open>reserveSem\<close> survives every interruption: it returns success at
  the moment the semaphore is found available, having decremented it, and not before. With
  \<open>bsUseSemUndo\<close> a process that terminates while it holds the semaphore gives it back.
\<close>

theorem reserveSem_acquires:
  assumes "list_all (still_waiting (length (semval s)) n) es" and "sem_exists n s"
    and "length vals = length (semval s)" and "0 < vals ! n" and "vals ! n \<le> SEMVMX"
  shows "\<exists>t. reserveSem u True n (es @ [Retry vals]) s = Some (Inr (), [], t) \<and>
    semval t = vals[n := vals ! n - 1] \<and>
    (u \<and> semadj s ! n = 0 \<longrightarrow> semval (exit_undo t) ! n = vals ! n) \<and>
    reserveSem u True n es s = None"
  using reserveSem_waits [OF assms, of u] reserveSem_blocked [OF assms(1,2), of u] assms
  by (auto simp: exit_undo_def sem_exists_def)

theorem reserveSem_acquires_witness:
  "\<exists>t. reserveSem True True 1 [Signal, Retry [5, 0], Signal, Retry [4, 1]] \<lparr>semval = [5, 0], semadj = [0, 0]\<rparr> =
      Some (Inr (), [], t) \<and> semval t = [4, 0] \<and> semval (exit_undo t) ! 1 = 1"
  using reserveSem_acquires [of "\<lparr>semval = [5, 0], semadj = [0, 0]\<rparr>" 1 "[Signal, Retry [5, 0], Signal]" "[4, 1]" True]
  by (auto simp: still_waiting_def sem_exists_def)

section \<open>The contract of a counting semaphore\<close>

text \<open>
  What the clients rely on: a reservation is possible exactly when the value is positive and
  takes one unit, a release adds one, and the other semaphores do not change.
\<close>

locale semaphore =
  fixes val :: "'s \<Rightarrow> nat \<Rightarrow> int" and reserve :: "nat \<Rightarrow> 's \<Rightarrow> 's option"
    and release :: "nat \<Rightarrow> 's \<Rightarrow> 's option" and ok :: "nat \<Rightarrow> 's \<Rightarrow> bool" and lim :: int
  assumes reserve_blocks: "ok n s \<Longrightarrow> 0 \<le> val s n \<Longrightarrow> val s n \<le> lim \<Longrightarrow> reserve n s = None \<longleftrightarrow> val s n = 0"
    and reserve_val: "ok n s \<Longrightarrow> reserve n s = Some t \<Longrightarrow> val t m = (if m = n then val s n - 1 else val s m)"
    and release_possible: "ok n s \<Longrightarrow> 0 \<le> val s n \<Longrightarrow> val s n < lim \<Longrightarrow> release n s \<noteq> None"
    and release_val: "ok n s \<Longrightarrow> release n s = Some t \<Longrightarrow> val t m = (if m = n then val s n + 1 else val s m)"
    and ok_reserve: "ok n s \<Longrightarrow> reserve n s = Some t \<Longrightarrow> ok m t = ok m s"
    and ok_release: "ok n s \<Longrightarrow> release n s = Some t \<Longrightarrow> ok m t = ok m s"
    and val_nonneg: "ok n s \<Longrightarrow> reserve n s = Some t \<Longrightarrow> 0 < val s n"
begin

text \<open>Taking a unit of \<open>a\<close> and giving one to \<open>b\<close> moves it: the sum stays the same.\<close>

lemma hand_over:
  assumes "reserve a s = Some t" "release b t = Some u" "ok a s" "ok b s" "a \<noteq> b"
  shows "val u a + val u b = val s a + val s b" "val u a < val s a" "val s b < val u b"
  using reserve_val [OF assms(3,1)] release_val [OF _ assms(2)] ok_reserve [OF assms(3,1)] assms(4,5)
  by auto

end

text \<open>The moment at which \<open>reserveSem\<close> and \<open>releaseSem\<close> succeed, without \<open>SEM_UNDO\<close>.\<close>

definition performed :: "semres \<Rightarrow> semset option" where
  "performed r = (case r of Performed t \<Rightarrow> Some t | _ \<Rightarrow> None)"

definition semTake :: "nat \<Rightarrow> semset \<Rightarrow> semset option" where
  "semTake n s = performed (semop [reserveOp False n] s)"

definition semGive :: "nat \<Rightarrow> semset \<Rightarrow> semset option" where
  "semGive n s = performed (semop [releaseOp False n] s)"

lemma semTake_Some:
  assumes "sem_exists n s" "semTake n s = Some t"
  shows "t = s\<lparr>semval := (semval s)[n := semval s ! n - 1]\<rparr> \<and> 0 < semval s ! n"
  using assms
  by (auto simp: semTake_def performed_def semop1_def reserveOp_def Let_def sem_exists_def split: if_splits)

lemma semGive_Some:
  assumes "sem_exists n s" "semGive n s = Some t"
  shows "t = s\<lparr>semval := (semval s)[n := semval s ! n + 1]\<rparr>"
  using assms
  by (auto simp: semGive_def performed_def semop1_def releaseOp_def Let_def sem_exists_def split: if_splits)

lemma semTake_reserveSem:
  assumes "semTake n s = Some t"
  shows "reserveSem False r n [Retry (semval s)] s = Some (Inr (), [], t)"
  using assms
  by (auto simp: semTake_def performed_def reserveSem.simps split: semres.splits)

interpretation bs: semaphore "\<lambda>s n. semval s ! n" semTake semGive sem_exists SEMVMX
proof
  fix n m s t
  assume ok: "sem_exists n s"
  show "semTake n s = None \<longleftrightarrow> semval s ! n = 0" if "0 \<le> semval s ! n" "semval s ! n \<le> SEMVMX"
    using semop_reserve [OF ok, of False] that by (auto simp: semTake_def performed_def)
  show "semGive n s \<noteq> None" if "0 \<le> semval s ! n" "semval s ! n < SEMVMX"
    using semop_release [OF ok, of False] that by (auto simp: semGive_def performed_def)
  show "semval t ! m = (if m = n then semval s ! n - 1 else semval s ! m)"
    "sem_exists m t = sem_exists m s" "0 < semval s ! n" if "semTake n s = Some t"
    using semTake_Some [OF ok that] ok by (auto simp: sem_exists_def)
  show "semval t ! m = (if m = n then semval s ! n + 1 else semval s ! m)"
    "sem_exists m t = sem_exists m s" if "semGive n s = Some t"
    using semGive_Some [OF ok that] ok by (auto simp: sem_exists_def)
qed

end
