(* ===== verification/ShmTransfer.thy ===== *)
theory ShmTransfer
  imports SysVSem
begin

text \<open>
  The transfer of a file through shared memory by \<open>svshm/svshm_xfr_writer.c\<close> and
  \<open>svshm/svshm_xfr_reader.c\<close>. The two processes run interleaved: a step of the relation
  \<open>xfr_step\<close> is one statement of either process, chosen freely, and the program counters name
  the statements. \<open>reserveSem\<close> is a step that is possible when the semaphore is available.
  A \<open>read\<close> delivers any number of bytes up to the size of the buffer, or fails; a \<open>write\<close>
  writes all bytes or ends the reader.
\<close>

abbreviation (input) WRITE_SEM :: nat where "WRITE_SEM \<equiv> 0"
abbreviation (input) READ_SEM :: nat where "READ_SEM \<equiv> 1"
abbreviation (input) SHM_BUF_SIZE :: nat where "SHM_BUF_SIZE \<equiv> 1024"

datatype wpc = W_reserve | W_read | W_release | W_test | W_next | W_final | W_done | W_failed
datatype rpc = R_reserve | R_test | R_write | R_release | R_final | R_done | R_failed

record xfr =
  sems :: semset
  cnt :: int
  buf :: string
  stdin :: string
  stdout :: string
  wpc :: wpc
  rpc :: rpc
  wxfrs :: nat
  wbytes :: int
  rxfrs :: nat
  rbytes :: int

text \<open>
  The writer: the loop, and the last reservation after which it removes the IPC objects. The
  increment of the \<open>for\<close> statement reads \<open>cnt\<close> from the shared segment.
\<close>

inductive writer_step :: "xfr \<Rightarrow> xfr \<Rightarrow> bool" where
  w_reserve: "wpc s = W_reserve \<Longrightarrow> semTake WRITE_SEM (sems s) = Some t \<Longrightarrow>
     writer_step s (s\<lparr>sems := t, wpc := W_read\<rparr>)"
| w_read: "wpc s = W_read \<Longrightarrow> k \<le> SHM_BUF_SIZE \<Longrightarrow> k \<le> length (stdin s) \<Longrightarrow> k = 0 \<longleftrightarrow> stdin s = [] \<Longrightarrow>
     writer_step s (s\<lparr>cnt := int k, buf := take k (stdin s) @ drop k (buf s), stdin := drop k (stdin s),
                       wpc := W_release\<rparr>)"
| w_read_error: "wpc s = W_read \<Longrightarrow> writer_step s (s\<lparr>cnt := -1, wpc := W_failed\<rparr>)"
| w_release: "wpc s = W_release \<Longrightarrow> semGive READ_SEM (sems s) = Some t \<Longrightarrow>
     writer_step s (s\<lparr>sems := t, wpc := W_test\<rparr>)"
| w_test: "wpc s = W_test \<Longrightarrow> writer_step s (s\<lparr>wpc := (if cnt s = 0 then W_final else W_next)\<rparr>)"
| w_next: "wpc s = W_next \<Longrightarrow>
     writer_step s (s\<lparr>wxfrs := wxfrs s + 1, wbytes := wbytes s + cnt s, wpc := W_reserve\<rparr>)"
| w_final: "wpc s = W_final \<Longrightarrow> semTake WRITE_SEM (sems s) = Some t \<Longrightarrow>
     writer_step s (s\<lparr>sems := t, wpc := W_done\<rparr>)"

inductive reader_step :: "xfr \<Rightarrow> xfr \<Rightarrow> bool" where
  r_reserve: "rpc s = R_reserve \<Longrightarrow> semTake READ_SEM (sems s) = Some t \<Longrightarrow>
     reader_step s (s\<lparr>sems := t, rpc := R_test\<rparr>)"
| r_eof: "rpc s = R_test \<Longrightarrow> cnt s = 0 \<Longrightarrow> reader_step s (s\<lparr>rpc := R_final\<rparr>)"
| r_count: "rpc s = R_test \<Longrightarrow> cnt s \<noteq> 0 \<Longrightarrow> reader_step s (s\<lparr>rbytes := rbytes s + cnt s, rpc := R_write\<rparr>)"
| r_write: "rpc s = R_write \<Longrightarrow> reader_step s (s\<lparr>stdout := stdout s @ take (nat (cnt s)) (buf s), rpc := R_release\<rparr>)"
| r_write_error: "rpc s = R_write \<Longrightarrow> k < nat (cnt s) \<Longrightarrow>
     reader_step s (s\<lparr>stdout := stdout s @ take k (buf s), rpc := R_failed\<rparr>)"
| r_release: "rpc s = R_release \<Longrightarrow> semGive WRITE_SEM (sems s) = Some t \<Longrightarrow>
     reader_step s (s\<lparr>sems := t, rxfrs := rxfrs s + 1, rpc := R_reserve\<rparr>)"
| r_final: "rpc s = R_final \<Longrightarrow> semGive WRITE_SEM (sems s) = Some t \<Longrightarrow>
     reader_step s (s\<lparr>sems := t, rpc := R_done\<rparr>)"

definition xfr_step :: "xfr \<Rightarrow> xfr \<Rightarrow> bool" where
  "xfr_step s t \<longleftrightarrow> writer_step s t \<or> reader_step s t"

inductive xfr_run :: "nat \<Rightarrow> xfr \<Rightarrow> xfr \<Rightarrow> bool" where
  run_0: "xfr_run 0 s s"
| run_Suc: "xfr_run n s t \<Longrightarrow> xfr_step t u \<Longrightarrow> xfr_run (Suc n) s u"

text \<open>
  The state when both have been started: the writer has created and initialised the
  semaphores, whatever values they had.
\<close>

definition xfr_init :: "semset \<Rightarrow> int \<Rightarrow> string \<Rightarrow> string \<Rightarrow> xfr" where
  "xfr_init fresh junk_cnt junk_buf input =
     (let sm = snd (initSemInUse READ_SEM (snd (initSemAvailable WRITE_SEM fresh)))
      in \<lparr>sems = sm, cnt = junk_cnt, buf = junk_buf, stdin = input, stdout = [],
          wpc = W_reserve, rpc = R_reserve, wxfrs = 0, wbytes = 0, rxfrs = 0, rbytes = 0\<rparr>)"

section \<open>Invariant\<close>

abbreviation wsem :: "xfr \<Rightarrow> int" where "wsem s \<equiv> semval (sems s) ! WRITE_SEM"
abbreviation rsem :: "xfr \<Rightarrow> int" where "rsem s \<equiv> semval (sems s) ! READ_SEM"

text \<open>A block is in the buffer: the writer has filled it and the reader has not copied it.\<close>

definition block_ready :: "string \<Rightarrow> xfr \<Rightarrow> bool" where
  "block_ready data s \<longleftrightarrow>
     stdout s @ take (nat (cnt s)) (buf s) @ stdin s = data \<and> 0 \<le> cnt s \<and> cnt s \<le> int (length (buf s)) \<and> (cnt s = 0 \<longrightarrow> stdin s = [])"

text \<open>Where the writer can be while the reader has its turn.\<close>

definition writer_waits :: "xfr \<Rightarrow> bool" where
  "writer_waits s \<longleftrightarrow> wpc s = W_test \<or>
     (if cnt s = 0 then wpc s = W_final else wpc s = W_next \<or> wpc s = W_reserve)"

definition xfr_inv :: "string \<Rightarrow> xfr \<Rightarrow> bool" where
  "xfr_inv data s \<longleftrightarrow> sem_exists WRITE_SEM (sems s) \<and> sem_exists READ_SEM (sems s) \<and>
     (case rpc s of
        R_reserve \<Rightarrow>
          (wsem s = 1 \<and> rsem s = 0 \<and> stdout s @ stdin s = data \<and>
             (wpc s = W_reserve \<or> cnt s \<noteq> 0 \<and> (wpc s = W_test \<or> wpc s = W_next))) \<or>
          (wsem s = 0 \<and> rsem s = 0 \<and> stdout s @ stdin s = data \<and> (wpc s = W_read \<or> wpc s = W_failed)) \<or>
          (wsem s = 0 \<and> rsem s = 0 \<and> block_ready data s \<and> wpc s = W_release) \<or>
          (wsem s = 0 \<and> rsem s = 1 \<and> block_ready data s \<and> writer_waits s)
      | R_test \<Rightarrow> wsem s = 0 \<and> rsem s = 0 \<and> block_ready data s \<and> writer_waits s
      | R_write \<Rightarrow> wsem s = 0 \<and> rsem s = 0 \<and> block_ready data s \<and> writer_waits s \<and> cnt s \<noteq> 0
      | R_release \<Rightarrow> wsem s = 0 \<and> rsem s = 0 \<and> stdout s @ stdin s = data \<and> writer_waits s \<and> cnt s \<noteq> 0
      | R_final \<Rightarrow> wsem s = 0 \<and> rsem s = 0 \<and> stdout s = data \<and> stdin s = [] \<and> writer_waits s \<and> cnt s = 0
      | R_done \<Rightarrow> rsem s = 0 \<and> stdout s = data \<and> stdin s = [] \<and> cnt s = 0 \<and>
          (if wpc s = W_done then wsem s = 0 else wsem s = 1 \<and> writer_waits s)
      | R_failed \<Rightarrow> wsem s = 0 \<and> rsem s = 0 \<and> (\<exists>r. stdout s @ r = data) \<and> writer_waits s \<and> cnt s \<noteq> 0)"

lemma init_inv:
  assumes "length (semval fresh) = 2" "length (semadj fresh) = 2"
  shows "xfr_inv input (xfr_init fresh c b input)"
  using assms
  by (simp add: xfr_inv_def xfr_init_def initSemInUse_def initSemAvailable_def semctl_SETVAL_def
      sem_exists_def Let_def)

lemma sem_taken:
  assumes "semTake n q = Some t" "sem_exists WRITE_SEM q" "sem_exists READ_SEM q" "n = WRITE_SEM \<or> n = READ_SEM"
  shows "sem_exists WRITE_SEM t" "sem_exists READ_SEM t" "0 < semval q ! n"
    "semval t ! m = (if m = n then semval q ! n - 1 else semval q ! m)"
  using assms bs.ok_reserve [of n q t] bs.val_nonneg [of n q t] bs.reserve_val [of n q t m] by auto

lemma sem_given:
  assumes "semGive n q = Some t" "sem_exists WRITE_SEM q" "sem_exists READ_SEM q" "n = WRITE_SEM \<or> n = READ_SEM"
  shows "sem_exists WRITE_SEM t" "sem_exists READ_SEM t"
    "semval t ! m = (if m = n then semval q ! n + 1 else semval q ! m)"
  using assms bs.ok_release [of n q t] bs.release_val [of n q t m] by auto

lemma writer_step_inv: "writer_step s t \<Longrightarrow> xfr_inv data s \<Longrightarrow> xfr_inv data t"
proof (induction rule: writer_step.induct)
  case (w_reserve s t)
  then show ?case using sem_taken [of WRITE_SEM "sems s" t]
    by (auto simp: xfr_inv_def writer_waits_def split: rpc.splits if_splits)
next
  case (w_read s k)
  then show ?case by (auto simp: xfr_inv_def writer_waits_def block_ready_def split: rpc.splits if_splits)
next
  case (w_read_error s)
  then show ?case by (auto simp: xfr_inv_def writer_waits_def split: rpc.splits if_splits)
next
  case (w_release s t)
  then show ?case using sem_given [of READ_SEM "sems s" t]
    by (auto simp: xfr_inv_def writer_waits_def block_ready_def split: rpc.splits if_splits)
next
  case (w_test s)
  then show ?case by (auto simp: xfr_inv_def writer_waits_def block_ready_def split: rpc.splits if_splits)
next
  case (w_next s)
  then show ?case by (auto simp: xfr_inv_def writer_waits_def block_ready_def split: rpc.splits if_splits)
next
  case (w_final s t)
  then show ?case using sem_taken [of WRITE_SEM "sems s" t]
    by (auto simp: xfr_inv_def writer_waits_def split: rpc.splits if_splits)
qed

lemma prefix_of_take: "k < n \<Longrightarrow> \<exists>d. take n xs = take k xs @ d"
  by (metis append_take_drop_id min.strict_order_iff take_take)

lemma reader_step_inv: "reader_step s t \<Longrightarrow> xfr_inv data s \<Longrightarrow> xfr_inv data t"
proof (induction rule: reader_step.induct)
  case (r_reserve s t)
  then show ?case using sem_taken [of READ_SEM "sems s" t]
    by (auto simp: xfr_inv_def writer_waits_def block_ready_def split: rpc.splits if_splits)
next
  case (r_eof s)
  then show ?case by (auto simp: xfr_inv_def writer_waits_def block_ready_def)
next
  case (r_count s)
  then show ?case by (auto simp: xfr_inv_def writer_waits_def block_ready_def)
next
  case (r_write s)
  then show ?case by (auto simp: xfr_inv_def writer_waits_def block_ready_def)
next
  case (r_write_error s k)
  then obtain d where "data = stdout s @ take k (buf s) @ d"
    using prefix_of_take [of k "nat (cnt s)" "buf s"] by (auto simp: xfr_inv_def block_ready_def)
  with r_write_error show ?case by (auto simp: xfr_inv_def writer_waits_def)
next
  case (r_release s t)
  then show ?case using sem_given [of WRITE_SEM "sems s" t]
    by (auto simp: xfr_inv_def writer_waits_def split: if_splits)
next
  case (r_final s t)
  then show ?case using sem_given [of WRITE_SEM "sems s" t]
    by (auto simp: xfr_inv_def writer_waits_def split: if_splits)
qed

lemma xfr_run_inv: "xfr_run n s t \<Longrightarrow> xfr_inv data s \<Longrightarrow> xfr_inv data t"
  by (induction rule: xfr_run.induct) (auto simp: xfr_step_def writer_step_inv reader_step_inv)

section \<open>Counting steps\<close>

text \<open>Every step moves exactly one of the two processes forward by one statement.\<close>

primrec wpos :: "wpc \<Rightarrow> nat" where
  "wpos W_reserve = 0" | "wpos W_read = 1" | "wpos W_release = 2" | "wpos W_test = 3"
| "wpos W_next = 4" | "wpos W_final = 4" | "wpos W_done = 5" | "wpos W_failed = 2"

primrec rpos :: "rpc \<Rightarrow> nat" where
  "rpos R_reserve = 0" | "rpos R_test = 1" | "rpos R_write = 2" | "rpos R_release = 3"
| "rpos R_final = 2" | "rpos R_done = 3" | "rpos R_failed = 3"

definition progress :: "xfr \<Rightarrow> nat" where
  "progress s = 5 * wxfrs s + wpos (wpc s) + 4 * rxfrs s + rpos (rpc s)"

lemma step_progress: "xfr_step s t \<Longrightarrow> progress t = Suc (progress s)"
  by (auto simp: xfr_step_def progress_def elim!: writer_step.cases reader_step.cases)

lemma run_progress: "xfr_run n s t \<Longrightarrow> progress t = progress s + n"
  by (induction rule: xfr_run.induct) (auto simp: step_progress)

text \<open>A completed transfer has moved at least one byte, on either side.\<close>

definition counted :: "string \<Rightarrow> xfr \<Rightarrow> bool" where
  "counted data s \<longleftrightarrow>
     wxfrs s + (if (wpc s = W_release \<or> wpc s = W_test \<or> wpc s = W_next) \<and> cnt s \<noteq> 0 then 1 else 0) +
       length (stdin s) \<le> length data \<and>
     rxfrs s + (if rpc s = R_release then 1 else 0) \<le> length (stdout s) \<and>
     (rpc s \<noteq> R_failed \<longrightarrow> rbytes s = int (length (stdout s)) + (if rpc s = R_write then cnt s else 0)) \<and>
     (wpc s \<noteq> W_failed \<longrightarrow> int (length data) = wbytes s + int (length (stdin s)) +
        (if wpc s = W_release \<or> wpc s = W_test \<or> wpc s = W_next then cnt s else 0))"

lemma writer_step_counted: "writer_step s t \<Longrightarrow> xfr_inv data s \<Longrightarrow> counted data s \<Longrightarrow> counted data t"
proof (induction rule: writer_step.induct)
  case (w_read s k)
  then have "rpc s \<noteq> R_write" by (auto simp: xfr_inv_def writer_waits_def split: if_splits)
  with w_read show ?case by (auto simp: counted_def)
next
  case (w_read_error s)
  then have "rpc s \<noteq> R_write" by (auto simp: xfr_inv_def writer_waits_def split: if_splits)
  with w_read_error show ?case by (auto simp: counted_def)
next
  case (w_next s)
  then have "cnt s \<noteq> 0" by (auto simp: xfr_inv_def writer_waits_def split: rpc.splits if_splits)
  with w_next show ?case by (auto simp: counted_def)
qed (auto simp: counted_def)

lemma reader_step_counted:
  "reader_step s t \<Longrightarrow> xfr_inv data s \<Longrightarrow> counted data s \<Longrightarrow> counted data t"
proof (induction rule: reader_step.induct)
  case (r_write s)
  then have "cnt s \<noteq> 0" "0 \<le> cnt s" "cnt s \<le> int (length (buf s))" by (auto simp: xfr_inv_def block_ready_def)
  with r_write show ?case by (auto simp: counted_def)
qed (auto simp: counted_def split: if_splits)

lemma run_counted: "xfr_run n s t \<Longrightarrow> xfr_inv data s \<Longrightarrow> counted data s \<Longrightarrow> counted data t"
  by (induction rule: xfr_run.induct)
    (auto simp: xfr_step_def xfr_run_inv writer_step_counted reader_step_counted)

lemma stdout_bounded: "xfr_inv data s \<Longrightarrow> length (stdout s) \<le> length data"
  by (auto simp: xfr_inv_def block_ready_def split: rpc.splits)

lemma run_bounded:
  assumes "xfr_run n (xfr_init fresh c b input) s" "length (semval fresh) = 2" "length (semadj fresh) = 2"
  shows "n \<le> 9 * length input + 8"
proof -
  have i: "xfr_inv input s" using xfr_run_inv [OF assms(1)] init_inv [OF assms(2,3)] by blast
  have "counted input s"
    using run_counted [OF assms(1) init_inv [OF assms(2,3)]] by (simp add: counted_def xfr_init_def Let_def)
  then have "wxfrs s \<le> length input" "rxfrs s \<le> length (stdout s)" by (auto simp: counted_def)
  moreover have "wpos (wpc s) \<le> 5" "rpos (rpc s) \<le> 3" by (cases "wpc s"; simp) (cases "rpc s"; simp)
  moreover have "progress s = n" using run_progress [OF assms(1)] by (simp add: progress_def xfr_init_def Let_def)
  ultimately show ?thesis using stdout_bounded [OF i] by (simp add: progress_def)
qed

text \<open>As long as no system call fails, some process can move until both are done.\<close>

lemma not_stuck:
  assumes "xfr_inv data s" "wpc s \<noteq> W_failed" "rpc s \<noteq> R_failed" "wpc s \<noteq> W_done \<or> rpc s \<noteq> R_done"
  shows "\<exists>t. xfr_step s t"
proof (rule ccontr)
  assume "\<nexists>t. xfr_step s t"
  then have nw: "\<And>t. \<not> writer_step s t" and nr: "\<And>t. \<not> reader_step s t" by (auto simp: xfr_step_def)
  have ex: "sem_exists WRITE_SEM (sems s)" "sem_exists READ_SEM (sems s)"
    using assms(1) by (auto simp: xfr_inv_def)
  have bound: "wsem s = 0 \<or> wsem s = 1" "rsem s = 0 \<or> rsem s = 1"
    using assms(1) by (auto simp: xfr_inv_def split: rpc.splits if_splits)
  have give: "semGive WRITE_SEM (sems s) \<noteq> None" "semGive READ_SEM (sems s) \<noteq> None"
    using bs.release_possible [OF ex(1)] bs.release_possible [OF ex(2)] bound by auto
  have take: "semTake WRITE_SEM (sems s) = None \<longleftrightarrow> wsem s = 0" "semTake READ_SEM (sems s) = None \<longleftrightarrow> rsem s = 0"
    using bs.reserve_blocks [OF ex(1)] bs.reserve_blocks [OF ex(2)] bound by auto
  have w: "wpc s = W_reserve \<or> wpc s = W_final \<or> wpc s = W_done"
    using nw give w_read_error [of s] w_test [of s] w_next [of s] w_release [of s] assms(2)
    by (cases "wpc s") auto
  have r: "rpc s = R_reserve \<or> rpc s = R_done"
    using nr give r_eof [of s] r_count [of s] r_write [of s] r_release [of s] r_final [of s] assms(3)
    by (cases "rpc s") auto
  from w r assms show False
    using nw nr take w_reserve [of s] w_final [of s] r_reserve [of s]
    by (fastforce simp: xfr_inv_def writer_waits_def split: if_splits)
qed

text \<open>
  C4. In every interleaving of the writer and the reader, with every choice of block sizes,
  the two never use the shared buffer at the same time, what the reader has written is
  always a prefix of the writer's input, and when the reader has finished it is the whole
  input. The numbers of bytes that the two report are the length of the input, although the
  writer reads \<open>cnt\<close> from the segment again after it has given the reader its turn. (The
  counters are mathematical integers; an \<open>int\<close> holds them for an input of up to \<open>INT_MAX\<close>
  bytes.)
\<close>

theorem transfer_correct:
  assumes "xfr_run n (xfr_init fresh c b input) s" and "length (semval fresh) = 2" and "length (semadj fresh) = 2"
  shows "\<not> (wpc s \<in> {W_read, W_release} \<and> rpc s \<in> {R_test, R_write, R_release}) \<and>
    (\<exists>r. stdout s @ r = input) \<and>
    (rpc s = R_done \<longrightarrow> stdout s = input \<and> rbytes s = int (length input)) \<and>
    (wpc s = W_done \<longrightarrow> stdout s = input \<and> wbytes s = int (length input))"
proof -
  have i: "xfr_inv input s" using xfr_run_inv [OF assms(1)] init_inv [OF assms(2,3)] by blast
  have "counted input s"
    using run_counted [OF assms(1) init_inv [OF assms(2,3)]] by (simp add: counted_def xfr_init_def Let_def)
  then have c: "rpc s = R_done \<Longrightarrow> rbytes s = int (length (stdout s))"
    "wpc s = W_done \<Longrightarrow> int (length input) = wbytes s + int (length (stdin s))"
    unfolding counted_def by simp_all
  have "\<not> (wpc s \<in> {W_read, W_release} \<and> rpc s \<in> {R_test, R_write, R_release})"
    using i by (cases "rpc s") (auto simp: xfr_inv_def writer_waits_def split: if_splits)
  moreover have "\<exists>r. stdout s @ r = input" using i by (cases "rpc s") (auto simp: xfr_inv_def block_ready_def)
  moreover have "rpc s = R_done \<Longrightarrow> stdout s = input" using i by (simp add: xfr_inv_def)
  moreover have "wpc s = W_done \<Longrightarrow> stdout s = input \<and> stdin s = []"
    using i by (cases "rpc s") (auto simp: xfr_inv_def writer_waits_def split: if_splits)
  ultimately show ?thesis using c by auto
qed

text \<open>
  The transfer comes to an end: no interleaving has more than \<open>9 * length input + 8\<close>
  steps, and as long as no \<open>read\<close> or \<open>write\<close> has failed and the two processes have not both
  finished, one of them can go on. So every run without such a failure ends with both
  finished.
\<close>

theorem transfer_terminates:
  assumes "xfr_run n (xfr_init fresh c b input) s" and "length (semval fresh) = 2" and "length (semadj fresh) = 2"
  shows "n \<le> 9 * length input + 8 \<and>
    (wpc s \<noteq> W_failed \<and> rpc s \<noteq> R_failed \<and> (\<nexists>t. xfr_step s t) \<longrightarrow> wpc s = W_done \<and> rpc s = R_done)"
  using run_bounded [OF assms] xfr_run_inv [OF assms(1)] init_inv [OF assms(2,3)] not_stuck [of input s] by blast

section \<open>Running a schedule\<close>

text \<open>
  An executable scheduler: \<open>Wr k\<close> lets the writer do one statement (a \<open>read\<close> delivers \<open>k\<close>
  bytes), \<open>Rd\<close> the reader.
\<close>

datatype sched = Wr nat | Rd

definition sched_step :: "sched \<Rightarrow> xfr \<Rightarrow> xfr option" where
  "sched_step c s =
     (case c of
        Wr k \<Rightarrow>
          (case wpc s of
             W_reserve \<Rightarrow> map_option (\<lambda>t. s\<lparr>sems := t, wpc := W_read\<rparr>) (semTake WRITE_SEM (sems s))
           | W_read \<Rightarrow>
               if k \<le> SHM_BUF_SIZE \<and> k \<le> length (stdin s) \<and> (k = 0 \<longleftrightarrow> stdin s = [])
               then Some (s\<lparr>cnt := int k, buf := take k (stdin s) @ drop k (buf s), stdin := drop k (stdin s),
                            wpc := W_release\<rparr>)
               else None
           | W_release \<Rightarrow> map_option (\<lambda>t. s\<lparr>sems := t, wpc := W_test\<rparr>) (semGive READ_SEM (sems s))
           | W_test \<Rightarrow> Some (s\<lparr>wpc := (if cnt s = 0 then W_final else W_next)\<rparr>)
           | W_next \<Rightarrow> Some (s\<lparr>wxfrs := wxfrs s + 1, wbytes := wbytes s + cnt s, wpc := W_reserve\<rparr>)
           | W_final \<Rightarrow> map_option (\<lambda>t. s\<lparr>sems := t, wpc := W_done\<rparr>) (semTake WRITE_SEM (sems s))
           | _ \<Rightarrow> None)
      | Rd \<Rightarrow>
          (case rpc s of
             R_reserve \<Rightarrow> map_option (\<lambda>t. s\<lparr>sems := t, rpc := R_test\<rparr>) (semTake READ_SEM (sems s))
           | R_test \<Rightarrow> if cnt s = 0 then Some (s\<lparr>rpc := R_final\<rparr>)
                       else Some (s\<lparr>rbytes := rbytes s + cnt s, rpc := R_write\<rparr>)
           | R_write \<Rightarrow> Some (s\<lparr>stdout := stdout s @ take (nat (cnt s)) (buf s), rpc := R_release\<rparr>)
           | R_release \<Rightarrow> map_option (\<lambda>t. s\<lparr>sems := t, rxfrs := rxfrs s + 1, rpc := R_reserve\<rparr>)
                                (semGive WRITE_SEM (sems s))
           | R_final \<Rightarrow> map_option (\<lambda>t. s\<lparr>sems := t, rpc := R_done\<rparr>) (semGive WRITE_SEM (sems s))
           | _ \<Rightarrow> None))"

lemma sched_step_sound: "sched_step c s = Some t \<Longrightarrow> xfr_step s t"
  using w_test [of s] w_next [of s] r_release [of s]
  by (auto simp: sched_step_def xfr_step_def split: sched.splits wpc.splits rpc.splits if_splits
      intro: writer_step.intros reader_step.intros)

fun run_sched :: "sched list \<Rightarrow> xfr \<Rightarrow> xfr option" where
  "run_sched [] s = Some s"
| "run_sched (c # cs) s = (case sched_step c s of None \<Rightarrow> None | Some t \<Rightarrow> run_sched cs t)"

lemma run_sched_snoc:
  "run_sched (cs @ [c]) s = (case run_sched cs s of None \<Rightarrow> None | Some t \<Rightarrow> sched_step c t)"
  by (induction cs arbitrary: s) (auto split: option.splits)

lemma run_sched_sound: "run_sched cs s = Some t \<Longrightarrow> xfr_run (length cs) s t"
proof (induction cs arbitrary: t rule: rev_induct)
  case Nil
  then show ?case by (simp add: run_0)
next
  case (snoc c cs)
  then obtain u where "run_sched cs s = Some u" "sched_step c u = Some t"
    by (auto simp: run_sched_snoc split: option.splits)
  with snoc.IH show ?case by (auto intro: run_Suc sched_step_sound)
qed

definition demo_sems :: semset where "demo_sems = \<lparr>semval = [7, 3], semadj = [0, 0]\<rparr>"

definition demo_schedule :: "sched list" where
  "demo_schedule = [Wr 0, Wr 2, Wr 0, Rd, Rd, Wr 0, Rd, Wr 0, Rd, Wr 0, Wr 1, Wr 0, Rd, Rd, Rd, Rd,
     Wr 0, Wr 0, Wr 0, Wr 0, Wr 0, Wr 0, Rd, Rd, Rd, Wr 0]"

theorem transfer_correct_witness:
  "\<exists>s. run_sched demo_schedule (xfr_init demo_sems 9 ''junk'' ''abc'') = Some s \<and> rpc s = R_done \<and>
     stdout s = ''abc'' \<and> rbytes s = 3"
proof -
  define r where "r = run_sched demo_schedule (xfr_init demo_sems 9 ''junk'' ''abc'')"
  have "map_option rpc r = Some R_done" unfolding r_def by code_simp
  then obtain s where s: "run_sched demo_schedule (xfr_init demo_sems 9 ''junk'' ''abc'') = Some s" "rpc s = R_done"
    unfolding r_def by auto
  from transfer_correct [OF run_sched_sound [OF s(1)]] s show ?thesis
    by (simp add: demo_sems_def)
qed

theorem transfer_terminates_witness:
  "length demo_schedule \<le> 9 * length ''abc'' + 8"
proof -
  define r where "r = run_sched demo_schedule (xfr_init demo_sems 9 ''junk'' ''abc'')"
  have "map_option rpc r = Some R_done" unfolding r_def by code_simp
  then obtain s where s: "run_sched demo_schedule (xfr_init demo_sems 9 ''junk'' ''abc'') = Some s"
    unfolding r_def by auto
  from transfer_terminates [OF run_sched_sound [OF s]] show ?thesis
    by (simp add: demo_sems_def)
qed

end
