(* ===== verification/SemOps.thy ===== *)
theory SemOps
  imports SysVSem GetNum
begin

text \<open>
  \<open>svsem/svsem_op.c\<close>: \<open>parseOps\<close>, which reads a list of semaphore operations such as
  \<open>0+1,1-2un\<close>, and \<open>main\<close>, which performs the operations of each argument with one \<open>semop\<close>.
  The fields of \<open>struct sembuf\<close> have 16 bits, and the values of \<open>strtol\<close> are stored in them
  without a check.
\<close>

abbreviation (input) MAX_SEMOPS :: nat where "MAX_SEMOPS \<equiv> 1000"

text \<open>The loop over the flag characters: the flags, and the text after them.\<close>

fun flagLoop :: "string \<Rightarrow> short \<Rightarrow> short \<times> string" where
  "flagLoop [] flg = (flg, [])"
| "flagLoop (c # cs) flg =
     (if c = CHR ''n'' then flagLoop cs (flg OR IPC_NOWAIT)
      else if c = CHR ''u'' then flagLoop cs (flg OR SEM_UNDO)
      else (flg, c # cs))"

text \<open>
  One operation at the start of \<open>remaining\<close>: the operation, and the text at \<open>flags\<close>. The
  program ends with a diagnostic (\<open>None\<close>) on any other text.
\<close>

definition parseOp :: "string \<Rightarrow> (sembuf \<times> string) option" where
  "parseOp remaining =
     (case remaining of
        [] \<Rightarrow> None
      | c # _ \<Rightarrow>
          if \<not> isdigitb 10 c then None
          else
            let (num, sign, _) = strtol remaining 10 in
            (case sign of
               [] \<Rightarrow> None
             | sg # rest \<Rightarrow>
                 if sg \<notin> set ''+-='' then None
                 else if rest = [] \<or> \<not> isdigitb 10 (hd rest) then None
                 else
                   let (v, flags, _) = strtol rest 10;
                       op = (word_of_int v :: short);
                       op = (if sg = CHR ''-'' then - op else op);
                       (flg, rest') = flagLoop flags 0
                   in if sg = CHR ''='' \<and> op \<noteq> 0 then None
                      else if rest' \<noteq> [] \<and> hd rest' \<noteq> CHR '','' then None
                      else Some (\<lparr>sem_num = word_of_int num, sem_op = op, sem_flg = flg\<rparr>, rest')))"

text \<open>
  The loop of \<open>parseOps\<close>: \<open>sops\<close> holds the operations stored so far. The next operation
  starts after the first comma of \<open>remaining\<close>.
\<close>

function parseLoop :: "string \<Rightarrow> sembuf list \<Rightarrow> sembuf list res" where
  "parseLoop remaining sops =
     (if MAX_SEMOPS \<le> length sops then Exit EXIT_FAILURE
      else case parseOp remaining of
        None \<Rightarrow> Exit EXIT_FAILURE
      | Some (b, _) \<Rightarrow>
          (case strchr remaining (CHR '','') of
             None \<Rightarrow> Ret (sops @ [b])
           | Some (_, rest) \<Rightarrow> parseLoop rest (sops @ [b])))"
  by pat_completeness auto
termination by (relation "measure (\<lambda>(r, _). length r)") (auto simp: cstr_simps)

declare parseLoop.simps [simp del]

definition parseOps :: "string \<Rightarrow> sembuf list res" where
  "parseOps arg = parseLoop arg []"

text \<open>
  \<open>main\<close> over the arguments after the identifier \<open>argv1\<close>: each is parsed and performed, in
  order, on the semaphore set that the identifier names; a call that fails or cannot proceed
  ends the loop. The identifier is read with \<open>getInt\<close> for every call.
\<close>

datatype sem_main = AllDone semset | Stopped semset | Blocked semset

fun svsem_op_main :: "(int \<Rightarrow> bool) \<Rightarrow> string \<Rightarrow> string list \<Rightarrow> semset \<Rightarrow> sem_main" where
  "svsem_op_main semid_ok argv1 [] s = AllDone s"
| "svsem_op_main semid_ok argv1 (a # as) s =
     (case parseOps a of
        Ret sops \<Rightarrow>
          (case getInt (Some argv1) 0 (Some ''semid'') of
             Inl _ \<Rightarrow> Stopped s
           | Inr semid \<Rightarrow>
               if \<not> semid_ok semid then Stopped s
               else (case semop sops s of
                       Performed t \<Rightarrow> svsem_op_main semid_ok argv1 as t
                     | WouldBlock \<Rightarrow> Blocked s
                     | SemError e \<Rightarrow> Stopped s))
      | _ \<Rightarrow> Stopped s)"

section \<open>Printing and reading back\<close>

definition show_flags :: "short \<Rightarrow> string" where
  "show_flags f = (if f AND IPC_NOWAIT \<noteq> 0 then ''n'' else []) @ (if f AND SEM_UNDO \<noteq> 0 then ''u'' else [])"

definition show_op :: "sembuf \<Rightarrow> string" where
  "show_op b = show_nat (unat (sem_num b)) @
     (if sint (sem_op b) < 0 then CHR ''-'' # show_nat (nat (- sint (sem_op b)))
      else CHR ''+'' # show_nat (nat (sint (sem_op b)))) @ show_flags (sem_flg b)"

fun show_ops :: "sembuf list \<Rightarrow> string" where
  "show_ops [] = []"
| "show_ops [b] = show_op b"
| "show_ops (b # bs) = show_op b @ CHR '','' # show_ops bs"

definition known_flags :: "sembuf \<Rightarrow> bool" where
  "known_flags b \<longleftrightarrow> sem_flg b \<in> {0, IPC_NOWAIT, SEM_UNDO, IPC_NOWAIT OR SEM_UNDO}"

lemma show_nat_Cons: "\<exists>c cs. show_nat n = c # cs \<and> isdigitb 10 c"
  using show_nat_all_digits [of n] by (cases "show_nat n") auto

lemma flagLoop_show:
  assumes "known_flags b" "r = [] \<or> hd r = CHR '',''"
  shows "flagLoop (show_flags (sem_flg b) @ r) 0 = (sem_flg b, r)"
  using assms by (cases r) (auto simp: known_flags_def show_flags_def)

lemma not_digit [simp]: "\<not> isdigitb 10 (CHR ''n'')" "\<not> isdigitb 10 (CHR ''u'')" "\<not> isdigitb 10 (CHR '','')"
  "\<not> isdigitb 10 (CHR ''+'')" "\<not> isdigitb 10 (CHR ''-'')"
  by (simp_all add: isdigitb_def digitval_def)

lemma flags_no_digit:
  "r = [] \<or> hd r = CHR '','' \<Longrightarrow> show_flags f @ r = [] \<or> \<not> isdigitb 10 (hd (show_flags f @ r))"
  by (auto simp: show_flags_def)

lemma short_range: "- 32768 \<le> sint w \<and> sint w < 32768" "uint w < 65536" for w :: short
  using sint_ge [of w] sint_lt [of w] unsigned_less [where ?'a = int, of w] by simp_all

lemma parseOp_show:
  assumes "known_flags b" "r = [] \<or> hd r = CHR '',''"
  shows "parseOp (show_op b @ r) = Some (b, r)"
proof -
  let ?n = "show_nat (unat (sem_num b))" and ?v = "sint (sem_op b)"
  let ?sg = "if ?v < 0 then CHR ''-'' else CHR ''+''" and ?d = "show_nat (nat \<bar>?v\<bar>)"
  let ?f = "show_flags (sem_flg b) @ r"
  have s: "show_op b @ r = ?n @ ?sg # ?d @ ?f" by (simp add: show_op_def)
  have num: "strtol (?n @ ?sg # ?d @ ?f) 10 = (uint (sem_num b), ?sg # ?d @ ?f, False)"
    using short_range(2) [of "sem_num b"] strtol_show_nat [of "unat (sem_num b)" "?sg # ?d @ ?f"] by simp
  have val: "strtol (?d @ ?f) 10 = (\<bar>?v\<bar>, ?f, False)"
  proof -
    have "int (nat \<bar>?v\<bar>) \<le> LONG_MAX" using short_range(1) [of "sem_op b"] by (simp add: abs_if)
    from strtol_show_nat [OF this flags_no_digit [OF assms(2)]] show ?thesis by simp
  qed
  have op: "(if ?v < 0 then - word_of_int \<bar>?v\<bar> else word_of_int \<bar>?v\<bar>) = sem_op b"
    by (simp add: wi_hom_neg)
  obtain c cs where c: "?n = c # cs" "isdigitb 10 c" using show_nat_Cons by blast
  obtain e es where e: "?d = e # es" "isdigitb 10 e" using show_nat_Cons by blast
  show ?thesis
    unfolding s using num val op c e flagLoop_show [OF assms] assms(2)
    by (auto simp: parseOp_def Let_def)
qed

lemma show_op_no_comma: "CHR '','' \<notin> set (show_op b)"
proof -
  have "CHR '','' \<notin> set (show_nat n)" for n
    using show_nat_all_digits [of n] by (auto simp: list_all_iff)
  then show ?thesis by (auto simp: show_op_def show_flags_def)
qed

lemma parseLoop_show:
  assumes "bs \<noteq> []" "list_all known_flags bs" "length sops + length bs \<le> MAX_SEMOPS"
  shows "parseLoop (show_ops bs) sops = Ret (sops @ bs)"
  using assms
proof (induction bs arbitrary: sops rule: show_ops.induct)
  case (2 b)
  have "strchr (show_op b) (CHR '','') = None" using show_op_no_comma by (simp add: strchr_None)
  with 2 parseOp_show [of b "[]"] show ?case by (subst parseLoop.simps) simp
next
  case (3 b b' bs)
  have c: "strchr (show_op b @ CHR '','' # r) (CHR '','') = Some (show_op b, r)" for r
    using show_op_no_comma by (simp add: strchr_Some)
  from 3 parseOp_show [of b "CHR '','' # show_ops (b' # bs)"] show ?case
    by (subst parseLoop.simps) (simp add: c)
qed simp

text \<open>
  \<open>parseOps\<close> reads back every list of up to 1000 semaphore operations that is written in
  the notation of the usage message: semaphore number, sign, amount, flags, with commas
  between the operations; and reading returns exactly the operations, in order.
\<close>

theorem parseOps_show:
  assumes "bs \<noteq> []" and "length bs \<le> MAX_SEMOPS" and "list_all known_flags bs"
  shows "parseOps (show_ops bs) = Ret bs"
  using parseLoop_show [of bs "[]"] assms by (simp add: parseOps_def)

theorem parseOps_show_witness:
  "parseOps ''0+1,1-2nu'' = Ret [\<lparr>sem_num = 0, sem_op = 1, sem_flg = 0\<rparr>,
     \<lparr>sem_num = 1, sem_op = -2, sem_flg = IPC_NOWAIT OR SEM_UNDO\<rparr>]"
proof -
  let ?bs = "[\<lparr>sem_num = 0, sem_op = 1, sem_flg = 0\<rparr>, \<lparr>sem_num = 1, sem_op = -2, sem_flg = IPC_NOWAIT OR SEM_UNDO\<rparr>]"
  have "show_ops ?bs = ''0+1,1-2nu''" by code_simp
  with parseOps_show [of ?bs] show ?thesis by (simp add: known_flags_def)
qed

text \<open>
  The amount after \<open>=\<close> is compared after it has been reduced to 16 bits, so every multiple of
  65536 is accepted there, as if it were 0.
\<close>

lemma parseOp_wraps:
  assumes "int n \<le> LONG_MAX" "int m \<le> LONG_MAX" "m mod 65536 = 0"
  shows "parseOp (show_nat n @ CHR ''='' # show_nat m) =
    Some (\<lparr>sem_num = of_nat n, sem_op = 0, sem_flg = 0\<rparr>, [])"
proof -
  have d: "\<not> isdigitb 10 (CHR ''='')" by (simp add: isdigitb_def digitval_def)
  have num: "strtol (show_nat n @ CHR ''='' # show_nat m) 10 = (int n, CHR ''='' # show_nat m, False)"
    using strtol_show_nat [OF assms(1), of "CHR ''='' # show_nat m"] d by simp
  have val: "strtol (show_nat m) 10 = (int m, [], False)"
    using strtol_show_nat [OF assms(2), of "[]"] by simp
  have op: "(of_nat m :: short) = 0"
    using assms(3) by (simp add: word_of_nat_eq_0_iff dvd_eq_mod_eq_0)
  obtain c cs where c: "show_nat n = c # cs" "isdigitb 10 c" using show_nat_Cons by blast
  obtain e es where e: "show_nat m = e # es" "isdigitb 10 e" using show_nat_Cons by blast
  show ?thesis using num val op c e by (auto simp: parseOp_def Let_def)
qed

end
