(* ===== verification/SeqNum.thy ===== *)
theory SeqNum
  imports GetNum
begin

text \<open>
  The sequence number service of \<open>pipes/fifo_seqnum_server.c\<close> and
  \<open>pipes/fifo_seqnum_client.c\<close>: clients ask through a FIFO for a number of consecutive
  sequence numbers, and the server answers with the first of them through a FIFO whose name
  is made from the client's process ID. The locale \<open>allocator\<close> states what such a service
  promises.
\<close>

section \<open>Messages and names\<close>

record request =
  req_pid :: int
  seqLen :: int

record response =
  resp_seqNum :: int

abbreviation (input) CLIENT_FIFO_NAME_LEN :: nat where "CLIENT_FIFO_NAME_LEN \<equiv> 19 + 20"

definition clientFifo :: "int \<Rightarrow> string" where
  "clientFifo pid = fst (snprintf CLIENT_FIFO_NAME_LEN (''/tmp/seqnum_cl.'' @ show_int pid))"

section \<open>The server\<close>

text \<open>
  One iteration of the endless loop. What the iteration meets: a complete request (or a
  partial read or an error, \<open>None\<close>), whether the client's FIFO can be opened, and whether the
  response can be written. The result is the new counter and the response that was delivered,
  with the FIFO it was delivered to. An addition beyond the range of \<open>int\<close> is undefined.
\<close>

record exchange =
  request_read :: "request option"
  fifo_opens :: "string \<Rightarrow> bool"
  response_written :: bool

definition serverStep :: "exchange \<Rightarrow> int \<Rightarrow> (string \<times> response) option res \<times> int" where
  "serverStep x seqNum =
     (case request_read x of
        None \<Rightarrow> (Ret None, seqNum)
      | Some req \<Rightarrow>
          let fifo = clientFifo (req_pid req) in
          if \<not> fifo_opens x fifo then (Ret None, seqNum)
          else
            let resp = \<lparr>resp_seqNum = seqNum\<rparr>;
                out = (if response_written x then Some (fifo, resp) else None);
                next = seqNum + seqLen req
            in if next < INT_MIN \<or> INT_MAX < next then (Undef, seqNum) else (Ret out, next))"

text \<open>The loop over a list of iterations: all deliveries with the requests they answer.\<close>

fun serverLoop :: "exchange list \<Rightarrow> int \<Rightarrow> (request \<times> string \<times> response) list res \<times> int" where
  "serverLoop [] seqNum = (Ret [], seqNum)"
| "serverLoop (x # xs) seqNum =
     (case serverStep x seqNum of
        (Ret out, n) \<Rightarrow>
          (case serverLoop xs n of
             (Ret outs, m) \<Rightarrow>
               (Ret (case (request_read x, out) of
                       (Some req, Some (f, r)) \<Rightarrow> (req, f, r) # outs
                     | _ \<Rightarrow> outs), m)
           | r \<Rightarrow> r)
      | (_, n) \<Rightarrow> (Undef, n))"

section \<open>The client\<close>

text \<open>
  \<open>main\<close> of the client up to the request: the name of its FIFO and the request, or the end of
  the program. \<open>mkfifo_error\<close> is the error of \<open>mkfifo\<close>, \<open>arg\<close> the optional argument.
\<close>

definition clientRequest :: "int \<Rightarrow> errno option \<Rightarrow> bool \<Rightarrow> string option \<Rightarrow> bool \<Rightarrow> bool \<Rightarrow> (string \<times> request) res" where
  "clientRequest pid mkfifo_error atexit_ok arg server_open request_written =
     (if mkfifo_error \<noteq> None \<and> mkfifo_error \<noteq> Some EEXIST then Exit EXIT_FAILURE
      else if \<not> atexit_ok then Exit EXIT_FAILURE
      else case (case arg of None \<Rightarrow> Inr 1 | Some a \<Rightarrow> getInt (Some a) GN_GT_0 (Some ''seq-len'')) of
        Inl e \<Rightarrow> Exit EXIT_FAILURE
      | Inr n \<Rightarrow>
          if \<not> server_open then Exit EXIT_FAILURE
          else if \<not> request_written then Exit EXIT_FAILURE
          else Ret (clientFifo pid, \<lparr>req_pid = pid, seqLen = n\<rparr>))"

text \<open>Reading the response: what the client prints.\<close>

definition clientResponse :: "bool \<Rightarrow> response option \<Rightarrow> string res" where
  "clientResponse own_open resp =
     (if \<not> own_open then Exit EXIT_FAILURE
      else case resp of None \<Rightarrow> Exit EXIT_FAILURE | Some r \<Rightarrow> Ret (show_int (resp_seqNum r) @ [CHR 0x0A]))"

section \<open>Names of FIFOs\<close>

lemma clientFifo_complete:
  assumes "INT_MIN \<le> pid" "pid \<le> INT_MAX"
  shows "clientFifo pid = ''/tmp/seqnum_cl.'' @ show_int pid"
  using length_show_int [OF assms] by (simp add: clientFifo_def snprintf_def)

lemma clientFifo_inj:
  assumes "clientFifo p = clientFifo q" "INT_MIN \<le> p" "p \<le> INT_MAX" "INT_MIN \<le> q" "q \<le> INT_MAX"
  shows "p = q"
proof -
  have "show_int p = show_int q" using assms(1) clientFifo_complete assms by simp
  then show ?thesis using atoi_show_int [OF assms(2,3), of "[]"] atoi_show_int [OF assms(4,5), of "[]"] by simp
qed

section \<open>The contract of the service\<close>

text \<open>
  The counter never goes back, and a grant starts at the counter and moves it beyond the
  granted numbers. Then the grants of a whole run never overlap.
\<close>

locale allocator =
  fixes step :: "'x \<Rightarrow> int \<Rightarrow> ((int \<times> int) option \<times> int) option" and ok :: "'x \<Rightarrow> bool"
  assumes step_mono: "step x n = Some (g, m) \<Longrightarrow> ok x \<Longrightarrow> n \<le> m"
    and step_grant: "step x n = Some (Some (a, len), m) \<Longrightarrow> ok x \<Longrightarrow> a = n \<and> m = n + len \<and> 0 < len"
begin

fun run :: "'x list \<Rightarrow> int \<Rightarrow> ((int \<times> int) list \<times> int) option" where
  "run [] n = Some ([], n)"
| "run (x # xs) n =
     (case step x n of
        None \<Rightarrow> None
      | Some (g, m) \<Rightarrow>
          map_option (\<lambda>(gs, k). (case g of None \<Rightarrow> gs | Some p \<Rightarrow> p # gs, k)) (run xs m))"

lemma run_bounds:
  assumes "run xs n = Some (gs, k)" "list_all ok xs"
  shows "n \<le> k \<and> (\<forall>(a, len) \<in> set gs. n \<le> a \<and> a + len \<le> k)"
  using assms
proof (induction xs arbitrary: n gs)
  case (Cons x xs)
  then obtain g m hs where s: "step x n = Some (g, m)" "run xs m = Some (hs, k)"
    "gs = (case g of None \<Rightarrow> hs | Some p \<Rightarrow> p # hs)"
    by (auto split: option.splits prod.splits)
  with Cons.IH [of m hs] Cons.prems step_mono [of x n g m] step_grant [of x n _ _ m]
  show ?case by (fastforce split: option.splits)
qed simp

lemma run_disjoint:
  assumes "run xs n = Some (gs, k)" "list_all ok xs"
  shows "sorted_wrt (\<lambda>(a, len) (b, len'). a + len \<le> b) gs"
  using assms
proof (induction xs arbitrary: n gs)
  case (Cons x xs)
  then obtain g m hs where s: "step x n = Some (g, m)" "run xs m = Some (hs, k)"
    "gs = (case g of None \<Rightarrow> hs | Some p \<Rightarrow> p # hs)"
    by (auto split: option.splits prod.splits)
  with Cons.IH [of m hs] Cons.prems run_bounds [of xs m hs k] step_grant [of x n _ _ m]
  show ?case by (fastforce split: option.splits)
qed simp

end

text \<open>The server as an allocator, for requests of positive length.\<close>

definition grantOf :: "exchange \<Rightarrow> int \<Rightarrow> ((int \<times> int) option \<times> int) option" where
  "grantOf x n =
     (case serverStep x n of
        (Ret out, m) \<Rightarrow>
          Some (case (request_read x, out) of
                  (Some req, Some (f, r)) \<Rightarrow> Some (resp_seqNum r, seqLen req)
                | _ \<Rightarrow> None, m)
      | _ \<Rightarrow> None)"

definition positive :: "exchange \<Rightarrow> bool" where
  "positive x \<longleftrightarrow> (case request_read x of None \<Rightarrow> True | Some req \<Rightarrow> 0 < seqLen req)"

interpretation seqnum: allocator grantOf positive
  by unfold_locales
    (auto simp: grantOf_def positive_def serverStep_def Let_def split: option.splits if_splits)

lemma serverLoop_run:
  assumes "serverLoop xs n = (Ret outs, m)"
  shows "seqnum.run xs n = Some (map (\<lambda>(q, f, r). (resp_seqNum r, seqLen q)) outs, m)"
  using assms
proof (induction xs arbitrary: n outs)
  case (Cons x xs)
  then obtain out k os where s: "serverStep x n = (Ret out, k)" "serverLoop xs k = (Ret os, m)"
    "outs = (case (request_read x, out) of (Some req, Some (f, r)) \<Rightarrow> (req, f, r) # os | _ \<Rightarrow> os)"
    by (auto split: prod.splits res.splits)
  then have "grantOf x n = Some (case (request_read x, out) of
      (Some req, Some (f, r)) \<Rightarrow> Some (resp_seqNum r, seqLen req) | _ \<Rightarrow> None, k)"
    by (simp add: grantOf_def)
  with Cons.IH [OF s(2)] s(3) show ?case by (auto split: option.splits)
qed simp

lemma serverLoop_fifo:
  "serverLoop xs n = (Ret outs, m) \<Longrightarrow> (q, f, r) \<in> set outs \<Longrightarrow> f = clientFifo (req_pid q)"
proof (induction xs arbitrary: n outs)
  case (Cons x xs)
  then obtain out k os where "serverStep x n = (Ret out, k)" "serverLoop xs k = (Ret os, m)"
    "outs = (case (request_read x, out) of (Some req, Some (f, r)) \<Rightarrow> (req, f, r) # os | _ \<Rightarrow> os)"
    by (auto split: prod.splits res.splits)
  with Cons.IH [of k os] Cons.prems(2) show ?case
    by (auto simp: serverStep_def Let_def split: option.splits if_splits)
qed simp

text \<open>
  The numbers that the server gives out are unique: over any run, with lost requests,
  clients whose FIFO cannot be opened and responses that cannot be written, the ranges
  \<open>seqNum .. seqNum + seqLen - 1\<close> of any two delivered responses do not overlap (the later
  one lies behind the earlier one), and each response goes to the FIFO of the client that
  sent the request.
\<close>

theorem server_ranges_disjoint:
  assumes "serverLoop xs seqNum = (Ret outs, m)" and "list_all positive xs"
  shows "sorted_wrt (\<lambda>(q, f, r) (q', f', r'). resp_seqNum r + seqLen q \<le> resp_seqNum r') outs \<and>
    (\<forall>(q, f, r) \<in> set outs. f = clientFifo (req_pid q))"
proof
  have "sorted_wrt (\<lambda>x y. resp_seqNum (snd (snd x)) + seqLen (fst x) \<le> resp_seqNum (snd (snd y))) outs"
    using seqnum.run_disjoint [OF serverLoop_run [OF assms(1)] assms(2)]
    by (simp add: sorted_wrt_map case_prod_beta)
  then show "sorted_wrt (\<lambda>(q, f, r) (q', f', r'). resp_seqNum r + seqLen q \<le> resp_seqNum r') outs"
    by (rule sorted_wrt_mono_rel [rotated]) auto
  show "\<forall>(q, f, r) \<in> set outs. f = clientFifo (req_pid q)"
    using serverLoop_fifo [OF assms(1)] by auto
qed

definition demo_exchange :: "int \<Rightarrow> int \<Rightarrow> bool \<Rightarrow> exchange" where
  "demo_exchange pid len w =
     \<lparr>request_read = Some \<lparr>req_pid = pid, seqLen = len\<rparr>, fifo_opens = (\<lambda>_. True), response_written = w\<rparr>"

theorem server_ranges_disjoint_witness:
  "\<exists>q f r q' f' r'. fst (serverLoop [demo_exchange 7 3 True, demo_exchange 8 2 False, demo_exchange 9 1 True] 0) =
      Ret [(q, f, r), (q', f', r')] \<and> resp_seqNum r + seqLen q \<le> resp_seqNum r' \<and> f' = clientFifo (req_pid q')"
proof -
  let ?xs = "[demo_exchange 7 3 True, demo_exchange 8 2 False, demo_exchange 9 1 True]"
  define l where "l = serverLoop ?xs 0"
  have "serverLoop ?xs 0 = (Ret [(\<lparr>req_pid = 7, seqLen = 3\<rparr>, clientFifo 7, \<lparr>resp_seqNum = 0\<rparr>),
      (\<lparr>req_pid = 9, seqLen = 1\<rparr>, clientFifo 9, \<lparr>resp_seqNum = 5\<rparr>)], 6)"
    by (simp add: demo_exchange_def serverStep_def Let_def)
  from server_ranges_disjoint [OF this] this show ?thesis
    by (auto simp: positive_def demo_exchange_def)
qed

text \<open>
  The two sides agree: a request that a client sends has a positive length, and the FIFO
  that the client has created is the one the server opens for it; clients with different
  process IDs have different FIFOs, since no name is cut off.
\<close>

theorem client_server_agree:
  assumes "clientRequest pid e a arg so w = Ret (f, q)" and "INT_MIN \<le> pid" and "pid \<le> INT_MAX"
  shows "0 < seqLen q \<and> f = clientFifo (req_pid q) \<and>
    (\<forall>p. INT_MIN \<le> p \<and> p \<le> INT_MAX \<and> clientFifo p = f \<longrightarrow> p = pid)"
proof -
  have "getInt (Some x) GN_GT_0 n = Inr v \<Longrightarrow> 0 < v" for x n v
    by (auto simp: getInt_def getNum_def Let_def split: if_splits prod.splits)
  with assms(1) have "0 < seqLen q" "f = clientFifo pid" "req_pid q = pid"
    by (auto simp: clientRequest_def split: if_splits option.splits sum.splits)
  with clientFifo_inj [of _ pid] assms(2,3) show ?thesis by auto
qed

theorem client_server_agree_witness:
  "\<exists>q. clientRequest 42 None True None True True = Ret (clientFifo 42, q) \<and> 0 < seqLen q"
proof -
  have "clientRequest 42 None True None True True = Ret (clientFifo 42, \<lparr>req_pid = 42, seqLen = 1\<rparr>)"
    by (simp add: clientRequest_def)
  from client_server_agree [OF this] this show ?thesis by auto
qed

end
