(* ===== verification/FileLocks.thy ===== *)
theory FileLocks
  imports Prelude
begin

text \<open>
  Record locks: \<open>filelock/region_locking.c\<close> and \<open>filelock/create_pid_file.c\<close>. The kernel's
  lock table of a file is a list of locks, each with its owner, its type and the first and
  last byte; a lock to the end of the file has \<open>OFFSET_MAX\<close> as its last byte, as in the
  kernel. \<open>fcntl\<close> on it follows the rules of POSIX: a lock can be placed if no other process
  holds a conflicting lock on a byte of the range, and it replaces the locks that the caller
  has there.
\<close>

section \<open>The kernel\<close>

datatype ltype = F_RDLCK | F_WRLCK | F_UNLCK

record flock =
  l_pid :: int
  l_type :: ltype
  l_first :: int
  l_last :: int

abbreviation (input) OFFSET_MAX :: int where "OFFSET_MAX \<equiv> 9223372036854775807"
abbreviation (input) EOVERFLOW :: errno where "EOVERFLOW \<equiv> 75"

text \<open>
  The range that \<open>l_whence\<close>, \<open>l_start\<close> and \<open>l_len\<close> describe; \<open>base\<close> is the offset that
  \<open>l_whence\<close> stands for (0 for \<open>SEEK_SET\<close>).
\<close>

definition flock_range :: "int \<Rightarrow> int \<Rightarrow> int \<Rightarrow> errno + (int \<times> int)" where
  "flock_range base start len =
     (let first = base + start in
      if OFFSET_MAX < first then Inl EOVERFLOW
      else if first < 0 then Inl EINVAL
      else if 0 < len then
        if OFFSET_MAX < first + len - 1 then Inl EOVERFLOW else Inr (first, first + len - 1)
      else if len < 0 then
        if first + len < 0 then Inl EINVAL else Inr (first + len, first - 1)
      else Inr (first, OFFSET_MAX))"

definition overlaps :: "int \<times> int \<Rightarrow> flock \<Rightarrow> bool" where
  "overlaps r l \<longleftrightarrow> l_first l \<le> snd r \<and> fst r \<le> l_last l"

definition conflicts :: "int \<Rightarrow> ltype \<Rightarrow> int \<times> int \<Rightarrow> flock \<Rightarrow> bool" where
  "conflicts pid t r l \<longleftrightarrow> l_pid l \<noteq> pid \<and> overlaps r l \<and> t \<noteq> F_UNLCK \<and> (t = F_WRLCK \<or> l_type l = F_WRLCK)"

text \<open>What is left of the caller's lock \<open>l\<close> outside the range.\<close>

definition cut :: "int \<times> int \<Rightarrow> flock \<Rightarrow> flock list" where
  "cut r l =
     (if overlaps r l then
        (if l_first l < fst r then [l\<lparr>l_last := fst r - 1\<rparr>] else []) @
        (if snd r < l_last l then [l\<lparr>l_first := snd r + 1\<rparr>] else [])
      else [l])"

definition place :: "int \<Rightarrow> ltype \<Rightarrow> int \<times> int \<Rightarrow> flock list \<Rightarrow> flock list" where
  "place pid t r ls =
     concat (map (\<lambda>l. if l_pid l = pid then cut r l else [l]) ls) @
     (if t = F_UNLCK then [] else [\<lparr>l_pid = pid, l_type = t, l_first = fst r, l_last = snd r\<rparr>])"

datatype lock_cmd = F_SETLK | F_SETLKW

text \<open>\<open>None\<close>: the call blocks (\<open>F_SETLKW\<close>).\<close>

definition fcntl_lock :: "int \<Rightarrow> lock_cmd \<Rightarrow> ltype \<Rightarrow> int \<Rightarrow> int \<Rightarrow> int \<Rightarrow> flock list
    \<Rightarrow> ((errno + unit) \<times> flock list) option" where
  "fcntl_lock pid cmd t base start len ls =
     (case flock_range base start len of
        Inl e \<Rightarrow> Some (Inl e, ls)
      | Inr r \<Rightarrow>
          if list_ex (conflicts pid t r) ls then
            (case cmd of F_SETLK \<Rightarrow> Some (Inl EAGAIN, ls) | F_SETLKW \<Rightarrow> None)
          else Some (Inr (), place pid t r ls))"

text \<open>\<open>F_GETLK\<close>: the first lock in the way, or \<open>None\<close> for \<open>F_UNLCK\<close> in \<open>l_type\<close>.\<close>

definition fcntl_getlk :: "int \<Rightarrow> ltype \<Rightarrow> int \<Rightarrow> int \<Rightarrow> int \<Rightarrow> flock list \<Rightarrow> errno + flock option" where
  "fcntl_getlk pid t base start len ls =
     (case flock_range base start len of
        Inl e \<Rightarrow> Inl e
      | Inr r \<Rightarrow> Inr (find (conflicts pid t r) ls))"

section \<open>region\_locking.c\<close>

definition lockReg :: "int \<Rightarrow> lock_cmd \<Rightarrow> ltype \<Rightarrow> int \<Rightarrow> int \<Rightarrow> int \<Rightarrow> flock list
    \<Rightarrow> ((errno + unit) \<times> flock list) option" where
  "lockReg pid cmd t whence start len ls = fcntl_lock pid cmd t whence start len ls"

definition lockRegion where
  "lockRegion pid t whence start len ls = lockReg pid F_SETLK t whence start len ls"

definition lockRegionWait where
  "lockRegionWait pid t whence start len ls = lockReg pid F_SETLKW t whence start len ls"

text \<open>\<open>Inr 0\<close>: lockable; \<open>Inr p\<close>: process \<open>p\<close> holds a lock in the way.\<close>

definition regionIsLocked :: "int \<Rightarrow> ltype \<Rightarrow> int \<Rightarrow> int \<Rightarrow> int \<Rightarrow> flock list \<Rightarrow> errno + int" where
  "regionIsLocked pid t whence start len ls =
     (case fcntl_getlk pid t whence start len ls of
        Inl e \<Rightarrow> Inl e
      | Inr None \<Rightarrow> Inr 0
      | Inr (Some l) \<Rightarrow> Inr (l_pid l))"

section \<open>create\_pid\_file.c\<close>

record pid_file =
  pf_text :: string
  pf_locks :: "flock list"
  pf_cloexec :: "int list"

text \<open>
  What the other system calls do: \<open>open\<close>, \<open>F_GETFD\<close>, \<open>F_SETFD\<close> and \<open>ftruncate\<close> succeed or
  not; \<open>write\<close> accepts so many bytes (\<open>None\<close> for an error).
\<close>

record pid_env =
  open_succeeds :: bool
  getfd_succeeds :: bool
  setfd_succeeds :: bool
  truncate_succeeds :: bool
  write_accepts :: "nat option"

definition createPidFile :: "pid_env \<Rightarrow> int \<Rightarrow> bool \<Rightarrow> pid_file \<Rightarrow> unit res \<times> pid_file" where
  "createPidFile E pid cloexec f =
     (if \<not> open_succeeds E then (Exit EXIT_FAILURE, f)
      else if cloexec \<and> (\<not> getfd_succeeds E \<or> \<not> setfd_succeeds E) then (Exit EXIT_FAILURE, f)
      else
        let f = (if cloexec then f\<lparr>pf_cloexec := pid # pf_cloexec f\<rparr> else f) in
        case lockRegion pid F_WRLCK 0 0 0 (pf_locks f) of
          None \<Rightarrow> (Exit EXIT_FAILURE, f)
        | Some (Inl e, ls) \<Rightarrow> (Exit EXIT_FAILURE, f\<lparr>pf_locks := ls\<rparr>)
        | Some (Inr _, ls) \<Rightarrow>
            let f = f\<lparr>pf_locks := ls\<rparr> in
            if \<not> truncate_succeeds E then (Exit EXIT_FAILURE, f)
            else
              let buf = fst (snprintf 100 (show_int pid @ [CHR 0x0A])) in
              (case write_accepts E of
                 None \<Rightarrow> (Exit EXIT_FAILURE, f\<lparr>pf_text := []\<rparr>)
               | Some n \<Rightarrow>
                   if min n (length buf) \<noteq> length buf
                   then (Exit EXIT_FAILURE, f\<lparr>pf_text := take n buf\<rparr>)
                   else (Ret (), f\<lparr>pf_text := buf\<rparr>)))"

section \<open>The lock table\<close>

text \<open>No two processes hold conflicting locks on a common byte.\<close>

definition locks_ok :: "flock list \<Rightarrow> bool" where
  "locks_ok ls \<longleftrightarrow>
     (\<forall>l\<in>set ls. l_type l \<noteq> F_UNLCK \<and> l_first l \<le> l_last l) \<and>
     (\<forall>l\<in>set ls. \<forall>m\<in>set ls. \<not> conflicts (l_pid l) (l_type l) (l_first l, l_last l) m)"

text \<open>\<open>m\<close> is a part of \<open>l\<close>.\<close>

definition part_of :: "flock \<Rightarrow> flock \<Rightarrow> bool" where
  "part_of m l \<longleftrightarrow> l_pid m = l_pid l \<and> l_type m = l_type l \<and> l_first l \<le> l_first m \<and> l_last m \<le> l_last l"

lemma cut_part: "m \<in> set (cut r l) \<Longrightarrow> part_of m l \<and> (l_first l \<le> l_last l \<longrightarrow> l_first m \<le> l_last m)"
  by (auto simp: cut_def overlaps_def part_of_def split: if_splits)

abbreviation (input) new_lock :: "int \<Rightarrow> ltype \<Rightarrow> int \<times> int \<Rightarrow> flock" where
  "new_lock pid t r \<equiv> \<lparr>l_pid = pid, l_type = t, l_first = fst r, l_last = snd r\<rparr>"

lemma place_cases:
  assumes "m \<in> set (place pid t r ls)"
  obtains (new) "m = new_lock pid t r" "t \<noteq> F_UNLCK"
    | (old) l where "l \<in> set ls" "part_of m l" "l_first l \<le> l_last l \<longrightarrow> l_first m \<le> l_last m"
proof (cases "m = new_lock pid t r \<and> t \<noteq> F_UNLCK")
  case True
  then show ?thesis using new by blast
next
  case False
  with assms obtain l where l: "l \<in> set ls" "m \<in> set (if l_pid l = pid then cut r l else [l])"
    by (auto simp: place_def split: if_splits)
  then show ?thesis using cut_part [of m r l] old [of l] by (auto simp: part_of_def split: if_splits)
qed

lemma conflicts_part:
  assumes "conflicts (l_pid m) (l_type m) (l_first m, l_last m) n" "part_of m l" "part_of n k"
  shows "conflicts (l_pid l) (l_type l) (l_first l, l_last l) k"
  using assms by (auto simp: conflicts_def overlaps_def part_of_def)

lemma part_of_refl [simp]: "part_of l l"
  by (simp add: part_of_def)

lemma conflicts_sym:
  "conflicts (l_pid m) (l_type m) (l_first m, l_last m) n \<Longrightarrow> l_type n \<noteq> F_UNLCK \<Longrightarrow>
     conflicts (l_pid n) (l_type n) (l_first n, l_last n) m"
  by (auto simp: conflicts_def overlaps_def)

lemma place_ok:
  assumes "locks_ok ls" "\<not> list_ex (conflicts pid t r) ls" "fst r \<le> snd r"
  shows "locks_ok (place pid t r ls)"
proof -
  have none: "\<not> conflicts pid t r l" if "l \<in> set ls" for l using assms(2) that by (auto simp: list_ex_iff)
  have ok: "\<not> conflicts (l_pid l) (l_type l) (l_first l, l_last l) k" if "l \<in> set ls" "k \<in> set ls" for l k
    using assms(1) that by (auto simp: locks_ok_def)
  have "\<not> conflicts (l_pid m) (l_type m) (l_first m, l_last m) n"
    if m: "m \<in> set (place pid t r ls)" and n: "n \<in> set (place pid t r ls)" for m n
  proof
    assume co: "conflicts (l_pid m) (l_type m) (l_first m, l_last m) n"
    from m show False
    proof (cases rule: place_cases)
      case new
      from n show False
      proof (cases rule: place_cases)
        case new': new
        with co new show False by (simp add: conflicts_def)
      next
        case (old k)
        from conflicts_part [OF co part_of_refl old(2)] none [OF old(1)] new show False by simp
      qed
    next
      case (old l)
      from n show False
      proof (cases rule: place_cases)
        case new': new
        have "conflicts (l_pid n) (l_type n) (l_first n, l_last n) m" using conflicts_sym [OF co] new' by simp
        from conflicts_part [OF this part_of_refl old(2)] none [OF old(1)] new' show False by simp
      next
        case old': (old k)
        from conflicts_part [OF co old(2) old'(2)] ok [OF old(1) old'(1)] show False by simp
      qed
    qed
  qed
  moreover have "l_type m \<noteq> F_UNLCK \<and> l_first m \<le> l_last m" if "m \<in> set (place pid t r ls)" for m
    using that assms(1,3) by (cases rule: place_cases) (auto simp: locks_ok_def part_of_def)
  ultimately show ?thesis by (auto simp: locks_ok_def)
qed

lemma lockReg_ok:
  assumes "lockReg pid cmd t whence start len ls = Some (r, ls')" "locks_ok ls"
  shows "locks_ok ls'"
proof (cases "flock_range whence start len")
  case (Inl e)
  with assms show ?thesis by (auto simp: lockReg_def fcntl_lock_def)
next
  case (Inr rg)
  then have "fst rg \<le> snd rg"
    by (auto simp: flock_range_def Let_def split: if_splits)
  with Inr assms place_ok [of ls pid t rg] show ?thesis
    by (auto simp: lockReg_def fcntl_lock_def split: if_splits lock_cmd.splits)
qed

text \<open>
  Locking keeps the lock table free of conflicts, and \<open>regionIsLocked\<close> foretells
  \<open>lockRegion\<close>: it gives 0 exactly if the lock would be granted, and the owner of a lock in the
  way exactly if \<open>lockRegion\<close> fails with \<open>EAGAIN\<close>; both give the same error for a bad range.
\<close>

theorem regionIsLocked_foretells:
  assumes "locks_ok ls" and "\<forall>l\<in>set ls. l_pid l \<noteq> 0"
  shows "(case regionIsLocked pid t whence start len ls of
       Inl e \<Rightarrow> lockRegion pid t whence start len ls = Some (Inl e, ls)
     | Inr p \<Rightarrow>
         if p = 0 then (\<exists>ls'. lockRegion pid t whence start len ls = Some (Inr (), ls') \<and> locks_ok ls')
         else lockRegion pid t whence start len ls = Some (Inl EAGAIN, ls) \<and> p \<noteq> pid \<and>
              (\<exists>l\<in>set ls. l_pid l = p))"
proof (cases "flock_range whence start len")
  case (Inl e)
  then show ?thesis by (simp add: regionIsLocked_def fcntl_getlk_def lockRegion_def lockReg_def fcntl_lock_def)
next
  case (Inr r)
  show ?thesis
  proof (cases "find (conflicts pid t r) ls")
    case None
    then have "\<not> list_ex (conflicts pid t r) ls" by (auto simp: find_None_iff list_ex_iff)
    with Inr None lockReg_ok [OF _ assms(1), of pid F_SETLK t whence start len "Inr ()"] show ?thesis
      by (auto simp: regionIsLocked_def fcntl_getlk_def lockRegion_def lockReg_def fcntl_lock_def)
  next
    case (Some l)
    then have "l \<in> set ls" "conflicts pid t r l" by (auto simp: find_Some_iff)
    with Inr Some assms(2) show ?thesis
      by (auto simp: regionIsLocked_def fcntl_getlk_def lockRegion_def lockReg_def fcntl_lock_def
          list_ex_iff conflicts_def)
  qed
qed

theorem regionIsLocked_foretells_witness:
  "regionIsLocked 8 F_RDLCK 0 5 10 [\<lparr>l_pid = 7, l_type = F_WRLCK, l_first = 0, l_last = 9\<rparr>] = Inr 7 \<and>
   lockRegion 8 F_RDLCK 0 5 10 [\<lparr>l_pid = 7, l_type = F_WRLCK, l_first = 0, l_last = 9\<rparr>] =
     Some (Inl EAGAIN, [\<lparr>l_pid = 7, l_type = F_WRLCK, l_first = 0, l_last = 9\<rparr>])"
proof -
  let ?ls = "[\<lparr>l_pid = 7, l_type = F_WRLCK, l_first = 0, l_last = 9\<rparr>]"
  have r: "regionIsLocked 8 F_RDLCK 0 5 10 ?ls = Inr 7"
    by (simp add: regionIsLocked_def fcntl_getlk_def flock_range_def conflicts_def overlaps_def)
  have "locks_ok ?ls" by (simp add: locks_ok_def conflicts_def)
  from regionIsLocked_foretells [OF this, of 8 F_RDLCK 0 5 10] r show ?thesis by simp
qed

section \<open>One instance of a daemon\<close>

text \<open>What a mutual exclusion by locking rests on.\<close>

locale exclusive_lock =
  fixes acquire :: "'p \<Rightarrow> 's \<Rightarrow> 's option" and holds :: "'p \<Rightarrow> 's \<Rightarrow> bool"
  assumes acquire_holds: "acquire p s = Some t \<Longrightarrow> holds p t"
    and exclusion: "holds p s \<Longrightarrow> q \<noteq> p \<Longrightarrow> acquire q s = None"
begin

text \<open>While \<open>p\<close> holds the lock, the attempts of any number of others change nothing.\<close>

fun attempts :: "'p list \<Rightarrow> 's \<Rightarrow> 'p list \<times> 's" where
  "attempts [] s = ([], s)"
| "attempts (q # qs) s =
     (case acquire q s of
        None \<Rightarrow> attempts qs s
      | Some t \<Rightarrow> (case attempts qs t of (won, u) \<Rightarrow> (q # won, u)))"

lemma others_fail: "holds p s \<Longrightarrow> p \<notin> set qs \<Longrightarrow> attempts qs s = ([], s)"
  by (induction qs) (auto simp: exclusion)

end

definition lockWholeFile :: "int \<Rightarrow> flock list \<Rightarrow> flock list option" where
  "lockWholeFile p ls =
     (case lockRegion p F_WRLCK 0 0 0 ls of Some (Inr _, ls') \<Rightarrow> Some ls' | _ \<Rightarrow> None)"

definition ownsFile :: "int \<Rightarrow> flock list \<Rightarrow> bool" where
  "ownsFile p ls \<longleftrightarrow> list_ex (\<lambda>l. l_pid l = p \<and> l_type l = F_WRLCK \<and> l_first l = 0 \<and> l_last l = OFFSET_MAX) ls"

interpretation pidlock: exclusive_lock lockWholeFile ownsFile
proof
  fix p q s t
  show "ownsFile p t" if "lockWholeFile p s = Some t"
    using that by (auto simp: lockWholeFile_def lockRegion_def lockReg_def fcntl_lock_def flock_range_def
        place_def ownsFile_def split: if_splits)
  show "lockWholeFile q s = None" if "ownsFile p s" "q \<noteq> p"
  proof -
    from that have "list_ex (conflicts q F_WRLCK (0, OFFSET_MAX)) s"
      by (auto simp: ownsFile_def conflicts_def overlaps_def list_ex_iff)
    then show ?thesis by (simp add: lockWholeFile_def lockRegion_def lockReg_def fcntl_lock_def flock_range_def)
  qed
qed

lemma createPidFile_Ret:
  assumes "createPidFile E p c f = (Ret (), g)"
  shows "lockWholeFile p (pf_locks f) = Some (pf_locks g) \<and> pf_text g = fst (snprintf 100 (show_int p @ [CHR 0x0A]))"
  using assms
  by (auto simp: createPidFile_def lockWholeFile_def Let_def split: if_splits option.splits sum.splits)

lemma createPidFile_refused:
  assumes "lockWholeFile q (pf_locks f) = None"
  shows "\<exists>h. createPidFile E q c f = (Exit EXIT_FAILURE, h) \<and> pf_text h = pf_text f \<and> pf_locks h = pf_locks f"
proof -
  have "\<exists>e. lockRegion q F_WRLCK 0 0 0 (pf_locks f) = Some (Inl e, pf_locks f)"
    using assms by (auto simp: lockWholeFile_def lockRegion_def lockReg_def fcntl_lock_def flock_range_def split: if_splits)
  then show ?thesis by (auto simp: createPidFile_def Let_def)
qed

text \<open>
  C37. \<open>createPidFile\<close> lets only one instance of a program run: when a process has returned
  from it, the file holds that process's ID, and every other process that calls it before the
  lock is given up terminates, leaving the file's contents and locks as they are.
\<close>

theorem createPidFile_exclusive:
  assumes "createPidFile E p c f = (Ret (), g)" and "INT_MIN \<le> p" and "p \<le> INT_MAX"
  shows "atoi (pf_text g) = p \<and>
    (\<forall>q E' c'. q \<noteq> p \<longrightarrow> (\<exists>h. createPidFile E' q c' g = (Exit EXIT_FAILURE, h) \<and>
       pf_text h = pf_text g \<and> pf_locks h = pf_locks g))"
proof
  have d: "\<not> isdigitb 10 (CHR 0x0A)" by (simp add: isdigitb_def digitval_def)
  have "pf_text g = show_int p @ [CHR 0x0A]"
    using createPidFile_Ret [OF assms(1)] length_show_int [OF assms(2,3)] by (simp add: snprintf_def)
  then show "atoi (pf_text g) = p" using atoi_show_int [OF assms(2,3), of "[CHR 0x0A]"] d by simp
  have "ownsFile p (pf_locks g)"
    using createPidFile_Ret [OF assms(1)] pidlock.acquire_holds by blast
  then show "\<forall>q E' c'. q \<noteq> p \<longrightarrow> (\<exists>h. createPidFile E' q c' g = (Exit EXIT_FAILURE, h) \<and>
       pf_text h = pf_text g \<and> pf_locks h = pf_locks g)"
    using pidlock.exclusion createPidFile_refused by blast
qed

definition demo_pid_env :: pid_env where
  "demo_pid_env = \<lparr>open_succeeds = True, getfd_succeeds = True, setfd_succeeds = True,
     truncate_succeeds = True, write_accepts = Some 50\<rparr>"

theorem createPidFile_exclusive_witness:
  "\<exists>g h. createPidFile demo_pid_env 42 True \<lparr>pf_text = ''old'', pf_locks = [], pf_cloexec = []\<rparr> = (Ret (), g) \<and>
     atoi (pf_text g) = 42 \<and> createPidFile demo_pid_env 43 False g = (Exit EXIT_FAILURE, h)"
proof -
  define m where "m = createPidFile demo_pid_env 42 True \<lparr>pf_text = ''old'', pf_locks = [], pf_cloexec = []\<rparr>"
  have "fst m = Ret ()" unfolding m_def by code_simp
  then obtain g where g: "createPidFile demo_pid_env 42 True \<lparr>pf_text = ''old'', pf_locks = [], pf_cloexec = []\<rparr> = (Ret (), g)"
    unfolding m_def by (metis prod.collapse)
  have r: "INT_MIN \<le> (42::int)" "(42::int) \<le> INT_MAX" and ne: "(43::int) \<noteq> 42" by simp_all
  note all = createPidFile_exclusive [OF g r]
  from all [THEN conjunct2, rule_format, OF ne, of demo_pid_env False]
  obtain h where "createPidFile demo_pid_env 43 False g = (Exit EXIT_FAILURE, h)" by blast
  with all g show ?thesis by blast
qed

end
