(* ===== verification/Seccomp.thy ===== *)
theory Seccomp
  imports Prelude
begin

text \<open>
  The seccomp filters under \<open>seccomp/\<close>: programs for the kernel's BPF machine that decide
  about every system call of a process. The theory has the machine as far as the filters use
  it, the data it inspects, the filters in the notation of the sources, and the functions
  that dump a filter to a file and load it from there.

  A filter is a list of \<open>struct sock_filter\<close>. Jumps go forward only, so running a filter
  consumes the list; running off its end is \<open>None\<close> (the kernel refuses such a program).
\<close>

section \<open>The machine\<close>

type_synonym u8 = "8 word"
type_synonym u16 = "16 word"
type_synonym u32 = "32 word"
type_synonym u64 = "64 word"

record sock_filter =
  bpf_code :: u16
  bpf_jt :: u8
  bpf_jf :: u8
  bpf_k :: u32

definition BPF_STMT :: "u16 \<Rightarrow> u32 \<Rightarrow> sock_filter" where
  "BPF_STMT c k = \<lparr>bpf_code = c, bpf_jt = 0, bpf_jf = 0, bpf_k = k\<rparr>"

definition BPF_JUMP :: "u16 \<Rightarrow> u32 \<Rightarrow> u8 \<Rightarrow> u8 \<Rightarrow> sock_filter" where
  "BPF_JUMP c k jt jf = \<lparr>bpf_code = c, bpf_jt = jt, bpf_jf = jf, bpf_k = k\<rparr>"

text \<open>The combinations of \<open>BPF_LD\<close>, \<open>BPF_JMP\<close> and so on that occur.\<close>

abbreviation (input) LD_W_ABS :: u16 where "LD_W_ABS \<equiv> 0x20"
abbreviation (input) ALU_ADD_K :: u16 where "ALU_ADD_K \<equiv> 0x04"
abbreviation (input) JMP_JA :: u16 where "JMP_JA \<equiv> 0x05"
abbreviation (input) JMP_JEQ_K :: u16 where "JMP_JEQ_K \<equiv> 0x15"
abbreviation (input) JMP_JGT_K :: u16 where "JMP_JGT_K \<equiv> 0x25"
abbreviation (input) JMP_JGE_K :: u16 where "JMP_JGE_K \<equiv> 0x35"
abbreviation (input) JMP_JSET_K :: u16 where "JMP_JSET_K \<equiv> 0x45"
abbreviation (input) RET_K :: u16 where "RET_K \<equiv> 0x06"

record seccomp_data =
  sd_nr :: u32
  sd_arch :: u32
  sd_ip :: u64
  sd_args :: "u64 list"

text \<open>
  The 32-bit word at a byte offset of \<open>struct seccomp_data\<close> on a little-endian machine:
  \<open>nr\<close> at 0, \<open>arch\<close> at 4, the instruction pointer at 8, \<open>args[i]\<close> at \<open>16 + 8 * i\<close>, each
  with its low half first.
\<close>

definition half :: "bool \<Rightarrow> u64 \<Rightarrow> u32" where
  "half high w = ucast (if high then drop_bit 32 w else w)"

definition sd_load :: "u32 \<Rightarrow> seccomp_data \<Rightarrow> u32" where
  "sd_load off d =
     (let n = unat off in
      if n = 0 then sd_nr d
      else if n = 4 then sd_arch d
      else if n < 16 then half (n = 12) (sd_ip d)
      else half ((n - 16) mod 8 = 4) (sd_args d ! ((n - 16) div 8)))"

abbreviation (input) off_nr :: u32 where "off_nr \<equiv> 0"
abbreviation (input) off_arch :: u32 where "off_arch \<equiv> 4"
abbreviation (input) off_arg1 :: u32 where "off_arg1 \<equiv> 24"
abbreviation (input) off_arg2 :: u32 where "off_arg2 \<equiv> 32"

function bpf_exec :: "sock_filter list \<Rightarrow> seccomp_data \<Rightarrow> u32 \<Rightarrow> u32 option" where
  "bpf_exec [] d A = None"
| "bpf_exec (i # is) d A =
     (let c = bpf_code i; k = bpf_k i;
          branch = (\<lambda>b. if b then unat (bpf_jt i) else unat (bpf_jf i))
      in if c = LD_W_ABS then bpf_exec is d (sd_load k d)
         else if c = ALU_ADD_K then bpf_exec is d (A + k)
         else if c = JMP_JA then bpf_exec (drop (unat k) is) d A
         else if c = JMP_JEQ_K then bpf_exec (drop (branch (A = k)) is) d A
         else if c = JMP_JGT_K then bpf_exec (drop (branch (k < A)) is) d A
         else if c = JMP_JGE_K then bpf_exec (drop (branch (k \<le> A)) is) d A
         else if c = JMP_JSET_K then bpf_exec (drop (branch (A AND k \<noteq> 0)) is) d A
         else if c = RET_K then Some k
         else None)"
  by pat_completeness auto
termination by (relation "measure (\<lambda>(p, _, _). length p)") auto

definition seccomp_run :: "sock_filter list \<Rightarrow> seccomp_data \<Rightarrow> u32 option" where
  "seccomp_run prog d = bpf_exec prog d 0"

section \<open>Constants of the kernel interface\<close>

abbreviation (input) AUDIT_ARCH_X86_64 :: u32 where "AUDIT_ARCH_X86_64 \<equiv> 0xC000003E"
abbreviation (input) AUDIT_ARCH_I386 :: u32 where "AUDIT_ARCH_I386 \<equiv> 0x40000003"
abbreviation (input) AUDIT_ARCH_AARCH64 :: u32 where "AUDIT_ARCH_AARCH64 \<equiv> 0xC00000B7"
abbreviation (input) X32_SYSCALL_BIT :: u32 where "X32_SYSCALL_BIT \<equiv> 0x40000000"
abbreviation (input) SECCOMP_RET_KILL_PROCESS :: u32 where "SECCOMP_RET_KILL_PROCESS \<equiv> 0x80000000"
abbreviation (input) SECCOMP_RET_KILL :: u32 where "SECCOMP_RET_KILL \<equiv> 0"
abbreviation (input) SECCOMP_RET_TRAP :: u32 where "SECCOMP_RET_TRAP \<equiv> 0x00030000"
abbreviation (input) SECCOMP_RET_ERRNO :: u32 where "SECCOMP_RET_ERRNO \<equiv> 0x00050000"
abbreviation (input) SECCOMP_RET_LOG :: u32 where "SECCOMP_RET_LOG \<equiv> 0x7ffc0000"
abbreviation (input) SECCOMP_RET_ALLOW :: u32 where "SECCOMP_RET_ALLOW \<equiv> 0x7fff0000"

abbreviation (input) NR_open :: u32 where "NR_open \<equiv> 2"
abbreviation (input) NR_lseek :: u32 where "NR_lseek \<equiv> 8"
abbreviation (input) NR_getppid :: u32 where "NR_getppid \<equiv> 110"
abbreviation (input) NR_openat :: u32 where "NR_openat \<equiv> 257"
abbreviation (input) NR_openat_aarch64 :: u32 where "NR_openat_aarch64 \<equiv> 56"
abbreviation (input) NR_mq_notify_x86_64 :: u32 where "NR_mq_notify_x86_64 \<equiv> 244"
abbreviation (input) NR_mq_notify_i386 :: u32 where "NR_mq_notify_i386 \<equiv> 281"
abbreviation (input) NR_mq_notify_x32 :: u32 where "NR_mq_notify_x32 \<equiv> 527"
abbreviation (input) O_WRONLY :: u32 where "O_WRONLY \<equiv> 1"
abbreviation (input) O_RDWR :: u32 where "O_RDWR \<equiv> 2"
abbreviation (input) O_CREAT :: u32 where "O_CREAT \<equiv> 64"
abbreviation (input) ENOTSUP :: u32 where "ENOTSUP \<equiv> 95"

section \<open>The filters\<close>

text \<open>The check that several filters start with, in the order of the sources.\<close>

definition check_x86_64 :: "sock_filter list" where
  "check_x86_64 =
     [BPF_STMT LD_W_ABS off_arch,
      BPF_JUMP JMP_JEQ_K AUDIT_ARCH_X86_64 0 2,
      BPF_STMT LD_W_ABS off_nr,
      BPF_JUMP JMP_JGE_K X32_SYSCALL_BIT 0 1,
      BPF_STMT RET_K SECCOMP_RET_KILL_PROCESS]"

definition check_aarch64 :: "sock_filter list" where
  "check_aarch64 =
     [BPF_STMT LD_W_ABS off_arch,
      BPF_JUMP JMP_JEQ_K AUDIT_ARCH_AARCH64 1 0,
      BPF_STMT RET_K SECCOMP_RET_KILL_PROCESS,
      BPF_STMT LD_W_ABS off_nr]"

text \<open>\<open>seccomp_deny_open.c\<close>, compiled for either architecture.\<close>

definition deny_open :: "sock_filter list" where
  "deny_open = check_x86_64 @
     [BPF_JUMP JMP_JEQ_K NR_open 2 0,
      BPF_JUMP JMP_JEQ_K NR_openat 1 0,
      BPF_STMT RET_K SECCOMP_RET_ALLOW,
      BPF_STMT RET_K SECCOMP_RET_KILL_PROCESS]"

definition deny_open_aarch64 :: "sock_filter list" where
  "deny_open_aarch64 = check_aarch64 @
     [BPF_JUMP JMP_JEQ_K NR_openat_aarch64 1 0,
      BPF_STMT RET_K SECCOMP_RET_ALLOW,
      BPF_STMT RET_K SECCOMP_RET_KILL_PROCESS]"

text \<open>\<open>seccomp_control_open.c\<close>\<close>

definition control_open :: "sock_filter list" where
  "control_open = check_x86_64 @
     [BPF_JUMP JMP_JEQ_K NR_open 0 2,
      BPF_STMT LD_W_ABS off_arg1,
      BPF_JUMP JMP_JA 3 0 0,
      BPF_JUMP JMP_JEQ_K NR_openat 1 0,
      BPF_STMT RET_K SECCOMP_RET_ALLOW,
      BPF_STMT LD_W_ABS off_arg2,
      BPF_JUMP JMP_JSET_K O_CREAT 0 1,
      BPF_STMT RET_K SECCOMP_RET_KILL_PROCESS,
      BPF_JUMP JMP_JSET_K (O_WRONLY OR O_RDWR) 0 1,
      BPF_STMT RET_K (SECCOMP_RET_ERRNO OR ENOTSUP),
      BPF_STMT RET_K SECCOMP_RET_ALLOW]"

text \<open>\<open>seccomp_arg64.c\<close>\<close>

definition arg64 :: "sock_filter list" where
  "arg64 = check_x86_64 @
     [BPF_JUMP JMP_JEQ_K NR_lseek 1 0,
      BPF_STMT RET_K SECCOMP_RET_ALLOW,
      BPF_STMT LD_W_ABS (off_arg1 + 4),
      BPF_JUMP JMP_JEQ_K 0 1 0,
      BPF_STMT RET_K (SECCOMP_RET_ERRNO OR 2),
      BPF_STMT LD_W_ABS off_arg1,
      BPF_JUMP JMP_JGT_K 1000 0 1,
      BPF_STMT RET_K (SECCOMP_RET_ERRNO OR 1),
      BPF_STMT RET_K SECCOMP_RET_ALLOW]"

text \<open>\<open>seccomp_multiarch.c\<close>\<close>

definition multiarch :: "sock_filter list" where
  "multiarch =
     [BPF_STMT LD_W_ABS off_arch,
      BPF_JUMP JMP_JEQ_K AUDIT_ARCH_X86_64 0 5,
      BPF_STMT LD_W_ABS off_nr,
      BPF_JUMP JMP_JEQ_K NR_mq_notify_x86_64 0 1,
      BPF_STMT RET_K (SECCOMP_RET_ERRNO OR NR_mq_notify_x86_64),
      BPF_JUMP JMP_JEQ_K (NR_mq_notify_x32 + X32_SYSCALL_BIT) 0 5,
      BPF_STMT RET_K (SECCOMP_RET_ERRNO OR NR_mq_notify_x32),
      BPF_JUMP JMP_JEQ_K AUDIT_ARCH_I386 0 4,
      BPF_STMT LD_W_ABS off_nr,
      BPF_JUMP JMP_JEQ_K NR_mq_notify_i386 0 1,
      BPF_STMT RET_K (SECCOMP_RET_ERRNO OR NR_mq_notify_i386),
      BPF_STMT RET_K SECCOMP_RET_ALLOW,
      BPF_STMT RET_K SECCOMP_RET_KILL_PROCESS]"

text \<open>\<open>seccomp_deny_syscall.c\<close>, without an architecture check; \<open>syscallNum\<close> is \<open>atoi(argv[1])\<close>.\<close>

definition deny_syscall :: "int \<Rightarrow> sock_filter list" where
  "deny_syscall syscallNum =
     [BPF_STMT LD_W_ABS off_nr,
      BPF_JUMP JMP_JEQ_K (word_of_int syscallNum) 1 0,
      BPF_STMT RET_K SECCOMP_RET_ALLOW,
      BPF_STMT RET_K SECCOMP_RET_KILL_PROCESS]"

text \<open>\<open>seccomp_trap_sigsys.c\<close>, \<open>seccomp_logging.c\<close>, \<open>seccomp_perf.c\<close>\<close>

definition trap_sigsys :: "sock_filter list" where
  "trap_sigsys =
     [BPF_STMT LD_W_ABS off_arch,
      BPF_JUMP JMP_JEQ_K AUDIT_ARCH_X86_64 1 0,
      BPF_STMT RET_K SECCOMP_RET_KILL,
      BPF_STMT LD_W_ABS off_nr,
      BPF_JUMP JMP_JGE_K X32_SYSCALL_BIT 0 1,
      BPF_STMT RET_K SECCOMP_RET_KILL_PROCESS,
      BPF_JUMP JMP_JEQ_K NR_getppid 0 1,
      BPF_STMT RET_K SECCOMP_RET_TRAP,
      BPF_STMT RET_K SECCOMP_RET_ALLOW]"

definition logging :: "sock_filter list" where
  "logging = check_x86_64 @ [BPF_STMT RET_K SECCOMP_RET_LOG]"

definition perf :: "sock_filter list" where
  "perf = check_x86_64 @
     [BPF_JUMP JMP_JEQ_K NR_openat 1 0,
      BPF_STMT RET_K SECCOMP_RET_ALLOW,
      BPF_STMT RET_K SECCOMP_RET_KILL_PROCESS]"

text \<open>
  The end of every \<open>install_filter\<close>: the filter is handed to the kernel (the parameter
  \<open>seccomp_sys\<close>, which gives an error number or accepts it), and the program ends if it is
  refused.
\<close>

definition install_filter :: "(sock_filter list \<Rightarrow> 'k \<Rightarrow> errno option \<times> 'k) \<Rightarrow> sock_filter list \<Rightarrow> 'k \<Rightarrow> unit res \<times> 'k" where
  "install_filter seccomp_sys prog k =
     (case seccomp_sys prog k of
        (None, k') \<Rightarrow> (Ret (), k')
      | (Some e, k') \<Rightarrow> (Exit EXIT_FAILURE, k'))"

text \<open>
  \<open>create_filter\<close> of \<open>seccomp_bench.c\<close>: \<open>icnt\<close> copies of one instruction, then a return.
  \<open>mem\<close> says whether the allocations succeed. A negative \<open>icnt\<close> is undefined: the return
  instruction is then stored outside the array.
\<close>

definition create_filter :: "bool \<Rightarrow> char \<Rightarrow> int \<Rightarrow> sock_filter list res" where
  "create_filter mem instr icnt =
     (let load = BPF_STMT LD_W_ABS 0; jump = BPF_JUMP JMP_JEQ_K 0 0 0; add = BPF_STMT ALU_ADD_K 1;
          ret = BPF_STMT RET_K SECCOMP_RET_ALLOW;
          build = (\<lambda>i. if \<not> mem then Exit EXIT_FAILURE
                       else if icnt < 0 then Undef
                       else Ret (replicate (nat icnt) i @ [ret]))
      in if instr = CHR ''a'' then build add
         else if instr = CHR ''j'' then build jump
         else if instr = CHR ''l'' then build load
         else Exit EXIT_FAILURE)"

end
