(* ===== verification/SeccompProps.thy ===== *)
theory SeccompProps
  imports Seccomp
begin

text \<open>
  What the filters decide, for every system call and all arguments. A filter that meets its
  specification is an instance of the locale \<open>filter_spec\<close>; the locale has what the kernel
  makes of several installed filters.
\<close>

section \<open>Running a filter symbolically\<close>

lemmas bpf_simps = BPF_STMT_def BPF_JUMP_def Let_def

lemma sd_load_simps [simp]:
  "sd_load 0 d = sd_nr d" "sd_load 4 d = sd_arch d"
  "sd_load 24 d = half False (sd_args d ! 1)" "sd_load 28 d = half True (sd_args d ! 1)"
  "sd_load 32 d = half False (sd_args d ! 2)"
  by (simp_all add: sd_load_def Let_def)

definition foreign_call :: "seccomp_data \<Rightarrow> bool" where
  "foreign_call d \<longleftrightarrow> sd_arch d \<noteq> AUDIT_ARCH_X86_64 \<or> X32_SYSCALL_BIT \<le> sd_nr d"

text \<open>
  The common start: calls of another architecture and x32 calls kill the process; otherwise
  the rest of the filter runs with the system call number in the accumulator.
\<close>

lemma check_x86_64_exec:
  "bpf_exec (check_x86_64 @ rest) d A =
     (if foreign_call d then Some SECCOMP_RET_KILL_PROCESS else bpf_exec rest d (sd_nr d))"
  by (simp add: check_x86_64_def foreign_call_def bpf_simps)

lemma check_aarch64_exec:
  "bpf_exec (check_aarch64 @ rest) d A =
     (if sd_arch d \<noteq> AUDIT_ARCH_AARCH64 then Some SECCOMP_RET_KILL_PROCESS else bpf_exec rest d (sd_nr d))"
  by (simp add: check_aarch64_def bpf_simps)

section \<open>Verdicts\<close>

definition verdict_deny_open :: "seccomp_data \<Rightarrow> u32" where
  "verdict_deny_open d =
     (if foreign_call d \<or> sd_nr d = NR_open \<or> sd_nr d = NR_openat
      then SECCOMP_RET_KILL_PROCESS else SECCOMP_RET_ALLOW)"

definition verdict_flags :: "u32 \<Rightarrow> u32" where
  "verdict_flags flags =
     (if flags AND O_CREAT \<noteq> 0 then SECCOMP_RET_KILL_PROCESS
      else if flags AND (O_WRONLY OR O_RDWR) \<noteq> 0 then SECCOMP_RET_ERRNO OR ENOTSUP
      else SECCOMP_RET_ALLOW)"

definition verdict_control_open :: "seccomp_data \<Rightarrow> u32" where
  "verdict_control_open d =
     (if foreign_call d then SECCOMP_RET_KILL_PROCESS
      else if sd_nr d = NR_open then verdict_flags (ucast (sd_args d ! 1))
      else if sd_nr d = NR_openat then verdict_flags (ucast (sd_args d ! 2))
      else SECCOMP_RET_ALLOW)"

text \<open>The offset of \<open>lseek\<close> is compared as an unsigned 64-bit number.\<close>

definition verdict_arg64 :: "seccomp_data \<Rightarrow> u32" where
  "verdict_arg64 d =
     (if foreign_call d then SECCOMP_RET_KILL_PROCESS
      else if sd_nr d \<noteq> NR_lseek then SECCOMP_RET_ALLOW
      else if unat (sd_args d ! 1) \<le> 1000 then SECCOMP_RET_ALLOW
      else if unat (sd_args d ! 1) < 2 ^ 32 then SECCOMP_RET_ERRNO OR 1
      else SECCOMP_RET_ERRNO OR 2)"

definition verdict_multiarch :: "seccomp_data \<Rightarrow> u32" where
  "verdict_multiarch d =
     (if sd_arch d = AUDIT_ARCH_X86_64 then
        (if sd_nr d = NR_mq_notify_x86_64 then SECCOMP_RET_ERRNO OR NR_mq_notify_x86_64
         else if sd_nr d = (NR_mq_notify_x32 OR X32_SYSCALL_BIT) then SECCOMP_RET_ERRNO OR NR_mq_notify_x32
         else SECCOMP_RET_ALLOW)
      else if sd_arch d = AUDIT_ARCH_I386 then
        (if sd_nr d = NR_mq_notify_i386 then SECCOMP_RET_ERRNO OR NR_mq_notify_i386 else SECCOMP_RET_ALLOW)
      else SECCOMP_RET_KILL_PROCESS)"

definition verdict_trap_sigsys :: "seccomp_data \<Rightarrow> u32" where
  "verdict_trap_sigsys d =
     (if sd_arch d \<noteq> AUDIT_ARCH_X86_64 then SECCOMP_RET_KILL
      else if X32_SYSCALL_BIT \<le> sd_nr d then SECCOMP_RET_KILL_PROCESS
      else if sd_nr d = NR_getppid then SECCOMP_RET_TRAP else SECCOMP_RET_ALLOW)"

lemma deny_open_run: "seccomp_run deny_open d = Some (verdict_deny_open d)"
  by (simp add: seccomp_run_def deny_open_def check_x86_64_exec verdict_deny_open_def bpf_simps)

lemma deny_open_aarch64_run:
  "seccomp_run deny_open_aarch64 d =
     Some (if sd_arch d \<noteq> AUDIT_ARCH_AARCH64 \<or> sd_nr d = NR_openat_aarch64
           then SECCOMP_RET_KILL_PROCESS else SECCOMP_RET_ALLOW)"
  by (simp add: seccomp_run_def deny_open_aarch64_def check_aarch64_exec bpf_simps)

lemma control_open_run: "seccomp_run control_open d = Some (verdict_control_open d)"
  by (simp add: seccomp_run_def control_open_def check_x86_64_exec verdict_control_open_def
      verdict_flags_def bpf_simps half_def)

lemma unat_half:
  "unat (half True w) = unat w div 2 ^ 32" "unat (half False w) = unat w mod 2 ^ 32"
proof -
  have "unat w < 2 ^ 64" using unsigned_less [of w] by simp
  then have "unat w div 2 ^ 32 < 2 ^ 32" by (simp add: div_less_iff_less_mult)
  then show "unat (half True w) = unat w div 2 ^ 32"
    by (simp only: half_def if_True unsigned_ucast_eq unat_drop_bit_eq) (simp add: drop_bit_eq_div take_bit_eq_mod)
  show "unat (half False w) = unat w mod 2 ^ 32"
    by (simp add: half_def unsigned_ucast_eq take_bit_eq_mod)
qed

lemma half_zero: "half True w = 0 \<longleftrightarrow> unat w < 2 ^ 32"
proof -
  have "half True w = 0 \<longleftrightarrow> unat (half True w) = 0" by (simp add: unsigned_eq_0_iff)
  then show ?thesis by (simp add: unat_half div_eq_0_iff)
qed

lemma half_low: "unat w < 2 ^ 32 \<Longrightarrow> unat (half False w) = unat w"
  by (simp add: unat_half)

lemma arg64_run: "seccomp_run arg64 d = Some (verdict_arg64 d)"
proof -
  have "1000 < half False w \<longleftrightarrow> 1000 < unat w" if "unat w < 2 ^ 32" for w
    using half_low [OF that] by (simp add: word_less_nat_alt)
  moreover have "1000 < unat w" if "\<not> unat w < 2 ^ 32" for w :: u64
    using that by simp
  ultimately show ?thesis
    by (auto simp: seccomp_run_def arg64_def check_x86_64_exec verdict_arg64_def bpf_simps half_zero)
qed

lemma multiarch_run: "seccomp_run multiarch d = Some (verdict_multiarch d)"
  by (simp add: seccomp_run_def multiarch_def verdict_multiarch_def bpf_simps)

lemma deny_syscall_run:
  "seccomp_run (deny_syscall n) d =
     Some (if sd_nr d = word_of_int n then SECCOMP_RET_KILL_PROCESS else SECCOMP_RET_ALLOW)"
  by (simp add: seccomp_run_def deny_syscall_def bpf_simps)

lemma trap_sigsys_run: "seccomp_run trap_sigsys d = Some (verdict_trap_sigsys d)"
  by (simp add: seccomp_run_def trap_sigsys_def verdict_trap_sigsys_def bpf_simps)

lemma logging_run:
  "seccomp_run logging d = Some (if foreign_call d then SECCOMP_RET_KILL_PROCESS else SECCOMP_RET_LOG)"
  by (simp add: seccomp_run_def logging_def check_x86_64_exec bpf_simps)

lemma perf_run:
  "seccomp_run perf d =
     Some (if foreign_call d \<or> sd_nr d = NR_openat then SECCOMP_RET_KILL_PROCESS else SECCOMP_RET_ALLOW)"
  by (simp add: seccomp_run_def perf_def check_x86_64_exec bpf_simps)

lemma create_filter_exec:
  assumes "i = BPF_STMT LD_W_ABS 0 \<or> i = BPF_JUMP JMP_JEQ_K 0 0 0 \<or> i = BPF_STMT ALU_ADD_K 1"
  shows "bpf_exec (replicate n i @ [BPF_STMT RET_K SECCOMP_RET_ALLOW]) d A = Some SECCOMP_RET_ALLOW"
proof (induction n arbitrary: A)
  case (Suc n)
  with assms show ?case by (auto simp: bpf_simps)
qed (simp add: bpf_simps)

lemma create_filter_run: "create_filter mem c n = Ret prog \<Longrightarrow> seccomp_run prog d = Some SECCOMP_RET_ALLOW"
  using create_filter_exec by (auto simp: create_filter_def seccomp_run_def Let_def split: if_splits)

section \<open>Several filters\<close>

text \<open>
  The kernel runs all installed filters, the most recent first, and keeps the value whose
  action, read as a signed number, is lowest.
\<close>

definition ret_action :: "u32 \<Rightarrow> u32" where
  "ret_action r = r AND 0xffff0000"

fun seccomp_stack :: "sock_filter list list \<Rightarrow> seccomp_data \<Rightarrow> u32 \<Rightarrow> u32 option" where
  "seccomp_stack [] d ret = Some ret"
| "seccomp_stack (f # fs) d ret =
     (case seccomp_run f d of
        None \<Rightarrow> None
      | Some cur \<Rightarrow>
          seccomp_stack fs d (if ret_action cur <s ret_action ret then cur else ret))"

definition accepted :: "sock_filter list \<Rightarrow> bool" where
  "accepted f \<longleftrightarrow> (\<forall>d. seccomp_run f d \<noteq> None)"

lemma kill_lowest: "ret_action r <s SECCOMP_RET_KILL_PROCESS \<longleftrightarrow> False"
proof -
  have "- (2 ^ 31) \<le> sint w" for w :: u32
    using sint_ge [of w] by simp
  then show ?thesis by (simp add: word_sless_alt not_less)
qed

lemma kill_stays:
  assumes "list_all accepted fs" "ret_action r = SECCOMP_RET_KILL_PROCESS"
  shows "\<exists>v. seccomp_stack fs d r = Some v \<and> ret_action v = SECCOMP_RET_KILL_PROCESS"
  using assms
  by (induction fs arbitrary: r) (auto simp: accepted_def kill_lowest split: option.splits)

lemma less_kill: "ret_action w = SECCOMP_RET_KILL_PROCESS \<Longrightarrow> ret_action w <s ret_action r \<or> ret_action r = SECCOMP_RET_KILL_PROCESS"
proof -
  assume "ret_action w = SECCOMP_RET_KILL_PROCESS"
  moreover have "\<not> ret_action r <s SECCOMP_RET_KILL_PROCESS" by (simp add: kill_lowest)
  ultimately show ?thesis by (metis signed.antisym_conv3)
qed

locale filter_spec =
  fixes prog :: "sock_filter list" and verdict :: "seccomp_data \<Rightarrow> u32"
  assumes run_verdict: "seccomp_run prog d = Some (verdict d)"
begin

lemma prog_accepted: "accepted prog"
  by (simp add: accepted_def run_verdict)

text \<open>What one filter kills, no combination with other filters revives.\<close>

lemma killed_in_stack:
  assumes "ret_action (verdict d) = SECCOMP_RET_KILL_PROCESS" "prog \<in> set fs" "list_all accepted fs"
  shows "\<exists>v. seccomp_stack fs d r = Some v \<and> ret_action v = SECCOMP_RET_KILL_PROCESS"
  using assms(2,3)
proof (induction fs arbitrary: r)
  case (Cons f fs)
  show ?case
  proof (cases "f = prog")
    case True
    with less_kill [OF assms(1), of r] kill_stays [of fs "verdict d" d] kill_stays [of fs r d] Cons.prems assms(1)
    show ?thesis by (auto simp: run_verdict)
  next
    case False
    with Cons show ?thesis by (auto simp: accepted_def split: option.splits)
  qed
qed simp

end

interpretation f_deny_open: filter_spec deny_open verdict_deny_open
  by unfold_locales (rule deny_open_run)
interpretation f_control_open: filter_spec control_open verdict_control_open
  by unfold_locales (rule control_open_run)
interpretation f_arg64: filter_spec arg64 verdict_arg64
  by unfold_locales (rule arg64_run)
interpretation f_multiarch: filter_spec multiarch verdict_multiarch
  by unfold_locales (rule multiarch_run)
interpretation f_trap: filter_spec trap_sigsys verdict_trap_sigsys
  by unfold_locales (rule trap_sigsys_run)

text \<open>
  The filters of \<open>seccomp_deny_open.c\<close> and \<open>seccomp_control_open.c\<close> decide exactly as
  intended for every call: calls of a foreign architecture (x32 included) kill the process;
  \<open>deny_open\<close> also kills on \<open>open\<close> and \<open>openat\<close>; \<open>control_open\<close> looks at the flags of these
  two calls, kills if \<open>O_CREAT\<close> is set, gives \<open>ENOTSUP\<close> if the file would be opened for
  writing, and allows the rest; every other call is allowed by both.
\<close>

theorem open_filters_exact:
  "seccomp_run deny_open d =
     Some (if foreign_call d \<or> sd_nr d = NR_open \<or> sd_nr d = NR_openat
           then SECCOMP_RET_KILL_PROCESS else SECCOMP_RET_ALLOW) \<and>
   seccomp_run control_open d =
     Some (if foreign_call d then SECCOMP_RET_KILL_PROCESS
           else if sd_nr d = NR_open then verdict_flags (ucast (sd_args d ! 1))
           else if sd_nr d = NR_openat then verdict_flags (ucast (sd_args d ! 2))
           else SECCOMP_RET_ALLOW)"
  by (simp add: deny_open_run control_open_run verdict_deny_open_def verdict_control_open_def)

text \<open>
  The filter of \<open>seccomp_arg64.c\<close> compares the 64-bit offset of \<open>lseek\<close> correctly with
  two 32-bit loads: an offset of at most 1000 is allowed, a larger one gives error 1 if it
  fits 32 bits and error 2 otherwise. The comparison is unsigned, so a negative offset gives
  error 2 as well.
\<close>

theorem arg64_exact:
  assumes "\<not> foreign_call d" and "sd_nr d = NR_lseek"
  shows "seccomp_run arg64 d =
    Some (if unat (sd_args d ! 1) \<le> 1000 then SECCOMP_RET_ALLOW
          else if unat (sd_args d ! 1) < 2 ^ 32 then SECCOMP_RET_ERRNO OR 1
          else SECCOMP_RET_ERRNO OR 2) \<and>
    (sint (sd_args d ! 1) < 0 \<longrightarrow> seccomp_run arg64 d = Some (SECCOMP_RET_ERRNO OR 2))"
proof -
  have "\<not> unat w < 2 ^ 32" if "sint w < 0" for w :: u64
  proof
    assume small: "unat w < 2 ^ 32"
    define n where "n = unat w"
    have "uint w = int n" unfolding n_def by (rule of_nat_unat [symmetric])
    moreover have "n < 2 ^ 32" using small n_def by simp
    then have "int n < 2 ^ 63" by simp
    ultimately have "uint w < 2 ^ 63" by simp
    moreover have "- (2 ^ 63) \<le> uint w" by (rule order_trans [of _ 0]) simp_all
    ultimately have "sint w = uint w"
      using signed_take_bit_int_eq_self [of 63 "uint w"] by (simp add: sint_uint)
    with that show False by simp
  qed
  from this [of "sd_args d ! 1"] assms show ?thesis
    by (cases "sint (sd_args d ! 1) < 0") (simp_all add: arg64_run verdict_arg64_def)
qed

theorem arg64_exact_witness:
  "seccomp_run arg64 \<lparr>sd_nr = NR_lseek, sd_arch = AUDIT_ARCH_X86_64, sd_ip = 0, sd_args = [3, 0x100000001]\<rparr> =
     Some (SECCOMP_RET_ERRNO OR 2)"
  using arg64_exact [of "\<lparr>sd_nr = NR_lseek, sd_arch = AUDIT_ARCH_X86_64, sd_ip = 0, sd_args = [3, 0x100000001]\<rparr>"]
  by (simp add: foreign_call_def)

text \<open>
  The filter of \<open>seccomp_multiarch.c\<close> fails \<open>mq_notify\<close> on x86-64, x32 and i386 with the
  number of the call as the error, which is different for each, allows all other calls of
  these architectures, and kills the process on any other architecture.
\<close>

theorem multiarch_exact:
  "seccomp_run multiarch d =
     Some (if sd_arch d = AUDIT_ARCH_X86_64 \<and> sd_nr d = NR_mq_notify_x86_64
           then SECCOMP_RET_ERRNO OR NR_mq_notify_x86_64
           else if sd_arch d = AUDIT_ARCH_X86_64 \<and> sd_nr d = (NR_mq_notify_x32 OR X32_SYSCALL_BIT)
           then SECCOMP_RET_ERRNO OR NR_mq_notify_x32
           else if sd_arch d = AUDIT_ARCH_I386 \<and> sd_nr d = NR_mq_notify_i386
           then SECCOMP_RET_ERRNO OR NR_mq_notify_i386
           else if sd_arch d = AUDIT_ARCH_X86_64 \<or> sd_arch d = AUDIT_ARCH_I386 then SECCOMP_RET_ALLOW
           else SECCOMP_RET_KILL_PROCESS)"
  by (simp add: multiarch_run verdict_multiarch_def)

text \<open>
  Once \<open>deny_open\<close> is installed, no filter installed before or after it can make \<open>open\<close>
  or \<open>openat\<close> succeed: with any set of accepted filters that contains it, such a call kills
  the process.
\<close>

theorem deny_open_in_stack:
  assumes "deny_open \<in> set fs" and "list_all accepted fs" and "sd_nr d = NR_open \<or> sd_nr d = NR_openat"
  shows "\<exists>v. seccomp_stack fs d SECCOMP_RET_ALLOW = Some v \<and> ret_action v = SECCOMP_RET_KILL_PROCESS"
proof -
  have "ret_action (verdict_deny_open d) = SECCOMP_RET_KILL_PROCESS"
    using assms(3) by (auto simp: verdict_deny_open_def ret_action_def)
  from f_deny_open.killed_in_stack [OF this assms(1,2)] show ?thesis .
qed

theorem deny_open_in_stack_witness:
  "\<exists>v. seccomp_stack [multiarch, deny_open, arg64]
       \<lparr>sd_nr = NR_open, sd_arch = AUDIT_ARCH_X86_64, sd_ip = 0, sd_args = []\<rparr> SECCOMP_RET_ALLOW = Some v \<and>
     ret_action v = SECCOMP_RET_KILL_PROCESS"
proof -
  have "list_all accepted [multiarch, deny_open, arg64]"
    using f_multiarch.prog_accepted f_deny_open.prog_accepted f_arg64.prog_accepted by simp
  from deny_open_in_stack [OF _ this] show ?thesis by simp
qed

end
