(* ===== verification/SeccompFiles.thy ===== *)
theory SeccompFiles
  imports Seccomp
begin

text \<open>
  Filters as files, and the supervisor's helper functions: \<open>fetchFilter\<close> and \<open>dumpFilter\<close> of
  \<open>dump_seccomp_filter.c\<close>, \<open>loadFilter\<close> of \<open>seccomp_launch.c\<close>, and \<open>getTargetPathname\<close> and
  \<open>allocSeccompNotifBuffers\<close> of \<open>seccomp_functions.c\<close>. The results of the system calls are
  parameters.
\<close>

section \<open>The memory of a filter\<close>

text \<open>A \<open>struct sock_filter\<close> has 8 bytes, each field with its least significant byte first.\<close>

definition encode :: "sock_filter \<Rightarrow> u8 list" where
  "encode i =
     [ucast (bpf_code i), ucast (drop_bit 8 (bpf_code i)), bpf_jt i, bpf_jf i,
      ucast (bpf_k i), ucast (drop_bit 8 (bpf_k i)), ucast (drop_bit 16 (bpf_k i)), ucast (drop_bit 24 (bpf_k i))]"

definition decode :: "u8 list \<Rightarrow> sock_filter" where
  "decode b =
     \<lparr>bpf_code = ucast (b ! 0) OR push_bit 8 (ucast (b ! 1)), bpf_jt = b ! 2, bpf_jf = b ! 3,
      bpf_k = ucast (b ! 4) OR push_bit 8 (ucast (b ! 5)) OR push_bit 16 (ucast (b ! 6)) OR
              push_bit 24 (ucast (b ! 7))\<rparr>"

definition filter_bytes :: "sock_filter list \<Rightarrow> u8 list" where
  "filter_bytes prog = concat (map encode prog)"

text \<open>The array of \<open>n\<close> structures that lies at the start of a block of bytes.\<close>

fun as_filter :: "nat \<Rightarrow> u8 list \<Rightarrow> sock_filter list" where
  "as_filter 0 b = []"
| "as_filter (Suc n) b = decode (take 8 b) # as_filter n (drop 8 b)"

section \<open>fetchFilter and dumpFilter\<close>

text \<open>
  \<open>fetchFilter\<close>: the filter of the traced process, or the end of the program. The system
  calls: \<open>attach\<close> and \<open>wait\<close> succeed or not; the first \<open>PTRACE_SECCOMP_GET_FILTER\<close> gives the
  number of instructions, the second the instructions themselves.
\<close>

record tracee =
  attach_ok :: bool
  wait_ok :: bool
  filter_count :: "errno + nat"
  calloc_ok :: bool
  filter_insns :: "errno + sock_filter list"

definition fetchFilter :: "tracee \<Rightarrow> (sock_filter list \<times> nat) res" where
  "fetchFilter t =
     (if \<not> attach_ok t then Exit EXIT_FAILURE
      else if \<not> wait_ok t then Exit EXIT_FAILURE
      else case filter_count t of
        Inl e \<Rightarrow> Exit EXIT_FAILURE
      | Inr icnt \<Rightarrow>
          if \<not> calloc_ok t then Exit EXIT_FAILURE
          else (case filter_insns t of
                  Inl e \<Rightarrow> Exit EXIT_FAILURE
                | Inr prog \<Rightarrow> if icnt < length prog then Undef else Ret (prog, length prog)))"

text \<open>
  \<open>dumpFilter\<close>: the contents of the file. \<open>accepted_bytes\<close> is what \<open>write\<close> returns (\<open>None\<close>
  for \<open>-1\<close>); a partial write is not an error for the code.
\<close>

definition dumpFilter :: "bool \<Rightarrow> nat option \<Rightarrow> bool \<Rightarrow> sock_filter list \<Rightarrow> nat \<Rightarrow> u8 list res" where
  "dumpFilter open_ok accepted_bytes close_ok filterProg instrCnt =
     (if \<not> open_ok then Exit EXIT_FAILURE
      else case accepted_bytes of
        None \<Rightarrow> Exit EXIT_FAILURE
      | Some n \<Rightarrow> if \<not> close_ok then Exit EXIT_FAILURE
                  else Ret (take (min n (instrCnt * 8)) (filter_bytes (take instrCnt filterProg))))"

section \<open>loadFilter\<close>

text \<open>
  The file is read into a buffer of its size; \<open>fprog.len\<close> has 16 bits. \<open>install\<close> is the
  answer of the kernel. The result is the filter that is then in force, and the static
  variable \<open>noNewPrivsAlreadySet\<close>.
\<close>

record filter_file =
  prctl_ok :: bool
  contents :: "u8 list option"
  fstat_ok :: bool
  malloc_ok :: bool
  read_count :: int
  fclose_ok :: bool
  install :: "sock_filter list \<Rightarrow> bool"

definition loadFilter :: "filter_file \<Rightarrow> bool \<Rightarrow> sock_filter list res \<times> bool" where
  "loadFilter f noNewPrivsAlreadySet =
     (if \<not> noNewPrivsAlreadySet \<and> \<not> prctl_ok f then (Exit EXIT_FAILURE, noNewPrivsAlreadySet)
      else
        (case contents f of
           None \<Rightarrow> Exit EXIT_FAILURE
         | Some bytes \<Rightarrow>
             let filterSize = length bytes in
             if \<not> fstat_ok f then Exit EXIT_FAILURE
             else if filterSize mod 8 \<noteq> 0 then Exit EXIT_FAILURE
             else if \<not> malloc_ok f then Exit EXIT_FAILURE
             else if read_count f \<noteq> int filterSize then Exit EXIT_FAILURE
             else if \<not> fclose_ok f then Exit EXIT_FAILURE
             else
               let len = unat (of_nat (filterSize div 8) :: u16);
                   prog = as_filter len bytes
               in if \<not> install f prog then Exit EXIT_FAILURE else Ret prog, True))"

section \<open>Helper functions of a supervisor\<close>

datatype gtp = GTP_OK | GTP_BAD_READ | GTP_ID_NOT_VALID | GTP_BAD_PATH

text \<open>
  \<open>getTargetPathname\<close>: \<open>mem_ok\<close>, whether \<open>/proc/PID/mem\<close> could be opened; \<open>valid1\<close> and
  \<open>valid2\<close>, the answers of the two calls of \<open>cookieIsValid\<close>; \<open>nread\<close>, the result of \<open>pread\<close>
  (\<open>None\<close> for \<open>-1\<close>), at most \<open>len\<close> bytes. The second component is what is then in \<open>path\<close>.
\<close>

definition strnlen :: "u8 list \<Rightarrow> nat \<Rightarrow> nat" where
  "strnlen s n = length (takeWhile (\<lambda>c. c \<noteq> 0) (take n s))"

definition getTargetPathname :: "bool \<Rightarrow> bool \<Rightarrow> u8 list option \<Rightarrow> bool \<Rightarrow> u8 list \<Rightarrow> gtp \<times> u8 list" where
  "getTargetPathname mem_ok valid1 got valid2 path =
     (if \<not> mem_ok then (GTP_BAD_READ, path)
      else if \<not> valid1 then (GTP_ID_NOT_VALID, path)
      else case got of
        None \<Rightarrow> (GTP_BAD_READ, path)
      | Some bytes \<Rightarrow>
          let path' = bytes @ drop (length bytes) path in
          if bytes = [] then (GTP_BAD_READ, path')
          else if \<not> valid2 then (GTP_ID_NOT_VALID, path')
          else if strnlen path' (length bytes) < length bytes then (GTP_OK, path')
          else (GTP_BAD_PATH, path'))"

text \<open>
  \<open>allocSeccompNotifBuffers\<close>: \<open>sizes\<close> is the kernel's answer (sizes of request and response),
  \<open>userSize\<close> the size of \<open>struct seccomp_notif_resp\<close> in the program, \<open>alloc\<close> the allocator.
  The result are the sizes of the two buffers, \<open>None\<close> for a null pointer. After the second
  allocation the code tests \<open>resp\<close>, the address of the caller's variable, and not \<open>*resp\<close>.
\<close>

definition allocSeccompNotifBuffers :: "(nat \<times> nat) option \<Rightarrow> nat \<Rightarrow> (nat \<Rightarrow> bool) \<Rightarrow> (nat option \<times> nat option) res" where
  "allocSeccompNotifBuffers sizes userSize alloc =
     (case sizes of
        None \<Rightarrow> Exit EXIT_FAILURE
      | Some (req_size, kresp) \<Rightarrow>
          if \<not> alloc req_size then Exit EXIT_FAILURE
          else
            let resp_size = (if kresp < userSize then userSize else kresp) in
            Ret (Some req_size, if alloc resp_size then Some resp_size else None))"

section \<open>Correctness\<close>

lemma decode_encode: "decode (encode i) = i"
proof (cases i)
  case (fields c t f k)
  have "ucast (ucast c :: u8) OR push_bit 8 (ucast (ucast (drop_bit 8 c) :: u8)) = c"
    by (rule bit_word_eqI) (auto simp: bit_simps)
  moreover have "ucast (ucast k :: u8) OR push_bit 8 (ucast (ucast (drop_bit 8 k) :: u8)) OR
      push_bit 16 (ucast (ucast (drop_bit 16 k) :: u8)) OR push_bit 24 (ucast (ucast (drop_bit 24 k) :: u8)) = k"
    (is "?l = k")
  proof (rule bit_word_eqI)
    fix n
    assume "n < LENGTH(32)"
    then show "bit ?l n \<longleftrightarrow> bit k n"
      by (cases "n < 16"; cases "n < 24") (auto simp: bit_simps)
  qed
  ultimately show ?thesis using fields by (simp add: decode_def encode_def)
qed

lemma length_encode [simp]: "length (encode i) = 8"
  by (simp add: encode_def)

lemma length_filter_bytes [simp]: "length (filter_bytes prog) = 8 * length prog"
  by (induction prog) (auto simp: filter_bytes_def)

lemma as_filter_bytes: "as_filter (length prog) (filter_bytes prog) = prog"
  by (induction prog) (auto simp: filter_bytes_def decode_encode)

lemma length_as_filter [simp]: "length (as_filter n b) = n"
  by (induction n arbitrary: b) auto

text \<open>
  A filter that has been dumped completely and is loaded again is the same filter: for a
  filter within the kernel's limit of 4096 instructions, \<open>loadFilter\<close> installs instruction for
  instruction what \<open>dumpFilter\<close> was given.
\<close>

theorem filter_dump_load:
  assumes "length prog \<le> 4096"
    and "dumpFilter True (Some (8 * length prog)) True prog (length prog) = Ret bytes"
    and "prctl_ok f" and "contents f = Some bytes" and "fstat_ok f" and "malloc_ok f"
    and "read_count f = int (length bytes)" and "fclose_ok f" and "install f prog"
  shows "loadFilter f noNewPrivsAlreadySet = (Ret prog, True)"
proof -
  have b: "bytes = filter_bytes prog" using assms(2) by (simp add: dumpFilter_def)
  have "unat (of_nat (length prog) :: u16) = length prog"
    using assms(1) by (simp add: unat_of_nat)
  with b assms show ?thesis by (simp add: loadFilter_def Let_def as_filter_bytes)
qed

definition demo_file :: filter_file where
  "demo_file = \<lparr>prctl_ok = True, contents = Some (filter_bytes deny_open), fstat_ok = True, malloc_ok = True,
     read_count = 72, fclose_ok = True, install = (\<lambda>_. True)\<rparr>"

theorem filter_dump_load_witness: "loadFilter demo_file False = (Ret deny_open, True)"
proof (rule filter_dump_load)
  have l: "length deny_open = 9" by (simp add: deny_open_def check_x86_64_def)
  show "length deny_open \<le> 4096" using l by simp
  show "dumpFilter True (Some (8 * length deny_open)) True deny_open (length deny_open) = Ret (filter_bytes deny_open)"
    by (simp add: dumpFilter_def)
  show "read_count demo_file = int (length (filter_bytes deny_open))" using l by (simp add: demo_file_def)
qed (simp_all add: demo_file_def)

text \<open>
  \<open>getTargetPathname\<close> succeeds only if the notification was still valid after the bytes had
  been read, and then the buffer holds a terminated string within the bytes that were read;
  it does so whenever the bytes contain a null byte.
\<close>

theorem getTargetPathname_terminated:
  "fst (getTargetPathname mem_ok valid1 got valid2 path) = GTP_OK \<longleftrightarrow>
     mem_ok \<and> valid1 \<and> valid2 \<and>
     (\<exists>bytes. got = Some bytes \<and> 0 \<in> set bytes \<and>
        snd (getTargetPathname mem_ok valid1 got valid2 path) = bytes @ drop (length bytes) path)"
proof -
  have "strnlen (b @ r) (length b) < length b \<longleftrightarrow> 0 \<in> set b" for b r :: "u8 list"
    by (induction b) (auto simp: strnlen_def)
  then show ?thesis by (auto simp: getTargetPathname_def Let_def split: option.splits)
qed

text \<open>
  A failed allocation of the response buffer goes unnoticed:
  \<open>allocSeccompNotifBuffers\<close> returns with a null pointer for it.
\<close>

theorem allocSeccompNotifBuffers_null:
  assumes "alloc a" and "\<not> alloc (max b userSize)"
  shows "allocSeccompNotifBuffers (Some (a, b)) userSize alloc = Ret (Some a, None)"
  using assms by (simp add: allocSeccompNotifBuffers_def Let_def max_def split: if_splits)

theorem allocSeccompNotifBuffers_null_witness:
  "allocSeccompNotifBuffers (Some (80, 24)) 32 (\<lambda>n. n = 80) = Ret (Some 80, None)"
  by (rule allocSeccompNotifBuffers_null) simp_all

end
