(* ===== verification/SeccompNotify.thy ===== *)
theory SeccompNotify
  imports SeccompProps SeccompFiles
begin

unbundle bit_operations_syntax

text \<open>
  Supervised system calls: \<open>seccomp_unotify_mkdir.c\<close> and \<open>seccomp_unotify_openat.c\<close>. A target
  process installs a filter that reports a system call to a supervisor process, which answers
  in the target's place. The theory has the filters, the exchange of the notification
  descriptor (\<open>sockets/scm_functions.c\<close>), and the loops \<open>handleNotifications\<close>; what the kernel
  answers in one iteration is a record, and a run is a list of them.
\<close>

section \<open>Filters of the target\<close>

abbreviation (input) SECCOMP_RET_USER_NOTIF :: u32 where "SECCOMP_RET_USER_NOTIF \<equiv> 0x7fc00000"
abbreviation (input) SECCOMP_RET_TRACE :: u32 where "SECCOMP_RET_TRACE \<equiv> 0x7ff00000"
abbreviation (input) NR_mkdir :: u32 where "NR_mkdir \<equiv> 83"

definition notify_mkdir :: "sock_filter list" where
  "notify_mkdir = check_x86_64 @
     [BPF_JUMP JMP_JEQ_K NR_mkdir 0 1,
      BPF_STMT RET_K SECCOMP_RET_USER_NOTIF,
      BPF_STMT RET_K SECCOMP_RET_ALLOW]"

definition notify_openat :: "sock_filter list" where
  "notify_openat = check_x86_64 @
     [BPF_JUMP JMP_JEQ_K NR_openat 0 1,
      BPF_STMT RET_K SECCOMP_RET_USER_NOTIF,
      BPF_STMT RET_K SECCOMP_RET_ALLOW]"

text \<open>\<open>installFilter2\<close>: the last instruction is replaced according to the option \<open>-f\<close>.\<close>

definition filter2 :: "int \<Rightarrow> sock_filter list" where
  "filter2 secondFilter =
     (let filter = check_x86_64 @
            [BPF_JUMP JMP_JEQ_K NR_mkdir 1 0,
             BPF_STMT RET_K SECCOMP_RET_ALLOW,
             \<lparr>bpf_code = 0, bpf_jt = 0, bpf_jf = 0, bpf_k = 0\<rparr>];
          retTrace = BPF_STMT RET_K SECCOMP_RET_TRACE;
          retErrno = BPF_STMT RET_K (SECCOMP_RET_ERRNO OR ENOTSUP)
      in filter[length filter - 1 := if secondFilter = uint SECCOMP_RET_ERRNO then retErrno else retTrace])"

section \<open>Command line\<close>

record cmdLineOpts =
  delaySecs :: int
  secondFilter :: int

text \<open>The options as \<open>getopt\<close> delivers them, and whether an argument is left after them.\<close>

fun parseOpts :: "(char \<times> string) list \<Rightarrow> cmdLineOpts \<Rightarrow> cmdLineOpts res" where
  "parseOpts [] o' = Ret o'"
| "parseOpts ((c, optarg) # os) o' =
     (if c = CHR ''f'' then
        (if optarg \<noteq> [] \<and> hd optarg = CHR ''e'' then parseOpts os (o'\<lparr>secondFilter := uint SECCOMP_RET_ERRNO\<rparr>)
         else if optarg \<noteq> [] \<and> hd optarg = CHR ''t'' then parseOpts os (o'\<lparr>secondFilter := uint SECCOMP_RET_TRACE\<rparr>)
         else Exit EXIT_FAILURE)
      else if c = CHR ''d'' then parseOpts os (o'\<lparr>delaySecs := atoi optarg\<rparr>)
      else Exit EXIT_FAILURE)"

definition parseCommandLineOptions :: "(char \<times> string) list \<Rightarrow> bool \<Rightarrow> cmdLineOpts res" where
  "parseCommandLineOptions opts argLeft =
     (case parseOpts opts \<lparr>delaySecs = 0, secondFilter = -1\<rparr> of
        Ret o' \<Rightarrow> if \<not> argLeft then Exit EXIT_FAILURE else Ret o'
      | r \<Rightarrow> r)"

text \<open>The filters that the target has installed when it makes its calls, the last one first.\<close>

definition targetFilters :: "cmdLineOpts \<Rightarrow> sock_filter list list" where
  "targetFilters o' =
     (if secondFilter o' \<noteq> -1 then [filter2 (secondFilter o'), notify_mkdir] else [notify_mkdir])"

section \<open>Passing a descriptor\<close>

text \<open>A control message with its payload; \<open>CMSG_LEN(sizeof(int))\<close> is 20 on 64-bit Linux.\<close>

abbreviation (input) SOL_SOCKET :: int where "SOL_SOCKET \<equiv> 1"
abbreviation (input) SCM_RIGHTS :: int where "SCM_RIGHTS \<equiv> 1"
abbreviation (input) CMSG_LEN_INT :: nat where "CMSG_LEN_INT \<equiv> 20"

record cmsg =
  cmsg_len :: nat
  cmsg_level :: int
  cmsg_type :: int
  cmsg_data :: int

text \<open>\<open>sendfd\<close>: \<open>sendmsg\<close> is the kernel's; the message carries the integer 12345 and the descriptor.\<close>

definition sendfd :: "(int \<times> cmsg \<Rightarrow> 'k \<Rightarrow> errno option \<times> 'k) \<Rightarrow> int \<Rightarrow> 'k \<Rightarrow> (errno + unit) \<times> 'k" where
  "sendfd sendmsg fd k =
     (case sendmsg (12345, \<lparr>cmsg_len = CMSG_LEN_INT, cmsg_level = SOL_SOCKET, cmsg_type = SCM_RIGHTS,
                            cmsg_data = fd\<rparr>) k of
        (Some e, k') \<Rightarrow> (Inl e, k')
      | (None, k') \<Rightarrow> (Inr (), k'))"

text \<open>\<open>recvfd\<close>: what \<open>recvmsg\<close> gives, the first control message being absent for \<open>None\<close>.\<close>

definition recvfd :: "errno + cmsg option \<Rightarrow> errno + int" where
  "recvfd r =
     (case r of
        Inl e \<Rightarrow> Inl e
      | Inr None \<Rightarrow> Inl EINVAL
      | Inr (Some c) \<Rightarrow>
          if cmsg_len c \<noteq> CMSG_LEN_INT \<or> cmsg_level c \<noteq> SOL_SOCKET \<or> cmsg_type c \<noteq> SCM_RIGHTS then Inl EINVAL
          else Inr (cmsg_data c))"

section \<open>Notifications and responses\<close>

record notif =
  notif_id :: u64
  notif_pid :: int
  notif_data :: seccomp_data

record notif_resp =
  resp_id :: u64
  resp_val :: int
  resp_error :: int
  resp_flags :: u32


text \<open>
  One iteration: what \<open>NOTIF_RECV\<close> gives; the two validity checks around the delay; the answers
  inside \<open>getTargetPathname\<close>; the answer of the supervisor's own \<open>mkdir\<close> or \<open>openat\<close>; the
  descriptor that \<open>NOTIF_ADDFD\<close> gives; and the error of \<open>NOTIF_SEND\<close>, if any.
\<close>

record round =
  recv :: "errno + notif"
  delay_valid1 :: bool
  delay_valid2 :: bool
  proc_mem_ok :: bool
  id_valid1 :: bool
  pread_got :: "u8 list option"
  id_valid2 :: bool
  mkdir_answer :: "errno option"
  openat_answer :: "errno + int"
  addfd_answer :: "errno + int"
  send_answer :: "errno option"

text \<open>
  The state of the supervisor: the buffer \<open>path\<close>, the responses that it has sent, the
  directories that it has tried to create (with the mode), the files that it has tried to open
  and the descriptors that it has asked the kernel to add to the target (\<open>id\<close>, \<open>srcfd\<close>, \<open>newfd\<close>).
\<close>

record supervisor =
  sup_path :: "u8 list"
  sent :: "notif_resp list"
  mkdirs :: "(u8 list \<times> u64) list"
  opens :: "(u64 \<times> u8 list \<times> u64 \<times> u64) list"
  addfds :: "(u64 \<times> int \<times> int) list"


text \<open>The C string at the start of a buffer.\<close>

definition cstring :: "u8 list \<Rightarrow> u8 list" where
  "cstring b = takeWhile (\<lambda>c. c \<noteq> 0) b"


datatype outcome = Again | Stop | Quit int





text \<open>One iteration of the \<open>openat\<close> supervisor.\<close>

definition openatRound :: "round \<Rightarrow> supervisor \<Rightarrow> outcome \<times> supervisor" where
  "openatRound r s =
     (case recv r of
        Inl e \<Rightarrow> if e = EINTR then (Again, s) else (Quit EXIT_FAILURE, s)
      | Inr req \<Rightarrow>
          let d = notif_data req in
          if sd_nr d \<noteq> NR_openat then (Quit EXIT_FAILURE, s)
          else
            let (pathStatus, path) =
                  getTargetPathname (proc_mem_ok r) (id_valid1 r) (pread_got r) (id_valid2 r) (sup_path s);
                resp = \<lparr>resp_id = notif_id req, resp_val = 0, resp_error = 0, resp_flags = 0\<rparr>;
                s = s\<lparr>sup_path := path\<rparr>
            in
            if pathStatus \<noteq> GTP_OK then (Again, s\<lparr>sent := sent s @ [resp\<lparr>resp_error := - EINVAL\<rparr>]\<rparr>)
            else
              let s = s\<lparr>opens := opens s @ [(sd_args d ! 0, cstring path, sd_args d ! 2, sd_args d ! 3)]\<rparr> in
              (case openat_answer r of
                 Inl e \<Rightarrow> (Again, s\<lparr>sent := sent s @ [resp\<lparr>resp_error := - e\<rparr>]\<rparr>)
               | Inr fd \<Rightarrow>
                   let s = s\<lparr>addfds := addfds s @ [(notif_id req, fd, 42 + fd)]\<rparr> in
                   (case addfd_answer r of
                      Inl e \<Rightarrow> (Quit EXIT_FAILURE, s)
                    | Inr remoteFd \<Rightarrow> (Again, s\<lparr>sent := sent s @ [resp\<lparr>resp_error := 0, resp_val := remoteFd\<rparr>]\<rparr>))))"

fun handleOpenat :: "round list \<Rightarrow> supervisor \<Rightarrow> unit res \<times> supervisor" where
  "handleOpenat [] s = (Ret (), s)"
| "handleOpenat (r # rs) s =
     (case openatRound r s of
        (Again, s') \<Rightarrow> handleOpenat rs s'
      | (Stop, s') \<Rightarrow> (Exit EXIT_FAILURE, s')
      | (Quit n, s') \<Rightarrow> (Exit n, s'))"

section \<open>What the target's filters decide\<close>

definition verdict_notify :: "u32 \<Rightarrow> seccomp_data \<Rightarrow> u32" where
  "verdict_notify nr d =
     (if foreign_call d then SECCOMP_RET_KILL_PROCESS
      else if sd_nr d = nr then SECCOMP_RET_USER_NOTIF else SECCOMP_RET_ALLOW)"

definition verdict_filter2 :: "int \<Rightarrow> seccomp_data \<Rightarrow> u32" where
  "verdict_filter2 f d =
     (if foreign_call d then SECCOMP_RET_KILL_PROCESS
      else if sd_nr d = NR_mkdir then
        (if f = uint SECCOMP_RET_ERRNO then SECCOMP_RET_ERRNO OR ENOTSUP else SECCOMP_RET_TRACE)
      else SECCOMP_RET_ALLOW)"

interpretation f_notify_mkdir: filter_spec notify_mkdir "verdict_notify NR_mkdir"
  by unfold_locales (simp add: seccomp_run_def notify_mkdir_def check_x86_64_exec verdict_notify_def bpf_simps)
interpretation f_notify_openat: filter_spec notify_openat "verdict_notify NR_openat"
  by unfold_locales (simp add: seccomp_run_def notify_openat_def check_x86_64_exec verdict_notify_def bpf_simps)

lemma filter2_eq:
  "filter2 f = check_x86_64 @
     [BPF_JUMP JMP_JEQ_K NR_mkdir 1 0, BPF_STMT RET_K SECCOMP_RET_ALLOW,
      if f = uint SECCOMP_RET_ERRNO then BPF_STMT RET_K (SECCOMP_RET_ERRNO OR ENOTSUP)
      else BPF_STMT RET_K SECCOMP_RET_TRACE]"
  by (simp add: filter2_def Let_def check_x86_64_def)

interpretation f_filter2: filter_spec "filter2 f" "verdict_filter2 f" for f
  by unfold_locales (simp add: seccomp_run_def filter2_eq check_x86_64_exec verdict_filter2_def bpf_simps)

text \<open>The actions in the order of the kernel, as signed numbers.\<close>

lemma action_order:
  "SECCOMP_RET_KILL_PROCESS <s (0x7fff0000 :: u32)" "SECCOMP_RET_ERRNO <s (0x7fff0000 :: u32)"
  "SECCOMP_RET_USER_NOTIF <s (0x7fff0000 :: u32)" "SECCOMP_RET_TRACE <s (0x7fff0000 :: u32)"
  "SECCOMP_RET_USER_NOTIF <s (0x7ff00000 :: u32)" "\<not> SECCOMP_RET_USER_NOTIF <s (0x50000 :: u32)"
  "\<not> (0x7fff0000 :: u32) <s 0x50000" "\<not> (0x7fff0000 :: u32) <s 0x7ff00000" "\<not> (w :: u32) <s w"
  by (simp_all add: word_sless_alt)

lemma target_filters_run:
  "seccomp_stack (targetFilters o') d SECCOMP_RET_ALLOW =
    Some (if foreign_call d then SECCOMP_RET_KILL_PROCESS
          else if sd_nr d = NR_mkdir then
            (if secondFilter o' = uint SECCOMP_RET_ERRNO then SECCOMP_RET_ERRNO OR ENOTSUP else SECCOMP_RET_USER_NOTIF)
          else SECCOMP_RET_ALLOW)"
  by (auto simp: targetFilters_def f_filter2.run_verdict f_notify_mkdir.run_verdict verdict_filter2_def
      verdict_notify_def ret_action_def action_order)

text \<open>
  The filters of the target: a call with a foreign convention kills it; \<open>mkdir\<close> is reported
  to the supervisor, unless the second filter was installed with \<open>-f e\<close>, which has precedence
  and fails the call with \<open>ENOTSUP\<close>, while the one for \<open>-f t\<close> is overruled; every other call
  is allowed.
\<close>

theorem target_filters_exact:
  "seccomp_stack (targetFilters o') d SECCOMP_RET_ALLOW =
    Some (if foreign_call d then SECCOMP_RET_KILL_PROCESS
          else if sd_nr d = NR_mkdir then
            (if secondFilter o' = uint SECCOMP_RET_ERRNO then SECCOMP_RET_ERRNO OR ENOTSUP else SECCOMP_RET_USER_NOTIF)
          else SECCOMP_RET_ALLOW)"
  by (rule target_filters_run)

lemma options_second_filter:
  "parseCommandLineOptions os left = Ret o' \<Longrightarrow>
     secondFilter o' \<in> {-1, uint SECCOMP_RET_ERRNO, uint SECCOMP_RET_TRACE}"
proof -
  have "parseOpts os p = Ret o' \<Longrightarrow> secondFilter p \<in> {-1, uint SECCOMP_RET_ERRNO, uint SECCOMP_RET_TRACE} \<Longrightarrow>
      secondFilter o' \<in> {-1, uint SECCOMP_RET_ERRNO, uint SECCOMP_RET_TRACE}" for p
    by (induction os p rule: parseOpts.induct) (auto split: if_splits)
  then show "parseCommandLineOptions os left = Ret o' \<Longrightarrow> ?thesis"
    by (auto simp: parseCommandLineOptions_def split: res.splits if_splits)
qed

section \<open>What the supervisor does\<close>











text \<open>
  The \<open>openat\<close> supervisor answers each notification once, under its own ID, unless the kernel
  refuses to add the descriptor; it opens files for valid notifications only, it adds only the
  descriptor that it has opened for the notification, and the value that the target sees is
  the descriptor added to it.
\<close>

lemma openatRound_answers:
  assumes "recv r = Inr req" "sd_nr (notif_data req) = NR_openat" "openatRound r s = (Again, t)"
  shows "\<exists>resp. sent t = sent s @ [resp] \<and> resp_id resp = notif_id req \<and> resp_flags resp = 0 \<and>
    (resp_error resp = 0 \<and> (\<forall>e. openat_answer r = Inl e \<longrightarrow> e \<noteq> 0) \<longrightarrow> addfd_answer r = Inr (resp_val resp)) \<and>
    (\<forall>a \<in> set (addfds t) - set (addfds s). fst a = notif_id req \<and> openat_answer r = Inr (fst (snd a))) \<and>
    (opens t \<noteq> opens s \<longrightarrow> id_valid2 r)"
  using assms
  by (auto simp: openatRound_def getTargetPathname_def Let_def split: if_splits option.splits sum.splits prod.splits)

lemma fd_passed_on:
  assumes "sendfd (\<lambda>(d, c) k. (None, Some c)) fd k = (Inr (), k')"
  shows "recvfd (Inr k') = Inr fd"
  using assms by (auto simp: sendfd_def recvfd_def)

section \<open>An example\<close>




end
