(* ===== verification/Machines.thy ===== *)
theory Machines
  imports Prelude
begin

text \<open>
  Runs of concurrent programs. Several programs are modelled as processes or threads that
  share a state: a step function says what happens when the scheduler picks a process (or when
  something fails), and is \<open>None\<close> when that process cannot go on. A run is a list of such
  choices. The locales are what the proofs about all runs have in common.
\<close>

fun run_steps :: "('t \<Rightarrow> 's \<Rightarrow> 's option) \<Rightarrow> 't list \<Rightarrow> 's \<Rightarrow> 's option" where
  "run_steps step [] s = Some s"
| "run_steps step (t # ts) s = (case step t s of None \<Rightarrow> None | Some s' \<Rightarrow> run_steps step ts s')"

lemma run_steps_ConsE:
  assumes "run_steps step (t # ts) s = Some s'"
  obtains u where "step t s = Some u" "run_steps step ts u = Some s'"
  using assms by (auto split: option.splits)

locale machine =
  fixes step :: "'t \<Rightarrow> 's \<Rightarrow> 's option" and inv :: "'s \<Rightarrow> bool"
  assumes step_inv: "step t s = Some s' \<Longrightarrow> inv s \<Longrightarrow> inv s'"
begin

lemma run_inv: "run_steps step ts s = Some s' \<Longrightarrow> inv s \<Longrightarrow> inv s'"
  by (induction ts arbitrary: s) (auto elim!: run_steps_ConsE intro: step_inv simp del: run_steps.simps(2))

text \<open>A function of the state that no step changes.\<close>

lemma run_constant:
  assumes "\<And>t s s'. step t s = Some s' \<Longrightarrow> f s' = f s"
  shows "run_steps step ts s = Some s' \<Longrightarrow> f s' = f s"
  by (induction ts arbitrary: s) (auto elim!: run_steps_ConsE dest: assms simp del: run_steps.simps(2))

end

text \<open>Every step uses up some of the work that is left, apart from \<open>slack\<close> that a choice may add.\<close>

locale bounded_machine = machine step inv
  for step :: "'t \<Rightarrow> 's \<Rightarrow> 's option" and inv +
  fixes work :: "'s \<Rightarrow> nat" and slack :: "'t \<Rightarrow> nat"
  assumes step_work: "step t s = Some s' \<Longrightarrow> inv s \<Longrightarrow> work s' < work s + slack t"
begin

lemma run_bound:
  "run_steps step ts s = Some s' \<Longrightarrow> inv s \<Longrightarrow> length ts + work s' \<le> work s + sum_list (map slack ts)"
proof (induction ts arbitrary: s)
  case (Cons t ts)
  from Cons.prems(1) obtain u where u: "step t s = Some u" "run_steps step ts u = Some s'" by (rule run_steps_ConsE)
  from Cons.IH [OF u(2) step_inv [OF u(1) Cons.prems(2)]] step_work [OF u(1) Cons.prems(2)] show ?case by simp
qed simp

end

text \<open>The work of a list of processes when one of them has made a step.\<close>

lemma sum_list_update_eq:
  "i < length xs \<Longrightarrow> sum_list (map f (xs[i := x])) + f (xs ! i) = sum_list (map f xs) + (f x :: nat)"
  by (induction xs arbitrary: i) (auto split: nat.split)

end
