(* ===== verification/ProdCondvar.thy ===== *)
theory ProdCondvar
  imports Machines
begin

text \<open>
  The producers and the consumer of \<open>threads/prod_condvar.c\<close>. The threads share the mutex
  \<open>mtx\<close>, the condition variable \<open>cond\<close> and the number \<open>avail\<close> of units. A tick of a thread is
  one statement; which thread is next is decided by a schedule, an arbitrary list of ticks.

  POSIX says of the calls: \<open>pthread_mutex_lock\<close> waits until the mutex is free,
  \<open>pthread_cond_wait\<close> unlocks the mutex and starts to wait in one step and locks it again
  before it returns, \<open>pthread_cond_signal\<close> wakes a thread that waits and is lost when no thread
  does, and a waiting thread may also be woken without a signal (\<open>Spurious\<close>). On these
  statically initialised objects the calls do not fail; \<open>pthread_create\<close> can (\<open>NoThread\<close>).
  The counters are mathematical integers.
\<close>

section \<open>State\<close>

datatype ppc = P_start | P_test | P_lock | P_inc | P_unlock | P_signal | P_end

text \<open>A producer thread: its argument and the variables \<open>cnt\<close> and \<open>j\<close>.\<close>

record producer_t =
  ppc :: ppc
  parg :: string
  pcnt :: int
  pj :: int

datatype cpc = C_create "string list" | C_lock | C_test | C_waiting | C_relock | C_consume
  | C_unlock | C_check | C_exit | C_failed

datatype owner = Unlocked | MainThread | Producer nat

record condvar =
  mtx :: owner
  avail :: int
  prods :: "producer_t list"
  cpc :: cpc
  totRequired :: int
  numConsumed :: int
  finished :: bool

datatype tick = Main | Prod nat | Spurious | NoThread

definition pc_init :: "string list \<Rightarrow> condvar" where
  "pc_init args = \<lparr>mtx = Unlocked, avail = 0, prods = [], cpc = C_create args, totRequired = 0,
     numConsumed = 0, finished = False\<rparr>"

section \<open>The threads\<close>

definition producer :: "nat \<Rightarrow> condvar \<Rightarrow> condvar option" where
  "producer i s =
     (if length (prods s) \<le> i then None
      else let p = prods s ! i; go = (\<lambda>q. (prods s)[i := q]) in
        case ppc p of
          P_start \<Rightarrow> Some (s\<lparr>prods := go (p\<lparr>ppc := P_test, pcnt := atoi (parg p), pj := 0\<rparr>)\<rparr>)
        | P_test \<Rightarrow> Some (s\<lparr>prods := go (p\<lparr>ppc := (if pj p < pcnt p then P_lock else P_end)\<rparr>)\<rparr>)
        | P_lock \<Rightarrow>
            if mtx s = Unlocked
            then Some (s\<lparr>mtx := Producer i, prods := go (p\<lparr>ppc := P_inc\<rparr>)\<rparr>) else None
        | P_inc \<Rightarrow> Some (s\<lparr>avail := avail s + 1, prods := go (p\<lparr>ppc := P_unlock\<rparr>)\<rparr>)
        | P_unlock \<Rightarrow> Some (s\<lparr>mtx := Unlocked, prods := go (p\<lparr>ppc := P_signal\<rparr>)\<rparr>)
        | P_signal \<Rightarrow>
            Some (s\<lparr>cpc := (if cpc s = C_waiting then C_relock else cpc s),
                     prods := go (p\<lparr>ppc := P_test, pj := pj p + 1\<rparr>)\<rparr>)
        | P_end \<Rightarrow> None)"

text \<open>The main thread, the consumer.\<close>

definition consumer :: "condvar \<Rightarrow> condvar option" where
  "consumer s =
     (case cpc s of
        C_create (a # as) \<Rightarrow>
          Some (s\<lparr>totRequired := totRequired s + atoi a, cpc := C_create as,
                   prods := prods s @ [\<lparr>ppc = P_start, parg = a, pcnt = 0, pj = 0\<rparr>]\<rparr>)
      | C_create [] \<Rightarrow> Some (s\<lparr>numConsumed := 0, finished := False, cpc := C_lock\<rparr>)
      | C_lock \<Rightarrow> if mtx s = Unlocked then Some (s\<lparr>mtx := MainThread, cpc := C_test\<rparr>) else None
      | C_test \<Rightarrow>
          if avail s = 0 then Some (s\<lparr>mtx := Unlocked, cpc := C_waiting\<rparr>)
          else Some (s\<lparr>cpc := C_consume\<rparr>)
      | C_waiting \<Rightarrow> None
      | C_relock \<Rightarrow> if mtx s = Unlocked then Some (s\<lparr>mtx := MainThread, cpc := C_test\<rparr>) else None
      | C_consume \<Rightarrow>
          if avail s > 0
          then Some (s\<lparr>numConsumed := numConsumed s + 1, avail := avail s - 1,
                       finished := (numConsumed s + 1 \<ge> totRequired s)\<rparr>)
          else Some (s\<lparr>cpc := C_unlock\<rparr>)
      | C_unlock \<Rightarrow> Some (s\<lparr>mtx := Unlocked, cpc := C_check\<rparr>)
      | C_check \<Rightarrow> Some (s\<lparr>cpc := (if finished s then C_exit else C_lock)\<rparr>)
      | C_exit \<Rightarrow> None
      | C_failed \<Rightarrow> None)"

text \<open>One tick. When the main thread has called \<open>exit\<close>, the whole process has ended.\<close>

definition tick :: "tick \<Rightarrow> condvar \<Rightarrow> condvar option" where
  "tick t s =
     (if cpc s = C_exit \<or> cpc s = C_failed then None
      else case t of
        Main \<Rightarrow> consumer s
      | Prod i \<Rightarrow> producer i s
      | Spurious \<Rightarrow> if cpc s = C_waiting then Some (s\<lparr>cpc := C_relock\<rparr>) else None
      | NoThread \<Rightarrow> (case cpc s of C_create (a # as) \<Rightarrow> Some (s\<lparr>cpc := C_failed\<rparr>) | _ \<Rightarrow> None))"

abbreviation pc_run :: "tick list \<Rightarrow> condvar \<Rightarrow> condvar option" where
  "pc_run \<equiv> run_steps tick"

section \<open>Invariant\<close>

text \<open>The units that a producer makes for an argument, and those that it has still to make.\<close>

definition units :: "string \<Rightarrow> int" where
  "units a = max 0 (atoi a)"

definition togo :: "producer_t \<Rightarrow> int" where
  "togo p = (case ppc p of
     P_start \<Rightarrow> units (parg p)
   | P_unlock \<Rightarrow> pcnt p - pj p - 1
   | P_signal \<Rightarrow> pcnt p - pj p - 1
   | P_end \<Rightarrow> 0
   | _ \<Rightarrow> max 0 (pcnt p - pj p))"

definition prod_ok :: "condvar \<Rightarrow> nat \<Rightarrow> producer_t \<Rightarrow> bool" where
  "prod_ok s i p \<longleftrightarrow>
     (ppc p \<in> {P_lock, P_inc, P_unlock, P_signal} \<longrightarrow> pj p < pcnt p) \<and>
     (mtx s = Producer i \<longleftrightarrow> ppc p \<in> {P_inc, P_unlock})"

definition main_ok :: "condvar \<Rightarrow> bool" where
  "main_ok s \<longleftrightarrow> 0 \<le> numConsumed s \<and> (case cpc s of
     C_create _ \<Rightarrow> numConsumed s = 0
   | C_consume \<Rightarrow> avail s = 0 \<longrightarrow> (finished s \<longleftrightarrow> numConsumed s \<ge> totRequired s) \<and> 0 < numConsumed s
   | C_unlock \<Rightarrow> (finished s \<longleftrightarrow> numConsumed s \<ge> totRequired s) \<and> 0 < numConsumed s
   | C_check \<Rightarrow> (finished s \<longleftrightarrow> numConsumed s \<ge> totRequired s) \<and> 0 < numConsumed s
   | C_exit \<Rightarrow> numConsumed s \<ge> totRequired s \<and> 0 < numConsumed s
   | C_failed \<Rightarrow> numConsumed s = 0
   | _ \<Rightarrow> numConsumed s = 0 \<or> 0 < numConsumed s \<and> numConsumed s < totRequired s)"

definition pending_args :: "condvar \<Rightarrow> string list" where
  "pending_args s = (case cpc s of C_create as \<Rightarrow> as | _ \<Rightarrow> [])"

definition pc_inv :: "string list \<Rightarrow> condvar \<Rightarrow> bool" where
  "pc_inv args s \<longleftrightarrow>
     (\<forall>i < length (prods s). prod_ok s i (prods s ! i)) \<and>
     (\<forall>i. mtx s = Producer i \<longrightarrow> i < length (prods s)) \<and>
     (mtx s = MainThread \<longleftrightarrow> cpc s \<in> {C_test, C_consume, C_unlock}) \<and>
     main_ok s \<and> 0 \<le> avail s \<and>
     numConsumed s + avail s + sum_list (map togo (prods s)) = sum_list (map (units \<circ> parg) (prods s)) \<and>
     totRequired s = sum_list (map (atoi \<circ> parg) (prods s)) \<and>
     (cpc s \<noteq> C_failed \<longrightarrow> map parg (prods s) @ pending_args s = args) \<and>
     (\<exists>as. map parg (prods s) @ as = args) \<and>
     (cpc s = C_waiting \<and> avail s \<noteq> 0 \<longrightarrow>
        (\<exists>i < length (prods s). ppc (prods s ! i) \<in> {P_unlock, P_signal}))"

lemma pc_invD:
  assumes "pc_inv args s"
  shows "i < length (prods s) \<Longrightarrow> prod_ok s i (prods s ! i)"
    "mtx s = Producer i \<Longrightarrow> i < length (prods s)"
    "mtx s = MainThread \<longleftrightarrow> cpc s \<in> {C_test, C_consume, C_unlock}"
    "main_ok s" "0 \<le> avail s"
    "numConsumed s + avail s + sum_list (map togo (prods s)) = sum_list (map (units \<circ> parg) (prods s))"
    "totRequired s = sum_list (map (atoi \<circ> parg) (prods s))"
    "cpc s \<noteq> C_failed \<Longrightarrow> map parg (prods s) @ pending_args s = args"
    "\<exists>as. map parg (prods s) @ as = args"
    "cpc s = C_waiting \<Longrightarrow> avail s \<noteq> 0 \<Longrightarrow> \<exists>i < length (prods s). ppc (prods s ! i) \<in> {P_unlock, P_signal}"
  using assms unfolding pc_inv_def by blast+

lemma sum_list_update_int:
  "i < length xs \<Longrightarrow> sum_list (map f (xs[i := x])) = sum_list (map f xs) + (f x :: int) - f (xs ! i)"
  by (induction xs arbitrary: i) (auto split: nat.split)

lemma map_update_same: "i < length xs \<Longrightarrow> f q = f (xs ! i) \<Longrightarrow> map f (xs[i := q]) = map f xs"
  by (simp add: map_update list_update_same_conv)

lemma init_pc_inv: "pc_inv args (pc_init args)"
  by (simp add: pc_inv_def pc_init_def main_ok_def pending_args_def)

text \<open>
  What a statement of producer \<open>i\<close> may do: its new record is \<open>q\<close>, a unit goes from the ones
  it has to make to \<open>avail\<close> only while it has the mutex, and the consumer is at most woken.
\<close>

definition prod_effect :: "condvar \<Rightarrow> nat \<Rightarrow> producer_t \<Rightarrow> condvar \<Rightarrow> bool" where
  "prod_effect s i q t \<longleftrightarrow>
     i < length (prods s) \<and> prods t = (prods s)[i := q] \<and> numConsumed t = numConsumed s \<and>
     totRequired t = totRequired s \<and> finished t = finished s \<and>
     parg q = parg (prods s ! i) \<and> prod_ok t i q \<and>
     avail t + togo q = avail s + togo (prods s ! i) \<and> avail s \<le> avail t \<and>
     (avail t = avail s \<or> mtx s = Producer i) \<and>
     (mtx t = mtx s \<or> mtx s = Unlocked \<and> mtx t = Producer i \<or> mtx s = Producer i \<and> mtx t = Unlocked) \<and>
     (cpc t = cpc s \<or> cpc s = C_waiting \<and> cpc t = C_relock) \<and>
     (cpc t = C_waiting \<and> avail t \<noteq> 0 \<longrightarrow>
        ppc q \<in> {P_unlock, P_signal} \<or> avail s \<noteq> 0 \<and> ppc (prods s ! i) \<notin> {P_unlock, P_signal})"

lemma prod_effectD:
  assumes "prod_effect s i q t"
  shows "i < length (prods s)" "prods t = (prods s)[i := q]" "numConsumed t = numConsumed s"
    "totRequired t = totRequired s" "finished t = finished s" "prod_ok t i q"
    "avail t + togo q = avail s + togo (prods s ! i)" "avail s \<le> avail t" "avail t = avail s \<or> mtx s = Producer i"
    "mtx t = mtx s \<or> mtx s = Unlocked \<and> mtx t = Producer i \<or> mtx s = Producer i \<and> mtx t = Unlocked"
    "cpc t = cpc s \<or> cpc s = C_waiting \<and> cpc t = C_relock"
    "cpc t = C_waiting \<Longrightarrow> avail t \<noteq> 0 \<Longrightarrow>
        ppc q \<in> {P_unlock, P_signal} \<or> avail s \<noteq> 0 \<and> ppc (prods s ! i) \<notin> {P_unlock, P_signal}"
  using assms unfolding prod_effect_def by blast+

lemma producer_effect:
  assumes "producer i s = Some t" "prod_ok s i (prods s ! i)"
  shows "\<exists>q. prod_effect s i q t"
proof -
  let ?p = "prods s ! i"
  show ?thesis
  proof (cases "ppc ?p")
    case P_start
    then show ?thesis using assms
      by (intro exI [of _ "?p\<lparr>ppc := P_test, pcnt := atoi (parg ?p), pj := 0\<rparr>"])
        (auto simp: producer_def Let_def prod_effect_def prod_ok_def togo_def units_def split: if_splits)
  next
    case P_test
    then show ?thesis using assms
      by (intro exI [of _ "?p\<lparr>ppc := (if pj ?p < pcnt ?p then P_lock else P_end)\<rparr>"])
        (auto simp: producer_def Let_def prod_effect_def prod_ok_def togo_def split: if_splits)
  next
    case P_lock
    then show ?thesis using assms
      by (intro exI [of _ "?p\<lparr>ppc := P_inc\<rparr>"])
        (auto simp: producer_def Let_def prod_effect_def prod_ok_def togo_def split: if_splits)
  next
    case P_inc
    then show ?thesis using assms
      by (intro exI [of _ "?p\<lparr>ppc := P_unlock\<rparr>"])
        (auto simp: producer_def Let_def prod_effect_def prod_ok_def togo_def split: if_splits)
  next
    case P_unlock
    then show ?thesis using assms
      by (intro exI [of _ "?p\<lparr>ppc := P_signal\<rparr>"])
        (auto simp: producer_def Let_def prod_effect_def prod_ok_def togo_def split: if_splits)
  next
    case P_signal
    then show ?thesis using assms
      by (intro exI [of _ "?p\<lparr>ppc := P_test, pj := pj ?p + 1\<rparr>"])
        (auto simp: producer_def Let_def prod_effect_def prod_ok_def togo_def split: if_splits)
  next
    case P_end
    then show ?thesis using assms by (auto simp: producer_def split: if_splits)
  qed
qed

lemma prod_effect_sums:
  assumes "prod_effect s i q t"
  shows "map parg (prods t) = map parg (prods s)"
    "map (units \<circ> parg) (prods t) = map (units \<circ> parg) (prods s)"
    "map (atoi \<circ> parg) (prods t) = map (atoi \<circ> parg) (prods s)"
    "sum_list (map g (prods t)) = sum_list (map g (prods s)) + (g q :: int) - g (prods s ! i)"
proof -
  have a: "i < length (prods s)" "parg q = parg (prods s ! i)" and t: "prods t = (prods s)[i := q]"
    using assms by (auto simp: prod_effect_def)
  show "map parg (prods t) = map parg (prods s)"
    "map (units \<circ> parg) (prods t) = map (units \<circ> parg) (prods s)"
    "map (atoi \<circ> parg) (prods t) = map (atoi \<circ> parg) (prods s)"
    unfolding t using a by (intro map_update_same; simp)+
  show "sum_list (map g (prods t)) = sum_list (map g (prods s)) + g q - g (prods s ! i)"
    unfolding t using a by (intro sum_list_update_int) simp
qed

lemma producer_keeps_others:
  assumes e: "prod_effect s i q t" and inv: "pc_inv args s" and j: "j < length (prods t)"
  shows "prod_ok t j (prods t ! j)"
proof (cases "j = i")
  case True
  then show ?thesis using prod_effectD(1,2,6) [OF e] by simp
next
  case False
  then have "prod_ok s j (prods t ! j)" using pc_invD(1) [OF inv, of j] prod_effectD(1,2) [OF e] j by simp
  moreover have "mtx t = Producer j \<longleftrightarrow> mtx s = Producer j" using prod_effectD(10) [OF e] False by auto
  ultimately show ?thesis unfolding prod_ok_def by blast
qed

lemma producer_keeps_main:
  assumes e: "prod_effect s i q t" and inv: "pc_inv args s"
  shows "main_ok t"
proof -
  have "cpc s = C_consume \<Longrightarrow> mtx s = MainThread" "main_ok s" using pc_invD(3,4) [OF inv] by simp_all
  with prod_effectD(3-5,9,11) [OF e] show ?thesis by (cases "cpc s") (auto simp: main_ok_def)
qed

lemma producer_keeps_signal:
  assumes e: "prod_effect s i q t" and inv: "pc_inv args s" and w: "cpc t = C_waiting" "avail t \<noteq> 0"
  shows "\<exists>j < length (prods t). ppc (prods t ! j) \<in> {P_unlock, P_signal}"
proof (cases "ppc q \<in> {P_unlock, P_signal}")
  case True
  then show ?thesis using prod_effectD(1,2) [OF e] by (intro exI [of _ i]) simp
next
  case False
  then have "avail s \<noteq> 0" "ppc (prods s ! i) \<notin> {P_unlock, P_signal}" using prod_effectD(12) [OF e w] by auto
  moreover have "cpc s = C_waiting" using prod_effectD(11) [OF e] w by auto
  ultimately obtain j where "j < length (prods s)" "ppc (prods s ! j) \<in> {P_unlock, P_signal}" "j \<noteq> i"
    using pc_invD(10) [OF inv] by blast
  then show ?thesis using prod_effectD(1,2) [OF e] by (intro exI [of _ j]) simp
qed

lemma producer_inv:
  assumes "producer i s = Some t" and inv: "pc_inv args s"
  shows "pc_inv args t"
proof -
  have "i < length (prods s)" using assms(1) by (auto simp: producer_def split: if_splits)
  from producer_effect [OF assms(1) pc_invD(1) [OF inv this]] obtain q where e: "prod_effect s i q t" by auto
  note d = prod_effectD [OF e] and v = pc_invD [OF inv]
  note sums = prod_effect_sums(1-3) [OF e] prod_effect_sums(4) [OF e, of togo]
  have "\<forall>j. mtx t = Producer j \<longrightarrow> j < length (prods t)" using v(2) d(1,2,10) by auto
  moreover have "mtx t = MainThread \<longleftrightarrow> cpc t \<in> {C_test, C_consume, C_unlock}" using v(3) d(10,11) by auto
  moreover have "0 \<le> avail t" using v(5) d(8) by simp
  moreover have "numConsumed t + avail t + sum_list (map togo (prods t)) = sum_list (map (units \<circ> parg) (prods t))"
    using v(6) d(3,7) unfolding sums by simp
  moreover have "totRequired t = sum_list (map (atoi \<circ> parg) (prods t))" using v(7) d(4) unfolding sums by simp
  moreover have "cpc t \<noteq> C_failed \<longrightarrow> map parg (prods t) @ pending_args t = args"
    using v(8) d(11) unfolding sums by (auto simp: pending_args_def)
  moreover have "\<exists>as. map parg (prods t) @ as = args" using v(9) unfolding sums .
  ultimately show ?thesis
    unfolding pc_inv_def using producer_keeps_others [OF e inv] producer_keeps_main [OF e inv] producer_keeps_signal [OF e inv]
    by blast
qed

text \<open>A statement of the main thread that leaves the counters alone.\<close>

lemma main_move_inv:
  assumes inv: "pc_inv args s"
    and same: "prods t = prods s" "avail t = avail s" "numConsumed t = numConsumed s" "totRequired t = totRequired s"
    and own: "\<And>i. mtx t = Producer i \<longleftrightarrow> mtx s = Producer i" "mtx t = MainThread \<longleftrightarrow> cpc t \<in> {C_test, C_consume, C_unlock}"
    and main: "main_ok t"
    and pend: "cpc t \<noteq> C_failed \<Longrightarrow> cpc s \<noteq> C_failed \<and> pending_args t = pending_args s"
    and wait: "cpc t = C_waiting \<Longrightarrow> cpc s = C_waiting \<or> avail s = 0"
  shows "pc_inv args t"
proof -
  have "prod_ok t i (prods t ! i)" if "i < length (prods t)" for i
    using pc_invD(1) [OF inv, of i] that same(1) own(1) unfolding prod_ok_def by simp
  moreover have "cpc t = C_waiting \<and> avail t \<noteq> 0 \<longrightarrow> (\<exists>i < length (prods t). ppc (prods t ! i) \<in> {P_unlock, P_signal})"
    using pc_invD(10) [OF inv] wait same by auto
  ultimately show ?thesis
    unfolding pc_inv_def own(1) own(2) using main pc_invD(2,5-9) [OF inv] pend same by simp
qed

lemma consumer_inv:
  assumes "consumer s = Some t" "pc_inv args s"
  shows "pc_inv args t"
proof (cases "cpc s")
  case (C_create as)
  then show ?thesis using assms
    by (cases as) (auto simp: consumer_def pc_inv_def main_ok_def pending_args_def nth_append togo_def prod_ok_def less_Suc_eq)
next
  case C_consume
  then show ?thesis using assms
    by (auto simp: consumer_def pc_inv_def main_ok_def pending_args_def prod_ok_def split: if_splits)
qed (use assms pc_invD(3,4) [OF assms(2)] in
  \<open>auto simp: consumer_def main_ok_def pending_args_def split: if_splits intro!: main_move_inv [OF assms(2)]\<close>)

lemma tick_inv: "tick c s = Some t \<Longrightarrow> pc_inv args s \<Longrightarrow> pc_inv args t"
proof (cases c)
  case Spurious
  assume t: "tick c s = Some t" and inv: "pc_inv args s"
  from Spurious t have "cpc s = C_waiting" "t = s\<lparr>cpc := C_relock\<rparr>" by (auto simp: tick_def split: if_splits)
  then show ?thesis using pc_invD(3,4) [OF inv] by (intro main_move_inv [OF inv]) (simp_all add: main_ok_def pending_args_def)
next
  case NoThread
  assume t: "tick c s = Some t" and inv: "pc_inv args s"
  from NoThread t obtain a as where "cpc s = C_create (a # as)" "t = s\<lparr>cpc := C_failed\<rparr>"
    by (auto simp: tick_def split: if_splits cpc.splits list.splits)
  then show ?thesis using pc_invD(3,4) [OF inv] by (intro main_move_inv [OF inv]) (simp_all add: main_ok_def)
qed (auto simp: tick_def intro: producer_inv consumer_inv split: if_splits)

section \<open>Progress\<close>

text \<open>
  A bound on the statements that the threads have still to execute: a unit costs its producer
  five, the consumer at most eight when it takes it, and the wake-up three.
\<close>

definition prodWork :: "producer_t \<Rightarrow> int" where
  "prodWork p = 16 * togo p + (case ppc p of
     P_start \<Rightarrow> 2 | P_test \<Rightarrow> 1 | P_lock \<Rightarrow> 0 | P_inc \<Rightarrow> -1 | P_unlock \<Rightarrow> 6 | P_signal \<Rightarrow> 5 | P_end \<Rightarrow> 0)"

definition mainWork :: "condvar \<Rightarrow> int" where
  "mainWork s = (case cpc s of
     C_create as \<Rightarrow> 4 + sum_list (map (\<lambda>a. 3 + 16 * units a) as)
   | C_lock \<Rightarrow> 3 | C_test \<Rightarrow> 2 | C_waiting \<Rightarrow> 0 | C_relock \<Rightarrow> 3
   | C_consume \<Rightarrow> if avail s > 0 then 1 else 6
   | C_unlock \<Rightarrow> 5 | C_check \<Rightarrow> 4 | C_exit \<Rightarrow> 0 | C_failed \<Rightarrow> 0)"

definition work :: "condvar \<Rightarrow> int" where
  "work s = sum_list (map prodWork (prods s)) + 8 * avail s + mainWork s"

lemma units_sum_nonneg: "0 \<le> sum_list (map (\<lambda>a. 3 + 16 * units a) as)"
  by (induction as) (auto simp: units_def)

lemma prodWork_nonneg: "prod_ok s i p \<Longrightarrow> 0 \<le> prodWork p"
  by (cases "ppc p") (auto simp: prodWork_def togo_def prod_ok_def units_def)

lemma work_nonneg: "pc_inv args s \<Longrightarrow> 0 \<le> work s"
proof -
  assume i: "pc_inv args s"
  then have "\<forall>i < length (prods s). prod_ok s i (prods s ! i)" by (simp add: pc_inv_def)
  then have "\<forall>p \<in> set (prods s). 0 \<le> prodWork p" by (metis in_set_conv_nth prodWork_nonneg)
  then have "0 \<le> sum_list (map prodWork (prods s))" by (intro sum_list_nonneg) auto
  moreover have "0 \<le> mainWork s" using units_sum_nonneg by (auto simp: mainWork_def split: cpc.splits)
  ultimately show ?thesis using i by (auto simp: work_def pc_inv_def)
qed

lemma consumer_work:
  assumes "consumer s = Some t" "pc_inv args s"
  shows "work t < work s"
  using assms
  by (auto simp: consumer_def work_def mainWork_def prodWork_def togo_def pc_inv_def
      split: cpc.splits list.splits if_splits)

lemma mainWork_cong:
  "cpc t = cpc s \<Longrightarrow> avail t = avail s \<or> cpc s \<noteq> C_consume \<Longrightarrow> mainWork t = mainWork s"
  by (auto simp: mainWork_def split: cpc.splits)

lemma mainWork_wake: "cpc t = (if cpc s = C_waiting then C_relock else cpc s) \<Longrightarrow> avail t = avail s
    \<Longrightarrow> mainWork t \<le> mainWork s + 3"
  by (auto simp: mainWork_def split: cpc.splits)

lemma producer_work:
  assumes "producer i s = Some t" "pc_inv args s"
  shows "work t < work s"
proof -
  let ?p = "prods s ! i"
  have i: "i < length (prods s)" using assms(1) by (auto simp: producer_def split: if_splits)
  with assms(2) have ok: "prod_ok s i ?p" by (simp add: pc_inv_def)
  have *: "work t < work s" if "prods t = (prods s)[i := q]"
    "prodWork q + 8 * avail t + mainWork t < prodWork ?p + 8 * avail s + mainWork s" for q
    using that sum_list_update_int [OF i, of prodWork q] by (simp add: work_def)
  have quiet: "mainWork t = mainWork s" if "ppc ?p \<noteq> P_signal"
  proof (rule mainWork_cong)
    show "cpc t = cpc s" using assms(1) that by (auto simp: producer_def Let_def split: if_splits ppc.splits)
    show "avail t = avail s \<or> cpc s \<noteq> C_consume"
      using assms ok by (cases "ppc ?p") (auto simp: producer_def Let_def prod_ok_def pc_inv_def split: if_splits)
  qed
  show ?thesis
  proof (cases "ppc ?p")
    case P_signal
    have "mainWork t \<le> mainWork s + 3"
      using assms(1) P_signal i by (intro mainWork_wake) (auto simp: producer_def Let_def)
    then show ?thesis using assms(1) P_signal ok i
      by (intro * [of "?p\<lparr>ppc := P_test, pj := pj ?p + 1\<rparr>"])
        (auto simp: producer_def Let_def prodWork_def togo_def prod_ok_def)
  next
    case P_start
    then show ?thesis using assms(1) ok i quiet
      by (intro * [of "?p\<lparr>ppc := P_test, pcnt := atoi (parg ?p), pj := 0\<rparr>"])
        (auto simp: producer_def Let_def prodWork_def togo_def units_def)
  next
    case P_test
    then show ?thesis using assms(1) ok i quiet
      by (intro * [of "?p\<lparr>ppc := (if pj ?p < pcnt ?p then P_lock else P_end)\<rparr>"])
        (auto simp: producer_def Let_def prodWork_def togo_def)
  next
    case P_lock
    then show ?thesis using assms(1) ok i quiet
      by (intro * [of "?p\<lparr>ppc := P_inc\<rparr>"]) (auto simp: producer_def Let_def prodWork_def togo_def split: if_splits)
  next
    case P_inc
    then show ?thesis using assms(1) ok i quiet
      by (intro * [of "?p\<lparr>ppc := P_unlock\<rparr>"]) (auto simp: producer_def Let_def prodWork_def togo_def prod_ok_def)
  next
    case P_unlock
    then show ?thesis using assms(1) ok i quiet
      by (intro * [of "?p\<lparr>ppc := P_signal\<rparr>"]) (auto simp: producer_def Let_def prodWork_def togo_def)
  next
    case P_end
    then show ?thesis using assms(1) i by (auto simp: producer_def)
  qed
qed

definition spurious :: "tick list \<Rightarrow> nat" where
  "spurious ts = length (filter (\<lambda>c. c = Spurious) ts)"

lemma tick_work:
  assumes "tick c s = Some t" "pc_inv args s"
  shows "work t + (if c = Spurious then 0 else 1) \<le> work s + (if c = Spurious then 3 else 0)"
proof (cases c)
  case Spurious
  then show ?thesis using assms by (auto simp: tick_def work_def mainWork_def split: if_splits)
next
  case NoThread
  then show ?thesis using assms units_sum_nonneg
    by (auto simp: tick_def work_def mainWork_def units_def split: if_splits cpc.splits list.splits)
next
  case Main
  then show ?thesis using assms consumer_work [of s t args] by (auto simp: tick_def split: if_splits)
next
  case (Prod i)
  then show ?thesis using assms producer_work [of i s t args] by (auto simp: tick_def split: if_splits)
qed

interpretation pc: bounded_machine tick "pc_inv args" "\<lambda>s. nat (work s)" "\<lambda>c. if c = Spurious then 4 else 0" for args
proof
  show "tick c s = Some t \<Longrightarrow> pc_inv args s \<Longrightarrow> pc_inv args t" for c s t by (rule tick_inv)
  show "nat (work t) < nat (work s) + (if c = Spurious then 4 else 0)" if "tick c s = Some t" "pc_inv args s" for c s t
    using tick_work [OF that] work_nonneg [OF that(2)] work_nonneg [OF tick_inv [OF that]] by (auto split: if_splits)
qed

lemma slack_spurious: "sum_list (map (\<lambda>c. if c = Spurious then 4 else 0) ts) = 4 * spurious ts"
  by (induction ts) (simp_all add: spurious_def)

text \<open>
  No wake-up is lost: if all threads are stuck, then all units have been made and consumed.
\<close>

lemma not_stuck_producer:
  assumes "pc_inv args s" "i < length (prods s)" "ppc (prods s ! i) \<noteq> P_end" "producer i s = None"
  shows "ppc (prods s ! i) = P_lock \<and> mtx s \<noteq> Unlocked"
  using assms by (auto simp: producer_def Let_def split: if_splits ppc.splits)

lemma condvar_not_stuck:
  assumes inv: "pc_inv args s" and n: "consumer s = None" "\<And>i. producer i s = None"
    and "cpc s \<noteq> C_exit" "cpc s \<noteq> C_failed"
  shows "cpc s = C_waiting \<and> avail s = 0 \<and> (\<forall>p \<in> set (prods s). ppc p = P_end)"
proof -
  have m: "mtx s \<noteq> MainThread"
    using pc_invD(3) [OF inv] n(1) by (auto simp: consumer_def split: if_splits)
  have free: "mtx s = Unlocked"
  proof (cases "mtx s")
    case (Producer i)
    then have "i < length (prods s)" "ppc (prods s ! i) \<in> {P_inc, P_unlock}"
      using pc_invD(1,2) [OF inv, of i] by (auto simp: prod_ok_def)
    then show ?thesis using not_stuck_producer [OF inv _ _ n(2), of i] by auto
  qed (use m in auto)
  then have e: "\<forall>i < length (prods s). ppc (prods s ! i) = P_end"
    using not_stuck_producer [OF inv _ _ n(2)] by blast
  moreover have w: "cpc s = C_waiting"
    using n(1) assms(4,5) free by (auto simp: consumer_def split: cpc.splits list.splits if_splits)
  moreover have "avail s = 0" using pc_invD(10) [OF inv w] e by fastforce
  ultimately show ?thesis by (auto simp: in_set_conv_nth)
qed

lemma nonneg_units: "\<forall>a \<in> set as. 0 \<le> atoi a \<Longrightarrow> sum_list (map units as) = sum_list (map atoi as)"
  by (induction as) (auto simp: units_def)

lemma units_prefix: "sum_list (map units as) \<le> sum_list (map units (as @ bs))"
proof -
  have "0 \<le> sum_list (map units bs)" by (rule sum_list_nonneg) (auto simp: units_def)
  then show ?thesis by simp
qed

lemma togo_nonneg:
  assumes "pc_inv args s"
  shows "0 \<le> sum_list (map togo (prods s))"
proof -
  have "\<forall>p \<in> set (prods s). 0 \<le> togo p"
  proof
    fix p assume "p \<in> set (prods s)"
    then obtain i where "prod_ok s i p" using pc_invD(1) [OF assms] by (auto simp: in_set_conv_nth)
    then show "0 \<le> togo p" by (cases "ppc p") (auto simp: togo_def prod_ok_def units_def)
  qed
  then show ?thesis by (intro sum_list_nonneg) auto
qed

text \<open>The totals in terms of the command-line arguments.\<close>

lemma pc_inv_totals:
  assumes "pc_inv args s"
  shows "numConsumed s + avail s + sum_list (map togo (prods s)) \<le> sum_list (map units args)"
    and "cpc s = C_exit \<or> cpc s = C_waiting \<Longrightarrow>
      numConsumed s + avail s + sum_list (map togo (prods s)) = sum_list (map units args) \<and>
      totRequired s = sum_list (map atoi args)"
proof -
  have b: "numConsumed s + avail s + sum_list (map togo (prods s)) = sum_list (map units (map parg (prods s)))"
    "totRequired s = sum_list (map atoi (map parg (prods s)))"
    using pc_invD(6,7) [OF assms] by simp_all
  obtain as where "args = map parg (prods s) @ as" using pc_invD(9) [OF assms] by auto
  with b(1) units_prefix show "numConsumed s + avail s + sum_list (map togo (prods s)) \<le> sum_list (map units args)"
    by metis
  assume "cpc s = C_exit \<or> cpc s = C_waiting"
  then have "map parg (prods s) = args" using pc_invD(8) [OF assms] by (auto simp: pending_args_def)
  with b show "numConsumed s + avail s + sum_list (map togo (prods s)) = sum_list (map units args) \<and>
      totRequired s = sum_list (map atoi args)" by simp
qed

section \<open>Correctness\<close>


text \<open>
  C6. No wake-up is lost. If the arguments are not negative and ask for at least one unit, then
  in every reachable state in which the program has not ended some thread can go on without a
  spurious wake-up, and a schedule has at most 4 steps, 3 more for each argument,
  16 more for each unit and 4 more for each spurious wake-up. So the program ends.
\<close>

theorem condvar_no_lost_wakeup:
  assumes "pc_run ts (pc_init args) = Some s" and "\<forall>a \<in> set args. 0 \<le> atoi a" and "0 < sum_list (map atoi args)"
  shows "(cpc s \<noteq> C_exit \<and> cpc s \<noteq> C_failed \<longrightarrow> (\<exists>c. c \<noteq> Spurious \<and> tick c s \<noteq> None)) \<and>
    int (length ts) \<le> 4 + 3 * int (length args) + 16 * sum_list (map atoi args) + 4 * int (spurious ts)"
proof -
  have i: "pc_inv args s" by (rule pc.run_inv [OF assms(1) init_pc_inv])
  have "work (pc_init args) = 4 + 3 * int (length args) + 16 * sum_list (map atoi args)"
    unfolding nonneg_units [OF assms(2), symmetric]
    by (simp add: work_def mainWork_def pc_init_def sum_list_addf sum_list_const_mult sum_list_triv)
  then have len: "int (length ts) \<le> 4 + 3 * int (length args) + 16 * sum_list (map atoi args) + 4 * int (spurious ts)"
    using pc.run_bound [OF assms(1) init_pc_inv] work_nonneg [OF init_pc_inv, of args] unfolding slack_spurious by linarith
  have "\<exists>c. c \<noteq> Spurious \<and> tick c s \<noteq> None" if e: "cpc s \<noteq> C_exit" "cpc s \<noteq> C_failed"
  proof (rule ccontr)
    assume "\<nexists>c. c \<noteq> Spurious \<and> tick c s \<noteq> None"
    then have "tick Main s = None" "\<And>j. tick (Prod j) s = None" by blast+
    then have n: "consumer s = None" "\<And>j. producer j s = None" using e by (auto simp: tick_def)
    from condvar_not_stuck [OF i n e] have w: "cpc s = C_waiting" "avail s = 0" "\<forall>p \<in> set (prods s). ppc p = P_end"
      by auto
    then have "map togo (prods s) = map (\<lambda>_. 0) (prods s)" by (simp add: togo_def)
    then have "sum_list (map togo (prods s)) = 0" by (simp only: sum_list_0)
    then show False
      using pc_inv_totals(2) [OF i] w nonneg_units [OF assms(2)] assms(3) i by (auto simp: pc_inv_def main_ok_def)
  qed
  with len show ?thesis by blast
qed

text \<open>
  If the arguments ask for no unit at all (in particular without arguments), the main thread
  waits forever: it can only exit after it has consumed a unit.
\<close>

lemma condvar_no_units_no_exit:
  assumes "pc_run ts (pc_init args) = Some s" and "\<forall>a \<in> set args. atoi a \<le> 0"
  shows "cpc s \<noteq> C_exit"
proof
  assume e: "cpc s = C_exit"
  have i: "pc_inv args s" by (rule pc.run_inv [OF assms(1) init_pc_inv])
  have "sum_list (map units args) = 0" using assms(2) by (induction args) (auto simp: units_def)
  with pc_inv_totals(1) [OF i] togo_nonneg [OF i] e i show False by (auto simp: pc_inv_def main_ok_def)
qed

text \<open>One producer of one unit; the consumer waits, wakes up spuriously, and the signal is lost.\<close>

definition demo_ticks :: "tick list" where
  "demo_ticks = [Main, Main, Main, Main, Spurious, Prod 0, Prod 0, Prod 0, Prod 0, Prod 0, Main, Main,
     Prod 0, Main, Main, Main, Main]"

lemma demo_ticks_run: "\<exists>s. pc_run demo_ticks (pc_init [''1'']) = Some s \<and> cpc s = C_exit"
proof -
  have "map_option cpc (pc_run demo_ticks (pc_init [''1''])) = Some C_exit" by code_simp
  then show ?thesis by auto
qed

lemma demo_atoi: "atoi ''1'' = 1" by code_simp


theorem condvar_no_lost_wakeup_witness: "length demo_ticks \<le> 4 + 3 + 16 + 4 * spurious demo_ticks"
proof -
  obtain s where "pc_run demo_ticks (pc_init [''1'']) = Some s" using demo_ticks_run by auto
  from condvar_no_lost_wakeup [OF this] show ?thesis by (simp add: demo_atoi)
qed

end
