(* ===== verification/AclUpdate.thy ===== *)
theory AclUpdate
  imports Conversions "HOL-Library.AList"
begin

unbundle bit_operations_syntax

text \<open>
  The program \<open>acl/acl_update.c\<close>, a subset of \<open>setfacl\<close>: the parser of textual ACLs, the
  search for an entry, and the loop that modifies or removes entries of a file's ACL. The
  functions of \<open>libacl\<close> and the files are a parameter \<open>L\<close> of the model: ACLs in working
  storage have the type \<open>'a\<close>, descriptors of entries and permission sets the type \<open>'h\<close>, and
  the files the type \<open>'w\<close>. A call that fails gives \<open>Inl errno\<close>.
\<close>

section \<open>Data\<close>

datatype acl_tag_t = ACL_USER_OBJ | ACL_USER | ACL_GROUP_OBJ | ACL_GROUP | ACL_MASK | ACL_OTHER

datatype acl_type_t = ACL_TYPE_ACCESS | ACL_TYPE_DEFAULT

abbreviation (input) ACL_READ :: "32 word" where "ACL_READ \<equiv> 4"
abbreviation (input) ACL_WRITE :: "32 word" where "ACL_WRITE \<equiv> 2"
abbreviation (input) ACL_EXECUTE :: "32 word" where "ACL_EXECUTE \<equiv> 1"
abbreviation (input) MAX_ENTRIES :: nat where "MAX_ENTRIES \<equiv> 10000"

record AccessControlEntry =
  tag :: acl_tag_t
  qual :: id_t
  perms :: "32 word"

datatype Operation = unspecifiedOp | modifyEntries | removeEntries | removeDefaultACL | checkValidACL

record ('a, 'h, 'w) acl_lib =
  getpwnam_lib :: "string \<Rightarrow> id_t option"
  getgrnam_lib :: "string \<Rightarrow> id_t option"
  acl_get_file_lib :: "string \<Rightarrow> acl_type_t \<Rightarrow> 'w \<Rightarrow> errno + 'a"
  acl_set_file_lib :: "string \<Rightarrow> acl_type_t \<Rightarrow> 'a \<Rightarrow> 'w \<Rightarrow> (errno + unit) \<times> 'w"
  acl_delete_def_file_lib :: "string \<Rightarrow> 'w \<Rightarrow> (errno + unit) \<times> 'w"
  acl_get_entries_lib :: "'a \<Rightarrow> (errno + 'h) list"
  acl_get_tag_type_lib :: "'a \<Rightarrow> 'h \<Rightarrow> errno + acl_tag_t"
  acl_get_qualifier_lib :: "'a \<Rightarrow> 'h \<Rightarrow> errno + id_t"
  acl_create_entry_lib :: "'a \<Rightarrow> errno + ('a \<times> 'h)"
  acl_delete_entry_lib :: "'h \<Rightarrow> 'a \<Rightarrow> errno + 'a"
  acl_set_tag_type_lib :: "'h \<Rightarrow> acl_tag_t \<Rightarrow> 'a \<Rightarrow> errno + 'a"
  acl_set_qualifier_lib :: "'h \<Rightarrow> id_t \<Rightarrow> 'a \<Rightarrow> errno + 'a"
  acl_get_permset_lib :: "'h \<Rightarrow> 'a \<Rightarrow> errno + 'h"
  acl_clear_perms_lib :: "'h \<Rightarrow> 'a \<Rightarrow> errno + 'a"
  acl_add_perm_lib :: "'h \<Rightarrow> 32 word \<Rightarrow> 'a \<Rightarrow> errno + 'a"
  acl_set_permset_lib :: "'h \<Rightarrow> 'h \<Rightarrow> 'a \<Rightarrow> errno + 'a"
  acl_calc_mask_lib :: "'a \<Rightarrow> errno + 'a"
  acl_valid_lib :: "'a \<Rightarrow> bool"
  acl_free_lib :: "errno option"

section \<open>Parsing\<close>

text \<open>The loop over the permission string; \<open>Inl\<close> is the message that is printed.\<close>

fun permLoop :: "string \<Rightarrow> 32 word \<Rightarrow> string + 32 word" where
  "permLoop [] p = Inr p"
| "permLoop (c # cs) p =
     (if c = CHR ''r'' then permLoop cs (p OR ACL_READ)
      else if c = CHR ''w'' then permLoop cs (p OR ACL_WRITE)
      else if c = CHR ''x'' then permLoop cs (p OR ACL_EXECUTE)
      else if c \<noteq> CHR ''-'' then Inl (''Bad character in permissions string: '' @ [c])
      else permLoop cs p)"

definition tagOf :: "string \<Rightarrow> bool \<Rightarrow> acl_tag_t option" where
  "tagOf s hasQual =
     (if s = ''u'' \<or> s = ''user'' then Some (if hasQual then ACL_USER else ACL_USER_OBJ)
      else if s = ''g'' \<or> s = ''group'' then Some (if hasQual then ACL_GROUP else ACL_GROUP_OBJ)
      else if s = ''o'' \<or> s = ''other'' then Some ACL_OTHER
      else if s = ''m'' \<or> s = ''mask'' then Some ACL_MASK
      else None)"

text \<open>
  \<open>ace\<close> is what the array element held before: \<open>perms\<close> is left as it was when no permissions
  are given. After a failure the element is not used.
\<close>

definition parseEntrySpec ::
  "('a, 'h, 'w) acl_lib \<Rightarrow> string \<Rightarrow> AccessControlEntry \<Rightarrow> bool \<Rightarrow> string + AccessControlEntry" where
  "parseEntrySpec L entryStr ace permsReqd =
     (case strchr entryStr (CHR '':'') of
        None \<Rightarrow> Inl (''Missing initial colon in ACL entry: '' @ entryStr)
      | Some (tagStr, rest) \<Rightarrow>
          let hasQual = (rest \<noteq> [] \<and> hd rest \<noteq> CHR '':'');
              colon2 = strchr rest (CHR '':'');
              qualStr = (case colon2 of None \<Rightarrow> rest | Some (q, _) \<Rightarrow> q);
              permStr = (case colon2 of None \<Rightarrow> [] | Some (_, p) \<Rightarrow> p);
              hasPerms = (permStr \<noteq> [])
          in
          if hasPerms \<and> \<not> permsReqd then Inl ''Cannot specify permissions here''
          else if \<not> hasPerms \<and> permsReqd then Inl ''Must specify permissions''
          else case tagOf tagStr hasQual of
            None \<Rightarrow> Inl (''Bad tag: '' @ tagStr)
          | Some t \<Rightarrow>
              let q = (if t = ACL_USER then userIdFromName (getpwnam_lib L) (Some qualStr)
                       else if t = ACL_GROUP then groupIdFromName (getgrnam_lib L) (Some qualStr)
                       else 0);
                  ace = ace\<lparr>tag := t, qual := q\<rparr>
              in
              if t = ACL_USER \<and> q = -1 then Inl (''Bad user ID: '' @ qualStr)
              else if t = ACL_GROUP \<and> q = -1 then Inl (''Bad group ID: '' @ qualStr)
              else if hasPerms then
                (case permLoop permStr 0 of Inl msg \<Rightarrow> Inl msg | Inr p \<Rightarrow> Inr (ace\<lparr>perms := p\<rparr>))
              else Inr ace)"

text \<open>
  The loop of \<open>parseACL\<close>, with the entries from number \<open>n\<close> on as its result. \<open>aclist\<close> is what
  the array held before.
\<close>

function parseACLLoop ::
  "('a, 'h, 'w) acl_lib \<Rightarrow> (nat \<Rightarrow> AccessControlEntry) \<Rightarrow> bool \<Rightarrow> nat \<Rightarrow> string \<Rightarrow> string + AccessControlEntry list"
where
  "parseACLLoop L aclist permsReqd n nextEntry =
     (if n \<ge> MAX_ENTRIES then Inl ''Too many entries in ACL''
      else case strchr nextEntry (CHR '','') of
        None \<Rightarrow>
          (case parseEntrySpec L nextEntry (aclist n) permsReqd of
             Inl msg \<Rightarrow> Inl msg | Inr ace \<Rightarrow> Inr [ace])
      | Some (entry, rest) \<Rightarrow>
          (case parseEntrySpec L entry (aclist n) permsReqd of
             Inl msg \<Rightarrow> Inl msg
           | Inr ace \<Rightarrow>
               (case parseACLLoop L aclist permsReqd (n + 1) rest of
                  Inl msg \<Rightarrow> Inl msg | Inr aces \<Rightarrow> Inr (ace # aces))))"
  by pat_completeness auto
termination
  by (relation "measure (\<lambda>(_, _, _, n, _). MAX_ENTRIES - n)") auto

declare parseACLLoop.simps [simp del]

definition parseACL ::
  "('a, 'h, 'w) acl_lib \<Rightarrow> string \<Rightarrow> (nat \<Rightarrow> AccessControlEntry) \<Rightarrow> bool \<Rightarrow> string + AccessControlEntry list" where
  "parseACL L aclStr aclist permsReqd = parseACLLoop L aclist permsReqd 0 aclStr"

section \<open>Updating an ACL\<close>

fun findEntryLoop ::
  "('a, 'h, 'w) acl_lib \<Rightarrow> 'a \<Rightarrow> acl_tag_t \<Rightarrow> id_t \<Rightarrow> (errno + 'h) list \<Rightarrow> 'h option res" where
  "findEntryLoop L acl t q [] = Ret None"
| "findEntryLoop L acl t q (Inl e # es) = Exit EXIT_FAILURE"
| "findEntryLoop L acl t q (Inr h # es) =
     (case acl_get_tag_type_lib L acl h of
        Inl e \<Rightarrow> Exit EXIT_FAILURE
      | Inr entryTag \<Rightarrow>
          if t = entryTag then
            if t = ACL_USER \<or> t = ACL_GROUP then
              (case acl_get_qualifier_lib L acl h of
                 Inl e \<Rightarrow> Exit EXIT_FAILURE
               | Inr uid \<Rightarrow>
                   if acl_free_lib L \<noteq> None then Exit EXIT_FAILURE
                   else if q = uid then Ret (Some h)
                   else findEntryLoop L acl t q es)
            else Ret (Some h)
          else findEntryLoop L acl t q es)"

definition findEntry :: "('a, 'h, 'w) acl_lib \<Rightarrow> 'a \<Rightarrow> acl_tag_t \<Rightarrow> id_t \<Rightarrow> 'h option res" where
  "findEntry L acl t q = findEntryLoop L acl t q (acl_get_entries_lib L acl)"

text \<open>A call on the working ACL that may fail; on failure the caller calls \<open>errExit\<close>.\<close>

definition orExit :: "(errno + 'b) \<Rightarrow> ('b \<Rightarrow> 'c res) \<Rightarrow> 'c res" where
  "orExit r f = (case r of Inl e \<Rightarrow> Exit EXIT_FAILURE | Inr x \<Rightarrow> f x)"

definition addPerm :: "('a, 'h, 'w) acl_lib \<Rightarrow> 'h \<Rightarrow> 32 word \<Rightarrow> 32 word \<Rightarrow> ('a \<Rightarrow> 'c res) \<Rightarrow> 'a \<Rightarrow> 'c res" where
  "addPerm L permset p b k acl =
     (if p AND b \<noteq> 0 then orExit (acl_add_perm_lib L permset b acl) k else k acl)"

definition setPerms :: "('a, 'h, 'w) acl_lib \<Rightarrow> 'h \<Rightarrow> 32 word \<Rightarrow> 'a \<Rightarrow> 'a res" where
  "setPerms L entry p acl =
     orExit (acl_get_permset_lib L entry acl) (\<lambda>permset.
     orExit (acl_clear_perms_lib L permset acl)
       (addPerm L permset p ACL_READ
       (addPerm L permset p ACL_WRITE
       (addPerm L permset p ACL_EXECUTE (\<lambda>acl.
     orExit (acl_set_permset_lib L entry permset acl) Ret)))))"

text \<open>What one iteration of the loop in \<open>updateACL\<close> does to the ACL in memory.\<close>

definition createEntry :: "('a, 'h, 'w) acl_lib \<Rightarrow> AccessControlEntry \<Rightarrow> 'a \<Rightarrow> ('a \<times> 'h) res" where
  "createEntry L ace acl =
     orExit (acl_create_entry_lib L acl) (\<lambda>(acl, entry).
     orExit (acl_set_tag_type_lib L entry (tag ace) acl) (\<lambda>acl.
       if tag ace = ACL_USER \<or> tag ace = ACL_GROUP
       then orExit (acl_set_qualifier_lib L entry (qual ace) acl) (\<lambda>acl. Ret (acl, entry))
       else Ret (acl, entry)))"

definition applyEntry :: "('a, 'h, 'w) acl_lib \<Rightarrow> Operation \<Rightarrow> AccessControlEntry \<Rightarrow> 'a \<Rightarrow> 'a res" where
  "applyEntry L operation ace acl =
     (case findEntry L acl (tag ace) (qual ace) of
        Ret entry \<Rightarrow>
          if operation = removeEntries then
            (case entry of
               None \<Rightarrow> Ret acl
             | Some h \<Rightarrow> orExit (acl_delete_entry_lib L h acl) Ret)
          else
            (case entry of
               None \<Rightarrow>
                 (case createEntry L ace acl of
                    Ret (acl, h) \<Rightarrow> setPerms L h (perms ace) acl
                  | _ \<Rightarrow> Exit EXIT_FAILURE)
             | Some h \<Rightarrow> setPerms L h (perms ace) acl)
      | _ \<Rightarrow> Exit EXIT_FAILURE)"

fun updateLoop ::
  "('a, 'h, 'w) acl_lib \<Rightarrow> string \<Rightarrow> acl_type_t \<Rightarrow> Operation \<Rightarrow> bool \<Rightarrow> AccessControlEntry list \<Rightarrow> 'a \<Rightarrow> 'w
     \<Rightarrow> unit res \<times> 'w" where
  "updateLoop L f ty operation recalcMask [] acl w =
     (if acl_free_lib L \<noteq> None then (Exit EXIT_FAILURE, w) else (Ret (), w))"
| "updateLoop L f ty operation recalcMask (ace # aces) acl w =
     (case applyEntry L operation ace acl of
        Ret acl \<Rightarrow>
          (case (if recalcMask then acl_calc_mask_lib L acl else Inr acl) of
             Inl e \<Rightarrow> (Exit EXIT_FAILURE, w)
           | Inr acl \<Rightarrow>
               if \<not> acl_valid_lib L acl then (Exit EXIT_FAILURE, w)
               else (case acl_set_file_lib L f ty acl w of
                       (Inl e, w) \<Rightarrow> (Exit EXIT_FAILURE, w)
                     | (Inr _, w) \<Rightarrow> updateLoop L f ty operation recalcMask aces acl w))
      | _ \<Rightarrow> (Exit EXIT_FAILURE, w))"

definition updateACL ::
  "('a, 'h, 'w) acl_lib \<Rightarrow> string \<Rightarrow> bool \<Rightarrow> AccessControlEntry list \<Rightarrow> Operation \<Rightarrow> bool \<Rightarrow> 'w \<Rightarrow> unit res \<times> 'w" where
  "updateACL L f useDefaultACL aclist operation recalcMask w =
     (let ty = (if useDefaultACL then ACL_TYPE_DEFAULT else ACL_TYPE_ACCESS) in
      case acl_get_file_lib L f ty w of
        Inl e \<Rightarrow> (Exit EXIT_FAILURE, w)
      | Inr acl \<Rightarrow> updateLoop L f ty operation recalcMask aclist acl w)"

section \<open>main\<close>

record acl_opts =
  operation :: Operation
  recalcMask :: bool
  useDefaultACL :: bool
  optCnt :: nat
  aclSpec :: "string option"

text \<open>
  The options, as \<open>getopt\<close> delivers them: the option character with its argument; an unknown
  option or a missing argument is \<open>?\<close>.
\<close>

fun aclOption :: "char \<Rightarrow> string \<Rightarrow> acl_opts \<Rightarrow> acl_opts option" where
  "aclOption c arg o' =
     (if c = CHR ''m'' then Some (o'\<lparr>operation := modifyEntries, aclSpec := Some arg, optCnt := optCnt o' + 1\<rparr>)
      else if c = CHR ''x'' then Some (o'\<lparr>operation := removeEntries, aclSpec := Some arg, optCnt := optCnt o' + 1\<rparr>)
      else if c = CHR ''k'' then Some (o'\<lparr>operation := removeDefaultACL, optCnt := optCnt o' + 1\<rparr>)
      else if c = CHR ''V'' then Some (o'\<lparr>operation := checkValidACL, aclSpec := Some arg, optCnt := optCnt o' + 1\<rparr>)
      else if c = CHR ''d'' then Some (o'\<lparr>useDefaultACL := True\<rparr>)
      else if c = CHR ''n'' then Some (o'\<lparr>recalcMask := False\<rparr>)
      else None)"

fun aclOptions :: "(char \<times> string) list \<Rightarrow> acl_opts \<Rightarrow> acl_opts option" where
  "aclOptions [] o' = Some o'"
| "aclOptions ((c, arg) # os) o' =
     (case aclOption c arg o' of None \<Rightarrow> None | Some o'' \<Rightarrow> aclOptions os o'')"

fun aclFiles ::
  "('a, 'h, 'w) acl_lib \<Rightarrow> acl_opts \<Rightarrow> AccessControlEntry list \<Rightarrow> string list \<Rightarrow> 'w \<Rightarrow> unit res \<times> 'w" where
  "aclFiles L o' aclist [] w = (Exit EXIT_SUCCESS, w)"
| "aclFiles L o' aclist (f # fs) w =
     seq_res
       (\<lambda>w. if operation o' = removeDefaultACL then
              (case acl_delete_def_file_lib L f w of
                 (Inl e, w) \<Rightarrow> (Exit EXIT_FAILURE, w) | (Inr _, w) \<Rightarrow> (Ret (), w))
            else if operation o' = modifyEntries \<or> operation o' = removeEntries
            then updateACL L f (useDefaultACL o') aclist (operation o') (recalcMask o') w
            else (Exit EXIT_FAILURE, w))
       (\<lambda>_. aclFiles L o' aclist fs) w"

definition aclMain ::
  "('a, 'h, 'w) acl_lib \<Rightarrow> (nat \<Rightarrow> AccessControlEntry) \<Rightarrow> string list \<Rightarrow> (char \<times> string) list \<Rightarrow> string list
     \<Rightarrow> 'w \<Rightarrow> unit res \<times> 'w" where
  "aclMain L junk argv opts files w =
     (if length argv < 2 \<or> argv ! 1 = ''--help'' then (Exit EXIT_FAILURE, w)
      else case aclOptions opts \<lparr>operation = unspecifiedOp, recalcMask = True, useDefaultACL = False, optCnt = 0,
                                 aclSpec = None\<rparr> of
        None \<Rightarrow> (Exit EXIT_FAILURE, w)
      | Some o' \<Rightarrow>
          if optCnt o' \<noteq> 1 then (Exit EXIT_FAILURE, w)
          else if operation o' = checkValidACL \<and> useDefaultACL o' then (Exit EXIT_FAILURE, w)
          else if operation o' = checkValidACL then
            (case parseACL L (the (aclSpec o')) junk True of
               Inl msg \<Rightarrow> (Exit EXIT_FAILURE, w) | Inr _ \<Rightarrow> (Exit EXIT_SUCCESS, w))
          else if operation o' = modifyEntries \<or> operation o' = removeEntries then
            (case parseACL L (the (aclSpec o')) junk (operation o' = modifyEntries) of
               Inl msg \<Rightarrow> (Exit EXIT_FAILURE, w) | Inr aclist \<Rightarrow> aclFiles L o' aclist files w)
          else aclFiles L o' [] files w)"

section \<open>The textual form\<close>

definition tagName :: "acl_tag_t \<Rightarrow> string" where
  "tagName t = (case t of ACL_USER_OBJ \<Rightarrow> ''user'' | ACL_USER \<Rightarrow> ''user'' | ACL_GROUP_OBJ \<Rightarrow> ''group''
     | ACL_GROUP \<Rightarrow> ''group'' | ACL_MASK \<Rightarrow> ''mask'' | ACL_OTHER \<Rightarrow> ''other'')"

definition has_qualifier :: "acl_tag_t \<Rightarrow> bool" where
  "has_qualifier t \<longleftrightarrow> t = ACL_USER \<or> t = ACL_GROUP"

definition showPerms :: "32 word \<Rightarrow> string" where
  "showPerms p = [if p AND ACL_READ \<noteq> 0 then CHR ''r'' else CHR ''-'', if p AND ACL_WRITE \<noteq> 0 then CHR ''w'' else CHR ''-'',
     if p AND ACL_EXECUTE \<noteq> 0 then CHR ''x'' else CHR ''-'']"

definition showQual :: "AccessControlEntry \<Rightarrow> string" where
  "showQual ace = (if has_qualifier (tag ace) then show_nat (unat (qual ace)) else [])"

definition showEntry :: "bool \<Rightarrow> AccessControlEntry \<Rightarrow> string" where
  "showEntry withPerms ace =
     tagName (tag ace) @ '':'' @ showQual ace @ (if withPerms then '':'' @ showPerms (perms ace) else [])"

fun showACL :: "bool \<Rightarrow> AccessControlEntry list \<Rightarrow> string" where
  "showACL b [] = []"
| "showACL b [ace] = showEntry b ace"
| "showACL b (ace # aces) = showEntry b ace @ '','' @ showACL b aces"

text \<open>An entry that can be written down: \<open>-1\<close> is no ID, and only the three permissions are set.\<close>

definition ace_ok :: "AccessControlEntry \<Rightarrow> bool" where
  "ace_ok ace \<longleftrightarrow> (if has_qualifier (tag ace) then qual ace \<noteq> -1 else qual ace = 0) \<and> perms ace AND 7 = perms ace"

lemma and_bit_if:
  "(if p AND 4 \<noteq> 0 then 4 else 0) = p AND (4 :: 32 word)" "(if p AND 2 \<noteq> 0 then 2 else 0) = p AND (2 :: 32 word)"
  "(if p AND 1 \<noteq> 0 then 1 else 0) = p AND (1 :: 32 word)"
proof -
  have "(2 :: 32 word) ^ 2 = 4" by simp
  then show "(if p AND 4 \<noteq> 0 then 4 else 0) = p AND (4 :: 32 word)" using and_exp_if [of p 2] by (simp only:)
  show "(if p AND 2 \<noteq> 0 then 2 else 0) = p AND (2 :: 32 word)" using and_exp_if [of p 1] by (simp only: power_one_right)
  show "(if p AND 1 \<noteq> 0 then 1 else 0) = p AND (1 :: 32 word)" using and_exp_if [of p 0] by (simp only: power_0)
qed

lemma or_bits: "(p AND 4) OR (p AND 2) OR (p AND 1) = p AND (7 :: 32 word)"
proof -
  have "(p AND 4) OR (p AND 2) OR (p AND 1) = p AND (4 OR 2 OR 1 :: 32 word)"
    by (simp only: bit.conj_disj_distrib)
  then show ?thesis by simp
qed

lemma permLoop_showPerms: "permLoop (showPerms p) 0 = Inr (p AND 7)"
proof -
  have "permLoop (showPerms p) 0 = Inr ((if p AND 4 \<noteq> 0 then 4 else 0) OR (if p AND 2 \<noteq> 0 then 2 else 0) OR
      (if p AND 1 \<noteq> 0 then 1 else 0))"
    by (simp add: showPerms_def)
  then show ?thesis by (simp only: and_bit_if or_bits)
qed

lemma no_separator: "CHR '':'' \<notin> set (show_nat n)" "CHR '','' \<notin> set (show_nat n)"
proof -
  have "\<not> isdigitb 10 (CHR '':'')" "\<not> isdigitb 10 (CHR '','')" by code_simp+
  then show "CHR '':'' \<notin> set (show_nat n)" "CHR '','' \<notin> set (show_nat n)"
    using show_nat_all_digits [of n] by (auto simp: list_all_iff)
qed

lemma showEntry_chars:
  "CHR '','' \<notin> set (showEntry b ace)" "CHR '':'' \<notin> set (tagName t)" "CHR '':'' \<notin> set (showQual ace)"
  using no_separator by (auto simp: showEntry_def tagName_def showQual_def showPerms_def split: acl_tag_t.splits if_splits)

lemma tagOf_tagName:
  "tagOf (tagName t) (has_qualifier t) = Some t"
  by (cases t) (auto simp: tagOf_def tagName_def has_qualifier_def)

lemma showQual_first:
  "(showQual ace @ (if b then '':'' @ r else []) \<noteq> [] \<and> hd (showQual ace @ (if b then '':'' @ r else [])) \<noteq> CHR '':'')
     \<longleftrightarrow> has_qualifier (tag ace)"
proof (cases "has_qualifier (tag ace)")
  case True
  then have "showQual ace \<noteq> []" by (simp add: showQual_def)
  moreover have "hd (showQual ace) \<noteq> CHR '':''" using showEntry_chars(3) [of ace] calculation by (metis hd_in_set)
  ultimately show ?thesis using True by simp
qed (simp add: showQual_def)

lemma strchr_colon: "c \<notin> set a \<Longrightarrow> strchr (a @ c # b) c = Some (a, b)" "c \<notin> set a \<Longrightarrow> strchr a c = None"
  by (simp_all add: cstr_simps)

lemma parseEntrySpec_show:
  assumes "ace_ok ace"
  shows "parseEntrySpec L (showEntry b ace) old b = Inr (if b then ace else ace\<lparr>perms := perms old\<rparr>)"
proof -
  let ?r = "showQual ace @ (if b then '':'' @ showPerms (perms ace) else [])"
  have 1: "strchr (showEntry b ace) (CHR '':'') = Some (tagName (tag ace), ?r)"
    using strchr_colon(1) [OF showEntry_chars(2), of "tag ace" ?r] by (simp add: showEntry_def)
  have 2: "strchr ?r (CHR '':'') = (if b then Some (showQual ace, showPerms (perms ace)) else None)"
    using strchr_colon [OF showEntry_chars(3), of ace] by simp
  have id: "has_qualifier (tag ace) \<Longrightarrow> userIdFromName db (Some (showQual ace)) = qual ace"
    "has_qualifier (tag ace) \<Longrightarrow> groupIdFromName db (Some (showQual ace)) = qual ace" for db
    by (simp_all add: showQual_def id_numeric)
  have ne: "showPerms (perms ace) \<noteq> []" by (simp add: showPerms_def)
  have q: "(?r \<noteq> [] \<and> hd ?r \<noteq> CHR '':'') = has_qualifier (tag ace)" by (rule showQual_first)
  show ?thesis
    unfolding parseEntrySpec_def 1 option.case prod.case Let_def 2 q tagOf_tagName
    using assms id ne
    by (cases "tag ace") (auto simp: has_qualifier_def ace_ok_def permLoop_showPerms)
qed

lemma parseEntrySpec_wrong_form:
  "parseEntrySpec L (showEntry (\<not> b) ace) old b =
     Inl (if b then ''Must specify permissions'' else ''Cannot specify permissions here'')"
proof -
  let ?r = "showQual ace @ (if \<not> b then '':'' @ showPerms (perms ace) else [])"
  have 1: "strchr (showEntry (\<not> b) ace) (CHR '':'') = Some (tagName (tag ace), ?r)"
    using strchr_colon(1) [OF showEntry_chars(2), of "tag ace" ?r] by (simp add: showEntry_def)
  have 2: "strchr ?r (CHR '':'') = (if \<not> b then Some (showQual ace, showPerms (perms ace)) else None)"
    using strchr_colon [OF showEntry_chars(3), of ace] by simp
  show ?thesis
    unfolding parseEntrySpec_def 1 option.case prod.case Let_def 2 by (simp add: showPerms_def)
qed

lemma parseACLLoop_wrong_form:
  assumes "aces \<noteq> []" "n < MAX_ENTRIES"
  shows "parseACLLoop L old b n (showACL (\<not> b) aces) =
    Inl (if b then ''Must specify permissions'' else ''Cannot specify permissions here'')"
  using assms
proof (cases "(\<not> b, aces)" rule: showACL.cases)
  case (2 b' ace)
  then show ?thesis using assms parseEntrySpec_wrong_form [of L b ace]
    by (subst parseACLLoop.simps) (simp add: strchr_colon(2) showEntry_chars(1))
next
  case (3 b' ace x xs)
  have "strchr (showACL b' (ace # x # xs)) (CHR '','') = Some (showEntry b' ace, showACL b' (x # xs))"
    by (simp add: strchr_colon(1) showEntry_chars(1))
  then show ?thesis using assms 3 parseEntrySpec_wrong_form [of L b ace]
    by (subst parseACLLoop.simps) (simp del: showACL.simps)
qed simp

definition entryKeys :: "AccessControlEntry list \<Rightarrow> (acl_tag_t \<times> id_t) list" where
  "entryKeys aces = map (\<lambda>e. (tag e, qual e)) aces"

lemma parseACLLoop_show:
  assumes "aces \<noteq> []" "\<forall>ace \<in> set aces. ace_ok ace" "n + length aces \<le> MAX_ENTRIES"
  shows "\<exists>bs. parseACLLoop L old b n (showACL b aces) = Inr bs \<and> (b \<longrightarrow> bs = aces) \<and> entryKeys bs = entryKeys aces"
  using assms
proof (induction b aces arbitrary: n rule: showACL.induct)
  case (2 b ace)
  then show ?case
    by (subst parseACLLoop.simps) (simp add: parseEntrySpec_show strchr_colon(2) showEntry_chars(1) entryKeys_def)
next
  case (3 b ace x xs)
  have s: "strchr (showACL b (ace # x # xs)) (CHR '','') = Some (showEntry b ace, showACL b (x # xs))"
    by (simp add: strchr_colon(1) showEntry_chars(1))
  obtain bs where bs: "parseACLLoop L old b (n + 1) (showACL b (x # xs)) = Inr bs" "b \<longrightarrow> bs = x # xs"
      "entryKeys bs = entryKeys (x # xs)"
    using "3.IH" [of "n + 1"] "3.prems" by auto
  have "parseEntrySpec L (showEntry b ace) (old n) b = Inr (if b then ace else ace\<lparr>perms := perms (old n)\<rparr>)"
    using 3 by (intro parseEntrySpec_show) simp
  moreover have "\<not> n \<ge> MAX_ENTRIES" using 3 by simp
  ultimately have "parseACLLoop L old b n (showACL b (ace # x # xs)) =
      Inr ((if b then ace else ace\<lparr>perms := perms (old n)\<rparr>) # bs)"
    unfolding parseACLLoop.simps [of L old b n "showACL b (ace # x # xs)"] s
    by (simp only: if_False option.case prod.case bs(1) sum.case)
  then show ?case using bs(2,3) by (auto simp: entryKeys_def)
qed simp

text \<open>
  Parsing reads back what is written: a list of up to 10000 entries printed in the form
  \<open>tag:[qualifier]:perms,...\<close> is parsed to these entries, and printed without permissions
  (the form for \<open>-x\<close>) to entries with the same tags and qualifiers. Each form is rejected
  where the other is required.
\<close>

theorem parseACL_show:
  assumes "aces \<noteq> []" and "\<forall>ace \<in> set aces. ace_ok ace" and "length aces \<le> MAX_ENTRIES"
  shows "parseACL L (showACL True aces) old True = Inr aces \<and>
    (\<exists>bs. parseACL L (showACL False aces) old False = Inr bs \<and>
       map (\<lambda>e. (tag e, qual e)) bs = map (\<lambda>e. (tag e, qual e)) aces) \<and>
    parseACL L (showACL True aces) old False = Inl ''Cannot specify permissions here'' \<and>
    parseACL L (showACL False aces) old True = Inl ''Must specify permissions''"
proof (intro conjI)
  show "parseACL L (showACL True aces) old True = Inr aces"
    using parseACLLoop_show [OF assms(1,2), of 0 L old True] assms(3) unfolding parseACL_def by auto
  show "\<exists>bs. parseACL L (showACL False aces) old False = Inr bs \<and>
      map (\<lambda>e. (tag e, qual e)) bs = map (\<lambda>e. (tag e, qual e)) aces"
    using parseACLLoop_show [OF assms(1,2), of 0 L old False] assms(3)
    unfolding parseACL_def entryKeys_def [symmetric] by auto
  show "parseACL L (showACL True aces) old False = Inl ''Cannot specify permissions here''"
    using parseACLLoop_wrong_form [OF assms(1), of 0 L old False] unfolding parseACL_def by simp
  show "parseACL L (showACL False aces) old True = Inl ''Must specify permissions''"
    using parseACLLoop_wrong_form [OF assms(1), of 0 L old True] unfolding parseACL_def by simp
qed

section \<open>ACLs as sets of entries\<close>

definition aceKey :: "AccessControlEntry \<Rightarrow> acl_tag_t \<times> id_t" where
  "aceKey e = (tag e, if has_qualifier (tag e) then qual e else 0)"

text \<open>The entries of an ACL, given the entries to which the descriptors refer.\<close>

definition aclEntries :: "('h \<rightharpoonup> AccessControlEntry) \<Rightarrow> ((acl_tag_t \<times> id_t) \<times> 32 word) set" where
  "aclEntries m = (\<lambda>e. (aceKey e, perms e)) ` ran m"

definition uniqueKeys :: "('h \<rightharpoonup> AccessControlEntry) \<Rightarrow> bool" where
  "uniqueKeys m \<longleftrightarrow> (\<forall>h h' e e'. m h = Some e \<longrightarrow> m h' = Some e' \<longrightarrow> aceKey e = aceKey e' \<longrightarrow> h = h')"

text \<open>
  What the manual pages of \<open>libacl\<close> say of the calls that succeed, in terms of the map \<open>ent a\<close>
  from the descriptors of an ACL to its entries. A permission set descriptor refers to the
  permissions of its entry. \<open>acl_valid\<close>, and an ACL read from a file, have no two entries
  with the same tag and qualifier; \<open>acl_calc_mask\<close> changes or adds the mask entry only.
\<close>

definition acl_laws :: "('a, 'h, 'w) acl_lib \<Rightarrow> ('a \<Rightarrow> 'h \<rightharpoonup> AccessControlEntry) \<Rightarrow> bool" where
  "acl_laws L ent \<longleftrightarrow>
     (\<forall>a h. Inr h \<in> set (acl_get_entries_lib L a) \<longleftrightarrow> h \<in> dom (ent a)) \<and>
     (\<forall>a h t. acl_get_tag_type_lib L a h = Inr t \<longrightarrow> (\<forall>e. ent a h = Some e \<longrightarrow> t = tag e)) \<and>
     (\<forall>a h q. acl_get_qualifier_lib L a h = Inr q \<longrightarrow>
        (\<forall>e. ent a h = Some e \<longrightarrow> has_qualifier (tag e) \<longrightarrow> q = qual e)) \<and>
     (\<forall>a b h. acl_create_entry_lib L a = Inr (b, h) \<longrightarrow> h \<notin> dom (ent a) \<and> (\<exists>e. ent b = (ent a)(h \<mapsto> e))) \<and>
     (\<forall>a b h. acl_delete_entry_lib L h a = Inr b \<longrightarrow> ent b = (ent a)(h := None)) \<and>
     (\<forall>a b h t e. acl_set_tag_type_lib L h t a = Inr b \<longrightarrow> ent a h = Some e \<longrightarrow>
        ent b = (ent a)(h \<mapsto> e\<lparr>tag := t\<rparr>)) \<and>
     (\<forall>a b h q e. acl_set_qualifier_lib L h q a = Inr b \<longrightarrow> ent a h = Some e \<longrightarrow>
        ent b = (ent a)(h \<mapsto> e\<lparr>qual := q\<rparr>)) \<and>
     (\<forall>a h p. acl_get_permset_lib L h a = Inr p \<longrightarrow> p = h) \<and>
     (\<forall>a b h e. acl_clear_perms_lib L h a = Inr b \<longrightarrow> ent a h = Some e \<longrightarrow>
        ent b = (ent a)(h \<mapsto> e\<lparr>perms := 0\<rparr>)) \<and>
     (\<forall>a b h p e. acl_add_perm_lib L h p a = Inr b \<longrightarrow> ent a h = Some e \<longrightarrow>
        ent b = (ent a)(h \<mapsto> e\<lparr>perms := perms e OR p\<rparr>)) \<and>
     (\<forall>a b h. acl_set_permset_lib L h h a = Inr b \<longrightarrow> ent b = ent a) \<and>
     (\<forall>a b. acl_calc_mask_lib L a = Inr b \<longrightarrow>
        {x \<in> aclEntries (ent b). fst x \<noteq> (ACL_MASK, 0)} = {x \<in> aclEntries (ent a). fst x \<noteq> (ACL_MASK, 0)}) \<and>
     (\<forall>a. acl_valid_lib L a \<longrightarrow> uniqueKeys (ent a)) \<and>
     (\<forall>f ty w a. acl_get_file_lib L f ty w = Inr a \<longrightarrow> uniqueKeys (ent a)) \<and>
     (\<forall>f ty w a w'. acl_set_file_lib L f ty a w = (Inr (), w') \<longrightarrow>
        (\<exists>b. acl_get_file_lib L f ty w' = Inr b \<and> aclEntries (ent b) = aclEntries (ent a)))"

lemma acl_lawsD:
  assumes "acl_laws L ent"
  shows "Inr h \<in> set (acl_get_entries_lib L a) \<longleftrightarrow> h \<in> dom (ent a)"
    and "acl_get_tag_type_lib L a h = Inr t \<Longrightarrow> ent a h = Some e \<Longrightarrow> t = tag e"
    and "acl_get_qualifier_lib L a h = Inr q \<Longrightarrow> ent a h = Some e \<Longrightarrow> has_qualifier (tag e) \<Longrightarrow> q = qual e"
    and "acl_create_entry_lib L a = Inr (b, h) \<Longrightarrow> h \<notin> dom (ent a) \<and> (\<exists>e. ent b = (ent a)(h \<mapsto> e))"
    and "acl_delete_entry_lib L h a = Inr b \<Longrightarrow> ent b = (ent a)(h := None)"
    and "acl_set_tag_type_lib L h t a = Inr b \<Longrightarrow> ent a h = Some e \<Longrightarrow> ent b = (ent a)(h \<mapsto> e\<lparr>tag := t\<rparr>)"
    and "acl_set_qualifier_lib L h q a = Inr b \<Longrightarrow> ent a h = Some e \<Longrightarrow> ent b = (ent a)(h \<mapsto> e\<lparr>qual := q\<rparr>)"
    and "acl_get_permset_lib L h a = Inr h' \<Longrightarrow> h' = h"
    and "acl_clear_perms_lib L h a = Inr b \<Longrightarrow> ent a h = Some e \<Longrightarrow> ent b = (ent a)(h \<mapsto> e\<lparr>perms := 0\<rparr>)"
    and "acl_add_perm_lib L h p a = Inr b \<Longrightarrow> ent a h = Some e \<Longrightarrow> ent b = (ent a)(h \<mapsto> e\<lparr>perms := perms e OR p\<rparr>)"
    and "acl_set_permset_lib L h h a = Inr b \<Longrightarrow> ent b = ent a"
    and "acl_calc_mask_lib L a = Inr b \<Longrightarrow>
      {x \<in> aclEntries (ent b). fst x \<noteq> (ACL_MASK, 0)} = {x \<in> aclEntries (ent a). fst x \<noteq> (ACL_MASK, 0)}"
    and "acl_valid_lib L a \<Longrightarrow> uniqueKeys (ent a)"
    and "acl_get_file_lib L f ty w = Inr a \<Longrightarrow> uniqueKeys (ent a)"
    and "acl_set_file_lib L f ty a w = (Inr (), w') \<Longrightarrow>
      \<exists>b. acl_get_file_lib L f ty w' = Inr b \<and> aclEntries (ent b) = aclEntries (ent a)"
  using assms unfolding acl_laws_def by (elim conjE; meson)+

text \<open>What one entry of the command line asks for.\<close>

definition specStep :: "Operation \<Rightarrow> AccessControlEntry \<Rightarrow> ((acl_tag_t \<times> id_t) \<times> 32 word) set
    \<Rightarrow> ((acl_tag_t \<times> id_t) \<times> 32 word) set" where
  "specStep op ace S = {x \<in> S. fst x \<noteq> aceKey ace} \<union>
     (if op = removeEntries then {} else {(aceKey ace, perms ace AND 7)})"

lemma aceKey_perms: "aceKey (e\<lparr>perms := p\<rparr>) = aceKey e" by (simp add: aceKey_def)

lemma findEntryLoop_spec:
  assumes "acl_laws L ent" "findEntryLoop L a (tag ace) (qual ace) es = Ret r" "\<forall>h. Inr h \<in> set es \<longrightarrow> h \<in> dom (ent a)"
  shows "case r of
      None \<Rightarrow> (\<forall>h e. Inr h \<in> set es \<longrightarrow> ent a h = Some e \<longrightarrow> aceKey e \<noteq> aceKey ace)
    | Some h \<Rightarrow> (\<exists>e. ent a h = Some e \<and> aceKey e = aceKey ace)"
  using assms(2,3)
proof (induction es)
  case (Cons x es)
  then obtain h where h: "x = Inr h" by (cases x) auto
  with Cons.prems obtain e where e: "ent a h = Some e" by auto
  from Cons.prems h obtain t where t: "acl_get_tag_type_lib L a h = Inr t" by (auto split: sum.splits)
  have te: "t = tag e" by (rule acl_lawsD(2) [OF assms(1) t e])
  have q: "q = qual e" if "acl_get_qualifier_lib L a h = Inr q" "has_qualifier t" for q
    using acl_lawsD(3) [OF assms(1) that(1) e] that(2) te by simp
  have rest: "findEntryLoop L a (tag ace) (qual ace) es = Ret r \<Longrightarrow> aceKey e \<noteq> aceKey ace \<Longrightarrow> ?case"
    using Cons.IH Cons.prems(2) h e by (cases r) auto
  show ?case
  proof (cases "tag ace = t \<and> has_qualifier t")
    case True
    then show ?thesis using Cons.prems(1) h t te q rest e
      by (auto simp: has_qualifier_def aceKey_def split: sum.splits if_splits)
  next
    case False
    then show ?thesis using Cons.prems(1) h t te rest e
      by (auto simp: has_qualifier_def aceKey_def split: sum.splits if_splits)
  qed
qed simp

lemma findEntry_spec:
  assumes "acl_laws L ent" "findEntry L a (tag ace) (qual ace) = Ret r"
  shows "case r of
      None \<Rightarrow> (\<forall>e \<in> ran (ent a). aceKey e \<noteq> aceKey ace)
    | Some h \<Rightarrow> (\<exists>e. ent a h = Some e \<and> aceKey e = aceKey ace)"
  using findEntryLoop_spec [OF assms(1) assms(2) [unfolded findEntry_def]] acl_lawsD(1) [OF assms(1)]
  by (cases r) (auto simp: ran_def)

lemma orExit_Ret: "orExit r f = Ret y \<Longrightarrow> \<exists>x. r = Inr x \<and> f x = Ret y"
  by (auto simp: orExit_def split: sum.splits)

lemma addPerm_spec:
  assumes "acl_laws L ent" "addPerm L h p b k a = Ret r" "ent a = m(h \<mapsto> e\<lparr>perms := x\<rparr>)"
  shows "\<exists>a'. k a' = Ret r \<and> ent a' = m(h \<mapsto> e\<lparr>perms := x OR (if p AND b \<noteq> 0 then b else 0)\<rparr>)"
proof (cases "p AND b \<noteq> 0")
  case True
  with assms(2) obtain a' where a': "acl_add_perm_lib L h b a = Inr a'" "k a' = Ret r"
    by (auto simp: addPerm_def dest: orExit_Ret)
  have "ent a h = Some (e\<lparr>perms := x\<rparr>)" by (simp add: assms(3))
  from acl_lawsD(10) [OF assms(1) a'(1) this] True a'(2) show ?thesis
    by (intro exI [of _ a']) (simp add: assms(3) fun_eq_iff)
next
  case False
  with assms show ?thesis by (auto simp: addPerm_def)
qed

lemma setPerms_spec:
  assumes "acl_laws L ent" "setPerms L h p a = Ret a'" "ent a h = Some e"
  shows "ent a' = (ent a)(h \<mapsto> e\<lparr>perms := p AND 7\<rparr>)"
proof -
  from assms(2) obtain h' where h': "acl_get_permset_lib L h a = Inr h'" unfolding setPerms_def by (auto dest: orExit_Ret)
  then have [simp]: "h' = h" by (rule acl_lawsD(8) [OF assms(1)])
  from assms(2) h' obtain b where cl: "acl_clear_perms_lib L h a = Inr b" and
    b: "addPerm L h p ACL_READ (addPerm L h p ACL_WRITE (addPerm L h p ACL_EXECUTE
       (\<lambda>acl. orExit (acl_set_permset_lib L h h acl) Ret))) b = Ret a'"
    unfolding setPerms_def by (auto dest!: orExit_Ret)
  have b0: "ent b = (ent a)(h \<mapsto> e\<lparr>perms := 0\<rparr>)" by (rule acl_lawsD(9) [OF assms(1) cl assms(3)])
  from addPerm_spec [OF assms(1) b b0] obtain b1 where
    b1: "addPerm L h p ACL_WRITE (addPerm L h p ACL_EXECUTE (\<lambda>acl. orExit (acl_set_permset_lib L h h acl) Ret)) b1 = Ret a'"
    "ent b1 = (ent a)(h \<mapsto> e\<lparr>perms := 0 OR (if p AND 4 \<noteq> 0 then 4 else 0)\<rparr>)" by blast
  from addPerm_spec [OF assms(1) b1] obtain b2 where
    b2: "addPerm L h p ACL_EXECUTE (\<lambda>acl. orExit (acl_set_permset_lib L h h acl) Ret) b2 = Ret a'"
    "ent b2 = (ent a)(h \<mapsto> e\<lparr>perms := (0 OR (if p AND 4 \<noteq> 0 then 4 else 0)) OR (if p AND 2 \<noteq> 0 then 2 else 0)\<rparr>)" by blast
  from addPerm_spec [OF assms(1) b2] obtain b3 where
    b3: "orExit (acl_set_permset_lib L h h b3) Ret = Ret a'"
    "ent b3 = (ent a)(h \<mapsto> e\<lparr>perms := ((0 OR (if p AND 4 \<noteq> 0 then 4 else 0)) OR (if p AND 2 \<noteq> 0 then 2 else 0)) OR
      (if p AND 1 \<noteq> 0 then 1 else 0)\<rparr>)" by blast
  have "ent a' = ent b3" using acl_lawsD(11) [OF assms(1)] b3(1) by (auto dest!: orExit_Ret)
  then show ?thesis unfolding b3(2) and_bit_if or.assoc or_bits by (simp add: or_bits)
qed

lemma createEntry_spec:
  assumes "acl_laws L ent" "createEntry L ace a = Ret (a', h)"
  shows "h \<notin> dom (ent a)" "\<exists>e. ent a' = (ent a)(h \<mapsto> e) \<and> aceKey e = aceKey ace"
proof -
  from assms(2) obtain b c where c: "acl_create_entry_lib L a = Inr (b, h)"
    "acl_set_tag_type_lib L h (tag ace) b = Inr c"
    and q: "if has_qualifier (tag ace) then acl_set_qualifier_lib L h (qual ace) c = Inr a' else a' = c"
    unfolding createEntry_def
    by (auto simp: has_qualifier_def dest!: orExit_Ret split: if_splits)
  from acl_lawsD(4) [OF assms(1) c(1)] obtain e where e: "h \<notin> dom (ent a)" "ent b = (ent a)(h \<mapsto> e)" by auto
  have t: "ent c = (ent a)(h \<mapsto> e\<lparr>tag := tag ace\<rparr>)" using acl_lawsD(6) [OF assms(1) c(2)] e by simp
  show "h \<notin> dom (ent a)" by (rule e(1))
  show "\<exists>e. ent a' = (ent a)(h \<mapsto> e) \<and> aceKey e = aceKey ace"
  proof (cases "has_qualifier (tag ace)")
    case True
    with q acl_lawsD(7) [OF assms(1), of h "qual ace" c a' "e\<lparr>tag := tag ace\<rparr>"] t
    have "ent a' = (ent a)(h \<mapsto> e\<lparr>tag := tag ace, qual := qual ace\<rparr>)" by simp
    with True show ?thesis by (intro exI [of _ "e\<lparr>tag := tag ace, qual := qual ace\<rparr>"]) (simp add: aceKey_def)
  next
    case False
    with q t show ?thesis by (intro exI [of _ "e\<lparr>tag := tag ace\<rparr>"]) (simp add: aceKey_def)
  qed
qed

lemma aclEntries_upd:
  assumes "uniqueKeys m" "\<forall>h' e'. m h' = Some e' \<longrightarrow> h' \<noteq> h \<longrightarrow> aceKey e' \<noteq> k"
    "\<forall>e'. m h = Some e' \<longrightarrow> aceKey e' = k"
  shows "aceKey e = k \<Longrightarrow> aclEntries (m(h \<mapsto> e)) = {x \<in> aclEntries m. fst x \<noteq> k} \<union> {(k, perms e)}"
    "aclEntries (m(h := None)) = {x \<in> aclEntries m. fst x \<noteq> k}"
  using assms(2,3) by (fastforce simp: aclEntries_def ran_def image_iff split: if_splits)+

lemma applyEntry_spec:
  assumes "acl_laws L ent" "uniqueKeys (ent a)" "applyEntry L op ace a = Ret a'"
  shows "aclEntries (ent a') = specStep op ace (aclEntries (ent a))"
proof -
  from assms(3) obtain r where r: "findEntry L a (tag ace) (qual ace) = Ret r"
    by (auto simp: applyEntry_def split: res.splits)
  note f = findEntry_spec [OF assms(1) r]
  show ?thesis
  proof (cases r)
    case None
    then have n: "\<forall>e \<in> ran (ent a). aceKey e \<noteq> aceKey ace" using f by simp
    have same: "{x \<in> aclEntries (ent a). fst x \<noteq> aceKey ace} = aclEntries (ent a)" using n by (auto simp: aclEntries_def)
    show ?thesis
    proof (cases "op = removeEntries")
      case True
      then show ?thesis using assms(3) r None same by (auto simp: applyEntry_def specStep_def)
    next
      case False
      then obtain b h where bh: "createEntry L ace a = Ret (b, h)" "setPerms L h (perms ace) b = Ret a'"
        using assms(3) r None by (auto simp: applyEntry_def split: res.splits)
      from createEntry_spec [OF assms(1) bh(1)] obtain e where
        e: "h \<notin> dom (ent a)" "ent b = (ent a)(h \<mapsto> e)" "aceKey e = aceKey ace" by auto
      have "ent a' = (ent a)(h \<mapsto> e\<lparr>perms := perms ace AND 7\<rparr>)"
        using setPerms_spec [OF assms(1) bh(2), of e] e(2) by simp
      moreover have "aceKey (e\<lparr>perms := perms ace AND 7\<rparr>) = aceKey ace" using e(3) by (simp add: aceKey_perms)
      moreover have "\<forall>h' e'. ent a h' = Some e' \<longrightarrow> h' \<noteq> h \<longrightarrow> aceKey e' \<noteq> aceKey ace"
          "\<forall>e'. ent a h = Some e' \<longrightarrow> aceKey e' = aceKey ace"
        using n e(1) by (auto intro: ranI)
      ultimately show ?thesis
        using aclEntries_upd(1) [OF assms(2), of h "aceKey ace" "e\<lparr>perms := perms ace AND 7\<rparr>"] False
        by (simp add: specStep_def)
    qed
  next
    case (Some h)
    then obtain e where e: "ent a h = Some e" "aceKey e = aceKey ace" using f by auto
    have u: "\<forall>h' e'. ent a h' = Some e' \<longrightarrow> h' \<noteq> h \<longrightarrow> aceKey e' \<noteq> aceKey ace"
      "\<forall>e'. ent a h = Some e' \<longrightarrow> aceKey e' = aceKey ace"
      using assms(2) e unfolding uniqueKeys_def by (metis, simp)
    show ?thesis
    proof (cases "op = removeEntries")
      case True
      with assms(3) r Some have "acl_delete_entry_lib L h a = Inr a'" by (auto simp: applyEntry_def dest!: orExit_Ret)
      then show ?thesis using acl_lawsD(5) [OF assms(1)] aclEntries_upd(2) [OF assms(2) u] True
        by (simp add: specStep_def)
    next
      case False
      then have "setPerms L h (perms ace) a = Ret a'" using assms(3) r Some by (auto simp: applyEntry_def)
      from setPerms_spec [OF assms(1) this e(1)] show ?thesis
        using aclEntries_upd(1) [OF assms(2) u, of "e\<lparr>perms := perms ace AND 7\<rparr>"] e(2) False aceKey_perms
        by (simp add: specStep_def)
    qed
  qed
qed

text \<open>The entries that are compared: with \<open>recalcMask\<close>, all but the mask.\<close>

definition visible :: "bool \<Rightarrow> ((acl_tag_t \<times> id_t) \<times> 32 word) set \<Rightarrow> ((acl_tag_t \<times> id_t) \<times> 32 word) set" where
  "visible recalc S = {x \<in> S. recalc \<longrightarrow> fst x \<noteq> (ACL_MASK, 0)}"

lemma visible_specStep_eq:
  "visible r (specStep op ace S) = {x \<in> visible r S. fst x \<noteq> aceKey ace} \<union>
     visible r (if op = removeEntries then {} else {(aceKey ace, perms ace AND 7)})"
  unfolding visible_def specStep_def by blast

lemma visible_specStep: "visible r S = visible r T \<Longrightarrow> visible r (specStep op ace S) = visible r (specStep op ace T)"
  by (simp only: visible_specStep_eq)

lemma visible_fold:
  "visible r S = visible r T \<Longrightarrow> visible r (fold (specStep op) aces S) = visible r (fold (specStep op) aces T)"
proof (induction aces arbitrary: S T)
  case (Cons ace aces)
  from Cons.IH [OF visible_specStep [OF Cons.prems]] show ?case by simp
qed simp

lemma updateLoop_spec:
  assumes "acl_laws L ent"
  shows "updateLoop L f ty op r aces a w = (Ret (), w') \<Longrightarrow> uniqueKeys (ent a) \<Longrightarrow>
    acl_get_file_lib L f ty w = Inr c \<Longrightarrow> aclEntries (ent c) = aclEntries (ent a) \<Longrightarrow>
    \<exists>b. acl_get_file_lib L f ty w' = Inr b \<and>
      visible r (aclEntries (ent b)) = visible r (fold (specStep op) aces (aclEntries (ent a)))"
proof (induction aces arbitrary: a w c)
  case (Cons ace aces)
  then obtain a1 where a1: "applyEntry L op ace a = Ret a1" by (auto split: res.splits)
  with Cons.prems obtain a2 where a2: "(if r then acl_calc_mask_lib L a1 else Inr a1) = Inr a2" by (auto split: sum.splits)
  with Cons.prems a1 obtain w2 where w2: "acl_valid_lib L a2" "acl_set_file_lib L f ty a2 w = (Inr (), w2)"
    "updateLoop L f ty op r aces a2 w2 = (Ret (), w')"
    by (auto split: if_splits prod.splits sum.splits)
  have s1: "aclEntries (ent a1) = specStep op ace (aclEntries (ent a))"
    by (rule applyEntry_spec [OF assms Cons.prems(2) a1])
  have v: "visible r (aclEntries (ent a2)) = visible r (aclEntries (ent a1))"
    using a2 acl_lawsD(12) [OF assms, of a1 a2] by (cases r) (simp_all add: visible_def)
  obtain b where b: "acl_get_file_lib L f ty w2 = Inr b" "aclEntries (ent b) = aclEntries (ent a2)"
    using acl_lawsD(15) [OF assms w2(2)] by blast
  from Cons.IH [OF w2(3) acl_lawsD(13) [OF assms w2(1)] b] visible_fold [OF v, of op aces] s1
  show ?case by auto
qed (auto split: if_splits)

text \<open>
  C7. \<open>updateACL\<close> refines the update of a set of entries: when it returns, the ACL of the file
  is the old one with the entries of the command line applied in order; \<open>-m\<close> replaces or adds
  the entry with that tag and qualifier, \<open>-x\<close> removes it if it is there, and every other
  entry is unchanged (except for the mask, which is recalculated unless \<open>-n\<close> is given).
\<close>

theorem updateACL_refines:
  assumes "acl_laws L ent"
    and "acl_get_file_lib L f (if dflt then ACL_TYPE_DEFAULT else ACL_TYPE_ACCESS) w = Inr a"
    and "updateACL L f dflt aces op recalc w = (Ret (), w')"
  shows "\<exists>b. acl_get_file_lib L f (if dflt then ACL_TYPE_DEFAULT else ACL_TYPE_ACCESS) w' = Inr b \<and>
    {x \<in> aclEntries (ent b). recalc \<longrightarrow> fst x \<noteq> (ACL_MASK, 0)} =
    {x \<in> fold (specStep op) aces (aclEntries (ent a)). recalc \<longrightarrow> fst x \<noteq> (ACL_MASK, 0)}"
proof -
  have "updateLoop L f (if dflt then ACL_TYPE_DEFAULT else ACL_TYPE_ACCESS) op recalc aces a w = (Ret (), w')"
    using assms(2,3) by (simp add: updateACL_def)
  from updateLoop_spec [OF assms(1) this acl_lawsD(14) [OF assms(1,2)] assms(2) refl]
  show ?thesis by (simp add: visible_def)
qed

section \<open>An instance of the library\<close>

text \<open>ACLs as association lists from numbers to entries, and one file.\<close>

definition demo_update :: "nat \<Rightarrow> (AccessControlEntry \<Rightarrow> AccessControlEntry) \<Rightarrow> (nat \<times> AccessControlEntry) list \<Rightarrow>
    errno + (nat \<times> AccessControlEntry) list" where
  "demo_update h g a = (case map_of a h of None \<Rightarrow> Inl EINVAL | Some e \<Rightarrow> Inr (AList.update h (g e) a))"

definition demo_keys :: "(nat \<times> AccessControlEntry) list \<Rightarrow> bool" where
  "demo_keys a \<longleftrightarrow> distinct (map fst a) \<and> distinct (map (aceKey \<circ> snd) a)"

definition demo_acl_lib ::
  "((nat \<times> AccessControlEntry) list, nat, (nat \<times> AccessControlEntry) list) acl_lib" where
  "demo_acl_lib = \<lparr>getpwnam_lib = (\<lambda>_. None), getgrnam_lib = (\<lambda>_. None),
     acl_get_file_lib = (\<lambda>f ty w. if demo_keys w then Inr w else Inl EINVAL),
     acl_set_file_lib = (\<lambda>f ty a w. if demo_keys a then (Inr (), a) else (Inl EINVAL, w)),
     acl_delete_def_file_lib = (\<lambda>f w. (Inr (), w)),
     acl_get_entries_lib = (\<lambda>a. map (Inr \<circ> fst) a),
     acl_get_tag_type_lib = (\<lambda>a h. case map_of a h of None \<Rightarrow> Inl EINVAL | Some e \<Rightarrow> Inr (tag e)),
     acl_get_qualifier_lib = (\<lambda>a h. case map_of a h of None \<Rightarrow> Inl EINVAL | Some e \<Rightarrow> Inr (qual e)),
     acl_create_entry_lib = (\<lambda>a. let h = Suc (foldr max (map fst a) 0) in
        Inr (AList.update h \<lparr>tag = ACL_OTHER, qual = 0, perms = 0\<rparr> a, h)),
     acl_delete_entry_lib = (\<lambda>h a. Inr (AList.delete h a)),
     acl_set_tag_type_lib = (\<lambda>h t. demo_update h (\<lambda>e. e\<lparr>tag := t\<rparr>)),
     acl_set_qualifier_lib = (\<lambda>h q. demo_update h (\<lambda>e. e\<lparr>qual := q\<rparr>)),
     acl_get_permset_lib = (\<lambda>h a. Inr h),
     acl_clear_perms_lib = (\<lambda>h. demo_update h (\<lambda>e. e\<lparr>perms := 0\<rparr>)),
     acl_add_perm_lib = (\<lambda>h p. demo_update h (\<lambda>e. e\<lparr>perms := perms e OR p\<rparr>)),
     acl_set_permset_lib = (\<lambda>h h' a. Inr a),
     acl_calc_mask_lib = (\<lambda>a. Inr a),
     acl_valid_lib = demo_keys,
     acl_free_lib = None\<rparr>"

lemma demo_update_ent:
  "demo_update h g a = Inr b \<Longrightarrow> map_of a h = Some e \<Longrightarrow> map_of b = (map_of a)(h \<mapsto> g e)"
  by (auto simp: demo_update_def update_conv' split: option.splits)

lemma demo_keys_unique:
  assumes "demo_keys a"
  shows "uniqueKeys (map_of a)"
  unfolding uniqueKeys_def
proof (intro allI impI)
  fix h h' e e'
  assume "map_of a h = Some e" "map_of a h' = Some e'" and k: "aceKey e = aceKey e'"
  then have m: "(h, e) \<in> set a" "(h', e') \<in> set a" by (auto dest: map_of_SomeD)
  then have "(h, e) = (h', e')"
    using assms k inj_onD [of "aceKey \<circ> snd" "set a" "(h, e)" "(h', e')"] by (auto simp: demo_keys_def distinct_map)
  then show "h = h'" by simp
qed

lemma foldr_max: "h \<in> set xs \<Longrightarrow> h \<le> foldr max xs (0 :: nat)"
  by (induction xs) auto

lemma demo_acl_laws: "acl_laws demo_acl_lib map_of"
proof -
  have d: "\<forall>a h. Inr h \<in> set (acl_get_entries_lib demo_acl_lib a) \<longleftrightarrow> h \<in> dom (map_of a)"
    by (auto simp: demo_acl_lib_def dom_map_of_conv_image_fst)
  have c: "map_of a (Suc (foldr max (map fst a) 0)) = None" for a :: "(nat \<times> AccessControlEntry) list"
    using foldr_max [of _ "map fst a"] by (auto simp: map_of_eq_None_iff dest: Suc_le_lessD)
  show ?thesis
    unfolding acl_laws_def
    by (intro conjI d; (intro allI impI)?; auto simp: demo_acl_lib_def c update_conv' delete_conv' demo_keys_unique
        demo_update_ent Let_def split: option.splits if_splits)
qed

definition demo_acl :: "(nat \<times> AccessControlEntry) list" where
  "demo_acl = [(1, \<lparr>tag = ACL_USER_OBJ, qual = 0, perms = 6\<rparr>), (2, \<lparr>tag = ACL_USER, qual = 1000, perms = 4\<rparr>),
     (3, \<lparr>tag = ACL_GROUP_OBJ, qual = 0, perms = 4\<rparr>), (4, \<lparr>tag = ACL_OTHER, qual = 0, perms = 0\<rparr>)]"

definition demo_aces :: "AccessControlEntry list" where
  "demo_aces = [\<lparr>tag = ACL_USER, qual = 1000, perms = 7\<rparr>, \<lparr>tag = ACL_GROUP, qual = 5, perms = 4\<rparr>]"

theorem parseACL_show_witness:
  "parseACL demo_acl_lib (showACL True demo_aces) (\<lambda>_. hd demo_aces) True = Inr demo_aces"
  using parseACL_show [of demo_aces demo_acl_lib "\<lambda>_. hd demo_aces"]
  by (simp add: demo_aces_def ace_ok_def has_qualifier_def)

theorem updateACL_refines_witness:
  "\<exists>w b. updateACL demo_acl_lib ''f'' False demo_aces modifyEntries False demo_acl = (Ret (), w) \<and>
     acl_get_file_lib demo_acl_lib ''f'' ACL_TYPE_ACCESS w = Inr b \<and>
     aclEntries (map_of b) = fold (specStep modifyEntries) demo_aces (aclEntries (map_of demo_acl))"
proof -
  have "fst (updateACL demo_acl_lib ''f'' False demo_aces modifyEntries False demo_acl) = Ret ()" by code_simp
  then obtain w where w: "updateACL demo_acl_lib ''f'' False demo_aces modifyEntries False demo_acl = (Ret (), w)"
    by (cases "updateACL demo_acl_lib ''f'' False demo_aces modifyEntries False demo_acl") auto
  have "acl_get_file_lib demo_acl_lib ''f'' ACL_TYPE_ACCESS demo_acl = Inr demo_acl" by code_simp
  with updateACL_refines [OF demo_acl_laws _ w] w show ?thesis by auto
qed

end
