(* ===== verification/NsCapable.thy ===== *)
theory NsCapable
  imports Prelude
begin

text \<open>
  The program \<open>namespaces/ns_capable.c\<close>: might a process have capabilities in a user namespace?
  The kernel is a parameter \<open>K\<close>: which namespaces there are, their parents, owners and types.
  A namespace is identified by the device and the inode number that \<open>fstat\<close> reports. The state
  is the table of open file descriptors of the program and what it has printed.
\<close>

section \<open>State and system calls\<close>

type_synonym nsid = "nat \<times> nat"
type_synonym pid_t = int

record ns_kernel =
  open_ns :: "string \<Rightarrow> errno + nsid"
  new_fd :: "(int \<times> nsid) list \<Rightarrow> errno + int"
  ns_parent :: "nsid \<Rightarrow> errno + nsid"
  ns_userns :: "nsid \<Rightarrow> errno + nsid"
  ns_is_user :: "nsid \<Rightarrow> errno + bool"
  ns_owner :: "nsid \<Rightarrow> errno + 32 word"
  status_lines :: "pid_t \<Rightarrow> errno + string list"
  cap_text :: "pid_t \<Rightarrow> string option"

text \<open>The messages of the program.\<close>

datatype message = In_target pid_t | Not_in_ancestor pid_t | In_ancestor pid_t bool | All_capabilities
  | Only_its_sets | Capabilities string

record ns_state =
  fdt :: "(int \<times> nsid) list"
  printed :: "message list"

type_synonym 'a ns_act = "ns_state \<Rightarrow> 'a res \<times> ns_state"

text \<open>A descriptor for a namespace object; \<open>EBADF\<close> (9) for a descriptor that is not open.\<close>

abbreviation (input) EBADF :: errno where "EBADF \<equiv> 9"
abbreviation (input) EPERM :: errno where "EPERM \<equiv> 1"

definition fd_ns :: "int \<Rightarrow> ns_state \<Rightarrow> errno + nsid" where
  "fd_ns fd s = (case map_of (fdt s) fd of None \<Rightarrow> Inl EBADF | Some ns \<Rightarrow> Inr ns)"

definition install_fd :: "ns_kernel \<Rightarrow> nsid \<Rightarrow> ns_state \<Rightarrow> (errno + int) \<times> ns_state" where
  "install_fd K ns s =
     (case new_fd K (fdt s) of
        Inl e \<Rightarrow> (Inl e, s)
      | Inr fd \<Rightarrow> (Inr fd, s\<lparr>fdt := (fd, ns) # fdt s\<rparr>))"

definition sys_open :: "ns_kernel \<Rightarrow> string \<Rightarrow> ns_state \<Rightarrow> (errno + int) \<times> ns_state" where
  "sys_open K p s = (case open_ns K p of Inl e \<Rightarrow> (Inl e, s) | Inr ns \<Rightarrow> install_fd K ns s)"

definition sys_close :: "int \<Rightarrow> ns_state \<Rightarrow> (errno + unit) \<times> ns_state" where
  "sys_close fd s =
     (if map_of (fdt s) fd = None then (Inl EBADF, s)
      else (Inr (), s\<lparr>fdt := filter (\<lambda>(d, _). d \<noteq> fd) (fdt s)\<rparr>))"

text \<open>\<open>ioctl\<close> requests that give a descriptor for another namespace.\<close>

definition ioctl_ns :: "ns_kernel \<Rightarrow> (nsid \<Rightarrow> errno + nsid) \<Rightarrow> int \<Rightarrow> ns_state \<Rightarrow> (errno + int) \<times> ns_state" where
  "ioctl_ns K f fd s =
     (case fd_ns fd s of
        Inl e \<Rightarrow> (Inl e, s)
      | Inr ns \<Rightarrow> (case f ns of Inl e \<Rightarrow> (Inl e, s) | Inr ns' \<Rightarrow> install_fd K ns' s))"

text \<open>\<open>errExit\<close> on failure.\<close>

definition must :: "(ns_state \<Rightarrow> (errno + 'a) \<times> ns_state) \<Rightarrow> 'a ns_act" where
  "must m s = (case m s of (Inl e, s') \<Rightarrow> (Exit EXIT_FAILURE, s') | (Inr x, s') \<Rightarrow> (Ret x, s'))"

definition say :: "message \<Rightarrow> unit ns_act" where
  "say t s = (Ret (), s\<lparr>printed := printed s @ [t]\<rparr>)"

section \<open>The functions of the program\<close>

definition display_process_capabilities :: "ns_kernel \<Rightarrow> pid_t \<Rightarrow> unit ns_act" where
  "display_process_capabilities K pid s =
     (case cap_text K pid of
        None \<Rightarrow> (Exit EXIT_FAILURE, s)
      | Some t \<Rightarrow> say (Capabilities t) s)"

text \<open>
  \<open>sscanf(line, "Uid: %*d %d %*d %*d", &uid)\<close> on a line that begins with \<open>Uid:\<close>; \<open>None\<close>
  when the second number is missing, so that \<open>uid\<close> stays uninitialised.
\<close>

definition scanInt :: "string \<Rightarrow> (int \<times> string) option" where
  "scanInt s = (let (v, r, _) = strtol s 10 in if r = s then None else Some (long_to_int v, r))"

definition scanUid :: "string \<Rightarrow> int option" where
  "scanUid line =
     (case scanInt (drop 4 line) of
        None \<Rightarrow> None
      | Some (_, r) \<Rightarrow> (case scanInt r of None \<Rightarrow> None | Some (u, _) \<Rightarrow> Some u))"

fun euidLoop :: "string list \<Rightarrow> 32 word res" where
  "euidLoop [] = Exit EXIT_FAILURE"
| "euidLoop (line # ls) =
     (if take 4 line = ''Uid:''
      then (case scanUid line of None \<Rightarrow> Undef | Some u \<Rightarrow> Ret (word_of_int u))
      else euidLoop ls)"

definition euid_of_process :: "ns_kernel \<Rightarrow> pid_t \<Rightarrow> 32 word ns_act" where
  "euid_of_process K pid s =
     (case status_lines K pid of
        Inl e \<Rightarrow> (Exit EXIT_FAILURE, s)
      | Inr ls \<Rightarrow> (euidLoop ls, s))"

definition ns_equal :: "int \<Rightarrow> int \<Rightarrow> bool ns_act" where
  "ns_equal nsfd1 nsfd2 s =
     (case fd_ns nsfd1 s of
        Inl e \<Rightarrow> (Exit EXIT_FAILURE, s)
      | Inr a \<Rightarrow>
          (case fd_ns nsfd2 s of
             Inl e \<Rightarrow> (Exit EXIT_FAILURE, s)
           | Inr b \<Rightarrow> (Ret (fst a = fst b \<and> snd a = snd b), s)))"

definition ns_type :: "ns_kernel \<Rightarrow> int \<Rightarrow> bool ns_act" where
  "ns_type K ns_fd = must (\<lambda>s. (case fd_ns ns_fd s of Inl e \<Rightarrow> Inl e | Inr ns \<Rightarrow> ns_is_user K ns, s))"

definition owning_userns_of :: "ns_kernel \<Rightarrow> int \<Rightarrow> int ns_act" where
  "owning_userns_of K ns_fd = must (ioctl_ns K (ns_userns K) ns_fd)"

definition uid_of_userns :: "ns_kernel \<Rightarrow> int \<Rightarrow> 32 word ns_act" where
  "uid_of_userns K userns_fd =
     must (\<lambda>s. (case fd_ns userns_fd s of Inl e \<Rightarrow> Inl e | Inr ns \<Rightarrow> ns_owner K ns, s))"

definition closeUnless :: "bool \<Rightarrow> int \<Rightarrow> unit ns_act" where
  "closeUnless b fd = (if b then (\<lambda>s. (Ret (), s)) else must (sys_close fd))"

text \<open>
  The loop of \<open>is_ancestor_userns\<close>; \<open>None\<close> is out of fuel. The kernel allows at most 32 nested
  user namespaces.
\<close>

fun ancestorLoop :: "nat \<Rightarrow> ns_kernel \<Rightarrow> int \<Rightarrow> int \<Rightarrow> int \<Rightarrow> ns_state \<Rightarrow> (int res \<times> ns_state) option" where
  "ancestorLoop 0 K source_userns target_userns child s = None"
| "ancestorLoop (Suc fuel) K source_userns target_userns child s =
     (case ioctl_ns K (ns_parent K) child s of
        (Inl e, s1) \<Rightarrow>
          if e \<noteq> EPERM then Some (Exit EXIT_FAILURE, s1)
          else Some (seq_res (closeUnless (child = target_userns) child) (\<lambda>_ s. (Ret (-1), s)) s1)
      | (Inr parent, s1) \<Rightarrow>
          (case ns_equal parent source_userns s1 of
             (Ret True, s2) \<Rightarrow> Some (seq_res (must (sys_close parent)) (\<lambda>_ s. (Ret child, s)) s2)
           | (Ret False, s2) \<Rightarrow>
               (case closeUnless (child = target_userns) child s2 of
                  (Ret _, s3) \<Rightarrow> ancestorLoop fuel K source_userns target_userns parent s3
                | (_, s3) \<Rightarrow> Some (Exit EXIT_FAILURE, s3))
           | (_, s2) \<Rightarrow> Some (Exit EXIT_FAILURE, s2)))"

definition is_ancestor_userns :: "nat \<Rightarrow> ns_kernel \<Rightarrow> int \<Rightarrow> int \<Rightarrow> ns_state \<Rightarrow> (int res \<times> ns_state) option" where
  "is_ancestor_userns fuel K source_userns target_userns =
     ancestorLoop fuel K source_userns target_userns target_userns"

definition userns_from_pid :: "ns_kernel \<Rightarrow> pid_t \<Rightarrow> int ns_act" where
  "userns_from_pid K pid =
     must (sys_open K (fst (snprintf PATH_MAX (''/proc/'' @ show_int pid @ ''/ns/user''))))"

definition get_userns_from :: "ns_kernel \<Rightarrow> string \<Rightarrow> int ns_act" where
  "get_userns_from K arg =
     (if arg \<noteq> [] \<and> isdigitb 10 (hd arg) then userns_from_pid K (atoi arg)
      else seq_res (must (sys_open K arg)) (\<lambda>ns.
           seq_res (ns_type K ns) (\<lambda>user.
           if user then (\<lambda>s. (Ret ns, s))
           else seq_res (owning_userns_of K ns) (\<lambda>userns.
                seq_res (must (sys_close ns)) (\<lambda>_ s. (Ret userns, s))))))"

section \<open>main\<close>

definition closeBoth :: "int \<Rightarrow> int \<Rightarrow> unit ns_act" where
  "closeBoth target_userns source_userns =
     seq_res (must (sys_close target_userns)) (\<lambda>_.
     seq_res (must (sys_close source_userns)) (\<lambda>_ s. (Exit EXIT_SUCCESS, s)))"

text \<open>The branch for a source namespace that is an ancestor.\<close>

definition reportOwner :: "ns_kernel \<Rightarrow> pid_t \<Rightarrow> int \<Rightarrow> int \<Rightarrow> unit ns_act" where
  "reportOwner K pid child_userns target_userns =
     seq_res (euid_of_process K pid) (\<lambda>euid.
     seq_res (uid_of_userns K child_userns) (\<lambda>owner.
     let is_owner = (euid = owner) in
     seq_res (say (In_ancestor pid is_owner)) (\<lambda>_.
     seq_res (if is_owner then say All_capabilities
              else seq_res (say Only_its_sets) (\<lambda>_. display_process_capabilities K pid)) (\<lambda>_.
     closeUnless (child_userns = target_userns) child_userns))))"

text \<open>The two namespaces that \<open>main\<close> opens, and the comparison of them.\<close>

definition openBoth :: "ns_kernel \<Rightarrow> string list \<Rightarrow> (int \<times> int \<times> bool) ns_act" where
  "openBoth K argv = seq_res (userns_from_pid K (atoi (argv ! 1))) (\<lambda>src. seq_res (get_userns_from K (argv ! 2)) (\<lambda>tgt.
     seq_res (ns_equal src tgt) (\<lambda>eq s. (Ret (src, tgt, eq), s))))"

definition ancestorBranch :: "nat \<Rightarrow> ns_kernel \<Rightarrow> pid_t \<Rightarrow> int \<Rightarrow> int \<Rightarrow> ns_state \<Rightarrow> (unit res \<times> ns_state) option" where
  "ancestorBranch fuel K pid src tgt s =
     (case is_ancestor_userns fuel K src tgt s of
        None \<Rightarrow> None
      | Some (Ret child, s) \<Rightarrow>
          if child = -1 then Some (seq_res (say (Not_in_ancestor pid)) (\<lambda>_. closeBoth tgt src) s)
          else Some (seq_res (reportOwner K pid child tgt) (\<lambda>_. closeBoth tgt src) s)
      | Some (_, s) \<Rightarrow> Some (Exit EXIT_FAILURE, s))"

definition nsMain :: "nat \<Rightarrow> ns_kernel \<Rightarrow> string list \<Rightarrow> ns_state \<Rightarrow> (unit res \<times> ns_state) option" where
  "nsMain fuel K argv s0 =
     (if length argv \<noteq> 3 then Some (Exit EXIT_FAILURE, s0)
      else case openBoth K argv s0 of
        (Ret (source_userns, target_userns, eq), s) \<Rightarrow>
          let pid = atoi (argv ! 1) in
          if eq then
            Some (seq_res (say (In_target pid)) (\<lambda>_. seq_res (display_process_capabilities K pid) (\<lambda>_. closeBoth target_userns source_userns)) s)
          else ancestorBranch fuel K pid source_userns target_userns s
      | (r, s) \<Rightarrow> Some (Exit EXIT_FAILURE, s))"

section \<open>Ancestors\<close>

declare split_paired_Ex [simp del] split_paired_All [simp del]

definition up :: "ns_kernel \<Rightarrow> nsid \<Rightarrow> nsid \<Rightarrow> bool" where
  "up K a b \<longleftrightarrow> ns_parent K a = Inr b"

text \<open>
  \<open>c\<close> is on the way from \<open>n\<close> upward (possibly \<open>n\<close> itself) and is an immediate child of
  \<open>S\<close>.
\<close>

definition child_towards :: "ns_kernel \<Rightarrow> nsid \<Rightarrow> nsid \<Rightarrow> nsid \<Rightarrow> bool" where
  "child_towards K S n c \<longleftrightarrow> (up K)\<^sup>*\<^sup>* n c \<and> up K c S"

text \<open>
  What the program relies on: a new descriptor is not in use, a full table is
  not reported as \<open>EPERM\<close>, and parents are created before
  their children (\<open>rank\<close>, the depth of a namespace).
\<close>

definition kernel_ok :: "ns_kernel \<Rightarrow> (nsid \<Rightarrow> nat) \<Rightarrow> bool" where
  "kernel_ok K rank \<longleftrightarrow>
     (\<forall>t fd. new_fd K t = Inr fd \<longrightarrow> 0 \<le> fd \<and> fd \<notin> fst ` set t) \<and>
     (\<forall>t. new_fd K t \<noteq> Inl EPERM) \<and>
     (\<forall>a b. up K a b \<longrightarrow> rank b < rank a)"

lemma child_towards_step:
  assumes "up K n p" "p \<noteq> S"
  shows "child_towards K S n c \<longleftrightarrow> child_towards K S p c"
proof
  assume "child_towards K S n c"
  then have r: "(up K)\<^sup>*\<^sup>* n c" "up K c S" by (auto simp: child_towards_def)
  then have "n \<noteq> c" using assms by (auto simp: up_def)
  with r(1) obtain m where "up K n m" "(up K)\<^sup>*\<^sup>* m c" by (metis converse_rtranclpE)
  with assms r(2) show "child_towards K S p c" by (auto simp: child_towards_def up_def)
qed (use assms in \<open>auto simp: child_towards_def intro: converse_rtranclp_into_rtranclp\<close>)

lemma child_towards_root: "\<nexists>p. up K n p \<Longrightarrow> \<not> child_towards K S n c"
  unfolding child_towards_def by (metis converse_rtranclpE)

lemma kernel_ok_rank: "kernel_ok K rank \<Longrightarrow> up K a b \<Longrightarrow> rank b < rank a"
  unfolding kernel_ok_def by blast

lemma filter_fresh: "fd \<notin> fst ` set t \<Longrightarrow> filter (\<lambda>(d, _). d \<noteq> fd) t = t"
  by (induction t) auto

text \<open>
  The table during the loop: the descriptors of the program, and that of \<open>child\<close> unless it is
  the target's.
\<close>

definition loop_fdt :: "(int \<times> nsid) list \<Rightarrow> int \<Rightarrow> int \<Rightarrow> nsid \<Rightarrow> (int \<times> nsid) list" where
  "loop_fdt base tgt child n = (if child = tgt then base else (child, n) # base)"

definition loop_ok :: "(int \<times> nsid) list \<Rightarrow> int \<Rightarrow> int \<Rightarrow> nsid \<Rightarrow> bool" where
  "loop_ok base tgt child n \<longleftrightarrow> (if child = tgt then map_of base tgt = Some n else child \<notin> fst ` set base)"

lemma closeUnless_loop:
  assumes "fdt s = ps @ loop_fdt base tgt child n" "loop_ok base tgt child n" "child \<notin> fst ` set ps"
  shows "closeUnless (child = tgt) child s = (Ret (), s\<lparr>fdt := ps @ base\<rparr>)"
proof (cases "child = tgt")
  case True
  then have "s\<lparr>fdt := ps @ base\<rparr> = s" using assms(1) by (simp add: loop_fdt_def)
  then show ?thesis using True by (simp add: closeUnless_def)
next
  case False
  have e: "fdt s = ps @ (child, n) # base" "child \<notin> fst ` set base" using assms False by (simp_all add: loop_fdt_def loop_ok_def)
  have "map_of (fdt s) child \<noteq> None" by (simp add: e(1) map_of_eq_None_iff)
  moreover have "filter (\<lambda>(d, _). d \<noteq> child) (fdt s) = ps @ base"
    by (simp add: e(1) filter_fresh [OF assms(3)] filter_fresh [OF e(2)])
  ultimately show ?thesis using False by (simp add: closeUnless_def must_def sys_close_def)
qed

lemma ancestorLoop_spec:
  assumes k: "kernel_ok K rank" and S: "map_of base src = Some S" and f: "rank n < fuel"
    and t: "fdt s = loop_fdt base tgt child n" and l: "loop_ok base tgt child n" and c0: "0 \<le> child"
    and tg: "tgt \<in> fst ` set base"
  shows "\<exists>r t. ancestorLoop fuel K src tgt child s = Some (r, t) \<and> printed t = printed s \<and>
    (r = Exit EXIT_FAILURE \<or> r = Ret (-1) \<and> fdt t = base \<and> (\<forall>c. \<not> child_towards K S n c) \<or>
     (\<exists>d c. r = Ret d \<and> 0 \<le> d \<and> child_towards K S n c \<and> fdt t = loop_fdt base tgt d c \<and> loop_ok base tgt d c))"
  using f t l c0
proof (induction fuel arbitrary: s child n)
  case (Suc fuel)
  have n: "fd_ns child s = Inr n"
    using Suc.prems(2,3) by (auto simp: fd_ns_def loop_fdt_def loop_ok_def)
  show ?case
  proof (cases "ns_parent K n")
    case (Inl e)
    then have "ioctl_ns K (ns_parent K) child s = (Inl e, s)" using n by (simp add: ioctl_ns_def)
    moreover have "\<forall>c. \<not> child_towards K S n c" using Inl by (intro allI child_towards_root) (auto simp: up_def)
    moreover have "closeUnless (child = tgt) child s = (Ret (), s\<lparr>fdt := base\<rparr>)"
      using closeUnless_loop [of s "[]"] Suc.prems by simp
    ultimately show ?thesis by (auto simp: seq_res_def)
  next
    case (Inr p)
    then have u: "up K n p" by (simp add: up_def)
    show ?thesis
    proof (cases "new_fd K (fdt s)")
      case (Inl e)
      then have "ioctl_ns K (ns_parent K) child s = (Inl e, s)" using n Inr by (simp add: ioctl_ns_def install_fd_def)
      moreover have "e \<noteq> EPERM" using k Inl by (auto simp: kernel_ok_def)
      ultimately show ?thesis by simp
    next
      case fd: (Inr fd)
      let ?s1 = "s\<lparr>fdt := (fd, p) # fdt s\<rparr>"
      have fresh: "0 \<le> fd" "fd \<notin> fst ` set (fdt s)" using k fd by (auto simp: kernel_ok_def)
      then have fb: "fd \<notin> fst ` set base" "fd \<noteq> child" "fd \<noteq> src" "fd \<noteq> tgt"
        using Suc.prems(2,3) S tg
        by (auto simp: loop_fdt_def loop_ok_def split: if_splits dest!: map_of_SomeD) (force dest: map_of_SomeD)+
      have 1: "ioctl_ns K (ns_parent K) child s = (Inr fd, ?s1)"
        using n Inr fd by (simp add: ioctl_ns_def install_fd_def)
      have srcS: "fd_ns src ?s1 = Inr S"
        using S Suc.prems(2,3) fb by (auto simp: fd_ns_def loop_fdt_def loop_ok_def dest: map_of_SomeD)
          (force dest: map_of_SomeD)
      have 2: "ns_equal fd src ?s1 = (Ret (p = S), ?s1)"
        unfolding ns_equal_def srcS by (simp add: fd_ns_def prod_eq_iff)
      show ?thesis
      proof (cases "p = S")
        case True
        have "must (sys_close fd) ?s1 = (Ret (), s)"
          using filter_fresh [OF fresh(2)] by (simp add: must_def sys_close_def)
        moreover have "child_towards K S n n" using u True by (auto simp: child_towards_def)
        moreover have "ancestorLoop (Suc fuel) K src tgt child s = Some (Ret child, s)"
          using 1 2 True calculation(1) by (simp add: seq_res_def)
        ultimately show ?thesis using Suc.prems(2,3,4) by blast
      next
        case False
        let ?s3 = "s\<lparr>fdt := (fd, p) # base\<rparr>"
        have 3: "closeUnless (child = tgt) child ?s1 = (Ret (), ?s3)"
          using closeUnless_loop [of ?s1 "[(fd, p)]"] Suc.prems(2,3) fb by simp
        have "rank p < fuel" using kernel_ok_rank [OF k u] Suc.prems(1) by simp
        from Suc.IH [OF this, of ?s3 fd] fb fresh(1) obtain r t where
          rt: "ancestorLoop fuel K src tgt fd ?s3 = Some (r, t)" "printed t = printed ?s3"
            "r = Exit EXIT_FAILURE \<or> r = Ret (-1) \<and> fdt t = base \<and> (\<forall>c. \<not> child_towards K S p c) \<or>
            (\<exists>d c. r = Ret d \<and> 0 \<le> d \<and> child_towards K S p c \<and> fdt t = loop_fdt base tgt d c \<and> loop_ok base tgt d c)"
          by (auto simp: loop_fdt_def loop_ok_def)
        then show ?thesis using 1 2 3 False child_towards_step [OF u False] by auto
      qed
    qed
  qed
qed simp

section \<open>The whole program\<close>

text \<open>
  The namespaces that the arguments name, and what may then be printed about them: the source
  process is in the target namespace; or in an ancestor of it, and then it matters whether it
  owns the child of that ancestor on the way to the target; or neither.
\<close>

definition pid_ns :: "ns_kernel \<Rightarrow> pid_t \<Rightarrow> errno + nsid" where
  "pid_ns K pid = open_ns K (fst (snprintf PATH_MAX (''/proc/'' @ show_int pid @ ''/ns/user'')))"

definition target_ns :: "ns_kernel \<Rightarrow> string \<Rightarrow> errno + nsid" where
  "target_ns K arg =
     (if arg \<noteq> [] \<and> isdigitb 10 (hd arg) then pid_ns K (atoi arg)
      else case open_ns K arg of Inl e \<Rightarrow> Inl e
           | Inr ns \<Rightarrow> (case ns_is_user K ns of Inl e \<Rightarrow> Inl e
                        | Inr u \<Rightarrow> if u then Inr ns else ns_userns K ns))"

definition euid :: "ns_kernel \<Rightarrow> pid_t \<Rightarrow> 32 word res" where
  "euid K pid = (case status_lines K pid of Inl e \<Rightarrow> Exit EXIT_FAILURE | Inr ls \<Rightarrow> euidLoop ls)"

definition verdict :: "ns_kernel \<Rightarrow> pid_t \<Rightarrow> nsid \<Rightarrow> nsid \<Rightarrow> message list \<Rightarrow> bool" where
  "verdict K pid S T ms \<longleftrightarrow>
     (if S = T then \<exists>t. cap_text K pid = Some t \<and> ms = [In_target pid, Capabilities t]
      else if \<exists>c. child_towards K S T c then
        (\<exists>c u w. child_towards K S T c \<and> euid K pid = Ret u \<and> ns_owner K c = Inr w \<and>
           (if u = w then ms = [In_ancestor pid True, All_capabilities]
            else \<exists>t. cap_text K pid = Some t \<and> ms = [In_ancestor pid False, Only_its_sets, Capabilities t]))
      else ms = [Not_in_ancestor pid])"

lemma must_install:
  assumes "kernel_ok K rank" "must (\<lambda>s. install_fd K ns s) s = (Ret fd, t)"
  shows "t = s\<lparr>fdt := (fd, ns) # fdt s\<rparr>" "0 \<le> fd" "fd \<notin> fst ` set (fdt s)"
  using assms by (auto simp: must_def install_fd_def kernel_ok_def split: sum.splits prod.splits)

lemma userns_from_pid_Ret:
  assumes "kernel_ok K rank" "userns_from_pid K pid s = (Ret fd, t)"
  shows "\<exists>ns. pid_ns K pid = Inr ns \<and> t = s\<lparr>fdt := (fd, ns) # fdt s\<rparr> \<and> 0 \<le> fd \<and> fd \<notin> fst ` set (fdt s)"
  using assms must_install [OF assms(1), of _ s fd t]
  by (auto simp: userns_from_pid_def pid_ns_def must_def sys_open_def split: sum.splits)

lemma get_userns_from_Ret:
  assumes "kernel_ok K rank" "get_userns_from K arg s = (Ret fd, t)"
  shows "\<exists>ns. target_ns K arg = Inr ns \<and> t = s\<lparr>fdt := (fd, ns) # fdt s\<rparr> \<and> 0 \<le> fd \<and> fd \<notin> fst ` set (fdt s)"
proof (cases "arg \<noteq> [] \<and> isdigitb 10 (hd arg)")
  case True
  then show ?thesis using userns_from_pid_Ret [OF assms(1), of "atoi arg" s fd t] assms(2)
    by (simp add: get_userns_from_def target_ns_def)
next
  case False
  with assms(2) obtain ns0 s0 user s1 where o: "must (sys_open K arg) s = (Ret ns0, s0)"
    "ns_type K ns0 s0 = (Ret user, s1)"
    and rest: "(if user then (\<lambda>s. (Ret ns0, s)) else seq_res (owning_userns_of K ns0) (\<lambda>userns.
                seq_res (must (sys_close ns0)) (\<lambda>_ s. (Ret userns, s)))) s1 = (Ret fd, t)"
    by (auto simp: get_userns_from_def elim!: seq_res_RetE)
  from o(1) obtain N where N: "open_ns K arg = Inr N" "must (\<lambda>s. install_fd K N s) s = (Ret ns0, s0)"
    by (auto simp: must_def sys_open_def split: sum.splits)
  note i = must_install [OF assms(1) N(2)]
  have f0: "fd_ns ns0 s0 = Inr N" by (simp add: i(1) fd_ns_def)
  have u: "ns_is_user K N = Inr user" "s1 = s0" using o(2) f0 by (auto simp: ns_type_def must_def split: sum.splits)
  show ?thesis
  proof (cases user)
    case True
    then show ?thesis using rest u N i False by (auto simp: target_ns_def)
  next
    case nu: False
    with rest obtain s2 s3 where s2: "owning_userns_of K ns0 s1 = (Ret fd, s2)" "must (sys_close ns0) s2 = (Ret (), s3)" "t = s3"
      by (auto elim!: seq_res_RetE)
    from s2(1) f0 u(2) obtain M where M: "ns_userns K N = Inr M" "must (\<lambda>s. install_fd K M s) s0 = (Ret fd, s2)"
      by (auto simp: owning_userns_of_def must_def ioctl_ns_def split: sum.splits)
    note j = must_install [OF assms(1) M(2)]
    have "filter (\<lambda>(d, _). d \<noteq> ns0) (fdt s2) = (fd, M) # fdt s"
      using j(3) i(1) filter_fresh [OF i(3)] by (auto simp: j(1))
    then have "t = s\<lparr>fdt := (fd, M) # fdt s\<rparr>"
      using s2(2,3) by (auto simp: must_def sys_close_def j(1) i(1) split: if_splits)
    then show ?thesis using M(1) N(1) u(1) nu False j i by (auto simp: target_ns_def)
  qed
qed

lemma closeBoth_spec:
  assumes "fdt s = (tgt, T) # (src, S) # b" "tgt \<noteq> src" "tgt \<notin> fst ` set b" "src \<notin> fst ` set b"
  shows "closeBoth tgt src s = (Exit EXIT_SUCCESS, s\<lparr>fdt := b\<rparr>)"
  using assms filter_fresh [OF assms(3)] filter_fresh [OF assms(4)]
  by (auto simp: closeBoth_def seq_res_def must_def sys_close_def)

lemma reportOwner_spec:
  assumes "reportOwner K pid d tgt s = (r, t)" "fdt s = loop_fdt base tgt d c" "loop_ok base tgt d c"
  shows "r = Ret () \<and> fdt t = base \<and> (\<exists>u w ms. euid K pid = Ret u \<and> ns_owner K c = Inr w \<and>
      (if u = w then ms = [In_ancestor pid True, All_capabilities]
       else \<exists>x. cap_text K pid = Some x \<and> ms = [In_ancestor pid False, Only_its_sets, Capabilities x]) \<and>
      printed t = printed s @ ms) \<or> (\<forall>x. r \<noteq> Ret x) \<and> r \<noteq> Exit EXIT_SUCCESS"
proof -
  have c: "fd_ns d s = Inr c" using assms(2,3) by (auto simp: fd_ns_def loop_fdt_def loop_ok_def)
  have cl: "closeUnless (d = tgt) d s' = (Ret (), s'\<lparr>fdt := base\<rparr>)" if "fdt s' = fdt s" for s'
    using closeUnless_loop [of s' "[]" base tgt d c] that assms(2,3) by simp
  have e: "euid_of_process K pid s = (euid K pid, s)" by (simp add: euid_of_process_def euid_def split: sum.splits)
  have ne: "euid K pid \<noteq> Exit EXIT_SUCCESS"
  proof -
    have "euidLoop ls \<noteq> Exit EXIT_SUCCESS" for ls by (induction ls) (auto split: option.splits)
    then show ?thesis by (auto simp: euid_def split: sum.splits)
  qed
  show ?thesis
    using assms(1) c cl e ne
    by (auto simp: reportOwner_def seq_res_def uid_of_userns_def must_def say_def display_process_capabilities_def Let_def
        split: res.splits sum.splits option.splits if_splits)
qed

text \<open>The branch of \<open>main\<close> for different namespaces.\<close>

lemma ancestorBranch_spec:
  assumes k: "kernel_ok K rank" and S: "map_of base src = Some S" and f: "rank T < fuel"
    and b: "fdt s = base" "loop_ok base tgt tgt T" "0 \<le> tgt"
    and cb: "\<And>s'. fdt s' = base \<Longrightarrow> closeBoth tgt src s' = (Exit EXIT_SUCCESS, s'\<lparr>fdt := rest\<rparr>)"
    and "S \<noteq> T"
  shows "\<exists>r t. ancestorBranch fuel K pid src tgt s = Some (r, t) \<and>
    (r = Exit EXIT_SUCCESS \<longrightarrow> fdt t = rest \<and> (\<exists>ms. verdict K pid S T ms \<and> printed t = printed s @ ms))"
proof -
  have tg: "tgt \<in> fst ` set base" using b(2) by (auto simp: loop_ok_def dest!: map_of_SomeD intro: rev_image_eqI)
  have f0: "fdt s = loop_fdt base tgt tgt T" using b(1) by (simp add: loop_fdt_def)
  obtain r t where rt: "is_ancestor_userns fuel K src tgt s = Some (r, t)" "printed t = printed s"
    and cases: "r = Exit EXIT_FAILURE \<or> r = Ret (-1) \<and> fdt t = base \<and> (\<forall>c. \<not> child_towards K S T c) \<or>
     (\<exists>d c. r = Ret d \<and> 0 \<le> d \<and> child_towards K S T c \<and> fdt t = loop_fdt base tgt d c \<and> loop_ok base tgt d c)"
    using ancestorLoop_spec [OF k S f f0 b(2,3) tg] unfolding is_ancestor_userns_def by blast
  from cases consider "r = Exit EXIT_FAILURE" | "r = Ret (-1)" "fdt t = base" "\<forall>c. \<not> child_towards K S T c"
    | d c where "r = Ret d" "0 \<le> d" "child_towards K S T c" "fdt t = loop_fdt base tgt d c" "loop_ok base tgt d c" by blast
  then show ?thesis
  proof cases
    case 1
    then show ?thesis using rt(1) by (simp add: ancestorBranch_def)
  next
    case 2
    then show ?thesis using rt \<open>S \<noteq> T\<close> cb by (simp add: ancestorBranch_def seq_res_def say_def verdict_def)
  next
    case (3 d c)
    obtain r' t' where ro: "reportOwner K pid d tgt t = (r', t')" by (cases "reportOwner K pid d tgt t")
    have br: "ancestorBranch fuel K pid src tgt s = Some (seq_res (reportOwner K pid d tgt) (\<lambda>_. closeBoth tgt src) t)"
      using rt(1) 3(1,2) by (simp add: ancestorBranch_def)
    from reportOwner_spec [OF ro 3(4,5)] show ?thesis
    proof
      assume "r' = Ret () \<and> fdt t' = base \<and> (\<exists>u w ms. euid K pid = Ret u \<and> ns_owner K c = Inr w \<and>
          (if u = w then ms = [In_ancestor pid True, All_capabilities]
           else \<exists>x. cap_text K pid = Some x \<and> ms = [In_ancestor pid False, Only_its_sets, Capabilities x]) \<and>
          printed t' = printed t @ ms)"
      then obtain u w ms where *: "r' = Ret ()" "fdt t' = base" "euid K pid = Ret u" "ns_owner K c = Inr w"
        "if u = w then ms = [In_ancestor pid True, All_capabilities]
           else \<exists>x. cap_text K pid = Some x \<and> ms = [In_ancestor pid False, Only_its_sets, Capabilities x]"
        "printed t' = printed t @ ms" by blast
      have "verdict K pid S T ms" 
        unfolding verdict_def if_not_P [OF \<open>S \<noteq> T\<close>] using 3(3) *(3,4,5) by (subst if_P) blast+
      moreover have "ancestorBranch fuel K pid src tgt s = Some (Exit EXIT_SUCCESS, t'\<lparr>fdt := rest\<rparr>)"
        using br ro *(1) cb [OF *(2)] by (simp add: seq_res_def)
      ultimately show ?thesis using *(6) rt(2) by auto
    next
      assume "(\<forall>x. r' \<noteq> Ret x) \<and> r' \<noteq> Exit EXIT_SUCCESS"
      then show ?thesis using br ro by (cases r') (auto simp: seq_res_def)
    qed
  qed
qed

lemma openBoth_Ret:
  assumes k: "kernel_ok K rank" and o: "openBoth K argv s0 = (Ret (src, tgt, eq), s)"
  obtains S T where "pid_ns K (atoi (argv ! 1)) = Inr S" "target_ns K (argv ! 2) = Inr T" "0 \<le> tgt"
    "fdt s = (tgt, T) # (src, S) # fdt s0" "tgt \<noteq> src" "tgt \<notin> fst ` set (fdt s0)" "src \<notin> fst ` set (fdt s0)"
    "eq = (S = T)" "printed s = printed s0"
proof -
  from o obtain s1 where a: "userns_from_pid K (atoi (argv ! 1)) s0 = (Ret src, s1)" "get_userns_from K (argv ! 2) s1 = (Ret tgt, s)"
    and eq: "ns_equal src tgt s = (Ret eq, s)"
    by (auto elim!: seq_res_RetE simp: openBoth_def ns_equal_def split: sum.splits)
  obtain S where S: "pid_ns K (atoi (argv ! 1)) = Inr S" "s1 = s0\<lparr>fdt := (src, S) # fdt s0\<rparr>" "0 \<le> src" "src \<notin> fst ` set (fdt s0)"
    using userns_from_pid_Ret [OF k a(1)] by blast
  obtain T where T: "target_ns K (argv ! 2) = Inr T" "s = s1\<lparr>fdt := (tgt, T) # fdt s1\<rparr>" "0 \<le> tgt" "tgt \<notin> fst ` set (fdt s1)"
    using get_userns_from_Ret [OF k a(2)] by blast
  have f: "fdt s = (tgt, T) # (src, S) # fdt s0" "tgt \<noteq> src" "tgt \<notin> fst ` set (fdt s0)" using S T by auto
  moreover have "eq = (S = T)" using eq f by (auto simp: ns_equal_def fd_ns_def prod_eq_iff)
  ultimately show ?thesis using that S T by simp
qed

text \<open>
  C8. The program ends, for every kernel in which user namespaces are nested to a bounded
  depth. When it ends successfully, every descriptor that it opened has been closed again,
  exactly once, and what it printed is right: whether the process is a member of the target
  namespace or of an ancestor of it, and in the latter case whether its effective user ID owns
  the child of that ancestor that lies on the path to the target.
\<close>

theorem ns_capable_correct:
  assumes k: "kernel_ok K rank" and "\<forall>n. rank n < fuel"
  shows "\<exists>r t. nsMain fuel K argv s0 = Some (r, t) \<and>
    (r = Exit EXIT_SUCCESS \<longrightarrow> fdt t = fdt s0 \<and>
      (\<exists>S T ms. pid_ns K (atoi (argv ! 1)) = Inr S \<and> target_ns K (argv ! 2) = Inr T \<and>
         verdict K (atoi (argv ! 1)) S T ms \<and> printed t = printed s0 @ ms))"
proof (cases "length argv = 3 \<and> (\<exists>x s. openBoth K argv s0 = (Ret x, s))")
  case False
  then show ?thesis
    by (cases "openBoth K argv s0"; cases "fst (openBoth K argv s0)") (auto simp: nsMain_def Let_def split: prod.splits)
next
  case True
  then obtain src tgt eq s where o: "openBoth K argv s0 = (Ret (src, tgt, eq), s)" and len: "length argv = 3" by auto
  let ?pid = "atoi (argv ! 1)"
  from openBoth_Ret [OF k o] obtain S T where
    ST: "pid_ns K ?pid = Inr S" "target_ns K (argv ! 2) = Inr T" "0 \<le> tgt" and
    base: "fdt s = (tgt, T) # (src, S) # fdt s0" "tgt \<noteq> src" "tgt \<notin> fst ` set (fdt s0)" "src \<notin> fst ` set (fdt s0)" and
    eq: "eq = (S = T)" and pr: "printed s = printed s0" by blast
  have cb: "closeBoth tgt src s' = (Exit EXIT_SUCCESS, s'\<lparr>fdt := fdt s0\<rparr>)" if "fdt s' = fdt s" for s'
    using closeBoth_spec [OF that [unfolded base(1)] base(2-4)] .
  show ?thesis
  proof (cases "S = T")
    case True
    show ?thesis
    proof (cases "cap_text K ?pid")
      case None
      then show ?thesis using len o eq True by (simp add: nsMain_def Let_def seq_res_def say_def display_process_capabilities_def)
    next
      case (Some x)
      then have "nsMain fuel K argv s0 = Some (Exit EXIT_SUCCESS, s\<lparr>printed := printed s0 @ [In_target ?pid, Capabilities x], fdt := fdt s0\<rparr>)"
        using len o eq True pr cb by (simp add: nsMain_def Let_def seq_res_def say_def display_process_capabilities_def)
      then show ?thesis using ST True Some by (auto simp: verdict_def)
    qed
  next
    case False
    have "map_of (fdt s) src = Some S" "loop_ok (fdt s) tgt tgt T" using base(1,2) by (simp_all add: loop_ok_def)
    from ancestorBranch_spec [OF k this(1) _ refl this(2) ST(3) cb, of fuel ?pid] assms(2) False
    show ?thesis using ST pr len o eq by (fastforce simp: nsMain_def Let_def verdict_def)
  qed
qed

section \<open>An example\<close>

text \<open>
  The initial namespace (0, 1), its child (0, 2) owned by user 1000, and a child (0, 3) of that.
  Process 1 is in the initial namespace with effective user ID 1000, process 7 in (0, 3).
\<close>

definition demo_kernel :: ns_kernel where
  "demo_kernel = \<lparr>
     open_ns = (\<lambda>p. if p = ''/proc/1/ns/user'' then Inr (0, 1) else if p = ''/proc/7/ns/user'' then Inr (0, 3)
                    else Inl ENOENT),
     new_fd = (\<lambda>t. Inr (foldr max (map fst t) 2 + 1)),
     ns_parent = (\<lambda>n. if n = (0, 3) then Inr (0, 2) else if n = (0, 2) then Inr (0, 1) else Inl EPERM),
     ns_userns = (\<lambda>n. Inl EINVAL), ns_is_user = (\<lambda>n. Inr True), ns_owner = (\<lambda>n. Inr 1000),
     status_lines = (\<lambda>p. Inr [''Name: x'', ''Uid: 0 1000 0 0'']), cap_text = (\<lambda>p. Some ''='')\<rparr>"

lemma demo_kernel_ok: "kernel_ok demo_kernel (\<lambda>n. if n = (0, 3) then 2 else if n = (0, 2) then 1 else 0)"
proof -
  have m: "x \<in> set xs \<Longrightarrow> x \<le> foldr max xs (2 :: int)" "2 \<le> foldr max xs (2 :: int)" for x xs
    by (induction xs) auto
  have "foldr max (map fst t) 2 + 1 \<notin> fst ` set t" "0 \<le> foldr max (map fst t) (2 :: int) + 1"
    for t :: "(int \<times> nsid) list"
    using m(1) [of _ "map fst t"] m(2) [of "map fst t"] by force+
  then show ?thesis
    unfolding kernel_ok_def by (intro conjI allI impI) (auto simp: demo_kernel_def up_def split: if_splits)
qed

theorem ns_capable_correct_witness:
  "\<exists>t. nsMain 3 demo_kernel [''ns_capable'', ''1'', ''7''] \<lparr>fdt = [], printed = []\<rparr> = Some (Exit EXIT_SUCCESS, t) \<and>
     fdt t = [] \<and> (\<exists>ms. verdict demo_kernel 1 (0, 1) (0, 3) ms \<and> printed t = ms)"
proof -
  let ?m = "nsMain 3 demo_kernel [''ns_capable'', ''1'', ''7''] \<lparr>fdt = [], printed = []\<rparr>"
  have "map_option fst ?m = Some (Exit EXIT_SUCCESS)" by code_simp
  then obtain t where t: "?m = Some (Exit EXIT_SUCCESS, t)" by (cases ?m) auto
  have "atoi ''1'' = 1" "pid_ns demo_kernel 1 = Inr (0, 1)" "target_ns demo_kernel ''7'' = Inr (0, 3)" by code_simp+
  with ns_capable_correct [OF demo_kernel_ok, of 3 "[''ns_capable'', ''1'', ''7'']" "\<lparr>fdt = [], printed = []\<rparr>"] t
  show ?thesis by auto
qed

declare split_paired_Ex [simp] split_paired_All [simp]

end
