(* ===== verification/Userns.thy ===== *)
theory Userns
  imports Machines
begin

unbundle bit_operations_syntax

text \<open>
  A command in new namespaces: \<open>namespaces/userns_functions.c\<close>, \<open>namespaces/userns_child_exec.c\<close>
  and \<open>cap/cap_functions.c\<close>. The kernel, \<open>libcap\<close> and the files under \<open>/proc\<close> are parameters:
  a record of what they answer. The last part has the parent and the child as two interleaved
  processes that are synchronised by the end of file on a pipe.
\<close>

section \<open>Maps of user and group IDs\<close>

abbreviation (input) NL :: char where "NL \<equiv> CHR 0x0A"

text \<open>
  The files of \<open>/proc\<close>: whether \<open>open\<close> fails, what \<open>write\<close> returns (-1 for an error), and the
  IDs of the caller. The log has the writes that were made, in order.
\<close>

record map_kernel =
  open_map :: "string \<Rightarrow> errno option"
  write_map :: "string \<Rightarrow> string \<Rightarrow> int"
  my_uid :: int
  my_gid :: int

type_synonym map_log = "(string \<times> string) list"

definition update_map :: "map_kernel \<Rightarrow> string \<Rightarrow> string \<Rightarrow> map_log \<Rightarrow> int \<times> map_log" where
  "update_map K mapping map_file log =
     (let mapping = map (\<lambda>c. if c = CHR '','' then NL else c) mapping in
      case open_map K map_file of
        Some e \<Rightarrow> (-1, log)
      | None \<Rightarrow> (if write_map K map_file mapping \<noteq> int (length mapping) then -1 else 0, log @ [(map_file, mapping)]))"

definition procFile :: "int \<Rightarrow> string \<Rightarrow> string" where
  "procFile pid name = fst (snprintf PATH_MAX (''/proc/'' @ show_int pid @ ''/'' @ name))"

definition proc_setgroups_write :: "map_kernel \<Rightarrow> int \<Rightarrow> string \<Rightarrow> map_log \<Rightarrow> int \<times> map_log" where
  "proc_setgroups_write K child_pid str log =
     (let setgroups_path = procFile child_pid ''setgroups'' in
      case open_map K setgroups_path of
        Some e \<Rightarrow> (if e = ENOENT then 0 else -1, log)
      | None \<Rightarrow> (if write_map K setgroups_path str = -1 then -1 else 0, log @ [(setgroups_path, str)]))"

section \<open>Command line\<close>

abbreviation (input) CLONE_NEWNS :: "32 word" where "CLONE_NEWNS \<equiv> 0x00020000"
abbreviation (input) CLONE_NEWCGROUP :: "32 word" where "CLONE_NEWCGROUP \<equiv> 0x02000000"
abbreviation (input) CLONE_NEWUTS :: "32 word" where "CLONE_NEWUTS \<equiv> 0x04000000"
abbreviation (input) CLONE_NEWIPC :: "32 word" where "CLONE_NEWIPC \<equiv> 0x08000000"
abbreviation (input) CLONE_NEWUSER :: "32 word" where "CLONE_NEWUSER \<equiv> 0x10000000"
abbreviation (input) CLONE_NEWPID :: "32 word" where "CLONE_NEWPID \<equiv> 0x20000000"
abbreviation (input) CLONE_NEWNET :: "32 word" where "CLONE_NEWNET \<equiv> 0x40000000"
abbreviation (input) MAX_OPT :: nat where "MAX_OPT \<equiv> 100"

text \<open>\<open>opt_list\<close> has the used elements of the array, so \<open>opt_cnt\<close> is its length.\<close>

record cmd_options =
  cmd_argv :: "string list"
  flags :: "32 word"
  create_root_mappings :: bool
  deny_setgroups :: bool
  verbose :: bool
  uid_map :: "string option"
  gid_map :: "string option"
  projid_map :: "string option"
  opt_list :: "(char \<times> string option) list"

definition flagOf :: "char \<Rightarrow> 32 word option" where
  "flagOf c =
     (if c = CHR ''C'' then Some CLONE_NEWCGROUP else if c = CHR ''i'' then Some CLONE_NEWIPC
      else if c = CHR ''m'' then Some CLONE_NEWNS else if c = CHR ''n'' then Some CLONE_NEWNET
      else if c = CHR ''p'' then Some CLONE_NEWPID else if c = CHR ''u'' then Some CLONE_NEWUTS
      else if c = CHR ''U'' then Some CLONE_NEWUSER else None)"

text \<open>
  The \<open>switch\<close> for one option that \<open>getopt\<close> reports, with its argument if it takes one (\<open>?\<close> is
  reported for a bad option).
\<close>

definition parseOption :: "char \<Rightarrow> string option \<Rightarrow> cmd_options \<Rightarrow> cmd_options res" where
  "parseOption c optarg o' =
     (case flagOf c of
        Some f \<Rightarrow> Ret (o'\<lparr>flags := flags o' OR f\<rparr>)
      | None \<Rightarrow>
          if c = CHR ''M'' then Ret (o'\<lparr>uid_map := optarg\<rparr>)
          else if c = CHR ''G'' then Ret (o'\<lparr>gid_map := optarg\<rparr>)
          else if c = CHR ''P'' then Ret (o'\<lparr>projid_map := optarg\<rparr>)
          else if c = CHR ''r'' then Ret (o'\<lparr>create_root_mappings := True\<rparr>)
          else if c = CHR ''D'' then Ret (o'\<lparr>deny_setgroups := False\<rparr>)
          else if c = CHR ''v'' then Ret (o'\<lparr>verbose := True\<rparr>)
          else if c \<in> set ''IAbsdxXw'' then
            if length (opt_list o') \<ge> MAX_OPT then Exit EXIT_FAILURE
            else Ret (o'\<lparr>opt_list := opt_list o' @ [(c, if c \<in> set ''sSxXwb'' then optarg else None)]\<rparr>)
          else Exit EXIT_FAILURE)"

fun parseCmdOptions :: "(char \<times> string option) list \<Rightarrow> cmd_options \<Rightarrow> cmd_options res" where
  "parseCmdOptions [] o' = Ret o'"
| "parseCmdOptions ((c, optarg) # os) o' =
     (case parseOption c optarg o' of Ret o'' \<Rightarrow> parseCmdOptions os o'' | r \<Rightarrow> r)"

definition parse_command_options :: "(char \<times> string option) list \<Rightarrow> string list \<Rightarrow> cmd_options res" where
  "parse_command_options opts args =
     (case parseCmdOptions opts \<lparr>cmd_argv = [], flags = 0, create_root_mappings = False, deny_setgroups = True,
             verbose = False, uid_map = None, gid_map = None, projid_map = None, opt_list = []\<rparr> of
        Ret o' \<Rightarrow>
          if ((uid_map o' \<noteq> None \<or> gid_map o' \<noteq> None \<or> projid_map o' \<noteq> None \<or> create_root_mappings o') \<and>
                flags o' AND CLONE_NEWUSER = 0) \<or>
             (create_root_mappings o' \<and> (uid_map o' \<noteq> None \<or> gid_map o' \<noteq> None))
          then Exit EXIT_FAILURE
          else if args = [] then Exit EXIT_FAILURE
          else Ret (o'\<lparr>cmd_argv := args\<rparr>)
      | r \<Rightarrow> r)"

section \<open>update_child_maps\<close>

abbreviation (input) MAP_BUF_SIZE :: nat where "MAP_BUF_SIZE \<equiv> 100"

definition rootMap :: "int \<Rightarrow> string" where
  "rootMap i = fst (snprintf MAP_BUF_SIZE (''0 '' @ show_int i @ '' 1''))"

text \<open>A call that returns -1 ends the parent by \<open>errExit\<close>.\<close>

definition check :: "(map_log \<Rightarrow> int \<times> map_log) \<Rightarrow> map_log \<Rightarrow> unit res \<times> map_log" where
  "check f log = (case f log of (r, log') \<Rightarrow> (if r = -1 then Exit EXIT_FAILURE else Ret (), log'))"

definition uidPart :: "map_kernel \<Rightarrow> cmd_options \<Rightarrow> int \<Rightarrow> map_log \<Rightarrow> unit res \<times> map_log" where
  "uidPart K opts pid =
     (if uid_map opts \<noteq> None \<or> create_root_mappings opts
      then check (update_map K (if create_root_mappings opts then rootMap (my_uid K) else the (uid_map opts))
                    (procFile pid ''uid_map''))
      else (\<lambda>log. (Ret (), log)))"

definition gidPart :: "map_kernel \<Rightarrow> cmd_options \<Rightarrow> int \<Rightarrow> map_log \<Rightarrow> unit res \<times> map_log" where
  "gidPart K opts pid =
     (if gid_map opts \<noteq> None \<or> create_root_mappings opts
      then seq_res
             (if deny_setgroups opts then check (proc_setgroups_write K pid ''deny'') else (\<lambda>log. (Ret (), log)))
             (\<lambda>_. check (update_map K (if create_root_mappings opts then rootMap (my_gid K) else the (gid_map opts))
                          (procFile pid ''gid_map'')))
      else (\<lambda>log. (Ret (), log)))"

definition projidPart :: "map_kernel \<Rightarrow> cmd_options \<Rightarrow> int \<Rightarrow> map_log \<Rightarrow> unit res \<times> map_log" where
  "projidPart K opts pid =
     (case projid_map opts of
        None \<Rightarrow> (\<lambda>log. (Ret (), log))
      | Some m \<Rightarrow> check (update_map K m (procFile pid ''projid_map'')))"

definition update_child_maps :: "map_kernel \<Rightarrow> cmd_options \<Rightarrow> int \<Rightarrow> map_log \<Rightarrow> unit res \<times> map_log" where
  "update_child_maps K opts pid =
     seq_res (uidPart K opts pid) (\<lambda>_. seq_res (gidPart K opts pid) (\<lambda>_. projidPart K opts pid))"

section \<open>Capabilities and credentials of the child\<close>

datatype cap_flag = CAP_EFFECTIVE | CAP_PERMITTED | CAP_INHERITABLE

datatype prctl_op = PR_CAPBSET_DROP nat | PR_CAP_AMBIENT_RAISE nat | PR_CAP_AMBIENT_LOWER nat
  | PR_SET_SECUREBITS "32 word"

text \<open>
  The interface of \<open>libcap\<close> and the kernel: \<open>'c\<close> are capability sets in memory, \<open>'k\<close> the state
  of the process. \<open>cap_last\<close> is \<open>CAP_LAST_CAP\<close>.
\<close>

record ('c, 'k) cap_lib =
  cap_last :: nat
  cap_get_proc :: "'k \<Rightarrow> 'c option"
  cap_set_flag :: "'c \<Rightarrow> cap_flag \<Rightarrow> nat \<Rightarrow> bool \<Rightarrow> 'c option"
  cap_set_proc :: "'c \<Rightarrow> 'k \<Rightarrow> bool \<times> 'k"
  cap_free_ok :: bool
  cap_from_name :: "string \<Rightarrow> nat option"
  cap_from_text :: "string \<Rightarrow> 'c option"
  cap_to_text :: "'c \<Rightarrow> string option"
  prctl_sys :: "prctl_op \<Rightarrow> 'k \<Rightarrow> bool \<times> 'k"
  setresuid_sys :: "int \<Rightarrow> int \<Rightarrow> int \<Rightarrow> 'k \<Rightarrow> bool \<times> 'k"
  print_sys :: "string \<Rightarrow> 'k \<Rightarrow> 'k"
  eids :: "'k \<Rightarrow> int \<times> int"

text \<open>\<open>modifyCapSetting\<close>: whether it returns 0.\<close>

definition modifyCapSetting :: "('c, 'k) cap_lib \<Rightarrow> cap_flag \<Rightarrow> nat \<Rightarrow> bool \<Rightarrow> 'k \<Rightarrow> bool \<times> 'k" where
  "modifyCapSetting C flag capability setting k =
     (case cap_get_proc C k of
        None \<Rightarrow> (False, k)
      | Some caps \<Rightarrow>
          (case cap_set_flag C caps flag capability setting of
             None \<Rightarrow> (False, k)
           | Some caps' \<Rightarrow>
               (case cap_set_proc C caps' k of
                  (ok, k') \<Rightarrow> (ok \<and> cap_free_ok C, k'))))"

definition display_creds_and_caps :: "('c, 'k) cap_lib \<Rightarrow> string \<Rightarrow> 'k \<Rightarrow> unit res \<times> 'k" where
  "display_creds_and_caps C str k =
     (let k = print_sys C (str @ ''eUID = '' @ show_int (fst (eids C k)) @ ''; eGID = '' @
                           show_int (snd (eids C k)) @ '';  '') k
      in case cap_get_proc C k of
           None \<Rightarrow> (Exit EXIT_FAILURE, k)
         | Some caps \<Rightarrow>
             (case cap_to_text C caps of
                None \<Rightarrow> (Exit EXIT_FAILURE, k)
              | Some t \<Rightarrow> (Ret (), print_sys C (''capabilities: '' @ t @ [NL]) k)))"

text \<open>Errors are ignored: as many capabilities as possible are raised.\<close>

definition raiseCap :: "('c, 'k) cap_lib \<Rightarrow> bool \<Rightarrow> nat \<Rightarrow> 'k \<Rightarrow> 'k" where
  "raiseCap C doAmbient cap k =
     (let k = snd (modifyCapSetting C CAP_INHERITABLE cap True k)
      in if doAmbient then snd (prctl_sys C (PR_CAP_AMBIENT_RAISE cap) k) else k)"

definition raiseInheritableAndAmbientCaps :: "('c, 'k) cap_lib \<Rightarrow> bool \<Rightarrow> 'k \<Rightarrow> 'k" where
  "raiseInheritableAndAmbientCaps C doAmbient k = fold (raiseCap C doAmbient) [0..<cap_last C + 1] k"

text \<open>One letter of the argument of \<open>-X\<close>; \<open>raise\<close> says whether the operator is \<open>+\<close>.\<close>

definition capLetter :: "('c, 'k) cap_lib \<Rightarrow> bool \<Rightarrow> nat \<Rightarrow> char \<Rightarrow> 'k \<Rightarrow> unit res \<times> 'k" where
  "capLetter C raise cap c k =
     (let exit_on_error = (\<lambda>(ok, k). (if ok then Ret () else Exit EXIT_FAILURE, k)) in
      if c = CHR ''p'' \<or> c = CHR ''i'' \<or> c = CHR ''e'' then
        exit_on_error (modifyCapSetting C
          (if c = CHR ''p'' then CAP_PERMITTED else if c = CHR ''e'' then CAP_EFFECTIVE else CAP_INHERITABLE)
          cap raise k)
      else if c = CHR ''b'' then
        if raise then (Exit EXIT_FAILURE, k) else exit_on_error (prctl_sys C (PR_CAPBSET_DROP cap) k)
      else if c = CHR ''a'' then
        exit_on_error (prctl_sys C (if raise then PR_CAP_AMBIENT_RAISE cap else PR_CAP_AMBIENT_LOWER cap) k)
      else (Exit EXIT_FAILURE, k))"

fun capLetters :: "('c, 'k) cap_lib \<Rightarrow> bool \<Rightarrow> nat \<Rightarrow> string \<Rightarrow> 'k \<Rightarrow> unit res \<times> 'k" where
  "capLetters C raise cap [] k = (Ret (), k)"
| "capLetters C raise cap (c # cs) k = seq_res (capLetter C raise cap c) (\<lambda>_. capLetters C raise cap cs) k"

definition modify_individual_capability :: "('c, 'k) cap_lib \<Rightarrow> string \<Rightarrow> 'k \<Rightarrow> unit res \<times> 'k" where
  "modify_individual_capability C optval k =
     (let sets = takeWhile (\<lambda>c. c \<noteq> CHR ''+'' \<and> c \<noteq> CHR ''-'') optval;
          op = drop (length sets) optval;
          bad_cap = (\<exists>c \<in> set sets. c \<notin> set ''peiba'')
      in if op = [] \<or> tl op = [] \<or> bad_cap then (Exit EXIT_FAILURE, k)
         else case cap_from_name C (tl op) of
           None \<Rightarrow> (Exit EXIT_FAILURE, k)
         | Some cap \<Rightarrow> capLetters C (hd op = CHR ''+'') cap sets k)"

abbreviation (input) SECBIT_NOROOT :: "32 word" where "SECBIT_NOROOT \<equiv> 1"
abbreviation (input) SECBIT_NOROOT_LOCKED :: "32 word" where "SECBIT_NOROOT_LOCKED \<equiv> 2"
abbreviation (input) SECBIT_NO_SETUID_FIXUP :: "32 word" where "SECBIT_NO_SETUID_FIXUP \<equiv> 4"
abbreviation (input) SECBIT_NO_SETUID_FIXUP_LOCKED :: "32 word" where "SECBIT_NO_SETUID_FIXUP_LOCKED \<equiv> 8"
abbreviation (input) SECBIT_KEEP_CAPS :: "32 word" where "SECBIT_KEEP_CAPS \<equiv> 16"
abbreviation (input) SECBIT_KEEP_CAPS_LOCKED :: "32 word" where "SECBIT_KEEP_CAPS_LOCKED \<equiv> 32"
abbreviation (input) SECBIT_NO_CAP_AMBIENT_RAISE :: "32 word" where "SECBIT_NO_CAP_AMBIENT_RAISE \<equiv> 64"
abbreviation (input) SECBIT_NO_CAP_AMBIENT_RAISE_LOCKED :: "32 word" where
  "SECBIT_NO_CAP_AMBIENT_RAISE_LOCKED \<equiv> 128"

text \<open>The loop of \<open>set_securebits\<close>; \<open>None\<close> for an unexpected character.\<close>

fun secbitsLoop :: "string \<Rightarrow> 32 word \<Rightarrow> 32 word option" where
  "secbitsLoop [] secbits = Some secbits"
| "secbitsLoop (p # ps) secbits =
     (if p = CHR ''a'' then secbitsLoop ps (secbits OR SECBIT_NO_CAP_AMBIENT_RAISE)
      else if p = CHR ''A'' then secbitsLoop ps (secbits OR SECBIT_NO_CAP_AMBIENT_RAISE_LOCKED)
      else if p = CHR ''k'' then secbitsLoop ps (secbits OR SECBIT_KEEP_CAPS)
      else if p = CHR ''K'' then secbitsLoop ps (secbits OR SECBIT_KEEP_CAPS_LOCKED)
      else if p = CHR ''r'' then secbitsLoop ps (secbits OR SECBIT_NOROOT)
      else if p = CHR ''R'' then secbitsLoop ps (secbits OR SECBIT_NOROOT_LOCKED)
      else if p = CHR ''s'' then secbitsLoop ps (secbits OR SECBIT_NO_SETUID_FIXUP)
      else if p = CHR ''S'' then secbitsLoop ps (secbits OR SECBIT_NO_SETUID_FIXUP_LOCKED)
      else if p = CHR ''0'' then secbitsLoop ps 0
      else None)"

definition set_securebits :: "('c, 'k) cap_lib \<Rightarrow> string \<Rightarrow> 'k \<Rightarrow> unit res \<times> 'k" where
  "set_securebits C optval k =
     (case secbitsLoop optval 0 of
        None \<Rightarrow> (Exit EXIT_FAILURE, k)
      | Some secbits \<Rightarrow>
          (case prctl_sys C (PR_SET_SECUREBITS secbits) k of
             (ok, k') \<Rightarrow> (if ok then Ret () else Exit EXIT_FAILURE, k')))"

text \<open>\<open>printSecbits\<close> of \<open>cap_functions.c\<close>: the text that is written.\<close>

definition secbitInfoList :: "(32 word \<times> string \<times> char) list" where
  "secbitInfoList =
     [(SECBIT_NO_CAP_AMBIENT_RAISE, ''NO_CAP_AMBIENT_RAISE'', CHR ''a''),
      (SECBIT_NO_CAP_AMBIENT_RAISE_LOCKED, ''NO_CAP_AMBIENT_RAISE_LOCKED'', CHR ''A''),
      (SECBIT_KEEP_CAPS, ''KEEP_CAPS'', CHR ''k''), (SECBIT_KEEP_CAPS_LOCKED, ''KEEP_CAPS_LOCKED'', CHR ''K''),
      (SECBIT_NOROOT, ''NOROOT'', CHR ''r''), (SECBIT_NOROOT_LOCKED, ''NOROOT_LOCKED'', CHR ''R''),
      (SECBIT_NO_SETUID_FIXUP, ''NO_SETUID_FIXUP'', CHR ''s''),
      (SECBIT_NO_SETUID_FIXUP_LOCKED, ''NO_SETUID_FIXUP_LOCKED'', CHR ''S'')]"

fun secbitNames :: "(32 word \<times> string \<times> char) list \<Rightarrow> 32 word \<Rightarrow> nat \<Rightarrow> string" where
  "secbitNames [] secbits printed = []"
| "secbitNames ((f, name, _) # ps) secbits printed =
     (if secbits AND f \<noteq> 0
      then (if printed > 0 then '', '' else []) @ name @ secbitNames ps secbits (printed + 1)
      else secbitNames ps secbits printed)"

definition printSecbits :: "32 word \<Rightarrow> bool \<Rightarrow> string" where
  "printSecbits secbits long =
     (if long then ''['' @ secbitNames secbitInfoList secbits 0 @ '']''
      else map (\<lambda>(f, _, l). if secbits AND f \<noteq> 0 then l else CHR ''-'') secbitInfoList)"

definition set_process_uids :: "('c, 'k) cap_lib \<Rightarrow> string \<Rightarrow> 'k \<Rightarrow> unit res \<times> 'k" where
  "set_process_uids C optval k =
     (case strchr optval (CHR '','') of
        None \<Rightarrow> (Exit EXIT_FAILURE, k)
      | Some (r, rest) \<Rightarrow>
          (case strchr rest (CHR '','') of
             None \<Rightarrow> (Exit EXIT_FAILURE, k)
           | Some (e, sv) \<Rightarrow>
               (case setresuid_sys C (atoi r) (atoi e) (atoi sv) k of
                  (ok, k') \<Rightarrow> (if ok then Ret () else Exit EXIT_FAILURE, k'))))"

text \<open>
  One iteration of \<open>perform_repeatable_options\<close>, with \<open>display_cnt\<close>. An option without its
  argument would be a null pointer; \<open>-w\<close> only sleeps.
\<close>

definition repeatable :: "('c, 'k) cap_lib \<Rightarrow> char \<times> string option \<Rightarrow> nat \<Rightarrow> 'k \<Rightarrow> nat res \<times> 'k" where
  "repeatable C ov display_cnt k =
     (case ov of (opt, val) \<Rightarrow>
      let withVal = (\<lambda>f. case val of None \<Rightarrow> (Undef, k) | Some v \<Rightarrow> f v k)
      in if opt = CHR ''A'' then (Ret display_cnt, raiseInheritableAndAmbientCaps C True k)
         else if opt = CHR ''b'' then withVal (\<lambda>v. seq_res (set_securebits C v) (\<lambda>_ k. (Ret display_cnt, k)))
         else if opt = CHR ''d'' then
           seq_res (display_creds_and_caps C (fst (snprintf 20 (''[-d '' @ show_nat (display_cnt + 1) @ ''] ''))))
             (\<lambda>_ k. (Ret (display_cnt + 1), k)) k
         else if opt = CHR ''I'' then (Ret display_cnt, raiseInheritableAndAmbientCaps C False k)
         else if opt = CHR ''s'' then
           withVal (\<lambda>v k. case setresuid_sys C (atoi v) (atoi v) (atoi v) k of
                            (ok, k') \<Rightarrow> (if ok then Ret display_cnt else Exit EXIT_FAILURE, k'))
         else if opt = CHR ''S'' then withVal (\<lambda>v. seq_res (set_process_uids C v) (\<lambda>_ k. (Ret display_cnt, k)))
         else if opt = CHR ''w'' then withVal (\<lambda>v k. (Ret display_cnt, k))
         else if opt = CHR ''x'' then
           withVal (\<lambda>v k. case cap_from_text C v of
                            None \<Rightarrow> (Exit EXIT_FAILURE, k)
                          | Some caps \<Rightarrow> (case cap_set_proc C caps k of
                                            (ok, k') \<Rightarrow> (if ok then Ret display_cnt else Exit EXIT_FAILURE, k')))
         else if opt = CHR ''X'' then
           withVal (\<lambda>v. seq_res (modify_individual_capability C v) (\<lambda>_ k. (Ret display_cnt, k)))
         else (Ret display_cnt, k))"

fun perform_repeatable_options :: "('c, 'k) cap_lib \<Rightarrow> (char \<times> string option) list \<Rightarrow> nat \<Rightarrow> 'k \<Rightarrow> unit res \<times> 'k" where
  "perform_repeatable_options C [] display_cnt k = (Ret (), k)"
| "perform_repeatable_options C (ov # os) display_cnt k =
     seq_res (repeatable C ov display_cnt) (\<lambda>n. perform_repeatable_options C os n) k"

section \<open>Parent and child\<close>

text \<open>
  After \<open>clone\<close> both processes have the write end of the pipe. The parent updates the maps,
  closes its write end and waits; the child closes its own, waits for the end of file, performs
  the repeatable options and executes the command. When a process ends its descriptors are
  closed. In the state \<open>Ch_exec\<close> the child has made the call of \<open>execvp\<close>, and its end is taken
  to be seen by \<open>waitpid\<close> from then on. A schedule is a list of ticks; \<open>Kill_parent\<close> is a signal that ends the parent,
  \<open>Child_read_error\<close> a failed \<open>read\<close>.
\<close>

datatype par_pc = Par_maps | Par_close | Par_wait | Par_done | Par_failed
datatype ch_pc = Ch_close | Ch_read | Ch_options | Ch_exec | Ch_failed
datatype utick = Parent | Child | Kill_parent | Child_read_error

record 'k usync =
  par :: par_pc
  ch :: ch_pc
  par_write_end :: bool
  ch_write_end :: bool
  maps :: map_log
  cred :: 'k

definition usync_init :: "'k \<Rightarrow> 'k usync" where
  "usync_init k = \<lparr>par = Par_maps, ch = Ch_close, par_write_end = True, ch_write_end = True, maps = [], cred = k\<rparr>"

definition parentStep :: "map_kernel \<Rightarrow> cmd_options \<Rightarrow> int \<Rightarrow> 'k usync \<Rightarrow> 'k usync option" where
  "parentStep K opts child_pid s =
     (case par s of
        Par_maps \<Rightarrow>
          (case update_child_maps K opts child_pid (maps s) of
             (Ret _, l) \<Rightarrow> Some (s\<lparr>par := Par_close, maps := l\<rparr>)
           | (_, l) \<Rightarrow> Some (s\<lparr>par := Par_failed, par_write_end := False, maps := l\<rparr>))
      | Par_close \<Rightarrow> Some (s\<lparr>par := Par_wait, par_write_end := False\<rparr>)
      | Par_wait \<Rightarrow> if ch s = Ch_exec \<or> ch s = Ch_failed then Some (s\<lparr>par := Par_done\<rparr>) else None
      | _ \<Rightarrow> None)"

definition childFunc :: "('c, 'k) cap_lib \<Rightarrow> cmd_options \<Rightarrow> 'k usync \<Rightarrow> 'k usync option" where
  "childFunc C opts s =
     (case ch s of
        Ch_close \<Rightarrow> Some (s\<lparr>ch := Ch_read, ch_write_end := False\<rparr>)
      | Ch_read \<Rightarrow> if par_write_end s \<or> ch_write_end s then None else Some (s\<lparr>ch := Ch_options\<rparr>)
      | Ch_options \<Rightarrow>
          (case perform_repeatable_options C (opt_list opts) 0 (cred s) of
             (Ret _, k) \<Rightarrow> Some (s\<lparr>ch := Ch_exec, cred := k\<rparr>)
           | (_, k) \<Rightarrow> Some (s\<lparr>ch := Ch_failed, cred := k\<rparr>))
      | _ \<Rightarrow> None)"

definition ustep :: "map_kernel \<Rightarrow> ('c, 'k) cap_lib \<Rightarrow> cmd_options \<Rightarrow> int \<Rightarrow> utick \<Rightarrow> 'k usync \<Rightarrow> 'k usync option" where
  "ustep K C opts child_pid t s =
     (case t of
        Parent \<Rightarrow> parentStep K opts child_pid s
      | Child \<Rightarrow> childFunc C opts s
      | Kill_parent \<Rightarrow>
          if par s = Par_done \<or> par s = Par_failed then None
          else Some (s\<lparr>par := Par_failed, par_write_end := False\<rparr>)
      | Child_read_error \<Rightarrow> if ch s = Ch_read then Some (s\<lparr>ch := Ch_failed\<rparr>) else None)"

abbreviation urun :: "map_kernel \<Rightarrow> ('c, 'k) cap_lib \<Rightarrow> cmd_options \<Rightarrow> int \<Rightarrow> utick list \<Rightarrow> 'k usync \<Rightarrow> 'k usync option" where
  "urun K C opts child_pid \<equiv> run_steps (ustep K C opts child_pid)"

text \<open>
  \<open>main\<close> up to the point where both processes run: the option of \<open>prctl\<close>, the pipe, the stack and
  \<open>clone\<close> may each fail.
\<close>

definition usernsMain :: "(char \<times> string option) list \<Rightarrow> string list \<Rightarrow> bool \<Rightarrow> bool \<Rightarrow> bool \<Rightarrow> bool \<Rightarrow> 'k
    \<Rightarrow> (cmd_options \<times> 'k usync) res" where
  "usernsMain opts args dumpable_ok pipe_ok mmap_ok clone_ok k =
     (case parse_command_options opts args of
        Ret o' \<Rightarrow>
          if \<not> dumpable_ok then Exit EXIT_FAILURE
          else if \<not> pipe_ok then Exit EXIT_FAILURE
          else if \<not> mmap_ok then Exit EXIT_FAILURE
          else if \<not> clone_ok then Exit EXIT_FAILURE
          else Ret (o', usync_init k)
      | Exit n \<Rightarrow> Exit n | UExit n \<Rightarrow> UExit n | Abort \<Rightarrow> Abort | Undef \<Rightarrow> Undef)"

section \<open>Properties\<close>

definition uinv :: "map_kernel \<Rightarrow> cmd_options \<Rightarrow> int \<Rightarrow> 'k usync \<Rightarrow> bool" where
  "uinv K opts pid s \<longleftrightarrow>
     (par_write_end s \<longleftrightarrow> par s = Par_maps \<or> par s = Par_close) \<and>
     (ch_write_end s \<longleftrightarrow> ch s = Ch_close) \<and>
     (par s = Par_maps \<longrightarrow> maps s = []) \<and>
     (par s \<in> {Par_close, Par_wait, Par_done} \<longrightarrow> update_child_maps K opts pid [] = (Ret (), maps s)) \<and>
     (ch s \<in> {Ch_options, Ch_exec} \<longrightarrow> \<not> par_write_end s)"

lemma parentStep_cases:
  assumes "parentStep K opts pid s = Some s'"
  obtains l where "par s = Par_maps" "update_child_maps K opts pid (maps s) = (Ret (), l)" "s' = s\<lparr>par := Par_close, maps := l\<rparr>"
  | l where "par s = Par_maps" "s' = s\<lparr>par := Par_failed, par_write_end := False, maps := l\<rparr>"
  | "par s = Par_close" "s' = s\<lparr>par := Par_wait, par_write_end := False\<rparr>"
  | "par s = Par_wait" "s' = s\<lparr>par := Par_done\<rparr>"
proof (cases "par s")
  case Par_maps
  obtain r l where u: "update_child_maps K opts pid (maps s) = (r, l)" by (cases "update_child_maps K opts pid (maps s)")
  show ?thesis using assms Par_maps u that(1,2) by (cases r) (auto simp: parentStep_def)
qed (use assms that(3,4) in \<open>simp_all add: parentStep_def split: if_splits\<close>)

lemma childFunc_cases:
  assumes "childFunc C opts s = Some s'"
  obtains "ch s = Ch_close" "s' = s\<lparr>ch := Ch_read, ch_write_end := False\<rparr>"
  | "ch s = Ch_read" "\<not> par_write_end s" "s' = s\<lparr>ch := Ch_options\<rparr>"
  | k where "ch s = Ch_options" "s' = s\<lparr>ch := Ch_exec, cred := k\<rparr>"
  | k where "ch s = Ch_options" "s' = s\<lparr>ch := Ch_failed, cred := k\<rparr>"
proof (cases "ch s")
  case Ch_options
  obtain r k where u: "perform_repeatable_options C (opt_list opts) 0 (cred s) = (r, k)"
    by (cases "perform_repeatable_options C (opt_list opts) 0 (cred s)")
  show ?thesis using assms Ch_options u that(3,4) by (cases r) (auto simp: childFunc_def)
qed (use assms that(1,2) in \<open>simp_all add: childFunc_def split: if_splits\<close>)

lemma ustep_inv: "ustep K C opts pid t s = Some s' \<Longrightarrow> uinv K opts pid s \<Longrightarrow> uinv K opts pid s'"
proof (cases t)
  case Parent
  assume "ustep K C opts pid t s = Some s'" and i: "uinv K opts pid s"
  with Parent have "parentStep K opts pid s = Some s'" by (simp add: ustep_def)
  then show ?thesis using i by (cases rule: parentStep_cases) (auto simp: uinv_def)
next
  case Child
  assume "ustep K C opts pid t s = Some s'" and i: "uinv K opts pid s"
  with Child have "childFunc C opts s = Some s'" by (simp add: ustep_def)
  then show ?thesis using i by (cases rule: childFunc_cases) (auto simp: uinv_def)
next
  case Kill_parent
  assume "ustep K C opts pid t s = Some s'" "uinv K opts pid s"
  with Kill_parent have "s' = s\<lparr>par := Par_failed, par_write_end := False\<rparr>" by (simp add: ustep_def split: if_splits)
  with \<open>uinv K opts pid s\<close> show ?thesis by (simp add: uinv_def)
next
  case Child_read_error
  assume "ustep K C opts pid t s = Some s'" "uinv K opts pid s"
  with Child_read_error have "s' = s\<lparr>ch := Ch_failed\<rparr>" "ch s = Ch_read" by (simp_all add: ustep_def split: if_splits)
  with \<open>uinv K opts pid s\<close> show ?thesis by (simp add: uinv_def)
qed

lemma uinv_init: "uinv K opts pid (usync_init k)"
  by (simp add: uinv_def usync_init_def)

text \<open>The statements that the two processes have still to execute.\<close>

primrec par_left :: "par_pc \<Rightarrow> nat" where
  "par_left Par_maps = 3" | "par_left Par_close = 2" | "par_left Par_wait = 1" | "par_left Par_done = 0" | "par_left Par_failed = 0"

primrec ch_left :: "ch_pc \<Rightarrow> nat" where
  "ch_left Ch_close = 3" | "ch_left Ch_read = 2" | "ch_left Ch_options = 1" | "ch_left Ch_exec = 0" | "ch_left Ch_failed = 0"

lemma ustep_work: "ustep K C opts pid t s = Some s' \<Longrightarrow> par_left (par s') + ch_left (ch s') < par_left (par s) + ch_left (ch s)"
  by (cases t; cases "par s"; cases "ch s")
    (auto simp: ustep_def elim!: parentStep_cases childFunc_cases split: if_splits)

interpretation uns: bounded_machine "ustep K C opts pid" "uinv K opts pid" "\<lambda>s. par_left (par s) + ch_left (ch s)" "\<lambda>_. 0"
  for K C opts pid
  by unfold_locales (simp_all add: ustep_inv ustep_work)

text \<open>
  C9. In every interleaving of the two processes: when the child goes on to set its credentials
  and execute the command, the parent has written all maps, or it has failed. Until both have
  ended, one of them can take a step, and no run has more than six steps, so neither waits
  forever for the other.
\<close>

theorem child_runs_after_maps:
  assumes "urun K C opts pid ts (usync_init k) = Some s"
  shows "(ch s \<in> {Ch_options, Ch_exec} \<longrightarrow> update_child_maps K opts pid [] = (Ret (), maps s) \<or> par s = Par_failed) \<and>
    (par s \<in> {Par_done, Par_failed} \<and> ch s \<in> {Ch_exec, Ch_failed} \<or>
       ustep K C opts pid Parent s \<noteq> None \<or> ustep K C opts pid Child s \<noteq> None) \<and>
    length ts \<le> 6"
proof -
  have i: "uinv K opts pid s" by (rule uns.run_inv [OF assms uinv_init])
  have "length ts \<le> 6" using uns.run_bound [OF assms uinv_init] by (simp add: usync_init_def)
  moreover have "ch s \<in> {Ch_options, Ch_exec} \<longrightarrow> update_child_maps K opts pid [] = (Ret (), maps s) \<or> par s = Par_failed"
    using i by (cases "par s") (auto simp: uinv_def)
  moreover have "par s \<in> {Par_done, Par_failed} \<and> ch s \<in> {Ch_exec, Ch_failed} \<or>
      ustep K C opts pid Parent s \<noteq> None \<or> ustep K C opts pid Child s \<noteq> None"
    using i by (cases "par s"; cases "ch s")
      (auto simp: uinv_def ustep_def parentStep_def childFunc_def split: prod.splits res.splits)
  ultimately show ?thesis by blast
qed

text \<open>The premises hold: a user namespace with root mappings and one displayed line.\<close>

definition demo_maps :: map_kernel where
  "demo_maps = \<lparr>open_map = (\<lambda>_. None), write_map = (\<lambda>_ s. int (length s)), my_uid = 1000, my_gid = 1000\<rparr>"

definition demo_libcap :: "(unit, string) cap_lib" where
  "demo_libcap = \<lparr>cap_last = 1, cap_get_proc = (\<lambda>_. Some ()), cap_set_flag = (\<lambda>_ _ _ _. Some ()),
     cap_set_proc = (\<lambda>_ k. (True, k)), cap_free_ok = True, cap_from_name = (\<lambda>_. Some 0),
     cap_from_text = (\<lambda>_. Some ()), cap_to_text = (\<lambda>_. Some ''=ep''), prctl_sys = (\<lambda>_ k. (True, k)),
     setresuid_sys = (\<lambda>_ _ _ k. (True, k)), print_sys = (\<lambda>t k. k @ t), eids = (\<lambda>_. (0, 0))\<rparr>"

definition demo_options :: cmd_options where
  "demo_options = \<lparr>cmd_argv = [''sh''], flags = CLONE_NEWUSER, create_root_mappings = True, deny_setgroups = True,
     verbose = False, uid_map = None, gid_map = None, projid_map = None, opt_list = [(CHR ''d'', None)]\<rparr>"

definition demo_state :: "string usync" where
  "demo_state = \<lparr>par = Par_done, ch = Ch_exec, par_write_end = False, ch_write_end = False,
     maps = [(''/proc/7/uid_map'', ''0 1000 1''), (''/proc/7/setgroups'', ''deny''), (''/proc/7/gid_map'', ''0 1000 1'')],
     cred = ''[-d 1] eUID = 0; eGID = 0;  capabilities: =ep'' @ [NL]\<rparr>"

theorem child_runs_after_maps_witness:
  "urun demo_maps demo_libcap demo_options 7 [Parent, Child, Parent, Child, Child, Parent] (usync_init []) = Some demo_state \<and>
   update_child_maps demo_maps demo_options 7 [] = (Ret (), maps demo_state)"
proof -
  have r: "urun demo_maps demo_libcap demo_options 7 [Parent, Child, Parent, Child, Child, Parent] (usync_init []) = Some demo_state"
    by code_simp
  from child_runs_after_maps [OF r] show ?thesis using r by (simp add: demo_state_def)
qed

text \<open>
  If the update of the maps fails, the end of the parent closes the pipe, and the child goes on
  and executes the command without the maps.
\<close>

lemma command_runs_without_maps:
  assumes "fst (update_child_maps K opts pid []) \<noteq> Ret ()"
  shows "\<exists>s. urun K C opts pid [Child, Parent, Child] (usync_init k) = Some s \<and> ch s = Ch_options \<and> par s = Par_failed"
proof -
  obtain r l where "update_child_maps K opts pid [] = (r, l)" by (cases "update_child_maps K opts pid []")
  with assms show ?thesis
    by (cases r) (auto simp: usync_init_def ustep_def childFunc_def parentStep_def)
qed

text \<open>What \<open>parse_command_options\<close> guarantees of the options that it accepts.\<close>

lemma parseOption_count:
  "parseOption c a o1 = Ret o2 \<Longrightarrow> length (opt_list o1) \<le> MAX_OPT \<Longrightarrow> length (opt_list o2) \<le> MAX_OPT"
proof (cases "flagOf c")
  case None
  assume p: "parseOption c a o1 = Ret o2" "length (opt_list o1) \<le> MAX_OPT"
  have "opt_list o2 = opt_list o1 \<or> length (opt_list o1) < MAX_OPT \<and> length (opt_list o2) = length (opt_list o1) + 1"
    if "(if P then Ret (o1\<lparr>uid_map := a\<rparr>) else if Q then Ret (o1\<lparr>gid_map := a\<rparr>) else if R then Ret (o1\<lparr>projid_map := a\<rparr>)
         else if S then Ret (o1\<lparr>create_root_mappings := True\<rparr>) else if T then Ret (o1\<lparr>deny_setgroups := False\<rparr>)
         else if U then Ret (o1\<lparr>verbose := True\<rparr>)
         else if V then
            if length (opt_list o1) \<ge> MAX_OPT then Exit EXIT_FAILURE else Ret (o1\<lparr>opt_list := opt_list o1 @ [x]\<rparr>)
         else Exit EXIT_FAILURE) = Ret o2" for P Q R S T U V x
    using that by (auto split: if_splits)
  from this [OF p(1) [unfolded parseOption_def None option.case]] p(2) show ?thesis by auto
qed (auto simp: parseOption_def)

lemma parseCmdOptions_count:
  "parseCmdOptions os o1 = Ret o2 \<Longrightarrow> length (opt_list o1) \<le> MAX_OPT \<Longrightarrow> length (opt_list o2) \<le> MAX_OPT"
proof (induction os arbitrary: o1)
  case (Cons ca os)
  obtain c a where ca: "ca = (c, a)" by (cases ca)
  with Cons.prems obtain o' where "parseOption c a o1 = Ret o'" "parseCmdOptions os o' = Ret o2" by (auto split: res.splits)
  with Cons.IH parseOption_count [of c a o1 o'] Cons.prems(2) show ?case by blast
qed simp

lemma parseOption_S: "parseOption (CHR ''S'') a o' = Exit EXIT_FAILURE"
  by (simp add: parseOption_def flagOf_def)

lemma parseCmdOptions_S: "(CHR ''S'', a) \<in> set os \<Longrightarrow> parseCmdOptions os o1 \<noteq> Ret o2"
  by (induction os arbitrary: o1) (auto simp: parseOption_S split: res.splits)

text \<open>
  C38. What \<open>parse_command_options\<close> accepts: maps are given only together with a new user
  namespace, and root mappings not together with maps of user or group IDs; at most 100
  repeatable options are recorded; there is a command. The documented option \<open>-S\<close> is never
  accepted.
\<close>

theorem parse_command_options_sound:
  assumes "parse_command_options opts args = Ret o'"
  shows "(uid_map o' \<noteq> None \<or> gid_map o' \<noteq> None \<or> projid_map o' \<noteq> None \<or> create_root_mappings o' \<longrightarrow>
      flags o' AND CLONE_NEWUSER \<noteq> 0) \<and>
    \<not> (create_root_mappings o' \<and> (uid_map o' \<noteq> None \<or> gid_map o' \<noteq> None)) \<and>
    length (opt_list o') \<le> MAX_OPT \<and> cmd_argv o' = args \<and> args \<noteq> [] \<and> CHR ''S'' \<notin> fst ` set opts"
proof -
  let ?o0 = "\<lparr>cmd_argv = [], flags = 0, create_root_mappings = False, deny_setgroups = True,
             verbose = False, uid_map = None, gid_map = None, projid_map = None, opt_list = []\<rparr>"
  from assms obtain o1 where o1: "parseCmdOptions opts ?o0 = Ret o1" "o' = o1\<lparr>cmd_argv := args\<rparr>"
    by (auto simp: parse_command_options_def split: res.splits if_splits)
  have "length (opt_list o') \<le> MAX_OPT" using parseCmdOptions_count [OF o1(1)] o1(2) by simp
  moreover have "CHR ''S'' \<notin> fst ` set opts" using parseCmdOptions_S [of _ opts ?o0 o1] o1(1) by auto
  ultimately show ?thesis using assms o1 by (auto simp: parse_command_options_def split: if_splits)
qed

theorem parse_command_options_sound_witness:
  "parse_command_options [(CHR ''U'', None), (CHR ''r'', None), (CHR ''d'', None)] [''sh''] = Ret demo_options \<and>
   flags demo_options AND CLONE_NEWUSER \<noteq> 0"
proof -
  have r: "parse_command_options [(CHR ''U'', None), (CHR ''r'', None), (CHR ''d'', None)] [''sh''] = Ret demo_options"
    by code_simp
  from parse_command_options_sound [OF r] show ?thesis using r by (simp add: demo_options_def)
qed

section \<open>The notation for securebits\<close>

lemma secbitsLoop_flag:
  assumes "f = 2 ^ n" "l \<noteq> CHR ''-''" "\<And>ps x. secbitsLoop (l # ps) x = secbitsLoop ps (x OR f)"
  shows "secbitsLoop (filter (\<lambda>c. c \<noteq> CHR ''-'') ((if b AND f \<noteq> 0 then l else CHR ''-'') # rest)) acc =
    secbitsLoop (filter (\<lambda>c. c \<noteq> CHR ''-'') rest) (acc OR (b AND f))"
  using and_exp_if [of b n] assms by (cases "b AND f = 0") (simp_all split: if_splits)

definition flag_entry :: "32 word \<times> string \<times> char \<Rightarrow> bool" where
  "flag_entry e \<longleftrightarrow> (case e of (f, _, l) \<Rightarrow> (\<exists>n. f = 2 ^ n) \<and> l \<noteq> CHR ''-'' \<and>
     (\<forall>ps x. secbitsLoop (l # ps) x = secbitsLoop ps (x OR f)))"

lemma secbitsLoop_table:
  assumes "\<forall>e \<in> set tab. flag_entry e"
  shows "secbitsLoop (filter (\<lambda>c. c \<noteq> CHR ''-'') (map (\<lambda>(f, _, l). if b AND f \<noteq> 0 then l else CHR ''-'') tab)) acc =
    Some (foldl (\<lambda>a e. a OR (b AND fst e)) acc tab)"
  using assms
proof (induction tab arbitrary: acc)
  case (Cons e tab)
  obtain f n l where e: "e = (f, n, l)" by (cases e)
  with Cons.prems obtain i where f: "f = 2 ^ i" "l \<noteq> CHR ''-''" "\<And>ps x. secbitsLoop (l # ps) x = secbitsLoop ps (x OR f)"
    by (auto simp: flag_entry_def)
  show ?case unfolding e list.map prod.case secbitsLoop_flag [OF f] foldl.simps fst_conv using Cons by simp
qed simp

lemma secbitInfoList_flags: "\<forall>e \<in> set secbitInfoList. flag_entry e"
proof -
  have "\<exists>n. (64 :: 32 word) = 2 ^ n" "\<exists>n. (128 :: 32 word) = 2 ^ n" "\<exists>n. (16 :: 32 word) = 2 ^ n"
    "\<exists>n. (32 :: 32 word) = 2 ^ n" "\<exists>n. (1 :: 32 word) = 2 ^ n" "\<exists>n. (2 :: 32 word) = 2 ^ n"
    "\<exists>n. (4 :: 32 word) = 2 ^ n" "\<exists>n. (8 :: 32 word) = 2 ^ n"
    by (rule exI [of _ 6] exI [of _ 7] exI [of _ 4] exI [of _ 5] exI [of _ 0] exI [of _ 1] exI [of _ 2] exI [of _ 3]; simp; fail)+
  then show ?thesis by (simp add: secbitInfoList_def flag_entry_def)
qed

text \<open>
  The letters that \<open>printSecbits\<close> prints for a mask are the ones that the option \<open>-b\<close>
  understands: reading them back (without the dashes) gives the eight securebits flags of the
  mask.
\<close>

theorem secbits_roundtrip:
  "secbitsLoop (filter (\<lambda>c. c \<noteq> CHR ''-'') (printSecbits b False)) 0 = Some (b AND 0xFF)"
proof -
  have "secbitsLoop (filter (\<lambda>c. c \<noteq> CHR ''-'') (printSecbits b False)) 0 =
      Some (foldl (\<lambda>a e. a OR (b AND fst e)) 0 secbitInfoList)"
    unfolding printSecbits_def if_False by (rule secbitsLoop_table [OF secbitInfoList_flags])
  also have "\<dots> = Some (b AND (64 OR 128 OR 16 OR 32 OR 1 OR 2 OR 4 OR 8))"
    unfolding secbitInfoList_def foldl.simps fst_conv
    by (simp only: bit.conj_disj_distrib or.assoc or.left_neutral)
  finally show ?thesis by simp
qed

end
