(* ===== verification/OnceInit.thy ===== *)
theory OnceInit
  imports Machines
begin

text \<open>
  One-time initialisation by several threads: \<open>threads/one_time_init.c\<close>. The threads are
  interleaved statement by statement; a thread that waits for the mutex cannot take a step.
\<close>

section \<open>State\<close>

text \<open>\<open>omtx\<close> is the thread that has locked the mutex.\<close>

record once_struct =
  omtx :: "nat option"
  called :: bool

text \<open>
  The statements of \<open>one_time_init\<close>; \<open>calls_left\<close> counts the calls that the thread function has
  still to make, the current one included. In \<open>O_init\<close> the function \<open>init\<close> is about to be called,
  in \<open>O_set\<close> it has returned.
\<close>

datatype opc = O_lock | O_test | O_init | O_set | O_unlock | O_end

record othread =
  opc :: opc
  calls_left :: nat

datatype mpc = M_create nat | M_join nat | M_exit | M_failed

record oworld =
  once :: once_struct
  inits :: nat
  threads :: "othread list"
  mpc :: mpc

section \<open>Operations\<close>

definition one_time_init :: "nat \<Rightarrow> oworld \<Rightarrow> oworld option" where
  "one_time_init i s =
     (if length (threads s) \<le> i then None
      else let t = threads s ! i; go = (\<lambda>p. (threads s)[i := t\<lparr>opc := p\<rparr>]) in
        case opc t of
          O_lock \<Rightarrow>
            if omtx (once s) = None then Some (s\<lparr>once := (once s)\<lparr>omtx := Some i\<rparr>, threads := go O_test\<rparr>) else None
        | O_test \<Rightarrow> Some (s\<lparr>threads := go (if \<not> called (once s) then O_init else O_unlock)\<rparr>)
        | O_init \<Rightarrow> Some (s\<lparr>inits := inits s + 1, threads := go O_set\<rparr>)
        | O_set \<Rightarrow> Some (s\<lparr>once := (once s)\<lparr>called := True\<rparr>, threads := go O_unlock\<rparr>)
        | O_unlock \<Rightarrow>
            Some (s\<lparr>once := (once s)\<lparr>omtx := None\<rparr>,
                     threads := (threads s)[i := \<lparr>opc = (if calls_left t \<le> 1 then O_end else O_lock),
                                                 calls_left = calls_left t - 1\<rparr>]\<rparr>)
        | O_end \<Rightarrow> None)"

text \<open>\<open>threadFunc\<close> calls \<open>one_time_init\<close> twice.\<close>

definition threadFunc :: othread where
  "threadFunc = \<lparr>opc = O_lock, calls_left = 2\<rparr>"

text \<open>\<open>main\<close> creates two threads and joins with them in order.\<close>

definition onceMain :: "oworld \<Rightarrow> oworld option" where
  "onceMain s =
     (case mpc s of
        M_create k \<Rightarrow> Some (s\<lparr>threads := threads s @ [threadFunc], mpc := (if k = 0 then M_create 1 else M_join 0)\<rparr>)
      | M_join k \<Rightarrow>
          if opc (threads s ! k) = O_end then Some (s\<lparr>mpc := (if k = 0 then M_join 1 else M_exit)\<rparr>) else None
      | _ \<Rightarrow> None)"

datatype otick = OMain | OThread nat | ONoThread

definition otick :: "otick \<Rightarrow> oworld \<Rightarrow> oworld option" where
  "otick t s =
     (if mpc s = M_exit \<or> mpc s = M_failed then None
      else case t of
        OMain \<Rightarrow> onceMain s
      | OThread i \<Rightarrow> one_time_init i s
      | ONoThread \<Rightarrow> (case mpc s of M_create _ \<Rightarrow> Some (s\<lparr>mpc := M_failed\<rparr>) | _ \<Rightarrow> None))"

abbreviation orun :: "otick list \<Rightarrow> oworld \<Rightarrow> oworld option" where
  "orun \<equiv> run_steps otick"

definition once_init :: oworld where
  "once_init = \<lparr>once = \<lparr>omtx = None, called = False\<rparr>, inits = 0, threads = [], mpc = M_create 0\<rparr>"

section \<open>Invariant\<close>

definition inside :: "othread \<Rightarrow> bool" where
  "inside t \<longleftrightarrow> opc t \<in> {O_test, O_init, O_set, O_unlock}"

definition thread_ok :: "oworld \<Rightarrow> nat \<Rightarrow> bool" where
  "thread_ok s i \<longleftrightarrow>
     (let t = threads s ! i in
      (omtx (once s) = Some i \<longleftrightarrow> inside t) \<and>
      (opc t = O_init \<longrightarrow> \<not> called (once s) \<and> inits s = 0) \<and>
      (opc t = O_set \<longrightarrow> \<not> called (once s) \<and> inits s = 1) \<and>
      (opc t = O_unlock \<longrightarrow> called (once s)) \<and>
      (calls_left t < 2 \<longrightarrow> called (once s)) \<and>
      (opc t = O_end \<longleftrightarrow> calls_left t = 0) \<and> calls_left t \<le> 2)"

definition once_inv :: "oworld \<Rightarrow> bool" where
  "once_inv s \<longleftrightarrow>
     (\<forall>i < length (threads s). thread_ok s i) \<and>
     (\<forall>i. omtx (once s) = Some i \<longrightarrow> i < length (threads s)) \<and>
     (called (once s) \<longrightarrow> inits s = 1) \<and> inits s \<le> 1 \<and>
     (\<not> called (once s) \<and> inits s = 1 \<longrightarrow> (\<exists>i < length (threads s). opc (threads s ! i) = O_set)) \<and>
     (case mpc s of
        M_create k \<Rightarrow> length (threads s) = k \<and> k < 2
      | M_join k \<Rightarrow> length (threads s) = 2 \<and> k < 2 \<and> (k = 1 \<longrightarrow> opc (threads s ! 0) = O_end)
      | M_exit \<Rightarrow> length (threads s) = 2 \<and> opc (threads s ! 0) = O_end \<and> opc (threads s ! 1) = O_end
      | M_failed \<Rightarrow> length (threads s) < 2)"

text \<open>What a statement of thread \<open>i\<close> may do: only the owner of the mutex changes \<open>called\<close> and \<open>inits\<close>.\<close>

definition once_effect :: "oworld \<Rightarrow> nat \<Rightarrow> othread \<Rightarrow> oworld \<Rightarrow> bool" where
  "once_effect s i q s' \<longleftrightarrow>
     i < length (threads s) \<and> threads s' = (threads s)[i := q] \<and> mpc s' = mpc s \<and>
     opc (threads s ! i) \<noteq> O_end \<and> thread_ok s' i \<and>
     (\<forall>j. j \<noteq> i \<longrightarrow> (omtx (once s') = Some j \<longleftrightarrow> omtx (once s) = Some j)) \<and>
     (called (once s') = called (once s) \<and> inits s' = inits s \<or> omtx (once s) = Some i) \<and>
     (called (once s) \<longrightarrow> called (once s')) \<and> (called (once s') \<longrightarrow> inits s' = 1) \<and> inits s' \<le> 1 \<and>
     (\<not> called (once s') \<and> inits s' = 1 \<longrightarrow>
        opc q = O_set \<or> \<not> called (once s) \<and> inits s = 1 \<and> opc (threads s ! i) \<noteq> O_set)"

lemma once_invD:
  assumes "once_inv s"
  shows "i < length (threads s) \<Longrightarrow> thread_ok s i"
    "omtx (once s) = Some i \<Longrightarrow> i < length (threads s)"
    "called (once s) \<Longrightarrow> inits s = 1" "inits s \<le> 1"
    "\<not> called (once s) \<Longrightarrow> inits s = 1 \<Longrightarrow> \<exists>i < length (threads s). opc (threads s ! i) = O_set"
    "case mpc s of
        M_create k \<Rightarrow> length (threads s) = k \<and> k < 2
      | M_join k \<Rightarrow> length (threads s) = 2 \<and> k < 2 \<and> (k = 1 \<longrightarrow> opc (threads s ! 0) = O_end)
      | M_exit \<Rightarrow> length (threads s) = 2 \<and> opc (threads s ! 0) = O_end \<and> opc (threads s ! 1) = O_end
      | M_failed \<Rightarrow> length (threads s) < 2"
  using assms unfolding once_inv_def by blast+

lemma one_time_init_cases:
  assumes "one_time_init i s = Some s'"
  obtains "i < length (threads s)" "opc (threads s ! i) = O_lock" "omtx (once s) = None"
      "s' = s\<lparr>once := (once s)\<lparr>omtx := Some i\<rparr>, threads := (threads s)[i := (threads s ! i)\<lparr>opc := O_test\<rparr>]\<rparr>"
  | "i < length (threads s)" "opc (threads s ! i) = O_test" "called (once s)"
      "s' = s\<lparr>threads := (threads s)[i := (threads s ! i)\<lparr>opc := O_unlock\<rparr>]\<rparr>"
  | "i < length (threads s)" "opc (threads s ! i) = O_test" "\<not> called (once s)"
      "s' = s\<lparr>threads := (threads s)[i := (threads s ! i)\<lparr>opc := O_init\<rparr>]\<rparr>"
  | "i < length (threads s)" "opc (threads s ! i) = O_init"
      "s' = s\<lparr>inits := inits s + 1, threads := (threads s)[i := (threads s ! i)\<lparr>opc := O_set\<rparr>]\<rparr>"
  | "i < length (threads s)" "opc (threads s ! i) = O_set"
      "s' = s\<lparr>once := (once s)\<lparr>called := True\<rparr>, threads := (threads s)[i := (threads s ! i)\<lparr>opc := O_unlock\<rparr>]\<rparr>"
  | "i < length (threads s)" "opc (threads s ! i) = O_unlock"
      "s' = s\<lparr>once := (once s)\<lparr>omtx := None\<rparr>,
              threads := (threads s)[i := \<lparr>opc = (if calls_left (threads s ! i) \<le> 1 then O_end else O_lock),
                                          calls_left = calls_left (threads s ! i) - 1\<rparr>]\<rparr>"
proof -
  have i: "i < length (threads s)" using assms by (auto simp: one_time_init_def split: if_splits)
  show ?thesis
    by (cases "opc (threads s ! i)")
      (use assms that i in \<open>auto simp: one_time_init_def Let_def split: if_splits\<close>)
qed

lemma one_time_init_effect:
  assumes "one_time_init i s = Some s'" and inv: "once_inv s"
  shows "\<exists>q. once_effect s i q s'"
  using assms(1)
proof (cases rule: one_time_init_cases)
  case 1
  then show ?thesis using once_invD(1) [OF inv, of i] once_invD(3,4) [OF inv]
    by (intro exI [of _ "(threads s ! i)\<lparr>opc := O_test\<rparr>"]) (auto simp: once_effect_def thread_ok_def inside_def Let_def)
next
  case 2
  then show ?thesis using once_invD(1) [OF inv, of i] once_invD(3,4) [OF inv]
    by (intro exI [of _ "(threads s ! i)\<lparr>opc := O_unlock\<rparr>"]) (auto simp: once_effect_def thread_ok_def inside_def Let_def)
next
  case 3
  have "inits s = 0"
  proof (rule ccontr)
    assume "inits s \<noteq> 0"
    with once_invD(4) [OF inv] have "inits s = 1" by simp
    with once_invD(5) [OF inv 3(3)] obtain j where j: "j < length (threads s)" "opc (threads s ! j) = O_set" by blast
    with once_invD(1) [OF inv j(1)] have "omtx (once s) = Some j" by (auto simp: thread_ok_def inside_def Let_def)
    moreover have "omtx (once s) = Some i" using once_invD(1) [OF inv 3(1)] 3(2) by (auto simp: thread_ok_def inside_def Let_def)
    ultimately show False using j 3(2) by simp
  qed
  with 3 show ?thesis using once_invD(1) [OF inv, of i] once_invD(3,4) [OF inv]
    by (intro exI [of _ "(threads s ! i)\<lparr>opc := O_init\<rparr>"]) (auto simp: once_effect_def thread_ok_def inside_def Let_def)
next
  case 4
  then show ?thesis using once_invD(1) [OF inv, of i] once_invD(3,4) [OF inv]
    by (intro exI [of _ "(threads s ! i)\<lparr>opc := O_set\<rparr>"]) (auto simp: once_effect_def thread_ok_def inside_def Let_def)
next
  case 5
  then show ?thesis using once_invD(1) [OF inv, of i] once_invD(3,4) [OF inv]
    by (intro exI [of _ "(threads s ! i)\<lparr>opc := O_unlock\<rparr>"]) (auto simp: once_effect_def thread_ok_def inside_def Let_def)
next
  case 6
  then show ?thesis using once_invD(1) [OF inv, of i] once_invD(3,4) [OF inv]
    by (intro exI [of _ "\<lparr>opc = (if calls_left (threads s ! i) \<le> 1 then O_end else O_lock),
                            calls_left = calls_left (threads s ! i) - 1\<rparr>"])
      (auto simp: once_effect_def thread_ok_def inside_def Let_def)
qed

lemma effect_keeps_thread:
  assumes e: "once_effect s i q s'" and inv: "once_inv s" and j: "j < length (threads s')"
  shows "thread_ok s' j"
proof (cases "j = i")
  case True
  then show ?thesis using e by (simp add: once_effect_def)
next
  case False
  have t: "threads s' ! j = threads s ! j" "j < length (threads s)" using e False j by (auto simp: once_effect_def)
  have ok: "thread_ok s j" by (rule once_invD(1) [OF inv t(2)])
  have m: "omtx (once s') = Some j \<longleftrightarrow> omtx (once s) = Some j" using e False by (auto simp: once_effect_def)
  have c: "called (once s') = called (once s) \<and> inits s' = inits s \<or> omtx (once s) = Some i" "called (once s) \<longrightarrow> called (once s')"
    using e by (auto simp: once_effect_def)
  show ?thesis
  proof (cases "inside (threads s ! j)")
    case True
    then have "omtx (once s) = Some j" using ok by (simp add: thread_ok_def Let_def)
    then show ?thesis using c(1) ok m t False by (simp add: thread_ok_def Let_def)
  next
    case False
    then show ?thesis using c(2) ok m t by (auto simp: thread_ok_def inside_def Let_def)
  qed
qed

lemma one_time_init_inv:
  assumes "one_time_init i s = Some s'" and inv: "once_inv s"
  shows "once_inv s'"
proof -
  obtain q where e: "once_effect s i q s'" using one_time_init_effect [OF assms] by blast
  have t: "i < length (threads s)" "threads s' = (threads s)[i := q]" "mpc s' = mpc s" "opc (threads s ! i) \<noteq> O_end"
    using e by (auto simp: once_effect_def)
  have "j < length (threads s')" if "omtx (once s') = Some j" for j
    using once_invD(2) [OF inv, of j] e that t by (cases "j = i") (auto simp: once_effect_def)
  moreover have "\<exists>k < length (threads s'). opc (threads s' ! k) = O_set" if "\<not> called (once s')" "inits s' = 1"
  proof (cases "opc q = O_set")
    case True
    then show ?thesis using t by (intro exI [of _ i]) simp
  next
    case False
    then have "\<not> called (once s)" "inits s = 1" "opc (threads s ! i) \<noteq> O_set" using e that by (auto simp: once_effect_def)
    with once_invD(5) [OF inv] obtain k where "k < length (threads s)" "opc (threads s ! k) = O_set" "k \<noteq> i" by blast
    then show ?thesis using t by (intro exI [of _ k]) simp
  qed
  moreover have "case mpc s' of
        M_create k \<Rightarrow> length (threads s') = k \<and> k < 2
      | M_join k \<Rightarrow> length (threads s') = 2 \<and> k < 2 \<and> (k = 1 \<longrightarrow> opc (threads s' ! 0) = O_end)
      | M_exit \<Rightarrow> length (threads s') = 2 \<and> opc (threads s' ! 0) = O_end \<and> opc (threads s' ! 1) = O_end
      | M_failed \<Rightarrow> length (threads s') < 2"
    using once_invD(6) [OF inv] t by (auto simp: nth_list_update less_2_cases_iff split: mpc.splits)
  moreover have "called (once s') \<longrightarrow> inits s' = 1" "inits s' \<le> 1" using e by (auto simp: once_effect_def)
  ultimately show ?thesis unfolding once_inv_def using effect_keeps_thread [OF e inv] by blast
qed

lemma otick_inv: "otick t s = Some s' \<Longrightarrow> once_inv s \<Longrightarrow> once_inv s'"
proof (cases t)
  case OMain
  assume "otick t s = Some s'" and inv: "once_inv s"
  with OMain have m: "onceMain s = Some s'" by (auto simp: otick_def split: if_splits)
  show ?thesis
  proof (cases "mpc s")
    case (M_create k)
    then have s': "s' = s\<lparr>threads := threads s @ [threadFunc], mpc := (if k = 0 then M_create 1 else M_join 0)\<rparr>"
      and k: "length (threads s) = k" "k < 2" using m once_invD(6) [OF inv] by (auto simp: onceMain_def)
    have "thread_ok s' i" if "i < length (threads s')" for i
      using that once_invD(1) [OF inv, of i] once_invD(2) [OF inv, of k] s' k
      by (cases "i = k") (auto simp: thread_ok_def threadFunc_def inside_def nth_append Let_def)
    moreover have "\<exists>j < length (threads s'). opc (threads s' ! j) = O_set" if c: "\<not> called (once s')" "inits s' = 1"
    proof -
      from c obtain j where "j < length (threads s)" "opc (threads s ! j) = O_set" using once_invD(5) [OF inv] s' by auto
      then show ?thesis using s' by (intro exI [of _ j]) (simp add: nth_append)
    qed
    ultimately show ?thesis unfolding once_inv_def using once_invD(2-4) [OF inv] s' k by (auto simp: less_2_cases_iff intro: less_SucI)
  next
    case (M_join k)
    then have s': "s' = s\<lparr>mpc := (if k = 0 then M_join 1 else M_exit)\<rparr>" "opc (threads s ! k) = O_end"
      using m by (auto simp: onceMain_def split: if_splits)
    have "thread_ok s' i = thread_ok s i" for i using s' by (simp add: thread_ok_def)
    then show ?thesis using once_invD [OF inv] s' M_join unfolding once_inv_def by (auto simp: less_2_cases_iff)
  qed (use m in \<open>simp_all add: onceMain_def\<close>)
next
  case ONoThread
  assume "otick t s = Some s'" and inv: "once_inv s"
  with ONoThread obtain k where s': "s' = s\<lparr>mpc := M_failed\<rparr>" "mpc s = M_create k"
    by (auto simp: otick_def split: if_splits mpc.splits)
  have "thread_ok s' i = thread_ok s i" for i using s' by (simp add: thread_ok_def)
  then show ?thesis using once_invD [OF inv] s' unfolding once_inv_def by auto
qed (auto simp: otick_def intro: one_time_init_inv split: if_splits)

lemma once_init_inv: "once_inv once_init"
  by (simp add: once_inv_def once_init_def)

section \<open>Progress\<close>

primrec opos :: "opc \<Rightarrow> nat" where
  "opos O_lock = 0" | "opos O_test = 1" | "opos O_init = 2" | "opos O_set = 3" | "opos O_unlock = 4" | "opos O_end = 0"

primrec mwork :: "mpc \<Rightarrow> nat" where
  "mwork (M_create k) = (2 - k) * 11 + 2" | "mwork (M_join k) = 2 - k" | "mwork M_exit = 0" | "mwork M_failed = 0"

definition owork :: "oworld \<Rightarrow> nat" where
  "owork s = sum_list (map (\<lambda>t. 5 * calls_left t - opos (opc t)) (threads s)) + mwork (mpc s)"

lemma sum_list_update_less:
  "i < length xs \<Longrightarrow> f x < (f (xs ! i) :: nat) \<Longrightarrow> sum_list (map f (xs[i := x])) < sum_list (map f xs)"
  using sum_list_update_eq [of i xs f x] by simp

lemma otick_work: "otick t s = Some s' \<Longrightarrow> once_inv s \<Longrightarrow> owork s' < owork s"
proof (cases t)
  case OMain
  assume "otick t s = Some s'" "once_inv s"
  with OMain once_invD(6) [of s] show ?thesis
    by (auto simp: otick_def onceMain_def owork_def threadFunc_def less_2_cases_iff split: if_splits mpc.splits)
next
  case (OThread i)
  assume "otick t s = Some s'" and inv: "once_inv s"
  with OThread have o: "one_time_init i s = Some s'" by (simp add: otick_def split: if_splits)
  have ok: "i < length (threads s) \<Longrightarrow> opc (threads s ! i) \<noteq> O_end \<Longrightarrow> 0 < calls_left (threads s ! i)"
    using once_invD(1) [OF inv, of i] by (auto simp: thread_ok_def Let_def)
  from o show ?thesis
    by (cases rule: one_time_init_cases) (use ok in \<open>auto simp: owork_def intro!: sum_list_update_less\<close>)
next
  case ONoThread
  assume "otick t s = Some s'" "once_inv s"
  with ONoThread show ?thesis by (auto simp: otick_def owork_def split: if_splits mpc.splits)
qed

interpretation once: bounded_machine otick once_inv owork "\<lambda>_. 0"
  by unfold_locales (simp_all add: otick_inv otick_work)

lemma once_not_stuck:
  assumes inv: "once_inv s" and "mpc s \<noteq> M_exit" "mpc s \<noteq> M_failed"
  shows "onceMain s \<noteq> None \<or> (\<exists>i. one_time_init i s \<noteq> None)"
proof (cases "mpc s")
  case (M_join k)
  then have k: "length (threads s) = 2" "k < 2" using once_invD(6) [OF inv] by auto
  show ?thesis
  proof (cases "omtx (once s)")
    case None
    then have "\<not> inside (threads s ! k)" using once_invD(1) [OF inv, of k] k by (simp add: thread_ok_def Let_def)
    then have "opc (threads s ! k) = O_end \<or> opc (threads s ! k) = O_lock"
      by (cases "opc (threads s ! k)") (simp_all add: inside_def)
    then show ?thesis using k M_join None by (auto simp: onceMain_def one_time_init_def Let_def intro!: exI [of _ k])
  next
    case (Some i)
    then have "i < length (threads s)" "inside (threads s ! i)"
      using once_invD(1,2) [OF inv, of i] by (auto simp: thread_ok_def Let_def)
    then have "one_time_init i s \<noteq> None" by (auto simp: one_time_init_def inside_def Let_def)
    then show ?thesis by blast
  qed
qed (use assms in \<open>simp_all add: onceMain_def\<close>)

section \<open>Correctness\<close>

text \<open>
  C16. In every interleaving of \<open>main\<close> and the two threads the initialisation function runs at
  most once; when a call of \<open>one_time_init\<close> has returned in some thread it has run, and so it
  has when \<open>main\<close> exits. Until then some thread can go on, and no run has more than 24 steps.
\<close>

theorem once_exactly_once:
  assumes "orun ts once_init = Some s"
  shows "inits s \<le> 1 \<and> (\<forall>t \<in> set (threads s). calls_left t < 2 \<longrightarrow> inits s = 1) \<and> (mpc s = M_exit \<longrightarrow> inits s = 1) \<and>
    (mpc s = M_exit \<or> mpc s = M_failed \<or> onceMain s \<noteq> None \<or> (\<exists>i. one_time_init i s \<noteq> None)) \<and> length ts \<le> 24"
proof -
  have inv: "once_inv s" by (rule once.run_inv [OF assms once_init_inv])
  have c: "inits s = 1" if "t \<in> set (threads s)" "calls_left t < 2" for t
    using that once_invD(1,3) [OF inv] by (auto simp: in_set_conv_nth thread_ok_def Let_def)
  have "inits s = 1" if "mpc s = M_exit"
  proof -
    have "length (threads s) = 2" "opc (threads s ! 0) = O_end" using once_invD(6) [OF inv] that by auto
    with once_invD(1) [OF inv, of 0] have "calls_left (threads s ! 0) < 2" by (simp add: thread_ok_def Let_def)
    then show ?thesis using c [of "threads s ! 0"] \<open>length (threads s) = 2\<close> by simp
  qed
  moreover have "length ts \<le> 24" using once.run_bound [OF assms once_init_inv] by (simp add: owork_def once_init_def)
  ultimately show ?thesis using c once_invD(4) [OF inv] once_not_stuck [OF inv] by blast
qed

theorem once_exactly_once_witness:
  "\<exists>s. orun [OMain, OThread 0, OMain, OThread 0, OThread 0, OThread 0, OThread 0, OThread 1, OThread 1, OThread 1,
          OThread 0, OThread 0, OThread 0, OThread 1, OThread 1, OThread 1, OMain, OMain] once_init = Some s \<and>
     mpc s = M_exit \<and> inits s = 1"
proof -
  let ?ts = "[OMain, OThread 0, OMain, OThread 0, OThread 0, OThread 0, OThread 0, OThread 1, OThread 1, OThread 1,
          OThread 0, OThread 0, OThread 0, OThread 1, OThread 1, OThread 1, OMain, OMain]"
  obtain s where s: "orun ?ts once_init = Some s" "mpc s = M_exit"
    by (simp add: otick_def onceMain_def one_time_init_def once_init_def threadFunc_def Let_def)
  with once_exactly_once [OF s(1)] show ?thesis by blast
qed

end
