(* ===== verification/SemInit.thy ===== *)
theory SemInit
  imports SysVSem GetNum Machines
begin

text \<open>
  Initialisation of a System V semaphore by processes that race for it: \<open>svsem/svsem_good_init.c\<close>,
  and \<open>svsem/svsem_bad_init.c\<close>, which shows how not to do it. Any number of processes run the
  program at the same time; a schedule is a list of process numbers.
\<close>

section \<open>State\<close>

text \<open>
  The semaphore set with the key 12345, once it exists, and whether its \<open>sem_otime\<close> is nonzero.
  \<open>performed\<close> logs the amounts of the operations in which the programs are interested (the last
  \<open>semop\<close> of \<open>main\<close>), \<open>setvals\<close> counts the calls of \<open>SETVAL\<close>.
\<close>

datatype gpc = G_create | G_setval | G_dummy | G_get | G_poll nat | G_op | G_done | G_failed

record gproc =
  gpc :: gpc
  garg :: string

record semkey =
  sset :: "semset option"
  otime :: bool
  performed :: "int list"
  setvals :: nat
  procs :: "gproc list"

abbreviation (input) MAX_TRIES :: nat where "MAX_TRIES \<equiv> 10"

definition goto :: "nat \<Rightarrow> gpc \<Rightarrow> semkey \<Rightarrow> semkey" where
  "goto i p s = s\<lparr>procs := (procs s)[i := (procs s ! i)\<lparr>gpc := p\<rparr>]\<rparr>"

section \<open>The correct initialisation\<close>

definition semOp :: "int \<Rightarrow> sembuf" where
  "semOp amount = \<lparr>sem_num = 0, sem_op = word_of_int amount, sem_flg = 0\<rparr>"

text \<open>
  One statement of process \<open>i\<close>. A new semaphore has the value \<open>garbage\<close>: the standards leave it
  open. A \<open>semop\<close> that would block cannot take place.
\<close>

definition goodInit :: "int \<Rightarrow> nat \<Rightarrow> semkey \<Rightarrow> semkey option" where
  "goodInit garbage i s =
     (if length (procs s) \<le> i then None
      else case gpc (procs s ! i) of
        G_create \<Rightarrow>
          (case sset s of
             None \<Rightarrow> Some (goto i G_setval (s\<lparr>sset := Some \<lparr>semval = [garbage], semadj = [0]\<rparr>, otime := False\<rparr>))
           | Some _ \<Rightarrow> Some (goto i G_get s))
      | G_setval \<Rightarrow>
          (case sset s of
             None \<Rightarrow> Some (goto i G_failed s)
           | Some q \<Rightarrow>
               (case semctl_SETVAL 0 0 q of
                  (Inl _, _) \<Rightarrow> Some (goto i G_failed s)
                | (Inr _, q') \<Rightarrow> Some (goto i G_dummy (s\<lparr>sset := Some q', setvals := setvals s + 1\<rparr>))))
      | G_dummy \<Rightarrow>
          (case sset s of
             None \<Rightarrow> Some (goto i G_failed s)
           | Some q \<Rightarrow>
               (case semop [semOp 0] q of
                  Performed q' \<Rightarrow> Some (goto i G_op (s\<lparr>sset := Some q', otime := True\<rparr>))
                | WouldBlock \<Rightarrow> None
                | SemError _ \<Rightarrow> Some (goto i G_failed s)))
      | G_get \<Rightarrow> Some (goto i (if sset s = None then G_failed else G_poll 0) s)
      | G_poll j \<Rightarrow>
          Some (goto i (if otime s then G_op else if j + 1 < MAX_TRIES then G_poll (j + 1) else G_failed) s)
      | G_op \<Rightarrow>
          (case getInt (Some (garg (procs s ! i))) 0 (Some ''sem-op'') of
             Inl _ \<Rightarrow> Some (goto i G_failed s)
           | Inr n \<Rightarrow>
               (case sset s of
                  None \<Rightarrow> Some (goto i G_failed s)
                | Some q \<Rightarrow>
                    (case semop [semOp n] q of
                       Performed q' \<Rightarrow>
                         Some (goto i G_done (s\<lparr>sset := Some q', otime := True,
                                              performed := performed s @ [sint (word_of_int n :: short)]\<rparr>))
                     | WouldBlock \<Rightarrow> None
                     | SemError _ \<Rightarrow> Some (goto i G_failed s))))
      | G_done \<Rightarrow> None
      | G_failed \<Rightarrow> None)"

section \<open>The wrong initialisation\<close>

text \<open>\<open>svsem_bad_init.c\<close>: no operation after \<open>SETVAL\<close>, and no waiting; the last operation adds 1.\<close>

definition badInit :: "int \<Rightarrow> nat \<Rightarrow> semkey \<Rightarrow> semkey option" where
  "badInit garbage i s =
     (if length (procs s) \<le> i then None
      else case gpc (procs s ! i) of
        G_create \<Rightarrow>
          (case sset s of
             None \<Rightarrow> Some (goto i G_setval (s\<lparr>sset := Some \<lparr>semval = [garbage], semadj = [0]\<rparr>, otime := False\<rparr>))
           | Some _ \<Rightarrow> Some (goto i G_get s))
      | G_setval \<Rightarrow>
          (case sset s of
             None \<Rightarrow> Some (goto i G_failed s)
           | Some q \<Rightarrow>
               (case semctl_SETVAL 0 0 q of
                  (Inl _, _) \<Rightarrow> Some (goto i G_failed s)
                | (Inr _, q') \<Rightarrow> Some (goto i G_op (s\<lparr>sset := Some q', setvals := setvals s + 1\<rparr>))))
      | G_get \<Rightarrow> Some (goto i (if sset s = None then G_failed else G_op) s)
      | G_op \<Rightarrow>
          (case sset s of
             None \<Rightarrow> Some (goto i G_failed s)
           | Some q \<Rightarrow>
               (case semop [semOp 1] q of
                  Performed q' \<Rightarrow>
                    Some (goto i G_done (s\<lparr>sset := Some q', otime := True, performed := performed s @ [1]\<rparr>))
                | WouldBlock \<Rightarrow> None
                | SemError _ \<Rightarrow> Some (goto i G_failed s)))
      | _ \<Rightarrow> None)"

definition semkey_init :: "string list \<Rightarrow> semkey" where
  "semkey_init args = \<lparr>sset = None, otime = False, performed = [], setvals = 0,
     procs = map (\<lambda>a. \<lparr>gpc = G_create, garg = a\<rparr>) args\<rparr>"

section \<open>Invariant\<close>

text \<open>
  Three phases: no semaphore yet; created by one process, which is about to initialise it; and
  initialised, from when on the value is the sum of the operations.
\<close>

definition initialising :: "gpc \<Rightarrow> bool" where
  "initialising p \<longleftrightarrow> p = G_setval \<or> p = G_dummy"

definition ginv :: "semkey \<Rightarrow> bool" where
  "ginv s \<longleftrightarrow>
     (case sset s of
        None \<Rightarrow> \<not> otime s \<and> performed s = [] \<and> setvals s = 0 \<and> (\<forall>p \<in> set (procs s). gpc p = G_create)
      | Some q \<Rightarrow>
          length (semval q) = 1 \<and>
          (if otime s
           then setvals s = 1 \<and> semval q ! 0 = sum_list (performed s) \<and> (\<forall>p \<in> set (procs s). \<not> initialising (gpc p))
           else performed s = [] \<and>
             (\<exists>i < length (procs s). initialising (gpc (procs s ! i)) \<and>
                (gpc (procs s ! i) = G_setval \<longrightarrow> setvals s = 0) \<and>
                (gpc (procs s ! i) = G_dummy \<longrightarrow> setvals s = 1 \<and> semval q ! 0 = 0) \<and>
                (\<forall>j < length (procs s). j \<noteq> i \<longrightarrow> \<not> initialising (gpc (procs s ! j)) \<and>
                   gpc (procs s ! j) \<noteq> G_op \<and> gpc (procs s ! j) \<noteq> G_done))))"

lemma semop_semOp:
  assumes "length (semval q) = 1"
  shows "semop [semOp n] q =
    (let d = sint (word_of_int n :: short); v = semval q ! 0 + d in
     if d = 0 \<and> v \<noteq> 0 \<or> v < 0 then WouldBlock
     else if SEMVMX < v then SemError ERANGE
     else Performed (q\<lparr>semval := [v]\<rparr>))"
proof -
  have u: "(semval q)[0 := v] = [v]" for v using assms by (cases "semval q") auto
  show ?thesis using assms by (simp add: semop1_def semOp_def Let_def u)
qed

lemma procs_goto: "procs (goto i p s) = (procs s)[i := (procs s ! i)\<lparr>gpc := p\<rparr>]" "sset (goto i p s) = sset s"
  "otime (goto i p s) = otime s" "performed (goto i p s) = performed s" "setvals (goto i p s) = setvals s"
  by (simp_all add: goto_def)

lemma in_procs_goto: "r \<in> set (procs (goto i p s)) \<Longrightarrow> r \<in> set (procs s) \<or> r = (procs s ! i)\<lparr>gpc := p\<rparr>"
  unfolding procs_goto using set_update_subset_insert by fastforce

text \<open>A step of a process that does not touch the semaphore.\<close>

lemma ginv_move:
  assumes inv: "ginv s" and q: "sset s = Some q" and i: "i < length (procs s)" "\<not> initialising (gpc (procs s ! i))"
    and p: "\<not> initialising p" "otime s \<or> p \<noteq> G_op \<and> p \<noteq> G_done"
  shows "ginv (goto i p s)"
proof (cases "otime s")
  case True
  then show ?thesis using inv q p in_procs_goto [of _ i p s] by (fastforce simp: ginv_def procs_goto(2-))
next
  case False
  with inv q obtain k where k: "k < length (procs s)" "initialising (gpc (procs s ! k))"
      "gpc (procs s ! k) = G_setval \<longrightarrow> setvals s = 0" "gpc (procs s ! k) = G_dummy \<longrightarrow> setvals s = 1 \<and> semval q ! 0 = 0"
      "\<forall>j < length (procs s). j \<noteq> k \<longrightarrow> \<not> initialising (gpc (procs s ! j)) \<and> gpc (procs s ! j) \<noteq> G_op \<and> gpc (procs s ! j) \<noteq> G_done"
    by (auto simp: ginv_def)
  have "k \<noteq> i" using k(2) i(2) by auto
  have "\<forall>j < length (procs s). j \<noteq> k \<longrightarrow> \<not> initialising (gpc ((procs s)[i := (procs s ! i)\<lparr>gpc := p\<rparr>] ! j)) \<and>
      gpc ((procs s)[i := (procs s ! i)\<lparr>gpc := p\<rparr>] ! j) \<noteq> G_op \<and> gpc ((procs s)[i := (procs s ! i)\<lparr>gpc := p\<rparr>] ! j) \<noteq> G_done"
    using k(5) p False i(1) by (auto simp: nth_list_update)
  with k(1-4) \<open>k \<noteq> i\<close> inv q False show ?thesis
    unfolding ginv_def procs_goto by (auto intro!: exI [of _ k])
qed

text \<open>The process that initialises the semaphore is the only one that can be past the creation.\<close>

lemma ginv_initialising:
  assumes inv: "ginv s" and i: "i < length (procs s)" "initialising (gpc (procs s ! i))"
  obtains q where "sset s = Some q" "\<not> otime s" "performed s = []" "length (semval q) = 1"
    "gpc (procs s ! i) = G_setval \<longrightarrow> setvals s = 0" "gpc (procs s ! i) = G_dummy \<longrightarrow> setvals s = 1 \<and> semval q ! 0 = 0"
    "\<forall>j < length (procs s). j \<noteq> i \<longrightarrow> \<not> initialising (gpc (procs s ! j)) \<and> gpc (procs s ! j) \<noteq> G_op \<and> gpc (procs s ! j) \<noteq> G_done"
proof -
  have mem: "procs s ! i \<in> set (procs s)" using i(1) by simp
  obtain q where q: "sset s = Some q" using inv i mem by (cases "sset s") (auto simp: ginv_def initialising_def)
  have o: "\<not> otime s" using inv i mem q by (auto simp: ginv_def)
  with inv q obtain k where k: "k < length (procs s)"
      "gpc (procs s ! k) = G_setval \<longrightarrow> setvals s = 0" "gpc (procs s ! k) = G_dummy \<longrightarrow> setvals s = 1 \<and> semval q ! 0 = 0"
      "\<forall>j < length (procs s). j \<noteq> k \<longrightarrow> \<not> initialising (gpc (procs s ! j)) \<and> gpc (procs s ! j) \<noteq> G_op \<and> gpc (procs s ! j) \<noteq> G_done"
    and pl: "performed s = []" "length (semval q) = 1"
    by (auto simp: ginv_def)
  have "k = i" using k(4) i by auto
  then show ?thesis using that q o pl k by blast
qed

lemma ginv_after_init:
  assumes inv: "ginv s" and i: "i < length (procs s)" "gpc (procs s ! i) = G_op \<or> gpc (procs s ! i) = G_done"
  obtains q where "sset s = Some q" "otime s" "length (semval q) = 1" "setvals s = 1" "semval q ! 0 = sum_list (performed s)"
    "\<forall>p \<in> set (procs s). \<not> initialising (gpc p)"
proof -
  have mem: "procs s ! i \<in> set (procs s)" using i(1) by simp
  obtain q where q: "sset s = Some q" using inv i mem by (cases "sset s") (auto simp: ginv_def)
  have o: "otime s"
  proof (rule ccontr)
    assume "\<not> otime s"
    with inv q obtain k where "initialising (gpc (procs s ! k))"
      "\<forall>j < length (procs s). j \<noteq> k \<longrightarrow> gpc (procs s ! j) \<noteq> G_op \<and> gpc (procs s ! j) \<noteq> G_done" by (auto simp: ginv_def)
    then show False using i by (cases "i = k") (auto simp: initialising_def)
  qed
  then show ?thesis using that inv q by (auto simp: ginv_def)
qed

lemma ginv_created:
  assumes "ginv s" "i < length (procs s)" "gpc (procs s ! i) \<noteq> G_create" shows "\<exists>q. sset s = Some q"
  using assms nth_mem [OF assms(2)] by (cases "sset s") (auto simp: ginv_def)

lemma goodInit_create:
  assumes "goodInit g i s = Some s'" and inv: "ginv s" and i: "i < length (procs s)" and p: "gpc (procs s ! i) = G_create"
  shows "ginv s'"
proof (cases "sset s")
  case None
  let ?t = "s\<lparr>sset := Some \<lparr>semval = [g], semadj = [0]\<rparr>, otime := False\<rparr>"
  have s': "s' = goto i G_setval ?t" using assms(1) i p None by (simp add: goodInit_def)
  have all: "performed s = []" "setvals s = 0" "\<forall>j < length (procs s). gpc (procs s ! j) = G_create"
    using inv None by (auto simp: ginv_def)
  have "\<forall>j < length (procs s). j \<noteq> i \<longrightarrow> gpc ((procs s)[i := (procs s ! i)\<lparr>gpc := G_setval\<rparr>] ! j) = G_create"
    using all(3) by simp
  then show ?thesis using s' all(1,2) i
    unfolding ginv_def s' procs_goto by (auto simp: initialising_def intro!: exI [of _ i])
next
  case (Some q)
  then show ?thesis using assms(1) p ginv_move [OF inv Some i, of G_get] i by (auto simp: goodInit_def initialising_def)
qed

lemma goodInit_setval:
  assumes "goodInit g i s = Some s'" and inv: "ginv s" and i: "i < length (procs s)" and p: "gpc (procs s ! i) = G_setval"
  shows "ginv s'"
proof -
  obtain q where q: "sset s = Some q" "\<not> otime s" "performed s = []" "length (semval q) = 1" "setvals s = 0"
      "\<forall>j < length (procs s). j \<noteq> i \<longrightarrow> \<not> initialising (gpc (procs s ! j)) \<and> gpc (procs s ! j) \<noteq> G_op \<and> gpc (procs s ! j) \<noteq> G_done"
    using ginv_initialising [OF inv i] p by (auto simp: initialising_def)
  have s': "s' = goto i G_dummy (s\<lparr>sset := Some (q\<lparr>semval := (semval q)[0 := 0], semadj := (semadj q)[0 := 0]\<rparr>), setvals := setvals s + 1\<rparr>)"
    using assms(1) i p q(1,4) by (simp add: goodInit_def semctl_SETVAL_def)
  show ?thesis unfolding s' ginv_def procs_goto using q i by (auto simp: initialising_def intro!: exI [of _ i])
qed

lemma goodInit_dummy:
  assumes "goodInit g i s = Some s'" and inv: "ginv s" and i: "i < length (procs s)" and p: "gpc (procs s ! i) = G_dummy"
  shows "ginv s'"
proof -
  obtain q where q: "sset s = Some q" "\<not> otime s" "performed s = []" "length (semval q) = 1" "setvals s = 1" "semval q ! 0 = 0"
      "\<forall>j < length (procs s). j \<noteq> i \<longrightarrow> \<not> initialising (gpc (procs s ! j)) \<and> gpc (procs s ! j) \<noteq> G_op \<and> gpc (procs s ! j) \<noteq> G_done"
    using ginv_initialising [OF inv i] p by (auto simp: initialising_def)
  have s': "s' = goto i G_op (s\<lparr>sset := Some (q\<lparr>semval := [0]\<rparr>), otime := True\<rparr>)"
    using assms(1) i p q(1,6) semop_semOp [OF q(4), of 0] by (simp add: goodInit_def)
  have "\<not> initialising (gpc r)" if "r \<in> set ((procs s)[i := (procs s ! i)\<lparr>gpc := G_op\<rparr>])" for r
  proof -
    from that obtain j where "j < length (procs s)" "r = (procs s)[i := (procs s ! i)\<lparr>gpc := G_op\<rparr>] ! j"
      by (auto simp: in_set_conv_nth)
    then show ?thesis using q(7) i by (cases "j = i") (auto simp: initialising_def)
  qed
  then show ?thesis unfolding s' ginv_def procs_goto using q by simp
qed

lemma goodInit_oper:
  assumes "goodInit g i s = Some s'" and inv: "ginv s" and i: "i < length (procs s)" and p: "gpc (procs s ! i) = G_op"
  shows "ginv s'"
proof -
  obtain q where q: "sset s = Some q" "otime s" "length (semval q) = 1" "setvals s = 1"
    "semval q ! 0 = sum_list (performed s)" "\<forall>p \<in> set (procs s). \<not> initialising (gpc p)"
    using ginv_after_init [OF inv i] p by blast
  have f: "ginv (goto i G_failed s)" using ginv_move [OF inv q(1) i, of G_failed] p by (simp add: initialising_def)
  show ?thesis
  proof (cases "getInt (Some (garg (procs s ! i))) 0 (Some ''sem-op'')")
    case (Inr n)
    let ?d = "sint (word_of_int n :: short)" and ?v = "semval q ! 0 + sint (word_of_int n :: short)"
    consider "s' = goto i G_failed s" | "s' = goto i G_done (s\<lparr>sset := Some (q\<lparr>semval := [?v]\<rparr>), otime := True, performed := performed s @ [?d]\<rparr>)"
      using assms(1) i p Inr q(1) semop_semOp [OF q(3), of n] by (auto simp: goodInit_def Let_def split: if_splits)
    then show ?thesis
    proof cases
      case 2
      have "\<forall>p \<in> set ((procs s)[i := (procs s ! i)\<lparr>gpc := G_done\<rparr>]). \<not> initialising (gpc p)"
        using q(6) set_update_subset_insert [of "procs s" i] by (fastforce simp: initialising_def)
      then show ?thesis unfolding 2 ginv_def procs_goto using q by simp
    qed (use f in simp)
  qed (use assms(1) i p f in \<open>simp add: goodInit_def\<close>)
qed

lemma goodInit_inv:
  assumes "goodInit g i s = Some s'" and inv: "ginv s"
  shows "ginv s'"
proof -
  have i: "i < length (procs s)" using assms(1) by (auto simp: goodInit_def split: if_splits)
  have mv: "ginv (goto i p s)"
    if "gpc (procs s ! i) = G_get \<or> (\<exists>j. gpc (procs s ! i) = G_poll j)" "\<not> initialising p" "otime s \<or> p \<noteq> G_op \<and> p \<noteq> G_done" for p
    using ginv_created [OF inv i] ginv_move [OF inv _ i, of _ p] that by (auto simp: initialising_def)
  show ?thesis
    by (cases "gpc (procs s ! i)")
      (use assms i mv goodInit_create [OF assms i] goodInit_setval [OF assms i] goodInit_dummy [OF assms i] goodInit_oper [OF assms i]
       in \<open>auto simp: goodInit_def initialising_def\<close>)
qed

interpretation good_init: machine "goodInit g" ginv for g
  by unfold_locales (rule goodInit_inv)

lemma ginv_init: "ginv (semkey_init args)"
  by (simp add: ginv_def semkey_init_def)

text \<open>The log has one entry for each process that is done.\<close>

definition done_procs :: "semkey \<Rightarrow> nat" where
  "done_procs s = length (filter (\<lambda>p. gpc p = G_done) (procs s))"

lemma done_goto:
  assumes "i < length (procs s)" "gpc (procs s ! i) \<noteq> G_done"
  shows "done_procs (goto i p s) = done_procs s + (if p = G_done then 1 else 0)"
proof -
  have "length (filter P (xs[k := x])) = length (filter P xs) + (if P x then 1 else 0)" if "k < length xs" "\<not> P (xs ! k)"
    for P xs k and x :: gproc
    using that by (induction xs arbitrary: k) (auto split: nat.splits)
  then show ?thesis unfolding done_procs_def procs_goto using assms by simp
qed

lemma done_procs_cong: "procs t = procs s \<Longrightarrow> done_procs t = done_procs s"
  by (simp add: done_procs_def)

definition advances :: "semkey \<Rightarrow> nat \<Rightarrow> semkey \<Rightarrow> bool" where
  "advances s i s' \<longleftrightarrow> (\<exists>p t. s' = goto i p t \<and> procs t = procs s \<and>
     length (performed t) = length (performed s) + (if p = G_done then 1 else 0))"

lemma advancesI:
  "procs t = procs s \<Longrightarrow> length (performed t) = length (performed s) + (if p = G_done then 1 else 0) \<Longrightarrow> advances s i (goto i p t)"
  unfolding advances_def by blast

lemma goodInit_advances: "goodInit g i s = Some s' \<Longrightarrow> advances s i s'"
  by (cases "gpc (procs s ! i)")
    (auto simp: goodInit_def intro!: advancesI split: if_splits option.splits semres.splits sum.splits prod.splits)

lemma goodInit_done:
  assumes "goodInit g i s = Some s'" "length (performed s) = done_procs s"
  shows "length (performed s') = done_procs s'"
proof -
  have i: "i < length (procs s)" "gpc (procs s ! i) \<noteq> G_done" using assms(1) by (auto simp: goodInit_def split: if_splits)
  from goodInit_advances [OF assms(1)] obtain p t where "s' = goto i p t" "procs t = procs s"
    "length (performed t) = length (performed s) + (if p = G_done then 1 else 0)" by (auto simp: advances_def)
  then show ?thesis using done_goto [of i t p] i assms(2) done_procs_cong [of t s] by (simp add: procs_goto)
qed

interpretation good_init_log: machine "goodInit g" "\<lambda>s. length (performed s) = done_procs s" for g
  by unfold_locales (rule goodInit_done)

section \<open>Properties\<close>

text \<open>
  C13. Any number of processes that run \<open>svsem_good_init\<close> at the same time, in any interleaving and
  whatever value the new semaphore had: it is initialised at most once, and before any process
  comes to its operation; no operation is lost, so the value is the sum of the operations of
  the processes that are done.
\<close>

theorem good_init_no_lost_operation:
  assumes "run_steps (goodInit garbage) sched (semkey_init args) = Some s"
  shows "setvals s \<le> 1 \<and> length (performed s) = length (filter (\<lambda>p. gpc p = G_done) (procs s)) \<and>
    ((\<exists>p \<in> set (procs s). gpc p = G_op \<or> gpc p = G_done) \<longrightarrow>
       (\<exists>q. sset s = Some q \<and> setvals s = 1 \<and> semval q = [sum_list (performed s)]))"
proof -
  have inv: "ginv s" by (rule good_init.run_inv [OF assms ginv_init])
  have "setvals s \<le> 1"
    using inv by (cases "sset s") (auto simp: ginv_def initialising_def split: if_splits)
  moreover have "length (performed s) = done_procs s"
    by (rule good_init_log.run_inv [OF assms]) (simp add: semkey_init_def done_procs_def)
  moreover have "\<exists>q. sset s = Some q \<and> setvals s = 1 \<and> semval q = [sum_list (performed s)]"
    if p: "p \<in> set (procs s)" "gpc p = G_op \<or> gpc p = G_done" for p
  proof -
    obtain i where "i < length (procs s)" "procs s ! i = p" using p(1) by (auto simp: in_set_conv_nth)
    with p(2) ginv_after_init [OF inv, of i] obtain q where "sset s = Some q" "length (semval q) = 1" "setvals s = 1"
      "semval q ! 0 = sum_list (performed s)" by metis
    then show ?thesis by (cases "semval q") auto
  qed
  ultimately show ?thesis unfolding done_procs_def by blast
qed

lemma getInt_sem_op: "getInt (Some ''3'') 0 (Some ''sem-op'') = Inr 3"
  by code_simp

theorem good_init_no_lost_operation_witness:
  "\<exists>s. run_steps (goodInit 77) [0, 1, 1, 1, 0, 0, 1, 1, 0] (semkey_init [''3'', ''3'']) = Some s \<and>
     (\<exists>q. sset s = Some q \<and> semval q = [6])"
proof -
  let ?sched = "[0, 1, 1, 1, 0, 0, 1, 1, 0]"
  have "map_option (\<lambda>s. (map gpc (procs s), performed s)) (run_steps (goodInit 77) ?sched (semkey_init [''3'', ''3''])) =
      Some ([G_done, G_done], [3, 3])"
    by code_simp
  then obtain s where s: "run_steps (goodInit 77) ?sched (semkey_init [''3'', ''3'']) = Some s"
    "map gpc (procs s) = [G_done, G_done]" "performed s = [3, 3]" by auto
  then have "\<exists>p \<in> set (procs s). gpc p = G_op \<or> gpc p = G_done" by (cases "procs s") auto
  with good_init_no_lost_operation [OF s(1)] s show ?thesis by auto
qed

text \<open>
  With \<open>svsem_bad_init\<close> two processes can both succeed and one of the two increments is lost.
\<close>

lemma bad_init_loses_operation:
  "\<exists>s. run_steps (badInit 0) [0, 1, 1, 1, 0, 0] (semkey_init [a, b]) = Some s \<and>
     performed s = [1, 1] \<and> map_option semval (sset s) = Some [1]"
  by (simp add: semkey_init_def badInit_def goto_def semctl_SETVAL_def semop_semOp Let_def del: semop.simps)

end
