(* ===== verification/StrError.thy ===== *)
theory StrError
  imports Prelude
begin

text \<open>
  Three implementations of \<open>strerror\<close>: \<open>threads/strerror.c\<close> with one static buffer,
  \<open>threads/strerror_tls.c\<close> with a thread-local buffer and \<open>threads/strerror_tsd.c\<close> with
  thread-specific data that is allocated on the first call. The locale \<open>thread_text\<close> is what a
  caller relies on; the last two implement it, the first does not.
\<close>

section \<open>The text of an error\<close>

abbreviation (input) MAX_ERROR_LEN :: nat where "MAX_ERROR_LEN \<equiv> 256"

text \<open>
  The table \<open>_sys_errlist\<close> with \<open>_sys_nerr\<close> entries. \<open>strncpy\<close> copies at most
  \<open>MAX_ERROR_LEN - 1\<close> bytes, and the assignment after it terminates the string.
\<close>

type_synonym errlist = "string option list"

definition errorText :: "errlist \<Rightarrow> int \<Rightarrow> string" where
  "errorText sys_errlist err =
     (if err < 0 \<or> err \<ge> int (length sys_errlist) \<or> sys_errlist ! nat err = None
      then fst (snprintf MAX_ERROR_LEN (''Unknown error '' @ show_int err))
      else take (MAX_ERROR_LEN - 1) (the (sys_errlist ! nat err)))"

section \<open>One static buffer\<close>

type_synonym tid = nat

text \<open>There is one buffer, so its address is \<open>()\<close>; the thread that calls plays no part.\<close>

definition strerror_static :: "errlist \<Rightarrow> tid \<Rightarrow> int \<Rightarrow> string \<Rightarrow> unit res \<times> string" where
  "strerror_static sys_errlist t err buf = (Ret (), errorText sys_errlist err)"

section \<open>Thread-local storage\<close>

text \<open>The variable \<open>buf\<close> exists once for each thread: its address is the thread.\<close>

definition strerror_tls :: "errlist \<Rightarrow> tid \<Rightarrow> int \<Rightarrow> (tid \<Rightarrow> string) \<Rightarrow> tid res \<times> (tid \<Rightarrow> string)" where
  "strerror_tls sys_errlist t err bufs = (Ret t, bufs(t := errorText sys_errlist err))"

section \<open>Thread-specific data\<close>

text \<open>
  The state: whether \<open>createKey\<close> has been called (by \<open>pthread_once\<close>), the value of the key for
  each thread, and the blocks that \<open>malloc\<close> has given out. \<open>tsd_calls\<close> says which of the calls
  of the library succeed.
\<close>

record tsd =
  key_created :: bool
  specific :: "tid \<Rightarrow> nat option"
  blocks :: "string list"

record tsd_calls =
  key_create_ok :: bool
  malloc_ok :: bool
  setspecific_ok :: bool

definition createKey :: "tsd_calls \<Rightarrow> tsd \<Rightarrow> unit res \<times> tsd" where
  "createKey E s = (if key_create_ok E then (Ret (), s\<lparr>key_created := True\<rparr>) else (Exit EXIT_FAILURE, s))"

definition pthread_once :: "(tsd \<Rightarrow> unit res \<times> tsd) \<Rightarrow> tsd \<Rightarrow> unit res \<times> tsd" where
  "pthread_once init s = (if key_created s then (Ret (), s) else init s)"

definition getBuffer :: "tsd_calls \<Rightarrow> tid \<Rightarrow> tsd \<Rightarrow> nat res \<times> tsd" where
  "getBuffer E t s =
     (case specific s t of
        Some b \<Rightarrow> (Ret b, s)
      | None \<Rightarrow>
          if \<not> malloc_ok E then (Exit EXIT_FAILURE, s)
          else let b = length (blocks s); s = s\<lparr>blocks := blocks s @ [[]]\<rparr> in
            if \<not> setspecific_ok E then (Exit EXIT_FAILURE, s)
            else (Ret b, s\<lparr>specific := (specific s)(t := Some b)\<rparr>))"

definition strerror_tsd :: "tsd_calls \<Rightarrow> errlist \<Rightarrow> tid \<Rightarrow> int \<Rightarrow> tsd \<Rightarrow> nat res \<times> tsd" where
  "strerror_tsd E sys_errlist t err =
     seq_res (pthread_once (createKey E)) (\<lambda>_.
     seq_res (getBuffer E t) (\<lambda>buf s. (Ret buf, s\<lparr>blocks := (blocks s)[buf := errorText sys_errlist err]\<rparr>)))"

section \<open>What a caller relies on\<close>

text \<open>
  A call made by a thread, with its environment; \<open>own s b t\<close> says that the buffer \<open>b\<close> belongs
  to the thread \<open>t\<close>. A call gives a buffer of the caller that holds the text, and leaves the
  buffers of all other threads alone.
\<close>

locale thread_text =
  fixes call :: "'e \<Rightarrow> tid \<Rightarrow> int \<Rightarrow> 's \<Rightarrow> 'b res \<times> 's"
    and content :: "'s \<Rightarrow> 'b \<Rightarrow> string"
    and own :: "'s \<Rightarrow> 'b \<Rightarrow> tid \<Rightarrow> bool"
    and good :: "'s \<Rightarrow> bool"
    and msg :: "int \<Rightarrow> string"
  assumes good_call: "good s \<Longrightarrow> call e t err s = (r, s') \<Longrightarrow> good s'"
    and result: "good s \<Longrightarrow> call e t err s = (Ret b, s') \<Longrightarrow> content s' b = msg err \<and> own s' b t"
    and others: "good s \<Longrightarrow> call e u err s = (r, s') \<Longrightarrow> own s b t \<Longrightarrow> u \<noteq> t \<Longrightarrow> content s' b = content s b \<and> own s' b t"
begin

fun calls :: "('e \<times> tid \<times> int) list \<Rightarrow> 's \<Rightarrow> 's" where
  "calls [] s = s"
| "calls ((e, t, err) # cs) s = calls cs (snd (call e t err s))"

lemma calls_keep:
  assumes "good s" "own s b t" "\<forall>(e, u, err) \<in> set cs. u \<noteq> t"
  shows "good (calls cs s) \<and> own (calls cs s) b t \<and> content (calls cs s) b = content s b"
  using assms
proof (induction cs arbitrary: s)
  case (Cons c cs)
  obtain e u err where c: "c = (e, u, err)" by (cases c)
  obtain r s' where k: "call e u err s = (r, s')" by (cases "call e u err s")
  then show ?case
    using Cons.IH [of s'] Cons.prems c good_call [OF Cons.prems(1) k] others [OF Cons.prems(1) k Cons.prems(2)] by simp
qed simp

lemma text_stays:
  assumes "good s" "call e t err s = (Ret b, s')" "\<forall>(e, u, err) \<in> set cs. u \<noteq> t"
  shows "content (calls cs s') b = msg err"
  using calls_keep [of s' b t cs] good_call [OF assms(1,2)] result [OF assms(1,2)] assms(3) by simp

end

definition tsd_good :: "tsd \<Rightarrow> bool" where
  "tsd_good s \<longleftrightarrow> (\<forall>t b. specific s t = Some b \<longrightarrow> b < length (blocks s)) \<and>
     (\<forall>t u b. specific s t = Some b \<longrightarrow> specific s u = Some b \<longrightarrow> t = u)"

text \<open>What a call does to the state, in one step.\<close>

lemma strerror_tsd_eq:
  "strerror_tsd E es t err s =
     (if \<not> key_created s \<and> \<not> key_create_ok E then (Exit EXIT_FAILURE, s)
      else case specific s t of
        Some b \<Rightarrow> (Ret b, s\<lparr>key_created := True, blocks := (blocks s)[b := errorText es err]\<rparr>)
      | None \<Rightarrow>
          if \<not> malloc_ok E then (Exit EXIT_FAILURE, s\<lparr>key_created := True\<rparr>)
          else if \<not> setspecific_ok E then (Exit EXIT_FAILURE, s\<lparr>key_created := True, blocks := blocks s @ [[]]\<rparr>)
          else (Ret (length (blocks s)), s\<lparr>key_created := True, specific := (specific s)(t := Some (length (blocks s))),
                  blocks := blocks s @ [errorText es err]\<rparr>))"
  by (cases s; cases "specific s t")
    (simp_all add: strerror_tsd_def seq_res_def pthread_once_def createKey_def getBuffer_def Let_def)

lemma strerror_tsd_cases:
  assumes "strerror_tsd E es t err s = (r, s')"
  obtains b where "r = Ret b" "specific s t = Some b" "blocks s' = (blocks s)[b := errorText es err]"
      "specific s' = specific s"
  | "r = Ret (length (blocks s))" "specific s t = None" "blocks s' = blocks s @ [errorText es err]"
      "specific s' = (specific s)(t := Some (length (blocks s)))"
  | bs where "r = Exit EXIT_FAILURE" "specific s' = specific s" "blocks s' = blocks s @ bs"
proof -
  have "(\<exists>b. r = Ret b \<and> specific s t = Some b \<and> blocks s' = (blocks s)[b := errorText es err] \<and> specific s' = specific s) \<or>
    r = Ret (length (blocks s)) \<and> specific s t = None \<and> blocks s' = blocks s @ [errorText es err] \<and>
      specific s' = (specific s)(t := Some (length (blocks s))) \<or>
    (\<exists>bs. r = Exit EXIT_FAILURE \<and> specific s' = specific s \<and> blocks s' = blocks s @ bs)"
    using assms unfolding strerror_tsd_eq by (auto split: if_splits option.splits)
  then show ?thesis
    by (elim disjE exE conjE) (rule that(1); assumption | rule that(2); assumption | rule that(3); assumption)+
qed

lemma tsd_good_extend:
  assumes "tsd_good s" "specific s' = specific s" "length (blocks s) \<le> length (blocks s')"
  shows "tsd_good s'"
  using assms unfolding tsd_good_def by (metis order_less_le_trans)

lemma tsd_good_call:
  assumes "tsd_good s" "strerror_tsd E es t err s = (r, s')" shows "tsd_good s'"
  using assms(2)
proof (cases rule: strerror_tsd_cases)
  case 2
  have "b < length (blocks s')" if "specific s' u = Some b" for u b
    using that 2 assms(1) by (auto simp: tsd_good_def less_Suc_eq split: if_splits)
  moreover have "u = v" if "specific s' u = Some b" "specific s' v = Some b" for u v b
    using that 2 assms(1) unfolding tsd_good_def by (auto split: if_splits)
  ultimately show ?thesis unfolding tsd_good_def by blast
qed (use tsd_good_extend [OF assms(1)] in auto)

interpretation tsd: thread_text "\<lambda>E. strerror_tsd E es" "\<lambda>s b. blocks s ! b" "\<lambda>s b t. specific s t = Some b"
  tsd_good "errorText es" for es
proof
  fix s E t err r s' assume g: "tsd_good s" and c: "strerror_tsd E es t err s = (r, s')"
  show "tsd_good s'" by (rule tsd_good_call [OF g c])
next
  fix s E t err b s' assume g: "tsd_good s" and c: "strerror_tsd E es t err s = (Ret b, s')"
  from c show "blocks s' ! b = errorText es err \<and> specific s' t = Some b"
    by (cases rule: strerror_tsd_cases) (use g in \<open>auto simp: tsd_good_def\<close>)
next
  fix s E u err r s' b t
  assume g: "tsd_good s" and c: "strerror_tsd E es u err s = (r, s')" and o: "specific s t = Some b" "u \<noteq> t"
  from c show "blocks s' ! b = blocks s ! b \<and> specific s' t = Some b"
  proof (cases rule: strerror_tsd_cases)
    case (1 b')
    then have "b' \<noteq> b" using g o by (auto simp: tsd_good_def)
    then show ?thesis using 1 o by simp
  qed (use g o in \<open>auto simp: tsd_good_def nth_append\<close>)
qed

interpretation tls: thread_text "\<lambda>_ :: unit. strerror_tls es" "\<lambda>s b. s b" "\<lambda>s b t. b = t" "\<lambda>_. True" "errorText es" for es
  by unfold_locales (auto simp: strerror_tls_def)

section \<open>Properties\<close>

lemma errorText_length: "length (errorText es err) < MAX_ERROR_LEN"
  by (auto simp: errorText_def snprintf_def min_def)

text \<open>
  Thread safety of \<open>strerror_tsd.c\<close>: after a successful call the buffer holds the text of the
  error (at most 255 bytes), and no sequence of calls in other threads, with whatever failures,
  changes it; a second call in the same thread returns the same buffer.
\<close>

theorem strerror_tsd_thread_safe:
  assumes "tsd_good s" and "strerror_tsd E es t err s = (Ret b, s')" and "\<forall>(e, u, n) \<in> set cs. u \<noteq> t"
  shows "blocks (tsd.calls es cs s') ! b = errorText es err \<and> length (errorText es err) < MAX_ERROR_LEN \<and>
    (\<forall>E' err' b' s''. strerror_tsd E' es t err' (tsd.calls es cs s') = (Ret b', s'') \<longrightarrow> b' = b)"
proof -
  have g: "tsd_good s'" by (rule tsd_good_call [OF assms(1,2)])
  have o: "specific s' t = Some b" using tsd.result [OF assms(1,2)] by simp
  have k: "tsd_good (tsd.calls es cs s')" "specific (tsd.calls es cs s') t = Some b"
    using tsd.calls_keep [OF g o assms(3)] by simp_all
  have "b' = b" if "strerror_tsd E' es t err' (tsd.calls es cs s') = (Ret b', s'')" for E' err' b' s''
    using that by (cases rule: strerror_tsd_cases) (use k(2) in auto)
  then show ?thesis using tsd.text_stays [OF assms(1,2,3)] errorText_length [of es err] by blast
qed

theorem strerror_tsd_thread_safe_witness:
  "\<exists>s'. strerror_tsd \<lparr>key_create_ok = True, malloc_ok = True, setspecific_ok = True\<rparr> [None, Some ''EPERM''] 0 1
       \<lparr>key_created = False, specific = (\<lambda>_. None), blocks = []\<rparr> = (Ret 0, s') \<and>
     blocks (tsd.calls [None, Some ''EPERM'']
       [(\<lparr>key_create_ok = True, malloc_ok = True, setspecific_ok = True\<rparr>, 1, 0)] s') ! 0 = ''EPERM''"
proof -
  let ?E = "\<lparr>key_create_ok = True, malloc_ok = True, setspecific_ok = True\<rparr>"
  let ?s = "\<lparr>key_created = False, specific = (\<lambda>_. None), blocks = []\<rparr>"
  have r: "strerror_tsd ?E [None, Some ''EPERM''] 0 1 ?s =
      (Ret 0, \<lparr>key_created = True, specific = (\<lambda>_. None)(0 := Some 0), blocks = [''EPERM'']\<rparr>)"
    by (simp add: strerror_tsd_def seq_res_def pthread_once_def createKey_def getBuffer_def errorText_def)
  have "errorText [None, Some ''EPERM''] 1 = ''EPERM''" by (simp add: errorText_def)
  with strerror_tsd_thread_safe [OF _ r, of "[(?E, 1, 0)]"] r show ?thesis by (simp add: tsd_good_def)
qed

lemma strerror_tls_thread_safe:
  assumes "strerror_tls es t err s = (Ret b, s')" and "\<forall>(e, u, n) \<in> set cs. u \<noteq> t"
  shows "tls.calls es cs s' b = errorText es err"
  using tls.text_stays [OF TrueI assms] .

text \<open>The version with one static buffer is not thread-safe: a call in another thread replaces the text.\<close>

lemma strerror_static_not_thread_safe:
  "\<exists>es err err'. snd (strerror_static es 1 err' (snd (strerror_static es 0 err buf))) \<noteq> errorText es err"
  by (rule exI [of _ "[Some ''a'', Some ''b'']"], rule exI [of _ 0], rule exI [of _ 1])
    (simp add: strerror_static_def errorText_def)

end
