(* ===== verification/MsgFile.thy ===== *)
theory MsgFile
  imports Machines
begin

text \<open>
  A file server that uses System V message queues: \<open>svmsg/svmsg_file_server.c\<close> and
  \<open>svmsg_file_client.c\<close>. The server, a child process of it for each request, and any number of
  clients are interleaved system call by system call. The files that the server can open are a
  parameter. A queue has a capacity; a message that does not fit blocks the sender.
\<close>

section \<open>Messages and processes\<close>

abbreviation (input) RESP_MSG_SIZE :: nat where "RESP_MSG_SIZE \<equiv> 8192"

datatype resp_type = RESP_MT_FAILURE | RESP_MT_DATA | RESP_MT_END

record responseMsg =
  mtype :: resp_type
  mdata :: string

text \<open>
  The queue of a client is identified by the number of the client: identifiers are not used
  again after a queue has been removed.
\<close>

record requestMsg =
  clientId :: nat
  pathname :: string

datatype child_pc = S_open | S_read | S_end | S_exit int

text \<open>\<open>rest\<close> is what the child has still to read from the file; \<open>fault\<close> records that \<open>read\<close> has failed.\<close>

record child =
  creq :: requestMsg
  chpc :: child_pc
  rest :: string
  fault :: bool

datatype client_pc = K_start | K_send | K_first | K_loop | K_exit int

text \<open>\<open>got\<close> is the data of the messages received, \<open>shown\<close> the message displayed for a failure.\<close>

record client =
  kpc :: client_pc
  argPath :: string
  queue :: "responseMsg list option"
  got :: string
  totBytes :: int
  numMsgs :: int
  shown :: string

record fserver =
  up :: bool
  requests :: "requestMsg list"
  children :: "child list"
  clients :: "client list"

section \<open>System calls\<close>

definition setClient :: "nat \<Rightarrow> (client \<Rightarrow> client) \<Rightarrow> fserver \<Rightarrow> fserver" where
  "setClient i f s = s\<lparr>clients := (clients s)[i := f (clients s ! i)]\<rparr>"

definition setChild :: "nat \<Rightarrow> (child \<Rightarrow> child) \<Rightarrow> fserver \<Rightarrow> fserver" where
  "setChild j f s = s\<lparr>children := (children s)[j := f (children s ! j)]\<rparr>"

definition fits :: "nat \<Rightarrow> responseMsg list \<Rightarrow> responseMsg \<Rightarrow> bool" where
  "fits cap ms m \<longleftrightarrow> sum_list (map (length \<circ> mdata) ms) + length (mdata m) \<le> cap \<and> length ms < cap"

text \<open>\<open>msgsnd\<close> to the queue of a client: blocked (\<open>None\<close>), or whether it succeeded.\<close>

definition msgsnd :: "nat \<Rightarrow> nat \<Rightarrow> responseMsg \<Rightarrow> fserver \<Rightarrow> (bool \<times> fserver) option" where
  "msgsnd cap i m s =
     (case queue (clients s ! i) of
        None \<Rightarrow> Some (False, s)
      | Some ms \<Rightarrow> if fits cap ms m then Some (True, setClient i (\<lambda>k. k\<lparr>queue := Some (ms @ [m])\<rparr>) s) else None)"

section \<open>The server\<close>

definition couldntOpen :: responseMsg where
  "couldntOpen = \<lparr>mtype = RESP_MT_FAILURE, mdata = ''Couldn'' @ [CHR 0x27] @ ''t open'' @ [CHR 0x00]\<rparr>"

text \<open>
  One system call of \<open>serveRequest\<close> in child \<open>j\<close>. \<open>files\<close> gives the contents of a file that can
  be opened; \<open>k\<close> is the largest number of bytes that this \<open>read\<close> delivers.
\<close>

definition serveRequest :: "nat \<Rightarrow> (string \<Rightarrow> string option) \<Rightarrow> nat \<Rightarrow> nat \<Rightarrow> fserver \<Rightarrow> fserver option" where
  "serveRequest cap files j k s =
     (if length (children s) \<le> j then None
      else let c = children s ! j; send = (\<lambda>m. msgsnd cap (clientId (creq c)) m s) in
      case chpc c of
        S_open \<Rightarrow>
          (case files (pathname (creq c)) of
             None \<Rightarrow>
               (case send couldntOpen of
                  None \<Rightarrow> None
                | Some (_, s') \<Rightarrow> Some (setChild j (\<lambda>c. c\<lparr>chpc := S_exit EXIT_FAILURE\<rparr>) s'))
           | Some content \<Rightarrow> Some (setChild j (\<lambda>c. c\<lparr>chpc := S_read, rest := content\<rparr>) s))
      | S_read \<Rightarrow>
          if k = 0 \<or> RESP_MSG_SIZE < k then None
          else if rest c = [] then Some (setChild j (\<lambda>c. c\<lparr>chpc := S_end\<rparr>) s)
          else (case send \<lparr>mtype = RESP_MT_DATA, mdata = take k (rest c)\<rparr> of
                  None \<Rightarrow> None
                | Some (True, s') \<Rightarrow> Some (setChild j (\<lambda>c. c\<lparr>rest := drop k (rest c)\<rparr>) s')
                | Some (False, s') \<Rightarrow> Some (setChild j (\<lambda>c. c\<lparr>chpc := S_end, rest := drop k (rest c)\<rparr>) s'))
      | S_end \<Rightarrow>
          (case send \<lparr>mtype = RESP_MT_END, mdata = []\<rparr> of
             None \<Rightarrow> None
           | Some (_, s') \<Rightarrow> Some (setChild j (\<lambda>c. c\<lparr>chpc := S_exit EXIT_SUCCESS\<rparr>) s'))
      | S_exit _ \<Rightarrow> None)"

text \<open>A \<open>read\<close> that fails ends the loop like the end of the file.\<close>

definition readFails :: "nat \<Rightarrow> fserver \<Rightarrow> fserver option" where
  "readFails j s =
     (if length (children s) \<le> j \<or> chpc (children s ! j) \<noteq> S_read then None
      else Some (setChild j (\<lambda>c. c\<lparr>chpc := S_end, fault := True\<rparr>) s))"

text \<open>The loop of the server's \<open>main\<close>: a request is received and a child created for it.\<close>

definition serverMain :: "bool \<Rightarrow> fserver \<Rightarrow> fserver option" where
  "serverMain forkOk s =
     (if \<not> up s then None
      else case requests s of
        [] \<Rightarrow> None
      | r # rs \<Rightarrow>
          if forkOk
          then Some (s\<lparr>requests := rs, children := children s @ [\<lparr>creq = r, chpc = S_open, rest = [], fault = False\<rparr>]\<rparr>)
          else Some (s\<lparr>up := False, requests := []\<rparr>))"

text \<open>An error of \<open>msgrcv\<close> other than \<open>EINTR\<close>: the queue is removed.\<close>

definition serverStops :: "fserver \<Rightarrow> fserver option" where
  "serverStops s = (if up s then Some (s\<lparr>up := False, requests := []\<rparr>) else None)"

section \<open>The client\<close>

text \<open>Every \<open>exit\<close> after the queue is created removes it.\<close>

definition leave :: "int \<Rightarrow> client \<Rightarrow> client" where
  "leave n k = k\<lparr>kpc := K_exit n, queue := None\<rparr>"

definition clientMain :: "nat \<Rightarrow> fserver \<Rightarrow> fserver option" where
  "clientMain i s =
     (if length (clients s) \<le> i then None
      else let k = clients s ! i in
      case kpc k of
        K_start \<Rightarrow>
          if length (argPath k) > PATH_MAX - 1 \<or> \<not> up s then Some (setClient i (leave EXIT_FAILURE) s)
          else Some (setClient i (\<lambda>k. k\<lparr>kpc := K_send, queue := Some []\<rparr>) s)
      | K_send \<Rightarrow>
          if \<not> up s then Some (setClient i (leave EXIT_FAILURE) s)
          else Some (setClient i (\<lambda>k. k\<lparr>kpc := K_first\<rparr>)
                 (s\<lparr>requests := requests s @ [\<lparr>clientId = i, pathname = take (PATH_MAX - 1) (argPath k)\<rparr>]\<rparr>))
      | K_first \<Rightarrow>
          (case queue k of
             Some (m # ms) \<Rightarrow>
               if mtype m = RESP_MT_FAILURE
               then Some (setClient i (\<lambda>k. leave EXIT_FAILURE (k\<lparr>shown := takeWhile (\<lambda>c. c \<noteq> CHR 0x00) (mdata m)\<rparr>)) s)
               else let k' = k\<lparr>queue := Some ms, got := mdata m, totBytes := int (length (mdata m)), numMsgs := 1\<rparr> in
                 Some (setClient i (\<lambda>_. if mtype m = RESP_MT_DATA then k'\<lparr>kpc := K_loop\<rparr> else leave EXIT_SUCCESS k') s)
           | _ \<Rightarrow> None)
      | K_loop \<Rightarrow>
          (case queue k of
             Some (m # ms) \<Rightarrow>
               let k' = k\<lparr>queue := Some ms, got := got k @ mdata m, totBytes := totBytes k + int (length (mdata m)),
                           numMsgs := numMsgs k + 1\<rparr> in
               Some (setClient i (\<lambda>_. if mtype m = RESP_MT_DATA then k'\<lparr>kpc := K_loop\<rparr> else leave EXIT_SUCCESS k') s)
           | _ \<Rightarrow> None)
      | K_exit _ \<Rightarrow> None)"

definition rcvFails :: "nat \<Rightarrow> fserver \<Rightarrow> fserver option" where
  "rcvFails i s =
     (if length (clients s) \<le> i \<or> kpc (clients s ! i) \<notin> {K_first, K_loop} then None
      else Some (setClient i (leave EXIT_FAILURE) s))"

section \<open>Runs\<close>

datatype mtick = Server bool | Stop | Child nat nat | ReadFails nat | Client nat | RcvFails nat

primrec mstep :: "nat \<Rightarrow> (string \<Rightarrow> string option) \<Rightarrow> mtick \<Rightarrow> fserver \<Rightarrow> fserver option" where
  "mstep cap files (Server b) s = serverMain b s"
| "mstep cap files Stop s = serverStops s"
| "mstep cap files (Child j k) s = serveRequest cap files j k s"
| "mstep cap files (ReadFails j) s = readFails j s"
| "mstep cap files (Client i) s = clientMain i s"
| "mstep cap files (RcvFails i) s = rcvFails i s"

abbreviation mrun :: "nat \<Rightarrow> (string \<Rightarrow> string option) \<Rightarrow> mtick list \<Rightarrow> fserver \<Rightarrow> fserver option" where
  "mrun cap files \<equiv> run_steps (mstep cap files)"

definition fserver_init :: "string list \<Rightarrow> fserver" where
  "fserver_init paths = \<lparr>up = True, requests = [], children = [],
     clients = map (\<lambda>p. \<lparr>kpc = K_start, argPath = p, queue = None, got = [], totBytes = 0, numMsgs = 0, shown = []\<rparr>) paths\<rparr>"

section \<open>Invariant\<close>

abbreviation (input) endMsg :: responseMsg where "endMsg \<equiv> \<lparr>mtype = RESP_MT_END, mdata = []\<rparr>"

definition waiting :: "client \<Rightarrow> bool" where
  "waiting k \<longleftrightarrow> kpc k = K_first \<and> queue k = Some [] \<and> got k = []"

definition gaveUp :: "client \<Rightarrow> bool" where
  "gaveUp k \<longleftrightarrow> kpc k = K_exit EXIT_FAILURE \<and> queue k = None"

definition dataMsgs :: "responseMsg list \<Rightarrow> bool" where
  "dataMsgs ms \<longleftrightarrow> (\<forall>m \<in> set ms. mtype m = RESP_MT_DATA)"

text \<open>The client has part of the contents, part is in its queue, and \<open>r\<close> is still to come.\<close>

definition receiving :: "string \<Rightarrow> string \<Rightarrow> client \<Rightarrow> bool" where
  "receiving content r k \<longleftrightarrow>
     (\<exists>ms. queue k = Some ms \<and> dataMsgs ms \<and> got k @ concat (map mdata ms) @ r = content) \<and>
     (kpc k = K_first \<and> got k = [] \<or> kpc k = K_loop)"

text \<open>The last message has been sent; \<open>r\<close> was not.\<close>

definition complete :: "string \<Rightarrow> string \<Rightarrow> client \<Rightarrow> bool" where
  "complete content r k \<longleftrightarrow>
     (\<exists>ms. queue k = Some (ms @ [endMsg]) \<and> dataMsgs ms \<and> got k @ concat (map mdata ms) @ r = content) \<and>
       (kpc k = K_first \<and> got k = [] \<or> kpc k = K_loop) \<or>
     kpc k = K_exit EXIT_SUCCESS \<and> queue k = None \<and> got k @ r = content"

definition served :: "(string \<Rightarrow> string option) \<Rightarrow> child \<Rightarrow> client \<Rightarrow> bool" where
  "served files c k \<longleftrightarrow> pathname (creq c) = argPath k \<and>
     (gaveUp k \<or>
      (case chpc c of
         S_open \<Rightarrow> waiting k
       | S_read \<Rightarrow> (\<exists>content. files (argPath k) = Some content \<and> receiving content (rest c) k)
       | S_end \<Rightarrow> (\<exists>content. files (argPath k) = Some content \<and> receiving content (rest c) k \<and> (fault c \<or> rest c = []))
       | S_exit _ \<Rightarrow>
           files (argPath k) = None \<and> kpc k = K_first \<and> queue k = Some [couldntOpen] \<or>
           (\<exists>content. files (argPath k) = Some content \<and> complete content (rest c) k \<and> (fault c \<or> rest c = []))))"

definition asked :: "fserver \<Rightarrow> nat list" where
  "asked s = map clientId (requests s) @ map (clientId \<circ> creq) (children s)"

text \<open>A client, given whether its request has been sent and whether the server is running.\<close>

definition client_ok :: "(string \<Rightarrow> string option) \<Rightarrow> bool \<Rightarrow> bool \<Rightarrow> client \<Rightarrow> bool" where
  "client_ok files sent running k \<longleftrightarrow>
     (if sent then kpc k \<noteq> K_start \<and> kpc k \<noteq> K_send
      else kpc k = K_start \<and> got k = [] \<or> kpc k = K_send \<and> queue k = Some [] \<and> got k = [] \<or> gaveUp k \<or> \<not> running \<and> waiting k) \<and>
     (kpc k = K_loop \<or> kpc k = K_exit EXIT_SUCCESS \<longrightarrow> totBytes k = int (length (got k))) \<and>
     (kpc k = K_start \<or> kpc k = K_send \<longrightarrow> shown k = []) \<and>
     (kpc k = K_send \<longrightarrow> length (argPath k) \<le> PATH_MAX - 1) \<and>
     (shown k \<noteq> [] \<longrightarrow> files (argPath k) = None)"

definition msg_inv :: "(string \<Rightarrow> string option) \<Rightarrow> fserver \<Rightarrow> bool" where
  "msg_inv files s \<longleftrightarrow>
     distinct (asked s) \<and>
     (\<forall>r \<in> set (requests s). clientId r < length (clients s) \<and> pathname r = argPath (clients s ! clientId r) \<and>
        (waiting (clients s ! clientId r) \<or> gaveUp (clients s ! clientId r))) \<and>
     (\<forall>c \<in> set (children s). clientId (creq c) < length (clients s) \<and> served files c (clients s ! clientId (creq c))) \<and>
     (\<forall>i < length (clients s). client_ok files (i \<in> set (asked s)) (up s) (clients s ! i)) \<and> (\<not> up s \<longrightarrow> requests s = [])"

lemma msg_invD:
  assumes "msg_inv files s"
  shows "distinct (asked s)"
    "r \<in> set (requests s) \<Longrightarrow> clientId r < length (clients s) \<and> pathname r = argPath (clients s ! clientId r) \<and>
        (waiting (clients s ! clientId r) \<or> gaveUp (clients s ! clientId r))"
    "c \<in> set (children s) \<Longrightarrow> clientId (creq c) < length (clients s) \<and> served files c (clients s ! clientId (creq c))"
    "i < length (clients s) \<Longrightarrow> client_ok files (i \<in> set (asked s)) (up s) (clients s ! i)" "\<not> up s \<Longrightarrow> requests s = []"
  using assms unfolding msg_inv_def by blast+

text \<open>One client changes; what is said of its requests and children has to be shown for the new state.\<close>

lemma msg_inv_client:
  assumes inv: "msg_inv files s" and i: "i < length (clients s)" and path: "argPath k = argPath (clients s ! i)"
    and req: "\<And>r. r \<in> set (requests s) \<Longrightarrow> clientId r = i \<Longrightarrow> waiting k \<or> gaveUp k"
    and chld: "\<And>c. c \<in> set (children s) \<Longrightarrow> clientId (creq c) = i \<Longrightarrow> served files c k"
    and ok: "client_ok files (i \<in> set (asked s)) (up s) k"
  shows "msg_inv files (setClient i (\<lambda>_. k) s)"
proof -
  let ?t = "setClient i (\<lambda>_. k) s"
  have t: "requests ?t = requests s" "children ?t = children s" "up ?t = up s" "asked ?t = asked s"
    "clients ?t = (clients s)[i := k]"
    by (simp_all add: setClient_def asked_def)
  have "clientId r < length (clients ?t) \<and> pathname r = argPath (clients ?t ! clientId r) \<and>
      (waiting (clients ?t ! clientId r) \<or> gaveUp (clients ?t ! clientId r))" if "r \<in> set (requests ?t)" for r
    using msg_invD(2) [OF inv, of r] that req [of r] path i by (cases "clientId r = i") (auto simp: t)
  moreover have "clientId (creq c) < length (clients ?t) \<and> served files c (clients ?t ! clientId (creq c))"
    if "c \<in> set (children ?t)" for c
    using msg_invD(3) [OF inv, of c] that chld [of c] i by (cases "clientId (creq c) = i") (auto simp: t)
  moreover have "client_ok files (j \<in> set (asked ?t)) (up ?t) (clients ?t ! j)" if "j < length (clients ?t)" for j
    using msg_invD(4) [OF inv, of j] that ok by (cases "j = i") (simp_all add: t)
  ultimately show ?thesis unfolding msg_inv_def using msg_invD(1,5) [OF inv] t(1,3,4) by auto
qed

text \<open>A child and its client change together.\<close>

lemma msg_inv_serve:
  assumes inv: "msg_inv files s" and j: "j < length (children s)" and i: "clientId (creq (children s ! j)) = i"
    and c: "creq c = creq (children s ! j)" and path: "argPath k = argPath (clients s ! i)" and sv: "served files c k"
    and ok: "client_ok files (i \<in> set (asked s)) (up s) k"
  shows "msg_inv files (setChild j (\<lambda>_. c) (setClient i (\<lambda>_. k) s))"
proof -
  let ?u = "setClient i (\<lambda>_. k) s" let ?t = "setChild j (\<lambda>_. c) ?u"
  have m: "children s ! j \<in> set (children s)" using j by simp
  have il: "i < length (clients s)" using msg_invD(3) [OF inv m] i by simp
  have a: "asked ?t = asked s"
    using map_update [of "clientId \<circ> creq" "children s" j c] list_update_id [of "map (clientId \<circ> creq) (children s)" j] c j
    by (simp add: setChild_def setClient_def asked_def)
  have t: "requests ?t = requests s" "children ?t = (children s)[j := c]" "up ?t = up s" "clients ?t = (clients s)[i := k]"
    by (simp_all add: setClient_def setChild_def)
  have other: "clientId (creq d) \<noteq> i" if "l < length (children s)" "l \<noteq> j" "d = children s ! l" for d l
    using msg_invD(1) [OF inv] that i j by (auto simp: asked_def distinct_conv_nth [of "map _ (children s)"])
  have noreq: "clientId r \<noteq> i" if "r \<in> set (requests s)" for r
    using msg_invD(1) [OF inv] that i m by (fastforce simp: asked_def)
  have "clientId r < length (clients ?t) \<and> pathname r = argPath (clients ?t ! clientId r) \<and>
      (waiting (clients ?t ! clientId r) \<or> gaveUp (clients ?t ! clientId r))" if "r \<in> set (requests ?t)" for r
    using msg_invD(2) [OF inv, of r] that noreq [of r] by (auto simp: t)
  moreover have "clientId (creq d) < length (clients ?t) \<and> served files d (clients ?t ! clientId (creq d))"
    if "d \<in> set (children ?t)" for d
  proof -
    from that obtain l where l: "l < length (children s)" "d = (children s)[j := c] ! l" by (auto simp: t in_set_conv_nth)
    show ?thesis
    proof (cases "l = j")
      case True
      then show ?thesis using l c i sv il by (simp add: t)
    next
      case False
      then have d: "d = children s ! l" using l by simp
      then show ?thesis using other [OF l(1) False d] msg_invD(3) [OF inv, of d] l(1) by (simp add: t)
    qed
  qed
  moreover have "client_ok files (l \<in> set (asked ?t)) (up ?t) (clients ?t ! l)" if "l < length (clients ?t)" for l
    using msg_invD(4) [OF inv, of l] that ok by (cases "l = i") (simp_all add: t a)
  ultimately show ?thesis unfolding msg_inv_def using msg_invD(1,5) [OF inv] t(1,3) a by auto
qed

lemma msg_inv_stopped:
  assumes inv: "msg_inv files s"
  shows "msg_inv files (s\<lparr>up := False, requests := []\<rparr>)"
proof -
  let ?t = "s\<lparr>up := False, requests := []\<rparr>"
  have "client_ok files (i \<in> set (asked ?t)) False (clients s ! i)" if i: "i < length (clients s)" for i
  proof (cases "i \<in> set (map clientId (requests s))")
    case True
    then obtain r where r: "r \<in> set (requests s)" "clientId r = i" by auto
    have "i \<notin> set (asked ?t)" using msg_invD(1) [OF inv] True by (auto simp: asked_def)
    then show ?thesis using msg_invD(4) [OF inv i] msg_invD(2) [OF inv r(1)] r(2)
      by (auto simp: client_ok_def waiting_def gaveUp_def)
  next
    case False
    then have "i \<in> set (asked ?t) \<longleftrightarrow> i \<in> set (asked s)" by (auto simp: asked_def)
    then show ?thesis using msg_invD(4) [OF inv i] by (auto simp: client_ok_def)
  qed
  moreover have "distinct (asked ?t)" using msg_invD(1) [OF inv] by (simp add: asked_def)
  ultimately show ?thesis unfolding msg_inv_def using msg_invD(3) [OF inv] by auto
qed

lemma serverMain_inv:
  assumes "serverMain b s = Some s'" and inv: "msg_inv files s"
  shows "msg_inv files s'"
proof -
  from assms(1) obtain r rs where r: "requests s = r # rs" and u: "up s"
    by (auto simp: serverMain_def split: if_splits list.splits)
  show ?thesis
  proof (cases b)
    case True
    let ?c = "\<lparr>creq = r, chpc = S_open, rest = [], fault = False\<rparr>"
    have s': "s' = s\<lparr>requests := rs, children := children s @ [?c]\<rparr>" using assms(1) r u True by (simp add: serverMain_def)
    have a: "distinct (asked s')" "set (asked s') = set (asked s)"
      using msg_invD(1) [OF inv] s' r by (auto simp: asked_def)
    have "served files ?c (clients s ! clientId r)" "clientId r < length (clients s)"
      using msg_invD(2) [OF inv, of r] r by (auto simp: served_def)
    then show ?thesis using msg_invD(2-4) [OF inv] u r a unfolding msg_inv_def by (auto simp: s')
  next
    case False
    have s': "s' = s\<lparr>up := False, requests := []\<rparr>" using assms(1) r u False by (simp add: serverMain_def)
    show ?thesis using msg_inv_stopped [OF inv] s' by simp
  qed
qed

text \<open>A client that has left is in order, whatever its child does.\<close>

lemma leave_simps [simp]: "gaveUp (leave EXIT_FAILURE k)" "argPath (leave n k) = argPath k" "kpc (leave n k) = K_exit n"
    "queue (leave n k) = None" "got (leave n k) = got k" "totBytes (leave n k) = totBytes k" "shown (leave n k) = shown k"
  by (simp_all add: leave_def gaveUp_def)

lemma leave_ok: "client_ok files b u k \<Longrightarrow> client_ok files b u (leave EXIT_FAILURE k)"
  by (auto simp: client_ok_def)

lemma served_path: "served files c k \<Longrightarrow> pathname (creq c) = argPath k"
  by (simp add: served_def)

lemma served_gaveUp: "gaveUp k' \<Longrightarrow> argPath k' = argPath k \<Longrightarrow> served files c k \<Longrightarrow> served files c k'"
  by (simp add: served_def)

lemma leave_inv:
  assumes inv: "msg_inv files s" and i: "i < length (clients s)" and k: "argPath k = argPath (clients s ! i)"
    and ok: "client_ok files (i \<in> set (asked s)) (up s) k"
  shows "msg_inv files (setClient i (\<lambda>_. leave EXIT_FAILURE k) s)"
proof (rule msg_inv_client [OF inv i])
  fix c assume "c \<in> set (children s)" "clientId (creq c) = i"
  then show "served files c (leave EXIT_FAILURE k)" using msg_invD(3) [OF inv, of c] k by (auto simp: served_def)
qed (use k leave_ok [OF ok] in simp_all)

lemma setClient_cong: "f (clients s ! i) = g (clients s ! i) \<Longrightarrow> setClient i f s = setClient i g s"
  by (simp add: setClient_def)

text \<open>The next message of a client that is being served.\<close>

lemma receive_first:
  assumes "served files c k" "kpc k = K_first" "queue k = Some (m # ms)"
  shows "mtype m = RESP_MT_FAILURE \<Longrightarrow> files (argPath k) = None"
    "mtype m = RESP_MT_DATA \<Longrightarrow>
       served files c (k\<lparr>queue := Some ms, got := mdata m, totBytes := tb, numMsgs := n, kpc := K_loop\<rparr>)"
    "mtype m = RESP_MT_END \<Longrightarrow>
       served files c (leave EXIT_SUCCESS (k\<lparr>queue := Some ms, got := mdata m, totBytes := tb, numMsgs := n\<rparr>))"
proof -
  have w: "\<not> waiting k" "\<not> gaveUp k" using assms(2,3) by (auto simp: waiting_def gaveUp_def)
  show "mtype m = RESP_MT_FAILURE \<Longrightarrow> files (argPath k) = None"
    using assms w by (cases "chpc c") (auto simp: served_def receiving_def complete_def dataMsgs_def Cons_eq_append_conv)
  show "mtype m = RESP_MT_DATA \<Longrightarrow>
       served files c (k\<lparr>queue := Some ms, got := mdata m, totBytes := tb, numMsgs := n, kpc := K_loop\<rparr>)"
    using assms w by (cases "chpc c")
      (auto simp: served_def receiving_def complete_def dataMsgs_def couldntOpen_def Cons_eq_append_conv)
  show "mtype m = RESP_MT_END \<Longrightarrow>
       served files c (leave EXIT_SUCCESS (k\<lparr>queue := Some ms, got := mdata m, totBytes := tb, numMsgs := n\<rparr>))"
    using assms w by (cases "chpc c")
      (auto simp: served_def receiving_def complete_def dataMsgs_def couldntOpen_def Cons_eq_append_conv)
qed

lemma receive_next:
  assumes "served files c k" "kpc k = K_loop" "queue k = Some (m # ms)"
  shows "mtype m \<noteq> RESP_MT_FAILURE"
    "mtype m = RESP_MT_DATA \<Longrightarrow>
       served files c (k\<lparr>queue := Some ms, got := got k @ mdata m, totBytes := tb, numMsgs := n, kpc := K_loop\<rparr>)"
    "mtype m = RESP_MT_END \<Longrightarrow>
       served files c (leave EXIT_SUCCESS (k\<lparr>queue := Some ms, got := got k @ mdata m, totBytes := tb, numMsgs := n\<rparr>))"
proof -
  have w: "\<not> waiting k" "\<not> gaveUp k" using assms(2,3) by (auto simp: waiting_def gaveUp_def)
  show "mtype m \<noteq> RESP_MT_FAILURE"
    using assms w by (cases "chpc c") (auto simp: served_def receiving_def complete_def dataMsgs_def Cons_eq_append_conv)
  show "mtype m = RESP_MT_DATA \<Longrightarrow>
       served files c (k\<lparr>queue := Some ms, got := got k @ mdata m, totBytes := tb, numMsgs := n, kpc := K_loop\<rparr>)"
    using assms w by (cases "chpc c") (auto simp: served_def receiving_def complete_def dataMsgs_def Cons_eq_append_conv)
  show "mtype m = RESP_MT_END \<Longrightarrow>
       served files c (leave EXIT_SUCCESS (k\<lparr>queue := Some ms, got := got k @ mdata m, totBytes := tb, numMsgs := n\<rparr>))"
    using assms w by (cases "chpc c") (auto simp: served_def receiving_def complete_def dataMsgs_def Cons_eq_append_conv)
qed

text \<open>A client with a message in its queue has a child that serves it, and no request.\<close>

lemma message_from_child:
  assumes inv: "msg_inv files s" and i: "i < length (clients s)" and q: "queue (clients s ! i) = Some (m # ms)"
    and p: "kpc (clients s ! i) = K_first \<or> kpc (clients s ! i) = K_loop"
  shows "\<exists>c \<in> set (children s). clientId (creq c) = i" "r \<in> set (requests s) \<Longrightarrow> clientId r \<noteq> i" "i \<in> set (asked s)"
proof -
  have n: "\<not> waiting (clients s ! i)" "\<not> gaveUp (clients s ! i)" using q by (auto simp: waiting_def gaveUp_def)
  show r: "clientId r \<noteq> i" if "r \<in> set (requests s)" for r using msg_invD(2) [OF inv that] n by auto
  show a: "i \<in> set (asked s)" using msg_invD(4) [OF inv i] n p by (auto simp: client_ok_def split: if_splits)
  with r show "\<exists>c \<in> set (children s). clientId (creq c) = i" by (auto simp: asked_def)
qed

lemma clientStart_inv:
  assumes inv: "msg_inv files s" and i: "i < length (clients s)" and p: "kpc (clients s ! i) = K_start"
    and l: "length (argPath (clients s ! i)) \<le> PATH_MAX - 1"
  shows "msg_inv files (setClient i (\<lambda>k. k\<lparr>kpc := K_send, queue := Some []\<rparr>) s)"
proof -
  let ?k = "(clients s ! i)\<lparr>kpc := K_send, queue := Some []\<rparr>"
  have ok: "client_ok files (i \<in> set (asked s)) (up s) (clients s ! i)" by (rule msg_invD(4) [OF inv i])
  then have a: "i \<notin> set (asked s)" using p by (auto simp: client_ok_def)
  have "msg_inv files (setClient i (\<lambda>_. ?k) s)"
  proof (rule msg_inv_client [OF inv i])
    show "client_ok files (i \<in> set (asked s)) (up s) ?k" using ok a p l by (auto simp: client_ok_def gaveUp_def waiting_def)
  qed (use a in \<open>auto simp: asked_def\<close>)
  then show ?thesis by (simp add: setClient_def)
qed

lemma clientSend_inv:
  assumes inv: "msg_inv files s" and i: "i < length (clients s)" and p: "kpc (clients s ! i) = K_send" and u: "up s"
  shows "msg_inv files (setClient i (\<lambda>k. k\<lparr>kpc := K_first\<rparr>)
           (s\<lparr>requests := requests s @ [\<lparr>clientId = i, pathname = take (PATH_MAX - 1) (argPath (clients s ! i))\<rparr>]\<rparr>))"
proof -
  let ?k = "(clients s ! i)\<lparr>kpc := K_first\<rparr>"
  let ?r = "\<lparr>clientId = i, pathname = take (PATH_MAX - 1) (argPath (clients s ! i))\<rparr>"
  let ?t = "s\<lparr>requests := requests s @ [?r], clients := (clients s)[i := ?k]\<rparr>"
  have ok: "client_ok files (i \<in> set (asked s)) (up s) (clients s ! i)" by (rule msg_invD(4) [OF inv i])
  then have a: "i \<notin> set (asked s)" using p by (auto simp: client_ok_def)
  have w: "waiting ?k" "shown ?k = []" "take (PATH_MAX - 1) (argPath (clients s ! i)) = argPath ?k"
    using ok a p by (auto simp: client_ok_def waiting_def gaveUp_def)
  have at: "distinct (asked ?t)" "set (asked ?t) = insert i (set (asked s))"
    using msg_invD(1) [OF inv] a by (auto simp: asked_def)
  have noi: "clientId r \<noteq> i" if "r \<in> set (requests s)" for r using a that by (auto simp: asked_def)
  have noc: "clientId (creq c) \<noteq> i" if "c \<in> set (children s)" for c using a that by (auto simp: asked_def)
  have "clientId r < length (clients ?t) \<and> pathname r = argPath (clients ?t ! clientId r) \<and>
      (waiting (clients ?t ! clientId r) \<or> gaveUp (clients ?t ! clientId r))" if "r \<in> set (requests ?t)" for r
    using that msg_invD(2) [OF inv, of r] noi [of r] i w by auto
  moreover have "clientId (creq c) < length (clients ?t) \<and> served files c (clients ?t ! clientId (creq c))"
    if "c \<in> set (children ?t)" for c
    using that msg_invD(3) [OF inv, of c] noc [of c] by simp
  moreover have "client_ok files (j \<in> set (asked ?t)) (up ?t) (clients ?t ! j)" if "j < length (clients ?t)" for j
    using that msg_invD(4) [OF inv, of j] w at(2) i by (cases "j = i") (auto simp: client_ok_def)
  ultimately have "msg_inv files ?t" unfolding msg_inv_def using at(1) u by auto
  then show ?thesis by (simp add: setClient_def)
qed

lemma receive_inv:
  assumes inv: "msg_inv files s" and i: "i < length (clients s)" and q: "queue (clients s ! i) = Some (m # ms)"
    and p: "kpc (clients s ! i) = K_first \<or> kpc (clients s ! i) = K_loop"
    and path: "argPath k = argPath (clients s ! i)" and ok: "client_ok files True (up s) k"
    and sv: "\<And>c. served files c (clients s ! i) \<Longrightarrow> served files c k"
  shows "msg_inv files (setClient i (\<lambda>_. k) s)"
proof (rule msg_inv_client [OF inv i path])
  show "client_ok files (i \<in> set (asked s)) (up s) k" using message_from_child(3) [OF inv i q p] ok by simp
  show "served files c k" if "c \<in> set (children s)" "clientId (creq c) = i" for c
    using msg_invD(3) [OF inv that(1)] that(2) sv by simp
qed (use message_from_child(2) [OF inv i q p] in blast)

lemma clientFirst_inv:
  assumes "clientMain i s = Some s'" and inv: "msg_inv files s" and i: "i < length (clients s)" and K: "kpc (clients s ! i) = K_first"
  shows "msg_inv files s'"
proof -
  let ?k = "clients s ! i"
  from assms(1) i K obtain m ms where q: "queue ?k = Some (m # ms)"
    by (auto simp: clientMain_def Let_def split: option.splits list.splits)
  from message_from_child [OF inv i q] K obtain c where c: "c \<in> set (children s)" "clientId (creq c) = i"
    and a: "i \<in> set (asked s)" by auto
  have sc: "served files c ?k" using msg_invD(3) [OF inv c(1)] c(2) by simp
  have ok: "client_ok files True (up s) ?k" using msg_invD(4) [OF inv i] a by simp
  let ?k' = "?k\<lparr>queue := Some ms, got := mdata m, totBytes := int (length (mdata m)), numMsgs := 1\<rparr>"
  show ?thesis
  proof (cases "mtype m")
    case RESP_MT_FAILURE
    let ?kf = "?k\<lparr>shown := takeWhile (\<lambda>c. c \<noteq> CHR 0x00) (mdata m)\<rparr>"
    have "files (argPath ?k) = None" using receive_first(1) [OF sc K q RESP_MT_FAILURE] .
    then have "client_ok files (i \<in> set (asked s)) (up s) ?kf" using ok a K by (auto simp: client_ok_def)
    then show ?thesis using leave_inv [OF inv i, of ?kf] assms(1) i K q RESP_MT_FAILURE
      by (auto simp: clientMain_def Let_def setClient_def)
  next
    case RESP_MT_DATA
    have "client_ok files True (up s) (?k'\<lparr>kpc := K_loop\<rparr>)" using ok K by (auto simp: client_ok_def)
    then show ?thesis
      using receive_inv [OF inv i q, of "?k'\<lparr>kpc := K_loop\<rparr>"] receive_first(2) [OF _ K q RESP_MT_DATA] assms(1) i K q RESP_MT_DATA
      by (auto simp: clientMain_def Let_def)
  next
    case RESP_MT_END
    have "client_ok files True (up s) (leave EXIT_SUCCESS ?k')" using ok K by (auto simp: client_ok_def)
    then show ?thesis
      using receive_inv [OF inv i q, of "leave EXIT_SUCCESS ?k'"] receive_first(3) [OF _ K q RESP_MT_END] assms(1) i K q RESP_MT_END
      by (auto simp: clientMain_def Let_def)
  qed
qed

lemma clientLoop_inv:
  assumes "clientMain i s = Some s'" and inv: "msg_inv files s" and i: "i < length (clients s)" and K: "kpc (clients s ! i) = K_loop"
  shows "msg_inv files s'"
proof -
  let ?k = "clients s ! i"
  from assms(1) i K obtain m ms where q: "queue ?k = Some (m # ms)"
    by (auto simp: clientMain_def Let_def split: option.splits list.splits)
  from message_from_child [OF inv i q] K obtain c where c: "c \<in> set (children s)" "clientId (creq c) = i"
    and a: "i \<in> set (asked s)" by auto
  have sc: "served files c ?k" using msg_invD(3) [OF inv c(1)] c(2) by simp
  have ok: "client_ok files True (up s) ?k" using msg_invD(4) [OF inv i] a by simp
  let ?k' = "?k\<lparr>queue := Some ms, got := got ?k @ mdata m, totBytes := totBytes ?k + int (length (mdata m)), numMsgs := numMsgs ?k + 1\<rparr>"
  show ?thesis
  proof (cases "mtype m")
    case RESP_MT_DATA
    have "client_ok files True (up s) (?k'\<lparr>kpc := K_loop\<rparr>)" using ok K by (auto simp: client_ok_def)
    then show ?thesis
      using receive_inv [OF inv i q, of "?k'\<lparr>kpc := K_loop\<rparr>"] receive_next(2) [OF _ K q RESP_MT_DATA] assms(1) i K q RESP_MT_DATA
      by (auto simp: clientMain_def Let_def)
  next
    case RESP_MT_END
    have "client_ok files True (up s) (leave EXIT_SUCCESS ?k')" using ok K by (auto simp: client_ok_def)
    then show ?thesis
      using receive_inv [OF inv i q, of "leave EXIT_SUCCESS ?k'"] receive_next(3) [OF _ K q RESP_MT_END] assms(1) i K q RESP_MT_END
      by (auto simp: clientMain_def Let_def)
  qed (use receive_next(1) [OF sc K q] in simp)
qed

lemma clientMain_inv:
  assumes "clientMain i s = Some s'" and inv: "msg_inv files s"
  shows "msg_inv files s'"
proof -
  have i: "i < length (clients s)" using assms(1) by (auto simp: clientMain_def split: if_splits)
  have lv: "msg_inv files (setClient i (leave EXIT_FAILURE) s)"
    using leave_inv [OF inv i refl msg_invD(4) [OF inv i]] by (simp add: setClient_def)
  show ?thesis
  proof (cases "kpc (clients s ! i)")
    case K_start
    then show ?thesis using assms(1) i lv clientStart_inv [OF inv i K_start]
      by (auto simp: clientMain_def Let_def split: if_splits)
  next
    case K_send
    then show ?thesis using assms(1) i lv clientSend_inv [OF inv i K_send]
      by (auto simp: clientMain_def Let_def split: if_splits)
  qed (use assms i clientFirst_inv [OF assms i] clientLoop_inv [OF assms i] in \<open>simp_all add: clientMain_def Let_def\<close>)
qed

lemma msg_inv_child:
  assumes inv: "msg_inv files s" and j: "j < length (children s)" and c: "creq c = creq (children s ! j)"
    and sv: "served files c (clients s ! clientId (creq c))"
  shows "msg_inv files (setChild j (\<lambda>_. c) s)"
proof -
  let ?i = "clientId (creq c)"
  have "?i < length (clients s)" using msg_invD(3) [OF inv nth_mem [OF j]] c by simp
  from msg_inv_serve [OF inv j _ c refl sv msg_invD(4) [OF inv this]] c show ?thesis by (simp add: setClient_def)
qed

text \<open>Sending to the client that is being served: it has given up, or the message is appended.\<close>

lemma msgsnd_served:
  assumes "msgsnd cap i m s = Some (b, s')" "served files c (clients s ! i)" "\<forall>n. chpc c \<noteq> S_exit n"
  obtains "\<not> b" "s' = s" "gaveUp (clients s ! i)"
  | ms where "b" "queue (clients s ! i) = Some ms" "s' = setClient i (\<lambda>_. (clients s ! i)\<lparr>queue := Some (ms @ [m])\<rparr>) s"
proof (cases "queue (clients s ! i)")
  case None
  then have "gaveUp (clients s ! i)"
    using assms(2,3) by (cases "chpc c") (auto simp: served_def waiting_def receiving_def)
  then show ?thesis using that(1) assms(1) None by (simp add: msgsnd_def)
next
  case (Some ms)
  then show ?thesis using that(2) assms(1) by (auto simp: msgsnd_def setClient_def split: if_splits)
qed

lemma send_inv:
  assumes inv: "msg_inv files s" and j: "j < length (children s)" and x: "\<forall>n. chpc (children s ! j) \<noteq> S_exit n"
    and snd: "msgsnd cap (clientId (creq (children s ! j))) m s = Some (b, s')" and c: "creq c = creq (children s ! j)"
    and new: "\<And>ms. queue (clients s ! clientId (creq c)) = Some ms \<Longrightarrow> b \<Longrightarrow>
      served files (children s ! j) (clients s ! clientId (creq c)) \<Longrightarrow> \<not> gaveUp (clients s ! clientId (creq c)) \<Longrightarrow>
      served files c ((clients s ! clientId (creq c))\<lparr>queue := Some (ms @ [m])\<rparr>)"
  shows "msg_inv files (setChild j (\<lambda>_. c) s')"
proof -
  let ?i = "clientId (creq (children s ! j))"
  have sv: "served files (children s ! j) (clients s ! ?i)" "?i < length (clients s)" using msg_invD(3) [OF inv nth_mem [OF j]] by simp_all
  from snd sv(1) x show ?thesis
  proof (cases rule: msgsnd_served)
    case 1
    then show ?thesis using msg_inv_child [OF inv j c] sv(1) c by (simp add: served_def)
  next
    case (2 ms)
    have g: "\<not> gaveUp (clients s ! ?i)" using 2(2) by (simp add: gaveUp_def)
    have ok: "client_ok files (?i \<in> set (asked s)) (up s) ((clients s ! ?i)\<lparr>queue := Some (ms @ [m])\<rparr>)"
    proof -
      have "?i \<in> set (asked s)" using j by (auto simp: asked_def)
      then show ?thesis using msg_invD(4) [OF inv sv(2)] by (simp add: client_ok_def)
    qed
    show ?thesis unfolding 2(3)
      by (rule msg_inv_serve [OF inv j refl c _ _ ok]) (use new 2(1,2) sv(1) g c in simp_all)
  qed
qed

lemma setChild_after_send:
  "msgsnd cap i m s = Some (b, s') \<Longrightarrow> setChild j f s' = setChild j (\<lambda>_. f (children s ! j)) s'"
  by (auto simp: msgsnd_def setChild_def setClient_def split: option.splits if_splits)

lemma served_failure:
  assumes "served files c k" "chpc c = S_open" "files (pathname (creq c)) = None" "queue k = Some ms" "\<not> gaveUp k"
  shows "served files (c\<lparr>chpc := S_exit n\<rparr>) (k\<lparr>queue := Some (ms @ [couldntOpen])\<rparr>)"
  using assms by (auto simp: served_def waiting_def)

lemma served_data:
  assumes "served files c k" "chpc c = S_read" "queue k = Some ms" "\<not> gaveUp k"
  shows "served files (c\<lparr>rest := drop n (rest c)\<rparr>) (k\<lparr>queue := Some (ms @ [\<lparr>mtype = RESP_MT_DATA, mdata = take n (rest c)\<rparr>])\<rparr>)"
  using assms by (auto simp: served_def receiving_def dataMsgs_def)

lemma served_end:
  assumes "served files c k" "chpc c = S_end" "queue k = Some ms" "\<not> gaveUp k"
  shows "served files (c\<lparr>chpc := S_exit n\<rparr>) (k\<lparr>queue := Some (ms @ [endMsg])\<rparr>)"
  using assms by (auto simp: served_def receiving_def complete_def)

lemma serveRequest_inv:
  assumes "serveRequest cap files j n s = Some s'" and inv: "msg_inv files s"
  shows "msg_inv files s'"
proof -
  have j: "j < length (children s)" using assms(1) by (auto simp: serveRequest_def split: if_splits)
  let ?c = "children s ! j" and ?k = "clients s ! clientId (creq (children s ! j))"
  have sv: "served files ?c ?k" using msg_invD(3) [OF inv nth_mem [OF j]] by simp
  show ?thesis
  proof (cases "chpc ?c")
    case S_open
    show ?thesis
    proof (cases "files (pathname (creq ?c))")
      case None
      with S_open assms(1) j obtain b t where t: "msgsnd cap (clientId (creq ?c)) couldntOpen s = Some (b, t)"
        "s' = setChild j (\<lambda>c. c\<lparr>chpc := S_exit EXIT_FAILURE\<rparr>) t"
        by (auto simp: serveRequest_def Let_def split: option.splits prod.splits)
      have t': "s' = setChild j (\<lambda>_. ?c\<lparr>chpc := S_exit EXIT_FAILURE\<rparr>) t" by (rule trans [OF t(2) setChild_after_send [OF t(1)]])
      show ?thesis unfolding t'
        by (rule send_inv [OF inv j _ t(1)]) (use S_open served_failure [OF sv S_open None] in auto)
    next
      case (Some content)
      have "served files (?c\<lparr>chpc := S_read, rest := content\<rparr>) ?k"
        using sv S_open Some by (auto simp: served_def waiting_def receiving_def dataMsgs_def)
      then show ?thesis using msg_inv_child [OF inv j, of "?c\<lparr>chpc := S_read, rest := content\<rparr>"] assms(1) j S_open Some
        by (auto simp: serveRequest_def Let_def setChild_def)
    qed
  next
    case S_read
    show ?thesis
    proof (cases "rest ?c = []")
      case True
      have "served files (?c\<lparr>chpc := S_end\<rparr>) ?k" using sv S_read True by (auto simp: served_def)
      then show ?thesis using msg_inv_child [OF inv j, of "?c\<lparr>chpc := S_end\<rparr>"] assms(1) j S_read True
        by (auto simp: serveRequest_def Let_def setChild_def split: if_splits)
    next
      case False
      let ?m = "\<lparr>mtype = RESP_MT_DATA, mdata = take n (rest ?c)\<rparr>"
      from S_read False assms(1) j obtain b t where t: "msgsnd cap (clientId (creq ?c)) ?m s = Some (b, t)"
        "s' = setChild j (\<lambda>c. if b then c\<lparr>rest := drop n (rest c)\<rparr> else c\<lparr>chpc := S_end, rest := drop n (rest c)\<rparr>) t"
        by (auto simp: serveRequest_def Let_def setChild_def split: if_splits option.splits prod.splits bool.splits)
      have t': "s' = setChild j (\<lambda>_. if b then ?c\<lparr>rest := drop n (rest ?c)\<rparr> else ?c\<lparr>chpc := S_end, rest := drop n (rest ?c)\<rparr>) t" by (rule trans [OF t(2) setChild_after_send [OF t(1)]])
      show ?thesis unfolding t'
        by (rule send_inv [OF inv j _ t(1)]) (use S_read served_data [OF sv S_read] in auto)
    qed
  next
    case S_end
    with assms(1) j obtain b t where t: "msgsnd cap (clientId (creq ?c)) endMsg s = Some (b, t)"
      "s' = setChild j (\<lambda>c. c\<lparr>chpc := S_exit EXIT_SUCCESS\<rparr>) t"
      by (auto simp: serveRequest_def Let_def split: option.splits prod.splits)
    have t': "s' = setChild j (\<lambda>_. ?c\<lparr>chpc := S_exit EXIT_SUCCESS\<rparr>) t" by (rule trans [OF t(2) setChild_after_send [OF t(1)]])
      show ?thesis unfolding t'
      by (rule send_inv [OF inv j _ t(1)]) (use S_end served_end [OF sv S_end] in auto)
  qed (use assms(1) j in \<open>simp add: serveRequest_def Let_def\<close>)
qed

lemma mstep_inv: "mstep cap files t s = Some s' \<Longrightarrow> msg_inv files s \<Longrightarrow> msg_inv files s'"
proof (cases t)
  case (ReadFails j)
  assume "mstep cap files t s = Some s'" and inv: "msg_inv files s"
  with ReadFails have j: "j < length (children s)" "chpc (children s ! j) = S_read"
    "s' = setChild j (\<lambda>_. (children s ! j)\<lparr>chpc := S_end, fault := True\<rparr>) s"
    by (auto simp: readFails_def setChild_def split: if_splits)
  have "served files ((children s ! j)\<lparr>chpc := S_end, fault := True\<rparr>) (clients s ! clientId (creq (children s ! j)))"
    using msg_invD(3) [OF inv nth_mem [OF j(1)]] j(2) by (auto simp: served_def)
  then show ?thesis unfolding j(3) using msg_inv_child [OF inv j(1)] by simp
next
  case (RcvFails i)
  assume "mstep cap files t s = Some s'" and inv: "msg_inv files s"
  with RcvFails have "i < length (clients s)" "s' = setClient i (\<lambda>_. leave EXIT_FAILURE (clients s ! i)) s"
    by (auto simp: rcvFails_def setClient_def split: if_splits)
  with leave_inv [OF inv _ refl msg_invD(4) [OF inv]] show ?thesis by simp
next
  case Stop
  assume "mstep cap files t s = Some s'" and inv: "msg_inv files s"
  with Stop msg_inv_stopped [OF inv] show ?thesis by (auto simp: serverStops_def split: if_splits)
qed (auto intro: serverMain_inv serveRequest_inv clientMain_inv)

interpretation fsrv: machine "mstep cap files" "msg_inv files" for cap files
  by unfold_locales (rule mstep_inv)

lemma fserver_init_inv: "msg_inv files (fserver_init paths)"
  by (auto simp: msg_inv_def fserver_init_def asked_def client_ok_def)

section \<open>Properties\<close>

lemma setClient_paths: "argPath (f (clients s ! i)) = argPath (clients s ! i) \<Longrightarrow> map argPath (clients (setClient i f s)) = map argPath (clients s)"
  by (cases "i < length (clients s)") (simp_all add: setClient_def map_update list_update_same_conv list_update_beyond)

lemma setChild_clients: "clients (setChild j f s) = clients s"
  by (simp add: setChild_def)

lemma msgsnd_paths: "msgsnd cap i m s = Some (b, s') \<Longrightarrow> map argPath (clients s') = map argPath (clients s)"
  by (auto simp: msgsnd_def setClient_paths split: option.splits if_splits)

lemma mstep_paths: "mstep cap files t s = Some s' \<Longrightarrow> map argPath (clients s') = map argPath (clients s)"
proof (cases t)
  case (Child j k)
  assume "mstep cap files t s = Some s'"
  with Child show ?thesis
    by (auto simp: serveRequest_def Let_def setChild_clients dest: msgsnd_paths
        split: if_splits child_pc.splits option.splits prod.splits bool.splits)
next
  case (Client i)
  assume "mstep cap files t s = Some s'"
  with Client show ?thesis
    by (auto simp: clientMain_def Let_def setClient_paths split: if_splits client_pc.splits option.splits list.splits)
qed (auto simp: serverMain_def serverStops_def readFails_def rcvFails_def setChild_clients setClient_paths
     split: if_splits list.splits)

lemma mrun_paths: "mrun cap files ts s = Some s' \<Longrightarrow> map argPath (clients s') = map argPath (clients s)"
  by (rule fsrv.run_constant [OF mstep_paths])



lemma child_not_stuck:
  assumes "RESP_MSG_SIZE \<le> cap" and j: "j < length (children s)" and q: "queue (clients s ! clientId (creq (children s ! j))) = Some []"
    and "\<forall>n. chpc (children s ! j) \<noteq> S_exit n"
  shows "serveRequest cap files j 1 s \<noteq> None"
proof -
  have snd: "msgsnd cap (clientId (creq (children s ! j))) m s \<noteq> None" if "length (mdata m) \<le> 14" for m
    using that assms(1) q by (simp add: msgsnd_def fits_def)
  have "length (mdata couldntOpen) \<le> 14" "length (mdata \<lparr>mtype = RESP_MT_DATA, mdata = take 1 (rest (children s ! j))\<rparr>) \<le> 14"
    "length (mdata endMsg) \<le> 14"
    by (simp_all add: couldntOpen_def min_def)
  note snd [OF this(1)] snd [OF this(2)] snd [OF this(3)]
  then show ?thesis
    using assms j
    by (cases "chpc (children s ! j)") (auto simp: serveRequest_def Let_def split: option.splits prod.splits bool.splits)
qed

text \<open>
  No deadlock: as long as the server is running and some client has not ended, the server,
  one of its children or one of the clients can make a system call, provided that a queue can
  hold one message of the largest size.
\<close>

theorem file_server_not_stuck:
  assumes "mrun cap files ts (fserver_init paths) = Some s" and "RESP_MSG_SIZE \<le> cap" and "up s"
    and "i < length paths" and "\<forall>n. kpc (clients s ! i) \<noteq> K_exit n"
  shows "serverMain True s \<noteq> None \<or> (\<exists>j. serveRequest cap files j 1 s \<noteq> None) \<or> clientMain i s \<noteq> None"
proof -
  have inv: "msg_inv files s" by (rule fsrv.run_inv [OF assms(1) fserver_init_inv])
  have i: "i < length (clients s)" using mrun_paths [OF assms(1)] assms(4) by (metis fserver_init_inv length_map fserver.select_convs(4) fserver_init_def)
  let ?k = "clients s ! i"
  have ok: "client_ok files (i \<in> set (asked s)) (up s) ?k" by (rule msg_invD(4) [OF inv i])
  show ?thesis
  proof (cases "(kpc ?k = K_first \<or> kpc ?k = K_loop) \<and> queue ?k = Some []")
    case False
    show ?thesis
    proof (cases "kpc ?k = K_start \<or> kpc ?k = K_send")
      case True
      then show ?thesis using i by (auto simp: clientMain_def Let_def)
    next
      case s: False
      then have a: "i \<in> set (asked s)" and fl: "kpc ?k = K_first \<or> kpc ?k = K_loop"
        using ok assms(3,5) by (cases "kpc ?k"; auto simp: client_ok_def gaveUp_def waiting_def split: if_splits)+
      have "queue ?k \<noteq> None"
      proof
        assume n: "queue ?k = None"
        have "clientId r \<noteq> i" if "r \<in> set (requests s)" for r
          using msg_invD(2) [OF inv that] n assms(5) by (auto simp: waiting_def gaveUp_def)
        with a obtain c where c: "c \<in> set (children s)" "clientId (creq c) = i" by (auto simp: asked_def)
        with msg_invD(3) [OF inv c(1)] have "served files c ?k" by simp
        then show False using n assms(5) by (cases "chpc c") (auto simp: served_def gaveUp_def waiting_def receiving_def complete_def)
      qed
      with False fl obtain m ms where "queue ?k = Some (m # ms)" by (cases "queue ?k") (auto simp: neq_Nil_conv)
      then have "clientMain i s \<noteq> None" using i fl by (auto simp: clientMain_def Let_def split: if_splits)
      then show ?thesis by blast
    qed
  next
    case True
    then have a: "i \<in> set (asked s)" using ok assms(3) by (auto simp: client_ok_def gaveUp_def waiting_def split: if_splits)
    show ?thesis
    proof (cases "requests s")
      case Nil
      then obtain j where j: "j < length (children s)" "clientId (creq (children s ! j)) = i"
        using a by (auto simp: asked_def in_set_conv_nth)
      have "served files (children s ! j) ?k" using msg_invD(3) [OF inv nth_mem [OF j(1)]] j(2) by simp
      then have "\<forall>n. chpc (children s ! j) \<noteq> S_exit n" using True assms(5) by (auto simp: served_def gaveUp_def complete_def)
      from child_not_stuck [OF assms(2) j(1) _ this] j(2) True show ?thesis by blast
    qed (use assms(3) in \<open>simp add: serverMain_def\<close>)
  qed
qed

text \<open>
  When the server ends, the requests in its queue are lost, and a client whose request was
  there waits forever.
\<close>

lemma client_stranded:
  assumes "length p \<le> PATH_MAX - 1"
  shows "\<exists>s. mrun cap files [Client 0, Client 0, Stop] (fserver_init [p]) = Some s \<and>
    kpc (clients s ! 0) = K_first \<and> (\<forall>t s'. mstep cap files t s = Some s' \<longrightarrow> t = RcvFails 0)"
proof -
  let ?k = "\<lparr>kpc = K_first, argPath = p, queue = Some [], got = [], totBytes = 0, numMsgs = 0, shown = []\<rparr>"
  let ?s = "\<lparr>up = False, requests = [], children = [], clients = [?k]\<rparr>"
  have "mrun cap files [Client 0, Client 0, Stop] (fserver_init [p]) = Some ?s"
    using assms by (simp add: fserver_init_def clientMain_def setClient_def serverStops_def Let_def)
  moreover have "t = RcvFails 0" if "mstep cap files t ?s = Some s'" for t s'
    using that by (cases t) (auto simp: serverMain_def serverStops_def serveRequest_def readFails_def clientMain_def rcvFails_def
        nth_Cons' split: if_splits)
  ultimately show ?thesis by auto
qed

section \<open>An example\<close>

definition demo_files :: "string \<Rightarrow> string option" where
  "demo_files p = (if p = ''f'' then Some ''data'' else None)"



theorem file_server_not_stuck_witness:
  "\<exists>s. mrun 16384 demo_files [Client 0, Client 0] (fserver_init [''f'']) = Some s \<and>
     (serverMain True s \<noteq> None \<or> (\<exists>j. serveRequest 16384 demo_files j 1 s \<noteq> None) \<or> clientMain 0 s \<noteq> None)"
proof -
  let ?k = "\<lparr>kpc = K_first, argPath = ''f'', queue = Some [], got = [], totBytes = 0, numMsgs = 0, shown = []\<rparr>"
  let ?s = "\<lparr>up = True, requests = [\<lparr>clientId = 0, pathname = ''f''\<rparr>], children = [], clients = [?k]\<rparr>"
  have r: "mrun 16384 demo_files [Client 0, Client 0] (fserver_init [''f'']) = Some ?s"
    by (simp add: fserver_init_def clientMain_def setClient_def Let_def)
  from file_server_not_stuck [OF r, of 0] r show ?thesis by simp
qed

end
