(* ===== verification/DescTable.thy ===== *)
theory DescTable
  imports Prelude
begin

text \<open>
  Tables of file descriptors, as several programs use them: a list with what each descriptor
  refers to. A new descriptor is the lowest one that is free; \<open>dup2\<close> chooses its own.
\<close>

fun alloc :: "'a \<Rightarrow> 'a option list \<Rightarrow> nat \<times> 'a option list" where
  "alloc k [] = (0, [Some k])"
| "alloc k (None # t) = (0, Some k # t)"
| "alloc k (Some x # t) = (let (n, t') = alloc k t in (Suc n, Some x # t'))"

definition look :: "'a option list \<Rightarrow> nat \<Rightarrow> 'a option" where
  "look t n = (if n < length t then t ! n else None)"

definition putfd :: "nat \<Rightarrow> 'a option \<Rightarrow> 'a option list \<Rightarrow> 'a option list" where
  "putfd n v t = (t @ replicate (Suc n - length t) None)[n := v]"

lemma look_Nil [simp]: "look [] n = None"
  by (simp add: look_def)

lemma look_Cons [simp]: "look (x # t) n = (case n of 0 \<Rightarrow> x | Suc m \<Rightarrow> look t m)"
  by (auto simp: look_def split: nat.splits)

lemma alloc_look:
  "alloc k t = (n, t') \<Longrightarrow> look t n = None \<and> look t' = (look t)(n \<mapsto> k)"
proof (induction k t arbitrary: n t' rule: alloc.induct)
  case (3 k x t)
  then obtain m u where m: "alloc k t = (m, u)" "n = Suc m" "t' = Some x # u"
    by (auto split: prod.splits)
  with "3.IH" [OF m(1)] show ?case by (auto simp: fun_eq_iff split: nat.splits)
qed (auto simp: fun_eq_iff split: nat.splits)

text \<open>The descriptors below a new one are in use.\<close>

lemma alloc_lowest: "alloc k t = (n, t') \<Longrightarrow> m < n \<Longrightarrow> look t m \<noteq> None"
proof (induction k t arbitrary: n t' m rule: alloc.induct)
  case (3 k x t)
  then obtain l u where "alloc k t = (l, u)" "n = Suc l" by (auto split: prod.splits)
  with "3.IH" "3.prems"(2) show ?case by (auto split: nat.splits)
qed auto

lemma look_update: "look t n \<noteq> None \<or> v = None \<Longrightarrow> look (t[n := v]) = (look t)(n := v)"
  by (auto simp: look_def fun_eq_iff nth_list_update)

lemma look_putfd [simp]: "look (putfd n v t) = (look t)(n := v)"
  by (auto simp: look_def putfd_def fun_eq_iff nth_list_update nth_append)

lemma look_free [simp]: "look (t[n := None]) = (look t)(n := None)"
  by (simp add: look_update)

end
