(* ===== verification/InetSockets.thy ===== *)
theory InetSockets
  imports StreamProps DescTable
begin

text \<open>
  The packages of socket routines: \<open>sockets/inet_sockets.c\<close> (\<open>inetConnect\<close>,
  \<open>inetPassiveSocket\<close>, \<open>inetListen\<close>, \<open>inetBind\<close>, \<open>inetAddressStr\<close>) and
  \<open>sockets/unix_sockets.c\<close> (\<open>unixBuildAddress\<close>, \<open>unixConnect\<close>, \<open>unixBind\<close>).

  The process has a table of descriptors. What the kernel and the resolver answer is a
  parameter, the record \<open>os\<close>: every answer may depend on the whole history of calls, so the
  theorems hold for any pattern of failures. A successful call changes the socket as its manual
  page says; \<open>close\<close> releases the descriptor even when it reports an error.
\<close>

section \<open>Addresses and sockets\<close>

abbreviation (input) AF_UNSPEC :: int where "AF_UNSPEC \<equiv> 0"
abbreviation (input) AF_UNIX :: int where "AF_UNIX \<equiv> 1"
abbreviation (input) SOCK_STREAM :: int where "SOCK_STREAM \<equiv> 1"
abbreviation (input) AI_PASSIVE :: "32 word" where "AI_PASSIVE \<equiv> 0x0001"
abbreviation (input) AI_NUMERICSERV :: "32 word" where "AI_NUMERICSERV \<equiv> 0x0400"
abbreviation (input) ENAMETOOLONG :: errno where "ENAMETOOLONG \<equiv> 36"
abbreviation (input) ENOSYS :: errno where "ENOSYS \<equiv> 38"
abbreviation (input) SUN_PATH_SIZE :: nat where "SUN_PATH_SIZE \<equiv> 108"

text \<open>\<open>sun_path\<close> is the whole array, with its null bytes. An Internet address is the bytes of its structure.\<close>

record sockaddr_un =
  sun_family :: int
  sun_path :: string

datatype sockaddr = InetAddr string | UnixAddr sockaddr_un

record addrinfo =
  ai_family :: int
  ai_socktype :: int
  ai_protocol :: int
  ai_addr :: sockaddr
  ai_addrlen :: nat

record addrhints =
  h_flags :: "32 word"
  h_family :: int
  h_socktype :: int

record sock =
  kind :: "int \<times> int \<times> int"
  reuseaddr :: bool
  local :: "sockaddr option"
  peer :: "sockaddr option"
  backlog :: "int option"

text \<open>The calls made so far, each with whether it succeeded.\<close>

datatype call =
    C_socket "int \<times> int \<times> int" bool
  | C_connect int sockaddr bool
  | C_setsockopt int bool
  | C_bind int sockaddr bool
  | C_listen int bool
  | C_close int

record os =
  getaddrinfo :: "call list \<Rightarrow> string option \<Rightarrow> string \<Rightarrow> addrhints \<Rightarrow> int + addrinfo list"
  socket_error :: "call list \<Rightarrow> int \<times> int \<times> int \<Rightarrow> errno option"
  connect_error :: "call list \<Rightarrow> int \<Rightarrow> sockaddr \<Rightarrow> errno option"
  setsockopt_error :: "call list \<Rightarrow> int \<Rightarrow> errno option"
  bind_error :: "call list \<Rightarrow> int \<Rightarrow> sockaddr \<Rightarrow> errno option"
  listen_error :: "call list \<Rightarrow> int \<Rightarrow> errno option"
  close_error :: "call list \<Rightarrow> int \<Rightarrow> errno option"

text \<open>\<open>lists\<close> counts the results of \<open>getaddrinfo\<close> that have not been freed.\<close>

record net =
  tab :: "sock option list"
  calls :: "call list"
  nerrno :: errno
  lists :: nat

section \<open>System calls\<close>

abbreviation fdmap :: "net \<Rightarrow> nat \<Rightarrow> sock option" where
  "fdmap s \<equiv> look (tab s)"

definition logged :: "call \<Rightarrow> errno option \<Rightarrow> net \<Rightarrow> net" where
  "logged c e s = s\<lparr>calls := calls s @ [c], nerrno := (case e of None \<Rightarrow> nerrno s | Some n \<Rightarrow> n)\<rparr>"

definition setSock :: "int \<Rightarrow> (sock \<Rightarrow> sock) \<Rightarrow> net \<Rightarrow> net" where
  "setSock fd f s = s\<lparr>tab := (tab s)[nat fd := map_option f (fdmap s (nat fd))]\<rparr>"

definition newSock :: "int \<times> int \<times> int \<Rightarrow> sock" where
  "newSock k = \<lparr>kind = k, reuseaddr = False, local = None, peer = None, backlog = None\<rparr>"

definition socket :: "os \<Rightarrow> int \<Rightarrow> int \<Rightarrow> int \<Rightarrow> net \<Rightarrow> int \<times> net" where
  "socket os family type protocol s =
     (let k = (family, type, protocol) in
      case socket_error os (calls s) k of
        Some e \<Rightarrow> (-1, logged (C_socket k False) (Some e) s)
      | None \<Rightarrow>
          let (n, t) = alloc (newSock k) (tab s)
          in (int n, (logged (C_socket k True) None s)\<lparr>tab := t\<rparr>))"

text \<open>The calls on a descriptor share their form: an error, or a change of the socket.\<close>

definition sockCall :: "errno option \<Rightarrow> (bool \<Rightarrow> call) \<Rightarrow> int \<Rightarrow> (sock \<Rightarrow> sock) \<Rightarrow> net \<Rightarrow> int \<times> net" where
  "sockCall e c fd f s =
     (case e of
        Some _ \<Rightarrow> (-1, logged (c False) e s)
      | None \<Rightarrow> (0, setSock fd f (logged (c True) None s)))"

definition connect :: "os \<Rightarrow> int \<Rightarrow> sockaddr \<Rightarrow> net \<Rightarrow> int \<times> net" where
  "connect os fd a s =
     sockCall (connect_error os (calls s) fd a) (C_connect fd a) fd (\<lambda>k. k\<lparr>peer := Some a\<rparr>) s"

definition setReuseAddr :: "os \<Rightarrow> int \<Rightarrow> net \<Rightarrow> int \<times> net" where
  "setReuseAddr os fd s =
     sockCall (setsockopt_error os (calls s) fd) (C_setsockopt fd) fd (\<lambda>k. k\<lparr>reuseaddr := True\<rparr>) s"

definition bind :: "os \<Rightarrow> int \<Rightarrow> sockaddr \<Rightarrow> net \<Rightarrow> int \<times> net" where
  "bind os fd a s =
     sockCall (bind_error os (calls s) fd a) (C_bind fd a) fd (\<lambda>k. k\<lparr>local := Some a\<rparr>) s"

definition listen :: "os \<Rightarrow> int \<Rightarrow> int \<Rightarrow> net \<Rightarrow> int \<times> net" where
  "listen os fd n s =
     sockCall (listen_error os (calls s) fd) (C_listen fd) fd (\<lambda>k. k\<lparr>backlog := Some n\<rparr>) s"

definition close :: "os \<Rightarrow> int \<Rightarrow> net \<Rightarrow> net" where
  "close os fd s =
     (logged (C_close fd) (close_error os (calls s) fd) s)\<lparr>tab := (tab s)[nat fd := None]\<rparr>"

definition freeaddrinfo :: "net \<Rightarrow> net" where
  "freeaddrinfo s = s\<lparr>lists := lists s - 1\<rparr>"

section \<open>inetConnect\<close>

text \<open>
  How a walk through the list of addresses ends: with the address that could be used and the
  descriptor of its socket, without any, or by giving up.
\<close>

datatype walked = Found addrinfo int | Exhausted | GaveUp

fun connectLoop :: "os \<Rightarrow> addrinfo list \<Rightarrow> net \<Rightarrow> walked \<times> net" where
  "connectLoop os [] s = (Exhausted, s)"
| "connectLoop os (rp # rps) s =
     (case socket os (ai_family rp) (ai_socktype rp) (ai_protocol rp) s of (sfd, s1) \<Rightarrow>
      if sfd = -1 then connectLoop os rps s1
      else case connect os sfd (ai_addr rp) s1 of (r, s2) \<Rightarrow>
      if r \<noteq> -1 then (Found rp sfd, s2)
      else connectLoop os rps (close os sfd s2))"

definition inetConnect :: "os \<Rightarrow> string option \<Rightarrow> string \<Rightarrow> int \<Rightarrow> net \<Rightarrow> int \<times> net" where
  "inetConnect os host service type s =
     (case getaddrinfo os (calls s) host service \<lparr>h_flags = 0, h_family = AF_UNSPEC, h_socktype = type\<rparr> of
        Inl _ \<Rightarrow> (-1, s\<lparr>nerrno := ENOSYS\<rparr>)
      | Inr result \<Rightarrow>
          case connectLoop os result (s\<lparr>lists := lists s + 1\<rparr>) of (w, s1) \<Rightarrow>
          let s2 = freeaddrinfo s1 in
          (case w of Found rp sfd \<Rightarrow> (sfd, s2) | _ \<Rightarrow> (-1, s2)))"

section \<open>inetPassiveSocket\<close>

fun bindLoop :: "os \<Rightarrow> bool \<Rightarrow> addrinfo list \<Rightarrow> net \<Rightarrow> walked \<times> net" where
  "bindLoop os doListen [] s = (Exhausted, s)"
| "bindLoop os doListen (rp # rps) s =
     (case socket os (ai_family rp) (ai_socktype rp) (ai_protocol rp) s of (sfd, s1) \<Rightarrow>
      if sfd = -1 then bindLoop os doListen rps s1
      else case (if doListen then setReuseAddr os sfd s1 else (0, s1)) of (r, s2) \<Rightarrow>
      if r = -1 then (GaveUp, close os sfd s2)
      else case bind os sfd (ai_addr rp) s2 of (r, s3) \<Rightarrow>
      if r = 0 then (Found rp sfd, s3)
      else bindLoop os doListen rps (close os sfd s3))"

text \<open>
  The result is the descriptor and what is stored through \<open>addrlen\<close>; \<open>wantLen\<close> tells whether
  the pointer is not \<open>NULL\<close>.
\<close>

definition inetPassiveSocket ::
  "os \<Rightarrow> string \<Rightarrow> int \<Rightarrow> bool \<Rightarrow> bool \<Rightarrow> int \<Rightarrow> net \<Rightarrow> (int \<times> nat option) \<times> net" where
  "inetPassiveSocket os service type wantLen doListen blog s =
     (case getaddrinfo os (calls s) None service \<lparr>h_flags = AI_PASSIVE, h_family = AF_UNSPEC, h_socktype = type\<rparr> of
        Inl _ \<Rightarrow> ((-1, None), s)
      | Inr result \<Rightarrow>
          case bindLoop os doListen result (s\<lparr>lists := lists s + 1\<rparr>) of
            (GaveUp, s1) \<Rightarrow> ((-1, None), freeaddrinfo s1)
          | (Exhausted, s1) \<Rightarrow> ((-1, None), freeaddrinfo s1)
          | (Found rp sfd, s1) \<Rightarrow>
              case (if doListen then listen os sfd blog s1 else (0, s1)) of (r, s2) \<Rightarrow>
              if r = -1 then ((-1, None), freeaddrinfo s2)
              else ((sfd, if wantLen then Some (ai_addrlen rp) else None), freeaddrinfo s2))"

definition inetListen :: "os \<Rightarrow> string \<Rightarrow> int \<Rightarrow> bool \<Rightarrow> net \<Rightarrow> (int \<times> nat option) \<times> net" where
  "inetListen os service blog wantLen s = inetPassiveSocket os service SOCK_STREAM wantLen True blog s"

definition inetBind :: "os \<Rightarrow> string \<Rightarrow> int \<Rightarrow> bool \<Rightarrow> net \<Rightarrow> (int \<times> nat option) \<times> net" where
  "inetBind os service type wantLen s = inetPassiveSocket os service type wantLen False 0 s"

section \<open>inetAddressStr\<close>

abbreviation (input) NI_MAXHOST :: nat where "NI_MAXHOST \<equiv> 1025"
abbreviation (input) NI_MAXSERV :: nat where "NI_MAXSERV \<equiv> 32"
abbreviation (input) IS_ADDR_STR_LEN :: nat where "IS_ADDR_STR_LEN \<equiv> 4096"

text \<open>\<open>getnameinfo\<close> is a parameter: the host and service that it stores, or an error.\<close>

definition inetAddressStr :: "(sockaddr \<Rightarrow> (string \<times> string) option) \<Rightarrow> sockaddr \<Rightarrow> nat \<Rightarrow> string" where
  "inetAddressStr getnameinfo addr addrStrLen =
     (case getnameinfo addr of
        Some (host, service) \<Rightarrow> fst (snprintf addrStrLen (''('' @ host @ '', '' @ service @ '')''))
      | None \<Rightarrow> fst (snprintf addrStrLen ''(?UNKNOWN?)''))"

section \<open>UNIX domain sockets\<close>

text \<open>\<open>strncpy(dst, src, n)\<close> into an array: the string, padded with null bytes.\<close>

definition strncpy :: "string \<Rightarrow> string \<Rightarrow> nat \<Rightarrow> string" where
  "strncpy dst src n = take n src @ replicate (n - length src) (CHR 0x00) @ drop n dst"

text \<open>
  The structure that \<open>addr\<close> points to, if it is not \<open>NULL\<close>, before and after; \<open>Inl\<close> is a
  return value of \<open>-1\<close> with this \<open>errno\<close>.
\<close>

definition unixBuildAddress :: "string option \<Rightarrow> sockaddr_un option \<Rightarrow> (errno + unit) \<times> sockaddr_un option" where
  "unixBuildAddress path addr =
     (case (path, addr) of
        (Some p, Some _) \<Rightarrow>
          let a = \<lparr>sun_family = AF_UNIX, sun_path = replicate SUN_PATH_SIZE (CHR 0x00)\<rparr> in
          if length p < SUN_PATH_SIZE
          then (Inr (), Some (a\<lparr>sun_path := strncpy (sun_path a) p (SUN_PATH_SIZE - 1)\<rparr>))
          else (Inl ENAMETOOLONG, Some a)
      | _ \<Rightarrow> (Inl EINVAL, addr))"

definition unixConnect :: "os \<Rightarrow> sockaddr_un \<Rightarrow> string option \<Rightarrow> int \<Rightarrow> net \<Rightarrow> int \<times> net" where
  "unixConnect os garbage path type s =
     (case unixBuildAddress path (Some garbage) of
        (Inr _, Some addr) \<Rightarrow>
          (case socket os AF_UNIX type 0 s of (sd, s1) \<Rightarrow>
           if sd = -1 then (-1, s1)
           else case connect os sd (UnixAddr addr) s1 of (r, s2) \<Rightarrow>
           if r = -1
           then let savedErrno = nerrno s2; s3 = close os sd s2 in (-1, s3\<lparr>nerrno := savedErrno\<rparr>)
           else (sd, s2))
      | (Inl e, _) \<Rightarrow> (-1, s\<lparr>nerrno := e\<rparr>)
      | (Inr _, None) \<Rightarrow> (-1, s))"

definition unixBind :: "os \<Rightarrow> sockaddr_un \<Rightarrow> string option \<Rightarrow> int \<Rightarrow> net \<Rightarrow> int \<times> net" where
  "unixBind os garbage path type s =
     (case unixBuildAddress path (Some garbage) of
        (Inr _, Some addr) \<Rightarrow>
          (case socket os AF_UNIX type 0 s of (sd, s1) \<Rightarrow>
           if sd = -1 then (-1, s1)
           else case bind os sd (UnixAddr addr) s1 of (r, s2) \<Rightarrow>
           if r = -1
           then let savedErrno = nerrno s2; s3 = close os sd s2 in (-1, s3\<lparr>nerrno := savedErrno\<rparr>)
           else (sd, s2))
      | (Inl e, _) \<Rightarrow> (-1, s\<lparr>nerrno := e\<rparr>)
      | (Inr _, None) \<Rightarrow> (-1, s))"

section \<open>Calls in order\<close>

text \<open>The kinds of socket that were asked for, in order.\<close>

fun tried :: "call list \<Rightarrow> (int \<times> int \<times> int) list" where
  "tried [] = []"
| "tried (C_socket k ok # cs) = k # tried cs"
| "tried (c # cs) = tried cs"

lemma tried_append [simp]: "tried (xs @ ys) = tried xs @ tried ys"
  by (induction xs rule: tried.induct) auto

text \<open>\<open>extends cs s s'\<close>: between the states the process made the calls \<open>cs\<close> and freed what it allocated.\<close>

definition extends :: "call list \<Rightarrow> net \<Rightarrow> net \<Rightarrow> bool" where
  "extends cs s s' \<longleftrightarrow> calls s' = calls s @ cs \<and> lists s' = lists s"

lemma extends_refl [simp]: "extends [] s s"
  by (simp add: extends_def)

lemma extends_trans [trans]: "extends cs s t \<Longrightarrow> extends ds t u \<Longrightarrow> extends (cs @ ds) s u"
  by (simp add: extends_def)

lemma socket_cases:
  assumes "socket os f t p s = (fd, s')"
  obtains (fails) e where "fd = -1" "fdmap s' = fdmap s" "nerrno s' = e"
      "socket_error os (calls s) (f, t, p) = Some e" "extends [C_socket (f, t, p) False] s s'"
    | (works) n where "fd = int n" "fdmap s n = None" "fdmap s' = (fdmap s)(n \<mapsto> newSock (f, t, p))"
      "socket_error os (calls s) (f, t, p) = None" "extends [C_socket (f, t, p) True] s s'"
proof (cases "socket_error os (calls s) (f, t, p)")
  case None
  then obtain n u where a: "alloc (newSock (f, t, p)) (tab s) = (n, u)" by (cases "alloc (newSock (f, t, p)) (tab s)")
  with None assms have "fd = int n" "s' = (logged (C_socket (f, t, p) True) None s)\<lparr>tab := u\<rparr>"
    by (auto simp: socket_def)
  with alloc_look [OF a] None show thesis by (intro works) (auto simp: logged_def extends_def)
next
  case (Some e)
  with assms show thesis by (intro fails) (auto simp: socket_def logged_def extends_def)
qed

lemma sockCall_cases:
  assumes "sockCall e c (int n) f s = (r, s')" "fdmap s n = Some k"
  obtains (fails) x where "r = -1" "e = Some x" "fdmap s' = fdmap s" "nerrno s' = x" "extends [c False] s s'"
    | (works) "r = 0" "e = None" "fdmap s' = (fdmap s)(n \<mapsto> f k)" "extends [c True] s s'"
proof (cases e)
  case None
  with assms show thesis
    by (intro works) (auto simp: sockCall_def setSock_def logged_def extends_def look_update)
next
  case (Some x)
  with assms show thesis by (intro fails) (auto simp: sockCall_def logged_def extends_def)
qed

lemma close_facts:
  "fdmap (close os (int n) s) = (fdmap s)(n := None)" "extends [C_close (int n)] s (close os (int n) s)"
  by (auto simp: close_def logged_def extends_def look_update)

section \<open>Walking through the addresses\<close>

text \<open>
  What the loops of \<open>inetConnect\<close> and \<open>inetPassiveSocket\<close> have in common: a socket is created
  for an address and prepared. If that works the socket is \<open>prepared\<close> for the address; otherwise
  its descriptor is closed, and a refusal is on record.
\<close>

datatype outcome = Works | Fails | Fatal

abbreviation ai_kind :: "addrinfo \<Rightarrow> int \<times> int \<times> int" where
  "ai_kind a \<equiv> (ai_family a, ai_socktype a, ai_protocol a)"

text \<open>An address was refused: by \<open>socket\<close>, or by a call that \<open>refusal\<close> recognises.\<close>

definition refused :: "(addrinfo \<Rightarrow> call \<Rightarrow> bool) \<Rightarrow> call list \<Rightarrow> addrinfo \<Rightarrow> bool" where
  "refused refusal cs a \<longleftrightarrow> C_socket (ai_kind a) False \<in> set cs \<or> Bex (set cs) (refusal a)"

lemma refused_append:
  "refused q cs a \<Longrightarrow> refused q (cs @ ds) a" "refused q ds a \<Longrightarrow> refused q (cs @ ds) a"
  by (auto simp: refused_def)

locale address_walk =
  fixes attempt :: "os \<Rightarrow> addrinfo \<Rightarrow> int \<Rightarrow> net \<Rightarrow> outcome \<times> net"
    and prepared :: "addrinfo \<Rightarrow> sock \<Rightarrow> sock"
    and refusal :: "addrinfo \<Rightarrow> call \<Rightarrow> bool"
  assumes attempt_works: "attempt os a (int n) s = (Works, s') \<Longrightarrow> fdmap s n = Some k \<Longrightarrow>
      fdmap s' = (fdmap s)(n \<mapsto> prepared a k) \<and> (\<exists>cs. extends cs s s' \<and> tried cs = [])"
    and attempt_fails: "attempt os a (int n) s = (r, s') \<Longrightarrow> fdmap s n = Some k \<Longrightarrow> r \<noteq> Works \<Longrightarrow>
      fdmap s' = (fdmap s)(n := None) \<and>
      (\<exists>cs. extends cs s s' \<and> tried cs = [] \<and> (r = Fails \<longrightarrow> Bex (set cs) (refusal a)))"
begin

fun walk :: "os \<Rightarrow> addrinfo list \<Rightarrow> net \<Rightarrow> walked \<times> net" where
  "walk os [] s = (Exhausted, s)"
| "walk os (a # as) s =
     (case socket os (ai_family a) (ai_socktype a) (ai_protocol a) s of (fd, s1) \<Rightarrow>
      if fd = -1 then walk os as s1
      else case attempt os a fd s1 of
        (Works, s2) \<Rightarrow> (Found a fd, s2)
      | (Fails, s2) \<Rightarrow> walk os as s2
      | (Fatal, s2) \<Rightarrow> (GaveUp, s2))"

text \<open>What a walk leaves behind.\<close>

definition walk_post :: "addrinfo list \<Rightarrow> net \<Rightarrow> walked \<Rightarrow> net \<Rightarrow> call list \<Rightarrow> bool" where
  "walk_post as s w s' cs \<longleftrightarrow>
     (case w of
        Exhausted \<Rightarrow> fdmap s' = fdmap s \<and> tried cs = map ai_kind as \<and> list_all (refused refusal cs) as
      | GaveUp \<Rightarrow> fdmap s' = fdmap s
      | Found a fd \<Rightarrow> \<exists>pre post n. as = pre @ a # post \<and> fd = int n \<and> fdmap s n = None \<and>
          fdmap s' = (fdmap s)(n \<mapsto> prepared a (newSock (ai_kind a))) \<and>
          tried cs = map ai_kind (pre @ [a]) \<and> list_all (refused refusal cs) pre)"

lemma walk_post_Cons:
  assumes "walk_post as s1 w s' cs" "fdmap s1 = fdmap s" "refused refusal ds a" "tried ds = [ai_kind a]"
  shows "walk_post (a # as) s w s' (ds @ cs)"
proof (cases w)
  case (Found b fd)
  with assms(1) obtain pre post n where p: "as = pre @ b # post" "fd = int n" "fdmap s1 n = None"
      "fdmap s' = (fdmap s1)(n \<mapsto> prepared b (newSock (ai_kind b)))"
      "tried cs = map ai_kind (pre @ [b])" "list_all (refused refusal cs) pre"
    by (auto simp: walk_post_def)
  have "a # as = (a # pre) @ b # post" using p(1) by simp
  moreover have "tried (ds @ cs) = map ai_kind ((a # pre) @ [b])" using assms(4) p(5) by simp
  moreover have "list_all (refused refusal (ds @ cs)) (a # pre)"
    using assms(3) p(6) by (auto simp: list_all_iff intro: refused_append)
  ultimately show ?thesis using p(2-4) unfolding walk_post_def assms(2) Found walked.case by blast
qed (use assms in \<open>auto simp: walk_post_def list_all_iff intro: refused_append\<close>)

lemma walk_correct: "walk os as s = (w, s') \<Longrightarrow> \<exists>cs. extends cs s s' \<and> walk_post as s w s' cs"
proof (induction as arbitrary: s)
  case Nil
  then have "extends [] s s'" "walk_post [] s w s' []" by (auto simp: walk_post_def)
  then show ?case by blast
next
  case (Cons a as)
  obtain fd s1 where so: "socket os (ai_family a) (ai_socktype a) (ai_protocol a) s = (fd, s1)" by fastforce
  from so show ?case
  proof (cases rule: socket_cases)
    case (fails e)
    with so Cons.prems have "walk os as s1 = (w, s')" by simp
    from Cons.IH [OF this] obtain cs where cs: "extends cs s1 s'" "walk_post as s1 w s' cs" by blast
    from extends_trans [OF fails(5) cs(1)] walk_post_Cons [OF cs(2) fails(2), of "[C_socket (ai_kind a) False]" a]
    show ?thesis by (auto simp: refused_def)
  next
    case (works n)
    obtain r s2 where at: "attempt os a (int n) s1 = (r, s2)" by fastforce
    have k: "fdmap s1 n = Some (newSock (ai_kind a))" using works(3) by simp
    show ?thesis
    proof (cases "r = Works")
      case True
      with so works(1) at Cons.prems have w: "w = Found a (int n)" "s' = s2" by auto
      from attempt_works [OF at [unfolded True] k] obtain ds where ds: "extends ds s1 s2" "tried ds = []"
        "fdmap s2 = (fdmap s1)(n \<mapsto> prepared a (newSock (ai_kind a)))" by blast
      have "walk_post (a # as) s w s' ([C_socket (ai_kind a) True] @ ds)"
        using w ds works(2,3) by (force simp: walk_post_def)
      with extends_trans [OF works(5) ds(1)] w(2) show ?thesis by blast
    next
      case False
      from attempt_fails [OF at k False] obtain ds where ds: "extends ds s1 s2" "tried ds = []"
        "fdmap s2 = (fdmap s1)(n := None)" "r = Fails \<longrightarrow> Bex (set ds) (refusal a)" by blast
      have same: "fdmap s2 = fdmap s" using ds(3) works(2,3) by auto
      note ex = extends_trans [OF works(5) ds(1)]
      show ?thesis
      proof (cases r)
        case Fails
        with so works(1) at Cons.prems have "walk os as s2 = (w, s')" by simp
        from Cons.IH [OF this] obtain cs where cs: "extends cs s2 s'" "walk_post as s2 w s' cs" by blast
        have "refused refusal ([C_socket (ai_kind a) True] @ ds) a" using ds(4) Fails by (auto simp: refused_def)
        from walk_post_Cons [OF cs(2) same this] ds(2) extends_trans [OF ex cs(1)] show ?thesis by auto
      next
        case Fatal
        with so works(1) at Cons.prems same have "walk_post (a # as) s w s' ([C_socket (ai_kind a) True] @ ds)" "s' = s2"
          by (auto simp: walk_post_def)
        with ex show ?thesis by blast
      qed (use False in simp)
    qed
  qed
qed

end

text \<open>The body of the loop of \<open>inetConnect\<close> and that of \<open>inetPassiveSocket\<close>.\<close>

definition tryConnect :: "os \<Rightarrow> addrinfo \<Rightarrow> int \<Rightarrow> net \<Rightarrow> outcome \<times> net" where
  "tryConnect os rp sfd s =
     (case connect os sfd (ai_addr rp) s of (r, s') \<Rightarrow>
      if r \<noteq> -1 then (Works, s') else (Fails, close os sfd s'))"

definition tryBind :: "bool \<Rightarrow> os \<Rightarrow> addrinfo \<Rightarrow> int \<Rightarrow> net \<Rightarrow> outcome \<times> net" where
  "tryBind doListen os rp sfd s =
     (case (if doListen then setReuseAddr os sfd s else (0, s)) of (r, s2) \<Rightarrow>
      if r = -1 then (Fatal, close os sfd s2)
      else case bind os sfd (ai_addr rp) s2 of (r, s3) \<Rightarrow>
      if r = 0 then (Works, s3) else (Fails, close os sfd s3))"

definition connectedTo :: "addrinfo \<Rightarrow> sock \<Rightarrow> sock" where
  "connectedTo a k = k\<lparr>peer := Some (ai_addr a)\<rparr>"

definition boundTo :: "bool \<Rightarrow> addrinfo \<Rightarrow> sock \<Rightarrow> sock" where
  "boundTo r a k = k\<lparr>reuseaddr := r \<or> reuseaddr k, local := Some (ai_addr a)\<rparr>"

fun connectRefused :: "addrinfo \<Rightarrow> call \<Rightarrow> bool" where
  "connectRefused a (C_connect fd x ok) = (x = ai_addr a \<and> \<not> ok)"
| "connectRefused a _ = False"

fun bindRefused :: "addrinfo \<Rightarrow> call \<Rightarrow> bool" where
  "bindRefused a (C_bind fd x ok) = (x = ai_addr a \<and> \<not> ok)"
| "bindRefused a _ = False"

interpretation conn: address_walk tryConnect connectedTo connectRefused
proof
  fix os a n s s' k
  assume t: "tryConnect os a (int n) s = (Works, s')" and k: "fdmap s n = Some k"
  obtain r u where c: "connect os (int n) (ai_addr a) s = (r, u)" by fastforce
  with t have u: "s' = u" "r \<noteq> -1" by (auto simp: tryConnect_def split: if_splits)
  from c [unfolded connect_def] k
  show "fdmap s' = (fdmap s)(n \<mapsto> connectedTo a k) \<and> (\<exists>cs. extends cs s s' \<and> tried cs = [])"
    by (cases rule: sockCall_cases) (use u in \<open>auto simp: connectedTo_def\<close>)
next
  fix os a n s s' k r
  assume t: "tryConnect os a (int n) s = (r, s')" and k: "fdmap s n = Some k" and r: "r \<noteq> Works"
  obtain q u where c: "connect os (int n) (ai_addr a) s = (q, u)" by fastforce
  with t r have u: "s' = close os (int n) u" "r = Fails" "q = -1" by (auto simp: tryConnect_def split: if_splits)
  from c [unfolded connect_def] k
  show "fdmap s' = (fdmap s)(n := None) \<and>
      (\<exists>cs. extends cs s s' \<and> tried cs = [] \<and> (r = Fails \<longrightarrow> Bex (set cs) (connectRefused a)))"
  proof (cases rule: sockCall_cases)
    case (fails x)
    from extends_trans [OF fails(5) close_facts(2) [of n u os]] fails(3) u close_facts(1) [of os n u]
    show ?thesis by (intro conjI exI) auto
  qed (use u in simp)
qed

lemma connectLoop_walk: "connectLoop os as s = conn.walk os as s"
  by (induction as arbitrary: s) (auto simp: tryConnect_def split: prod.splits)

lemma optional_reuse:
  assumes "(if d then setReuseAddr os (int n) s else (0, s)) = (r, t)" "fdmap s n = Some k"
  obtains (fails) cs where "r = -1" "fdmap t = fdmap s" "extends cs s t" "tried cs = []"
    | (works) cs where "r = 0" "fdmap t = (fdmap s)(n \<mapsto> k\<lparr>reuseaddr := d \<or> reuseaddr k\<rparr>)"
        "extends cs s t" "tried cs = []"
proof (cases d)
  case True
  with assms(1) have "setReuseAddr os (int n) s = (r, t)" by simp
  from this [unfolded setReuseAddr_def] assms(2) show thesis
    by (cases rule: sockCall_cases) (use True in \<open>auto intro: fails works\<close>)
next
  case False
  with assms have "r = 0" "t = s" "fdmap t = (fdmap s)(n \<mapsto> k\<lparr>reuseaddr := d \<or> reuseaddr k\<rparr>)" by auto
  with works [of "[]"] show thesis by simp
qed

interpretation bnd: address_walk "tryBind d" "boundTo d" bindRefused for d
proof
  fix os a n s s' k
  assume t: "tryBind d os a (int n) s = (Works, s')" and k: "fdmap s n = Some k"
  obtain q u where c: "(if d then setReuseAddr os (int n) s else (0, s)) = (q, u)" by fastforce
  obtain r v where b: "bind os (int n) (ai_addr a) u = (r, v)" by fastforce
  from t c b have u: "q \<noteq> -1" "r = 0" "s' = v" by (auto simp: tryBind_def split: if_splits)
  from c k show "fdmap s' = (fdmap s)(n \<mapsto> boundTo d a k) \<and> (\<exists>cs. extends cs s s' \<and> tried cs = [])"
  proof (cases rule: optional_reuse)
    case (works cs)
    then have "fdmap u n = Some (k\<lparr>reuseaddr := d \<or> reuseaddr k\<rparr>)" by simp
    with b [unfolded bind_def] show ?thesis
    proof (cases rule: sockCall_cases)
      case works2: works
      from extends_trans [OF works(3) works2(4)] works(2,4) works2(3) u(3) show ?thesis
        by (intro conjI exI [of _ "cs @ [C_bind (int n) (ai_addr a) True]"]) (auto simp: boundTo_def)
    qed (use u in simp)
  qed (use u in simp)
next
  fix os a n s s' k r
  assume t: "tryBind d os a (int n) s = (r, s')" and k: "fdmap s n = Some k" and r: "r \<noteq> Works"
  let ?G = "fdmap s' = (fdmap s)(n := None) \<and>
      (\<exists>cs. extends cs s s' \<and> tried cs = [] \<and> (r = Fails \<longrightarrow> Bex (set cs) (bindRefused a)))"
  obtain q u where c: "(if d then setReuseAddr os (int n) s else (0, s)) = (q, u)" by fastforce
  from c k show ?G
  proof (cases rule: optional_reuse)
    case (fails cs)
    with t c have "r = Fatal" "s' = close os (int n) u" by (auto simp: tryBind_def)
    with extends_trans [OF fails(3) close_facts(2) [of n u os]] fails(2,4) close_facts(1) [of os n u]
    show ?thesis by (intro conjI exI [of _ "cs @ [C_close (int n)]"]) auto
  next
    case (works cs)
    then have ku: "fdmap u n = Some (k\<lparr>reuseaddr := d \<or> reuseaddr k\<rparr>)" by simp
    obtain p v where b: "bind os (int n) (ai_addr a) u = (p, v)" by fastforce
    with t c works(1) r have f: "p \<noteq> 0" "r = Fails" "s' = close os (int n) v" by (auto simp: tryBind_def split: if_splits)
    from b [unfolded bind_def] ku show ?thesis
    proof (cases rule: sockCall_cases)
      case (fails x)
      from extends_trans [OF extends_trans [OF works(3) fails(5)] close_facts(2) [of n v os]]
        works(2,4) fails(3) f close_facts(1) [of os n v]
      show ?thesis by (intro conjI exI [of _ "(cs @ [C_bind (int n) (ai_addr a) False]) @ [C_close (int n)]"]) auto
    qed (use f in simp)
  qed
qed

lemma connectLoop_goes_on: "fst (connectLoop os as s) \<noteq> GaveUp"
  by (induction as arbitrary: s) (auto split: prod.splits)

lemma bindLoop_walk: "bindLoop os d as s = bnd.walk d os as s"
  by (induction as arbitrary: s) (auto simp: tryBind_def split: prod.splits)

section \<open>Properties of the Internet routines\<close>

lemma optional_listen:
  assumes "(if d then listen os (int n) b s else (0, s)) = (r, t)" "fdmap s n = Some k"
  obtains (fails) "r = -1" "fdmap t = fdmap s" "extends [C_listen (int n) False] s t"
    | (works) cs where "r = 0" "fdmap t = (fdmap s)(n \<mapsto> k\<lparr>backlog := if d then Some b else backlog k\<rparr>)"
        "extends cs s t" "tried cs = []"
proof (cases d)
  case True
  with assms(1) have "listen os (int n) b s = (r, t)" by simp
  from this [unfolded listen_def] assms(2) show thesis
    by (cases rule: sockCall_cases) (use True in \<open>auto intro: fails works\<close>)
next
  case False
  with assms have "r = 0" "t = s" "fdmap t = (fdmap s)(n \<mapsto> k\<lparr>backlog := if d then Some b else backlog k\<rparr>)" by auto
  with works [of "[]"] show thesis by simp
qed

lemma extends_lists: "extends cs (s\<lparr>lists := n\<rparr>) t \<Longrightarrow> calls t = calls s @ cs \<and> lists t = n"
  by (simp add: extends_def)

text \<open>
  C14. \<open>inetConnect\<close> uses the first address that works. When the resolver knows the host, the
  result is a descriptor that was free, now of a socket of the kind of some address in the list
  and connected to it: every address before it was tried, in the order of the list, and refused
  either by \<open>socket\<close> or by \<open>connect\<close>, and none after it was tried. The result is \<open>-1\<close> only if
  every address was refused. All other descriptors are as they were (the sockets of the failed
  attempts are closed), and the list is freed.
\<close>

theorem inetConnect_first_usable:
  assumes "getaddrinfo os (calls s) host service \<lparr>h_flags = 0, h_family = AF_UNSPEC, h_socktype = type\<rparr> = Inr as"
    and "inetConnect os host service type s = (sfd, s')"
  shows "lists s' = lists s \<and> (\<exists>cs. calls s' = calls s @ cs \<and>
    (if sfd = -1 then fdmap s' = fdmap s \<and> tried cs = map ai_kind as \<and> list_all (refused connectRefused cs) as
     else \<exists>pre a post n. as = pre @ a # post \<and> sfd = int n \<and> fdmap s n = None \<and>
       fdmap s' = (fdmap s)(n \<mapsto> (newSock (ai_kind a))\<lparr>peer := Some (ai_addr a)\<rparr>) \<and>
       tried cs = map ai_kind (pre @ [a]) \<and> list_all (refused connectRefused cs) pre))"
proof -
  obtain w u where l: "conn.walk os as (s\<lparr>lists := lists s + 1\<rparr>) = (w, u)" by fastforce
  from conn.walk_correct [OF l] obtain cs where cs: "extends cs (s\<lparr>lists := lists s + 1\<rparr>) u"
    "conn.walk_post as (s\<lparr>lists := lists s + 1\<rparr>) w u cs" by blast
  from assms l have r: "s' = freeaddrinfo u" "sfd = (case w of Found rp f \<Rightarrow> f | _ \<Rightarrow> -1)"
    by (auto simp: inetConnect_def connectLoop_walk Let_def split: walked.splits)
  have "w \<noteq> GaveUp" using connectLoop_goes_on [of os as "s\<lparr>lists := lists s + 1\<rparr>"] l by (simp add: connectLoop_walk)
  with cs(2) r(2) have "if sfd = -1 then fdmap u = fdmap s \<and> tried cs = map ai_kind as \<and> list_all (refused connectRefused cs) as
     else \<exists>pre a post n. as = pre @ a # post \<and> sfd = int n \<and> fdmap s n = None \<and>
       fdmap u = (fdmap s)(n \<mapsto> (newSock (ai_kind a))\<lparr>peer := Some (ai_addr a)\<rparr>) \<and>
       tried cs = map ai_kind (pre @ [a]) \<and> list_all (refused connectRefused cs) pre"
    by (cases w) (auto simp: conn.walk_post_def connectedTo_def)
  with extends_lists [OF cs(1)] r(1) show ?thesis by (intro conjI exI [of _ cs]) (auto simp: freeaddrinfo_def)
qed

text \<open>The list of addresses in the demonstration: an address in use, and a free one.\<close>

definition demo_ai :: "string \<Rightarrow> addrinfo" where
  "demo_ai a = \<lparr>ai_family = 2, ai_socktype = SOCK_STREAM, ai_protocol = 6, ai_addr = InetAddr a, ai_addrlen = 16\<rparr>"

definition demo_os :: "errno option \<Rightarrow> os" where
  "demo_os e = \<lparr>getaddrinfo = (\<lambda>_ _ _ _. Inr [demo_ai ''a'', demo_ai ''b'']), socket_error = (\<lambda>_ _. None),
     connect_error = (\<lambda>_ _ a. if a = InetAddr ''a'' then Some 111 else None), setsockopt_error = (\<lambda>_ _. None),
     bind_error = (\<lambda>_ _ a. if a = InetAddr ''a'' then Some 98 else None), listen_error = (\<lambda>_ _. e),
     close_error = (\<lambda>_ _. None)\<rparr>"

definition demo_net :: net where
  "demo_net = \<lparr>tab = [], calls = [], nerrno = 0, lists = 0\<rparr>"

lemmas demo_defs = demo_ai_def demo_os_def demo_net_def
lemmas call_defs = socket_def connect_def setReuseAddr_def bind_def listen_def close_def sockCall_def setSock_def
  logged_def newSock_def freeaddrinfo_def

theorem inetConnect_first_usable_witness:
  "\<exists>s' k. inetConnect (demo_os None) None ''50000'' SOCK_STREAM demo_net = (0, s') \<and>
     fdmap s' = (fdmap demo_net)(0 \<mapsto> k) \<and> peer k = Some (InetAddr ''b'')"
proof -
  define r where "r = inetConnect (demo_os None) None ''50000'' SOCK_STREAM demo_net"
  have t: "fst r = 0 \<and> map_option peer (fdmap (snd r) 0) = Some (Some (InetAddr ''b''))"
    unfolding r_def by code_simp
  then have r: "inetConnect (demo_os None) None ''50000'' SOCK_STREAM demo_net = (0, snd r)"
    unfolding r_def by (metis prod.collapse)
  have g: "getaddrinfo (demo_os None) (calls demo_net) None ''50000''
    \<lparr>h_flags = 0, h_family = AF_UNSPEC, h_socktype = SOCK_STREAM\<rparr> = Inr [demo_ai ''a'', demo_ai ''b'']"
    by (simp add: demo_os_def)
  from inetConnect_first_usable [OF g r] obtain k where "fdmap (snd r) = (fdmap demo_net)(0 \<mapsto> k)" by auto
  with t r show ?thesis by auto
qed

text \<open>
  \<open>inetPassiveSocket\<close>, and with it \<open>inetListen\<close> and \<open>inetBind\<close>: on success the result is a
  descriptor that was free, now of a socket bound to the first address that could be bound
  (those before it were refused, in order), which has \<open>SO_REUSEADDR\<close> and listens with the
  caller's backlog exactly if \<open>doListen\<close>, and the size of that address is stored if asked for.
  On failure no descriptor is left open, except in one case: \<open>listen\<close> failed, and the bound
  socket stays open. The list of addresses is freed on every path.
\<close>

theorem inetPassiveSocket_correct:
  assumes "getaddrinfo os (calls s) None service \<lparr>h_flags = AI_PASSIVE, h_family = AF_UNSPEC, h_socktype = type\<rparr> = Inr as"
    and "inetPassiveSocket os service type wantLen doListen blog s = ((sfd, len), s')"
  shows "lists s' = lists s \<and> (\<exists>cs. calls s' = calls s @ cs \<and>
    (if sfd = -1
     then fdmap s' = fdmap s \<or>
       (\<exists>n k. C_listen (int n) False \<in> set cs \<and> fdmap s n = None \<and> fdmap s' = (fdmap s)(n \<mapsto> k))
     else \<exists>pre a post n. as = pre @ a # post \<and> sfd = int n \<and> fdmap s n = None \<and>
       fdmap s' = (fdmap s)(n \<mapsto> \<lparr>kind = ai_kind a, reuseaddr = doListen, local = Some (ai_addr a), peer = None,
         backlog = (if doListen then Some blog else None)\<rparr>) \<and>
       len = (if wantLen then Some (ai_addrlen a) else None) \<and>
       tried cs = map ai_kind (pre @ [a]) \<and> list_all (refused bindRefused cs) pre))"
proof -
  let ?s = "s\<lparr>lists := lists s + 1\<rparr>"
  obtain w u where l: "bnd.walk doListen os as ?s = (w, u)" by fastforce
  from bnd.walk_correct [OF l] obtain cs where cs: "extends cs ?s u" "bnd.walk_post doListen as ?s w u cs" by blast
  show ?thesis
  proof (cases w)
    case (Found a fd)
    with cs(2) obtain pre post n where p: "as = pre @ a # post" "fd = int n" "fdmap s n = None"
      "fdmap u = (fdmap s)(n \<mapsto> boundTo doListen a (newSock (ai_kind a)))"
      "tried cs = map ai_kind (pre @ [a])" "list_all (refused bindRefused cs) pre"
      by (auto simp: bnd.walk_post_def)
    obtain r v where li: "(if doListen then listen os (int n) blog u else (0, u)) = (r, v)" by fastforce
    from assms l Found p(2) li have "((sfd, len), s') = (if r = -1 then ((-1, None), freeaddrinfo v)
        else ((int n, if wantLen then Some (ai_addrlen a) else None), freeaddrinfo v))"
      by (simp add: inetPassiveSocket_def bindLoop_walk)
    then have r: "s' = freeaddrinfo v"
      "(sfd, len) = (if r = -1 then (-1, None) else (int n, if wantLen then Some (ai_addrlen a) else None))"
      by (cases "r = -1"; simp)+
    have ku: "fdmap u n = Some (boundTo doListen a (newSock (ai_kind a)))" using p(4) by simp
    from li ku show ?thesis
    proof (cases rule: optional_listen)
      case fails
      from extends_lists [OF extends_trans [OF cs(1) fails(3)]]
      have "lists s' = lists s" "calls s' = calls s @ cs @ [C_listen (int n) False]"
        using r(1) by (auto simp: freeaddrinfo_def)
      moreover have "fdmap s' = (fdmap s)(n \<mapsto> boundTo doListen a (newSock (ai_kind a)))"
        using fails(2) p(4) r(1) by (simp add: freeaddrinfo_def)
      moreover have "sfd = -1" using fails(1) r(2) by simp
      moreover have "C_listen (int n) False \<in> set (cs @ [C_listen (int n) False])" by simp
      ultimately show ?thesis using p(3) by metis
    next
      case (works ds)
      have "lists s' = lists s" "calls s' = calls s @ cs @ ds"
        using r(1) extends_lists [OF extends_trans [OF cs(1) works(3)]] by (auto simp: freeaddrinfo_def)
      moreover have "fdmap s' = (fdmap s)(n \<mapsto> \<lparr>kind = ai_kind a, reuseaddr = doListen, local = Some (ai_addr a),
          peer = None, backlog = (if doListen then Some blog else None)\<rparr>)"
        using works(2) p(4) r(1) by (simp add: freeaddrinfo_def boundTo_def newSock_def)
      moreover have "sfd = int n" "len = (if wantLen then Some (ai_addrlen a) else None)" using works(1) r(2) by auto
      moreover have "tried (cs @ ds) = map ai_kind (pre @ [a])" using p(5) works(4) by simp
      moreover have "list_all (refused bindRefused (cs @ ds)) pre"
        using p(6) by (auto simp: list_all_iff intro: refused_append)
      ultimately show ?thesis using p(1,3) by (intro conjI exI [of _ "cs @ ds"]) (simp, simp, simp, blast)
    qed
  next
    case Exhausted
    with assms l have "sfd = -1" "s' = freeaddrinfo u" by (auto simp: inetPassiveSocket_def bindLoop_walk)
    with Exhausted cs extends_lists [OF cs(1)] show ?thesis by (auto simp: bnd.walk_post_def freeaddrinfo_def)
  next
    case GaveUp
    with assms l have "sfd = -1" "s' = freeaddrinfo u" by (auto simp: inetPassiveSocket_def bindLoop_walk)
    with GaveUp cs extends_lists [OF cs(1)] show ?thesis by (auto simp: bnd.walk_post_def freeaddrinfo_def)
  qed
qed

theorem inetPassiveSocket_correct_witness:
  "\<exists>s' k. inetPassiveSocket (demo_os None) ''50000'' SOCK_STREAM True True 5 demo_net = ((0, Some 16), s') \<and>
     fdmap s' = (fdmap demo_net)(0 \<mapsto> k) \<and> local k = Some (InetAddr ''b'') \<and> backlog k = Some 5"
proof -
  define r where "r = inetPassiveSocket (demo_os None) ''50000'' SOCK_STREAM True True 5 demo_net"
  have t: "fst r = (0, Some 16) \<and> map_option local (fdmap (snd r) 0) = Some (Some (InetAddr ''b''))"
    unfolding r_def by code_simp
  then have r: "inetPassiveSocket (demo_os None) ''50000'' SOCK_STREAM True True 5 demo_net = ((0, Some 16), snd r)"
    unfolding r_def by (metis prod.collapse)
  have g: "getaddrinfo (demo_os None) (calls demo_net) None ''50000''
    \<lparr>h_flags = AI_PASSIVE, h_family = AF_UNSPEC, h_socktype = SOCK_STREAM\<rparr> = Inr [demo_ai ''a'', demo_ai ''b'']"
    by (simp add: demo_os_def)
  from inetPassiveSocket_correct [OF g r] obtain k where "fdmap (snd r) = (fdmap demo_net)(0 \<mapsto> k)" "backlog k = Some 5"
    by auto
  with t r show ?thesis by auto
qed

text \<open>A socket that stays open after \<open>inetListen\<close> has reported a failure.\<close>

lemma inetListen_leaks_socket:
  "fst (inetListen (demo_os (Some 98)) ''50000'' 5 True demo_net) = (-1, None) \<and>
   fdmap (snd (inetListen (demo_os (Some 98)) ''50000'' 5 True demo_net)) 0 \<noteq> None"
  by code_simp

text \<open>A buffer of the size that \<open>inet_sockets.h\<close> suggests holds every address that \<open>getnameinfo\<close> can store.\<close>

lemma inetAddressStr_complete:
  assumes "g a = Some (host, service)" "length host < NI_MAXHOST" "length service < NI_MAXSERV"
  shows "inetAddressStr g a IS_ADDR_STR_LEN = ''('' @ host @ '', '' @ service @ '')''"
  using assms by (simp add: inetAddressStr_def snprintf_def)

section \<open>Properties of the UNIX domain routines\<close>

text \<open>The address of a path: the path and null bytes up to the end of the array.\<close>

definition unixAddr :: "string \<Rightarrow> sockaddr" where
  "unixAddr p = UnixAddr \<lparr>sun_family = AF_UNIX, sun_path = p @ replicate (SUN_PATH_SIZE - length p) (CHR 0x00)\<rparr>"

lemma unixBuildAddress_path:
  assumes "length p < SUN_PATH_SIZE"
  shows "\<exists>a. unixBuildAddress (Some p) (Some g) = (Inr (), Some a) \<and> UnixAddr a = unixAddr p"
proof -
  have "Suc (107 - length p) = 108 - length p" using assms by simp
  then have "replicate (107 - length p) (CHR 0x00) @ [CHR 0x00] = replicate (108 - length p) (CHR 0x00)"
    by (metis replicate_Suc replicate_append_same)
  with assms show ?thesis by (simp add: unixBuildAddress_def unixAddr_def strncpy_def)
qed

text \<open>What \<open>unixConnect\<close> and \<open>unixBind\<close> share: \<open>call\<close> is the last system call of the two.\<close>

locale unix_open =
  fixes make :: "os \<Rightarrow> sockaddr_un \<Rightarrow> string option \<Rightarrow> int \<Rightarrow> net \<Rightarrow> int \<times> net"
    and call_error :: "os \<Rightarrow> call list \<Rightarrow> int \<Rightarrow> sockaddr \<Rightarrow> errno option"
    and entry :: "int \<Rightarrow> sockaddr \<Rightarrow> bool \<Rightarrow> call"
    and change :: "sockaddr \<Rightarrow> sock \<Rightarrow> sock"
  assumes make_eq: "make os g path type s =
     (case unixBuildAddress path (Some g) of
        (Inr _, Some addr) \<Rightarrow>
          (case socket os AF_UNIX type 0 s of (sd, s1) \<Rightarrow>
           if sd = -1 then (-1, s1)
           else case sockCall (call_error os (calls s1) sd (UnixAddr addr)) (entry sd (UnixAddr addr)) sd
             (change (UnixAddr addr)) s1 of (r, s2) \<Rightarrow>
           if r = -1
           then let savedErrno = nerrno s2; s3 = close os sd s2 in (-1, s3\<lparr>nerrno := savedErrno\<rparr>)
           else (sd, s2))
      | (Inl e, _) \<Rightarrow> (-1, s\<lparr>nerrno := e\<rparr>)
      | (Inr _, None) \<Rightarrow> (-1, s))"
begin

lemma make_correct:
  assumes "make os g path type s = (sd, s')"
  shows "case path of
      None \<Rightarrow> sd = -1 \<and> s' = s\<lparr>nerrno := EINVAL\<rparr>
    | Some p \<Rightarrow>
        if SUN_PATH_SIZE \<le> length p then sd = -1 \<and> s' = s\<lparr>nerrno := ENAMETOOLONG\<rparr>
        else if sd = -1 then fdmap s' = fdmap s \<and>
          (socket_error os (calls s) (AF_UNIX, type, 0) = Some (nerrno s') \<or>
           (\<exists>n. fdmap s n = None \<and>
              call_error os (calls s @ [C_socket (AF_UNIX, type, 0) True]) (int n) (unixAddr p) = Some (nerrno s')))
        else \<exists>n. sd = int n \<and> fdmap s n = None \<and>
          fdmap s' = (fdmap s)(n \<mapsto> change (unixAddr p) (newSock (AF_UNIX, type, 0)))"
proof (cases path)
  case None
  with assms show ?thesis by (auto simp: make_eq unixBuildAddress_def)
next
  case (Some p)
  show ?thesis
  proof (cases "length p < SUN_PATH_SIZE")
    case False
    with Some assms show ?thesis by (auto simp: make_eq unixBuildAddress_def)
  next
    case True
    from unixBuildAddress_path [OF True, of g] obtain a
      where a: "unixBuildAddress (Some p) (Some g) = (Inr (), Some a)" "UnixAddr a = unixAddr p" by blast
    obtain fd s1 where so: "socket os AF_UNIX type 0 s = (fd, s1)" by fastforce
    from so show ?thesis
    proof (cases rule: socket_cases)
      case (fails e)
      with assms Some a so True show ?thesis by (auto simp: make_eq)
    next
      case (works n)
      obtain r s2 where c: "sockCall (call_error os (calls s1) (int n) (unixAddr p)) (entry (int n) (unixAddr p)) (int n)
         (change (unixAddr p)) s1 = (r, s2)" by fastforce
      have k: "fdmap s1 n = Some (newSock (AF_UNIX, type, 0))" using works(3) by simp
      from c k show ?thesis
      proof (cases rule: sockCall_cases)
        case (fails x)
        with assms Some a so works c have "sd = -1" "s' = (close os (int n) s2)\<lparr>nerrno := x\<rparr>"
          by (auto simp: make_eq)
        moreover have "fdmap s' = fdmap s"
          using calculation(2) close_facts(1) [of os n s2] fails(3) works(2,3) by auto
        moreover have "calls s1 = calls s @ [C_socket (AF_UNIX, type, 0) True]" using works(5) by (simp add: extends_def)
        ultimately show ?thesis using Some True fails(2) works(2) by auto
      next
        case works2: works
        with assms Some a so works c have "sd = int n" "s' = s2" by (auto simp: make_eq)
        with works2(3) works(2,3) Some True show ?thesis by simp
      qed
    qed
  qed
qed

end

interpretation uconn: unix_open unixConnect connect_error C_connect "\<lambda>a k. k\<lparr>peer := Some a\<rparr>"
  by unfold_locales (unfold unixConnect_def connect_def, rule refl)

interpretation ubind: unix_open unixBind bind_error C_bind "\<lambda>a k. k\<lparr>local := Some a\<rparr>"
  by unfold_locales (unfold unixBind_def bind_def, rule refl)

text \<open>
  C39. \<open>unixConnect\<close> either yields a descriptor that was free, of a socket connected to exactly
  the given path (which fits the address with its terminating null byte), or it returns \<open>-1\<close>
  with every descriptor as before and \<open>errno\<close> telling the call that failed: \<open>EINVAL\<close> for a null
  path, \<open>ENAMETOOLONG\<close> for one of 108 bytes or more, or the error of \<open>socket\<close> or of \<open>connect\<close>,
  even if the \<open>close\<close> after a failed \<open>connect\<close> changes \<open>errno\<close>.
\<close>

theorem unixConnect_correct:
  assumes "unixConnect os g path type s = (sd, s')"
  shows "case path of
      None \<Rightarrow> sd = -1 \<and> s' = s\<lparr>nerrno := EINVAL\<rparr>
    | Some p \<Rightarrow>
        if SUN_PATH_SIZE \<le> length p then sd = -1 \<and> s' = s\<lparr>nerrno := ENAMETOOLONG\<rparr>
        else if sd = -1 then fdmap s' = fdmap s \<and>
          (socket_error os (calls s) (AF_UNIX, type, 0) = Some (nerrno s') \<or>
           (\<exists>n. fdmap s n = None \<and>
              connect_error os (calls s @ [C_socket (AF_UNIX, type, 0) True]) (int n) (unixAddr p) = Some (nerrno s')))
        else \<exists>n. sd = int n \<and> fdmap s n = None \<and>
          fdmap s' = (fdmap s)(n \<mapsto> (newSock (AF_UNIX, type, 0))\<lparr>peer := Some (unixAddr p)\<rparr>)"
  using uconn.make_correct [OF assms] .

definition demo_un :: sockaddr_un where
  "demo_un = \<lparr>sun_family = 0, sun_path = []\<rparr>"

theorem unixConnect_correct_witness:
  "\<exists>s'. unixConnect (demo_os None) demo_un (Some ''/tmp/s'') SOCK_STREAM demo_net = (0, s') \<and>
     fdmap s' = (fdmap demo_net)(0 \<mapsto> (newSock (AF_UNIX, SOCK_STREAM, 0))\<lparr>peer := Some (unixAddr ''/tmp/s'')\<rparr>)"
proof -
  define r where "r = unixConnect (demo_os None) demo_un (Some ''/tmp/s'') SOCK_STREAM demo_net"
  have "fst r = 0" unfolding r_def by code_simp
  then have r: "unixConnect (demo_os None) demo_un (Some ''/tmp/s'') SOCK_STREAM demo_net = (0, snd r)"
    unfolding r_def by (metis prod.collapse)
  from unixConnect_correct [OF this] show ?thesis using r by auto
qed

lemma unixBind_correct:
  assumes "unixBind os g path type s = (sd, s')" "path = Some p" "length p < SUN_PATH_SIZE" "sd \<noteq> -1"
  shows "\<exists>n. sd = int n \<and> fdmap s n = None \<and>
    fdmap s' = (fdmap s)(n \<mapsto> (newSock (AF_UNIX, type, 0))\<lparr>local := Some (unixAddr p)\<rparr>)"
  using ubind.make_correct [OF assms(1)] assms(2-4) by simp

end
