(* ===== verification/SeqNumInet.thy ===== *)
theory SeqNumInet
  imports InetSockets SeqNum
begin

text \<open>
  The sequence number service over Internet stream sockets: the servers
  \<open>sockets/is_seqnum_sv.c\<close> and \<open>is_seqnum_v2_sv.c\<close>, and the clients \<open>is_seqnum_cl.c\<close> and
  \<open>is_seqnum_v2_cl.c\<close>. The first version of each calls the socket functions itself, the second
  uses \<open>inet_sockets.c\<close>. Requests and responses are lines of text, read with \<open>readLine\<close>; the
  counter is a \<open>uint32_t\<close> that wraps around and that is printed as a signed number.
\<close>

abbreviation (input) INT_LEN :: nat where "INT_LEN \<equiv> 30"
abbreviation (input) PORT_NUM :: string where "PORT_NUM \<equiv> ''50000''"
abbreviation (input) ADDRSTRLEN :: nat where "ADDRSTRLEN \<equiv> NI_MAXHOST + NI_MAXSERV + 10"

section \<open>Starting a server\<close>

text \<open>The loop of \<open>is_seqnum_sv.c\<close>; a failure of \<open>setsockopt\<close> ends the process.\<close>

fun svBindLoop :: "os \<Rightarrow> addrinfo list \<Rightarrow> net \<Rightarrow> walked \<times> net" where
  "svBindLoop os [] s = (Exhausted, s)"
| "svBindLoop os (rp # rps) s =
     (case socket os (ai_family rp) (ai_socktype rp) (ai_protocol rp) s of (lfd, s1) \<Rightarrow>
      if lfd = -1 then svBindLoop os rps s1
      else case setReuseAddr os lfd s1 of (r, s2) \<Rightarrow>
      if r = -1 then (GaveUp, s2)
      else case bind os lfd (ai_addr rp) s2 of (r, s3) \<Rightarrow>
      if r = 0 then (Found rp lfd, s3)
      else svBindLoop os rps (close os lfd s3))"

text \<open>The initial number: \<open>args\<close> are the arguments after the program name.\<close>

definition initSeqNum :: "string list \<Rightarrow> 32 word res" where
  "initSeqNum args =
     (if args \<noteq> [] \<and> hd args = ''--help'' then Exit EXIT_FAILURE
      else case (if args \<noteq> [] then getInt (Some (hd args)) 0 (Some ''init-seq-num'') else Inr 0) of
        Inl _ \<Rightarrow> Exit EXIT_FAILURE
      | Inr n \<Rightarrow> Ret (word_of_int n))"

text \<open>
  \<open>main\<close> up to the loop: the listening socket and the counter. \<open>signalOk\<close> tells whether
  \<open>SIGPIPE\<close> could be ignored, \<open>mallocOk\<close> whether there is memory for the client's address.
\<close>

definition sv_start :: "os \<Rightarrow> bool \<Rightarrow> string list \<Rightarrow> net \<Rightarrow> (int \<times> 32 word) res \<times> net" where
  "sv_start os signalOk args =
     seq_res (\<lambda>s. (initSeqNum args, s)) (\<lambda>seqNum s.
       if \<not> signalOk then (Exit EXIT_FAILURE, s)
       else case getaddrinfo os (calls s) None PORT_NUM
           \<lparr>h_flags = AI_PASSIVE OR AI_NUMERICSERV, h_family = AF_UNSPEC, h_socktype = SOCK_STREAM\<rparr> of
         Inl _ \<Rightarrow> (Exit EXIT_FAILURE, s)
       | Inr result \<Rightarrow>
           case svBindLoop os result (s\<lparr>lists := lists s + 1\<rparr>) of
             (Found rp lfd, s1) \<Rightarrow>
               (case listen os lfd 50 s1 of (r, s2) \<Rightarrow>
                if r = -1 then (Exit EXIT_FAILURE, s2) else (Ret (lfd, seqNum), freeaddrinfo s2))
           | (_, s1) \<Rightarrow> (Exit EXIT_FAILURE, s1))"

definition v2_sv_start :: "os \<Rightarrow> bool \<Rightarrow> bool \<Rightarrow> string list \<Rightarrow> net \<Rightarrow> (int \<times> 32 word) res \<times> net" where
  "v2_sv_start os signalOk mallocOk args =
     seq_res (\<lambda>s. (initSeqNum args, s)) (\<lambda>seqNum s.
       if \<not> signalOk then (Exit EXIT_FAILURE, s)
       else case inetListen os PORT_NUM 5 True s of ((lfd, addrlen), s1) \<Rightarrow>
       if lfd = -1 then (Exit EXIT_FAILURE, s1)
       else if \<not> mallocOk then (Exit EXIT_FAILURE, s1)
       else (Ret (lfd, seqNum), s1))"

section \<open>Serving a client\<close>

text \<open>The string in a buffer of characters.\<close>

definition cstr :: "string \<Rightarrow> string" where
  "cstr buf = takeWhile (\<lambda>c. c \<noteq> CHR 0x00) buf"

text \<open>
  What an iteration of the loop meets: whether \<open>accept\<close> works, the address of the client, and
  the two directions of the connection. What it does: the output, the bytes sent, whether the
  connection is closed, and by how much the counter moves (0 for a request that is skipped).
\<close>

record visit =
  accepted :: bool
  claddr :: sockaddr
  v_in :: rdesc
  v_out :: wdesc
  closeOk :: bool

record served =
  said :: string
  warned :: "string list"
  sent :: string
  closed :: bool
  taken :: int

definition serveClient :: "(sockaddr \<Rightarrow> string) \<Rightarrow> visit \<Rightarrow> 32 word \<Rightarrow> (served \<times> 32 word) option" where
  "serveClient addrStr v seqNum =
     (if \<not> accepted v
      then Some (\<lparr>said = [], warned = [''accept''], sent = [], closed = False, taken = 0\<rparr>, seqNum)
      else
        let out = ''Connection from '' @ addrStr (claddr v) @ [NEWLINE];
            skipped = \<lparr>said = out, warned = [], sent = [], closed = True, taken = 0\<rparr> in
        case readLine INT_LEN True (v_in v) of
          None \<Rightarrow> None
        | Some (Inl _, _, _) \<Rightarrow> Some (skipped, seqNum)
        | Some (Inr 0, _, _) \<Rightarrow> Some (skipped, seqNum)
        | Some (Inr _, reqLenStr, _) \<Rightarrow>
            let reqLen = atoi (cstr reqLenStr) in
            if reqLen \<le> 0 then Some (skipped, seqNum)
            else
              let seqNumStr = fst (snprintf INT_LEN (show_int (sint seqNum) @ [NEWLINE])) in
              case write_fd seqNumStr ((v_out v)\<lparr>written := []\<rparr>) of
                None \<Rightarrow> None
              | Some (r, w) \<Rightarrow>
                  Some (\<lparr>said = out,
                      warned = (if r \<noteq> Inr (length seqNumStr) then [''Error on write''] else []) @
                        (if closeOk v then [] else [''close'']),
                      sent = written w, closed = True, taken = reqLen\<rparr>,
                    seqNum + word_of_int reqLen))"

text \<open>The two servers differ in how the name of the client is found; \<open>gni\<close> is \<open>getnameinfo\<close>.\<close>

definition sv_iteration :: "(sockaddr \<Rightarrow> (string \<times> string) option) \<Rightarrow> visit \<Rightarrow> 32 word \<Rightarrow> (served \<times> 32 word) option" where
  "sv_iteration gni =
     serveClient (\<lambda>a. case gni a of
         Some (host, service) \<Rightarrow> fst (snprintf ADDRSTRLEN (''('' @ host @ '', '' @ service @ '')''))
       | None \<Rightarrow> fst (snprintf ADDRSTRLEN ''(?UNKNOWN?)''))"

definition v2_sv_iteration :: "(sockaddr \<Rightarrow> (string \<times> string) option) \<Rightarrow> visit \<Rightarrow> 32 word \<Rightarrow> (served \<times> 32 word) option" where
  "v2_sv_iteration gni = serveClient (\<lambda>a. inetAddressStr gni a IS_ADDR_STR_LEN)"

text \<open>The endless loop, over a list of iterations.\<close>

fun serveLoop :: "(visit \<Rightarrow> 32 word \<Rightarrow> (served \<times> 32 word) option) \<Rightarrow> visit list \<Rightarrow> 32 word
    \<Rightarrow> (served list \<times> 32 word) option" where
  "serveLoop body [] seqNum = Some ([], seqNum)"
| "serveLoop body (v # vs) seqNum =
     (case body v seqNum of
        None \<Rightarrow> None
      | Some (o1, n) \<Rightarrow> map_option (\<lambda>(os, m). (o1 # os, m)) (serveLoop body vs n))"

section \<open>The clients\<close>

text \<open>Both clients after the connection: the exit status and the output; a write or read may block (\<open>None\<close>).\<close>

definition sendRequest :: "string list \<Rightarrow> wdesc \<Rightarrow> (unit res \<times> wdesc) option" where
  "sendRequest args w =
     (let reqLenStr = (if 2 \<le> length args then args ! 1 else ''1'') in
      case write_fd reqLenStr w of
        None \<Rightarrow> None
      | Some (r, w1) \<Rightarrow>
          if r \<noteq> Inr (length reqLenStr) then Some (Exit EXIT_FAILURE, w1)
          else case write_fd [NEWLINE] w1 of
            None \<Rightarrow> None
          | Some (r, w2) \<Rightarrow> if r \<noteq> Inr 1 then Some (Exit EXIT_FAILURE, w2) else Some (Ret (), w2))"

definition showResponse :: "rdesc \<Rightarrow> (int \<times> string) option" where
  "showResponse f =
     (case readLine INT_LEN True f of
        None \<Rightarrow> None
      | Some (Inl _, _, _) \<Rightarrow> Some (EXIT_FAILURE, [])
      | Some (Inr 0, _, _) \<Rightarrow> Some (EXIT_FAILURE, [])
      | Some (Inr _, seqNumStr, _) \<Rightarrow> Some (EXIT_SUCCESS, ''Sequence number: '' @ cstr seqNumStr))"

definition cl_connect :: "os \<Rightarrow> string list \<Rightarrow> net \<Rightarrow> int res \<times> net" where
  "cl_connect os args s =
     (if args = [] \<or> hd args = ''--help'' then (Exit EXIT_FAILURE, s)
      else case getaddrinfo os (calls s) (Some (hd args)) PORT_NUM
          \<lparr>h_flags = AI_NUMERICSERV, h_family = AF_UNSPEC, h_socktype = SOCK_STREAM\<rparr> of
        Inl _ \<Rightarrow> (Exit EXIT_FAILURE, s)
      | Inr result \<Rightarrow>
          case connectLoop os result (s\<lparr>lists := lists s + 1\<rparr>) of
            (Found rp cfd, s1) \<Rightarrow> (Ret cfd, freeaddrinfo s1)
          | (_, s1) \<Rightarrow> (Exit EXIT_FAILURE, s1))"

definition v2_cl_connect :: "os \<Rightarrow> string list \<Rightarrow> net \<Rightarrow> int res \<times> net" where
  "v2_cl_connect os args s =
     (if args = [] \<or> hd args = ''--help'' then (Exit EXIT_FAILURE, s)
      else case inetConnect os (Some (hd args)) PORT_NUM SOCK_STREAM s of (cfd, s1) \<Rightarrow>
      if cfd = -1 then (Exit EXIT_FAILURE, s1) else (Ret cfd, s1))"

section \<open>Reading one line\<close>

lemma readLineLoop_terminated:
  "readLineLoop n out f = Some (Inr k, buf, f') \<Longrightarrow> k = 0 \<or> (\<exists>t. buf = t @ [CHR 0x00] \<and> length t = k)"
proof (induction "rsched f" arbitrary: out f)
  case Nil
  then show ?case by (simp add: readLineLoop_unfold [of n out f])
next
  case (Cons x es)
  note s = \<open>x # es = rsched f\<close> [symmetric]
  show ?case
  proof (cases x)
    case (Fail e)
    with Cons.prems s have "readLineLoop n out (f\<lparr>rsched := es\<rparr>) = Some (Inr k, buf, f')"
      by (simp add: readLineLoop_unfold [of n out f] split: if_splits)
    with Cons.hyps(1) [of "f\<lparr>rsched := es\<rparr>"] show ?thesis by simp
  next
    case (Give m)
    with Cons.prems s Cons.hyps(1) [of "f\<lparr>avail := tl (avail f), rsched := es\<rparr>"] show ?thesis
      by (cases "avail f") (auto simp: readLineLoop_unfold [of n out f] Let_def split: if_splits)
  qed
qed

text \<open>A line of text that fits the buffer arrives complete, however it is split up on the way.\<close>

definition delivers :: "rdesc \<Rightarrow> bool" where
  "delivers f \<longleftrightarrow> only_eintr (rsched f) \<and> length (avail f) < transfers (rsched f)"

lemma lineOf_text: "NEWLINE \<notin> set t \<Longrightarrow> lineOf (t @ NEWLINE # r) = t @ [NEWLINE]"
  by (induction t) auto

lemma length_lineOf: "length (lineOf d) \<le> length d"
  by (induction d) auto

lemma readLine_text:
  assumes "delivers f" "avail f = t @ [NEWLINE]" "NEWLINE \<notin> set t" "CHR 0x00 \<notin> set t" "Suc (length t) < n"
  obtains buf f' where "readLine n True f = Some (Inr (Suc (length t)), buf, f')" "cstr buf = t @ [NEWLINE]"
proof -
  have l: "lineOf (avail f) = t @ [NEWLINE]" using assms(2,3) lineOf_text [of t "[]"] by simp
  from assms(1,2) l readLineLoop_returns [of f n "[]"] obtain k buf f'
    where r: "readLineLoop n [] f = Some (Inr k, buf, f')" by (auto simp: delivers_def)
  from readLineLoop_sound [OF r] l assms(5) have k: "k = Suc (length t)" "take k buf = t @ [NEWLINE]" by auto
  with readLineLoop_terminated [OF r] have "buf = t @ [NEWLINE] @ [CHR 0x00]" by auto
  then have "cstr buf = t @ [NEWLINE]" using assms(4) by (subst cstr_def, simp, subst takeWhile_append2) auto
  moreover have "readLine n True f = Some (Inr (Suc (length t)), buf, f')" using r k(1) assms(5) by (simp add: readLine_def)
  ultimately show thesis using that by blast
qed

lemma show_int_clean: "NEWLINE \<notin> set (show_int i)" "CHR 0x00 \<notin> set (show_int i)"
proof -
  have "c \<noteq> NEWLINE \<and> c \<noteq> CHR 0x00" if "c \<in> set (show_nat n)" for c n
  proof -
    from show_nat_all_digits [of n] that have "isdigitb 10 c" by (simp add: list_all_iff)
    then show ?thesis by (auto simp: isdigitb_def digitval_def)
  qed
  then show "NEWLINE \<notin> set (show_int i)" "CHR 0x00 \<notin> set (show_int i)"
    by (auto simp: show_int_def)
qed

lemma sint_range: "INT_MIN \<le> sint (w :: 32 word) \<and> sint w \<le> INT_MAX"
  using sint_greater_eq [of w] sint_less [of w] by simp

lemma seqNumStr_complete:
  "fst (snprintf INT_LEN (show_int (sint (w :: 32 word)) @ [NEWLINE])) = show_int (sint w) @ [NEWLINE]"
  using length_show_int [of "sint w"] sint_range [of w] by (simp add: snprintf_def)

section \<open>A client and the server\<close>

text \<open>A descriptor whose next \<open>k\<close> writes accept everything.\<close>

definition accepts :: "nat \<Rightarrow> wdesc \<Rightarrow> bool" where
  "accepts k w \<longleftrightarrow> k \<le> length (wsched w) \<and> (\<forall>e \<in> set (take k (wsched w)). \<exists>m \<ge> INT_LEN. e = Give m)"

lemma write_accepted:
  assumes "accepts (Suc k) w" "length b \<le> INT_LEN"
  obtains w' where "write_fd b w = Some (Inr (length b), w')" "written w' = written w @ b" "accepts k w'"
proof -
  from assms(1) obtain m es where e: "wsched w = Give m # es" "INT_LEN \<le> m" "accepts k (w\<lparr>wsched := es\<rparr>)"
    by (cases "wsched w") (auto simp: accepts_def)
  with assms(2) have "write_fd b w = Some (Inr (length b), w\<lparr>written := written w @ b, wsched := es\<rparr>)"
    by (simp add: write_fd_def min_def)
  with e(3) that [of "w\<lparr>written := written w @ b, wsched := es\<rparr>"] show thesis by (simp add: accepts_def)
qed

lemma write_complete: "write_fd b w = Some (Inr (length b), w') \<Longrightarrow> written w' = written w @ b"
  by (auto simp: write_fd_def Let_def split: list.splits io_event.splits)

lemma sendRequest_sent:
  assumes "sendRequest [host, req] w = Some (Ret (), w')" shows "written w' = written w @ req @ [NEWLINE]"
  using assms write_complete [of req w] write_complete [of "[NEWLINE]"]
  by (fastforce simp: sendRequest_def split: option.splits prod.splits if_splits)

text \<open>
  C15. A client that asks for \<open>n\<close> numbers gets them: whatever way the request and the response
  are cut into pieces and however often the reads are interrupted, the server understands the
  request, its counter moves by \<open>n\<close> (modulo \<open>2^32\<close>), the connection is closed, and the client
  prints the value that the counter had before, as a signed number of 32 bits, and exits with
  success.
\<close>

theorem request_answered:
  assumes "1 \<le> n" "n \<le> INT_MAX" and "sendRequest [host, show_int n] w = Some (Ret (), w')" and "written w = []"
    and "accepted v" and "avail (v_in v) = written w'" and "delivers (v_in v)" and "accepts 1 (v_out v)"
  shows "\<exists>r. serveClient addrStr v seqNum = Some (r, seqNum + word_of_int n) \<and> closed r \<and>
    (\<forall>f. avail f = sent r \<longrightarrow> delivers f \<longrightarrow>
       showResponse f = Some (EXIT_SUCCESS, ''Sequence number: '' @ show_int (sint seqNum) @ [NEWLINE]))"
proof -
  have a: "avail (v_in v) = show_int n @ [NEWLINE]" using sendRequest_sent [OF assms(3)] assms(4,6) by simp
  have "Suc (length (show_int n)) < INT_LEN" using length_show_int [of n] assms(1,2) by simp
  from readLine_text [OF assms(7) a show_int_clean this] obtain buf f'
    where rd: "readLine INT_LEN True (v_in v) = Some (Inr (Suc (length (show_int n))), buf, f')"
      "cstr buf = show_int n @ [NEWLINE]" .
  have at: "atoi (cstr buf) = n"
    using atoi_show_int [of n "[NEWLINE]"] assms(1,2) rd(2) by (simp add: isdigitb_def digitval_def)
  let ?t = "show_int (sint seqNum)"
  have t: "length ?t \<le> 11" using length_show_int [of "sint seqNum"] sint_range [of seqNum] by simp
  have "accepts (Suc 0) ((v_out v)\<lparr>written := []\<rparr>)" using assms(8) by (simp add: accepts_def)
  from write_accepted [OF this, of "?t @ [NEWLINE]"] t obtain w2
    where wr: "write_fd (?t @ [NEWLINE]) ((v_out v)\<lparr>written := []\<rparr>) = Some (Inr (length (?t @ [NEWLINE])), w2)"
      "written w2 = ?t @ [NEWLINE]" by auto
  let ?r = "\<lparr>said = ''Connection from '' @ addrStr (claddr v) @ [NEWLINE], warned = (if closeOk v then [] else [''close'']),
    sent = ?t @ [NEWLINE], closed = True, taken = n\<rparr>"
  have "serveClient addrStr v seqNum = Some (?r, seqNum + word_of_int n)"
    using assms(1,5) rd at wr by (simp add: serveClient_def seqNumStr_complete)
  moreover have "showResponse f = Some (EXIT_SUCCESS, ''Sequence number: '' @ ?t @ [NEWLINE])"
    if "avail f = ?t @ [NEWLINE]" "delivers f" for f
  proof -
    from t have "Suc (length ?t) < INT_LEN" by simp
    from readLine_text [OF that(2,1) show_int_clean this] obtain b g
      where "readLine INT_LEN True f = Some (Inr (Suc (length ?t)), b, g)" "cstr b = ?t @ [NEWLINE]" .
    then show ?thesis by (simp add: showResponse_def)
  qed
  ultimately show ?thesis by (intro exI [of _ ?r]) auto
qed

definition demo_fd :: "string \<Rightarrow> rdesc" where
  "demo_fd d = \<lparr>avail = d, rsched = Fail EINTR # replicate 9 (Give 1)\<rparr>"

definition demo_out :: wdesc where
  "demo_out = \<lparr>written = [], wsched = [Give 99, Give 99]\<rparr>"

definition demo_visit :: "string \<Rightarrow> visit" where
  "demo_visit d = \<lparr>accepted = True, claddr = InetAddr ''c'', v_in = demo_fd d, v_out = demo_out, closeOk = True\<rparr>"

theorem request_answered_witness:
  "\<exists>r. serveClient (\<lambda>_. []) (demo_visit (''12'' @ [NEWLINE])) 700 = Some (r, 712) \<and>
     showResponse (demo_fd (sent r)) = Some (EXIT_SUCCESS, ''Sequence number: 700'' @ [NEWLINE])"
proof -
  have i: "show_int 12 = ''12''" "show_int 700 = ''700''" by code_simp+
  have "sendRequest [''h'', ''12''] demo_out = Some (Ret (), \<lparr>written = ''12'' @ [NEWLINE], wsched = []\<rparr>)" by code_simp
  moreover have "delivers (v_in (demo_visit (''12'' @ [NEWLINE])))" "accepts 1 (v_out (demo_visit (''12'' @ [NEWLINE])))"
    by (simp_all add: delivers_def demo_visit_def demo_fd_def only_eintr_def transfers_def accepts_def demo_out_def)
  ultimately obtain r where r: "serveClient (\<lambda>_. []) (demo_visit (''12'' @ [NEWLINE])) 700 = Some (r, 700 + word_of_int 12)"
    "\<And>f. avail f = sent r \<Longrightarrow> delivers f \<Longrightarrow>
       showResponse f = Some (EXIT_SUCCESS, ''Sequence number: '' @ ''700'' @ [NEWLINE])"
    using request_answered [of 12 "''h''" demo_out "\<lparr>written = ''12'' @ [NEWLINE], wsched = []\<rparr>"
        "demo_visit (''12'' @ [NEWLINE])" "\<lambda>_. []" 700]
    by (auto simp: i demo_visit_def demo_fd_def demo_out_def)
  have "map_option (\<lambda>x. length (sent (fst x))) (serveClient (\<lambda>_. []) (demo_visit (''12'' @ [NEWLINE])) 700) = Some 4"
    by code_simp
  with r(1) have "length (sent r) = 4" by simp
  then have "delivers (demo_fd (sent r))" by (simp add: delivers_def demo_fd_def only_eintr_def transfers_def)
  with r(2) [of "demo_fd (sent r)"] r(1) show ?thesis by (auto simp: demo_fd_def)
qed

section \<open>Unique numbers\<close>

text \<open>
  The service as an allocator: the unbounded counter of which the server's counter is the value
  modulo \<open>2^32\<close>. Every request that the server accepts takes its numbers, even if the response
  cannot be written.
\<close>

definition idealStep :: "(visit \<Rightarrow> 32 word \<Rightarrow> (served \<times> 32 word) option) \<Rightarrow> visit \<Rightarrow> int \<Rightarrow> ((int \<times> int) option \<times> int) option" where
  "idealStep body v n =
     map_option (\<lambda>(r, _). (if 0 < taken r then Some (n, taken r) else None, n + taken r)) (body v (word_of_int n))"

lemma serveClient_taken:
  "serveClient addrStr v seqNum = Some (r, m) \<Longrightarrow> 0 \<le> taken r \<and> m = seqNum + word_of_int (taken r)"
  by (auto simp: serveClient_def Let_def split: if_splits option.splits sum.splits nat.splits)

interpretation inet: allocator "idealStep (serveClient addrStr)" "\<lambda>_. True" for addrStr
  by unfold_locales (auto simp: idealStep_def dest: serveClient_taken split: if_splits)

text \<open>The numbers that a run gives out, request by request: the first one and how many.\<close>

fun grants :: "32 word \<Rightarrow> served list \<Rightarrow> (32 word \<times> int) list" where
  "grants n [] = []"
| "grants n (r # rs) = (if 0 < taken r then [(n, taken r)] else []) @ grants (n + word_of_int (taken r)) rs"

lemma serveLoop_run:
  assumes "serveLoop (serveClient addrStr) vs (word_of_int n) = Some (rs, m)"
  shows "\<exists>gs. inet.run addrStr vs n = Some (gs, n + sum_list (map taken rs)) \<and>
    grants (word_of_int n) rs = map (\<lambda>(a, k). (word_of_int a, k)) gs"
  using assms
proof (induction vs arbitrary: n rs)
  case (Cons v vs)
  then obtain r k os where s: "serveClient addrStr v (word_of_int n) = Some (r, k)"
    "serveLoop (serveClient addrStr) vs k = Some (os, m)" "rs = r # os"
    by (auto split: option.splits prod.splits)
  from serveClient_taken [OF s(1)] have k: "k = word_of_int (n + taken r)" by simp
  from Cons.IH [OF s(2) [unfolded k]] obtain gs where
    "inet.run addrStr vs (n + taken r) = Some (gs, n + taken r + sum_list (map taken os))"
    "grants (word_of_int (n + taken r)) os = map (\<lambda>(a, k). (word_of_int a, k)) gs" by blast
  moreover have "idealStep (serveClient addrStr) v n = Some (if 0 < taken r then Some (n, taken r) else None, n + taken r)"
    using s(1) by (simp add: idealStep_def)
  ultimately show ?case using s(3) by (cases "0 < taken r") (simp_all add: add.assoc)
qed simp

lemma serveLoop_counter:
  "serveLoop (serveClient addrStr) vs n = Some (rs, m) \<Longrightarrow> m = n + word_of_int (sum_list (map taken rs))"
  by (induction vs arbitrary: n rs) (fastforce dest!: serveClient_taken split: option.splits simp flip: add.assoc)+

definition numbers :: "32 word \<times> int \<Rightarrow> 32 word set" where
  "numbers g = (\<lambda>i. fst g + word_of_int i) ` {0..<snd g}"

lemma word_of_int_window:
  assumes "word_of_int a = (word_of_int b :: 32 word)" "n \<le> a" "n \<le> b" "a < n + 2 ^ 32" "b < n + 2 ^ 32"
  shows "a = b"
proof -
  have "word_of_int (a - n) = (word_of_int (b - n) :: 32 word)" using assms(1) by simp
  then have "take_bit 32 (a - n) = take_bit 32 (b - n)"
    by (simp only: word_of_int_eq_iff) simp
  then show ?thesis using assms(2-5) by (simp add: take_bit_int_eq_self)
qed

lemma numbers_apart:
  assumes "a + k \<le> b" "n \<le> a" "b + l \<le> n + 2 ^ 32"
  shows "numbers (word_of_int a, k) \<inter> numbers (word_of_int b, l) = {}"
proof -
  have False if "word_of_int (a + i) = (word_of_int (b + j) :: 32 word)" "0 \<le> i" "i < k" "0 \<le> j" "j < l" for i j
    using word_of_int_window [OF that(1), of n] assms that by simp
  then show ?thesis unfolding numbers_def by (fastforce simp flip: of_int_add)
qed

text \<open>
  C12. The server gives out unique sequence numbers: over any run, with connections that cannot
  be accepted, clients that send nothing, garbage or a number that is not positive, and
  responses that cannot be written, no number is given to two clients, as long as the numbers
  asked for in the run are not more than the \<open>2^32\<close> values of the counter.
\<close>

theorem inet_numbers_unique:
  assumes "serveLoop (serveClient addrStr) vs seqNum = Some (rs, m)" and "sum_list (map taken rs) \<le> 2 ^ 32"
  shows "sorted_wrt (\<lambda>g h. numbers g \<inter> numbers h = {}) (grants seqNum rs) \<and>
    m = seqNum + word_of_int (sum_list (map taken rs))"
proof -
  let ?n = "uint seqNum" and ?total = "sum_list (map taken rs)"
  have l: "serveLoop (serveClient addrStr) vs (word_of_int ?n) = Some (rs, m)" using assms(1) by simp
  from serveLoop_run [OF l] obtain gs where gs: "inet.run addrStr vs ?n = Some (gs, ?n + ?total)"
    "grants seqNum rs = map (\<lambda>(a, k). (word_of_int a, k)) gs" by auto
  from inet.run_bounds [OF gs(1)] have b: "\<And>a k. (a, k) \<in> set gs \<Longrightarrow> ?n \<le> a \<and> a + k \<le> ?n + ?total"
    by (auto simp: list_all_iff)
  from inet.run_disjoint [OF gs(1)] have "sorted_wrt (\<lambda>(a, k) (b, l). a + k \<le> b) gs"
    by (simp add: list_all_iff)
  then have "sorted_wrt (\<lambda>g h. numbers (word_of_int (fst g), snd g) \<inter> numbers (word_of_int (fst h), snd h) = {}) gs"
  proof (rule sorted_wrt_mono_rel [rotated])
    fix g h assume "g \<in> set gs" "h \<in> set gs" "(case g of (a, k) \<Rightarrow> \<lambda>(b, l). a + k \<le> b) h"
    with b [of "fst g" "snd g"] b [of "fst h" "snd h"] assms(2)
    show "numbers (word_of_int (fst g), snd g) \<inter> numbers (word_of_int (fst h), snd h) = {}"
      by (intro numbers_apart [of _ _ _ ?n]) auto
  qed
  then show ?thesis using gs(2) serveLoop_counter [OF assms(1)] by (simp add: sorted_wrt_map case_prod_beta)
qed

definition demo_run :: "visit list" where
  "demo_run = [demo_visit (''12'' @ [NEWLINE]), demo_visit (''-3'' @ [NEWLINE]), demo_visit (''x'' @ [NEWLINE]),
     demo_visit (''5'' @ [NEWLINE])]"

theorem inet_numbers_unique_witness:
  "\<exists>rs. serveLoop (serveClient (\<lambda>_. [])) demo_run 0xFFFFFFFC = Some (rs, 13) \<and>
     grants 0xFFFFFFFC rs = [(0xFFFFFFFC, 12), (8, 5)] \<and> numbers (0xFFFFFFFC, 12) \<inter> numbers (8, 5) = {}"
proof -
  define o1 where "o1 = serveLoop (serveClient (\<lambda>_. [])) demo_run 0xFFFFFFFC"
  have "map_option (\<lambda>(rs, m). (map taken rs, m)) o1 = Some ([12, 0, 0, 5], 13)"
    unfolding o1_def by code_simp
  then obtain rs where r: "serveLoop (serveClient (\<lambda>_. [])) demo_run 0xFFFFFFFC = Some (rs, 13)"
    "map taken rs = [12, 0, 0, 5]" by (auto simp: o1_def)
  then have g: "grants 0xFFFFFFFC rs = [(0xFFFFFFFC, 12), (8, 5)]" by (auto simp: map_eq_Cons_conv)
  from inet_numbers_unique [OF r(1)] r(2) g have "numbers (0xFFFFFFFC, 12) \<inter> numbers (8, 5) = {}" by simp
  with r(1) g show ?thesis by blast
qed

section \<open>The two versions\<close>

lemma svBindLoop_bindLoop: "svBindLoop os as s = (Found a fd, t) \<longleftrightarrow> bindLoop os True as s = (Found a fd, t)"
  by (induction as arbitrary: s) (auto split: prod.splits)

lemma bindLoop_fd: "bindLoop os d as s = (Found a fd, t) \<Longrightarrow> fd \<noteq> -1"
  by (induction as arbitrary: s) (auto split: prod.splits if_splits)

lemma connectLoop_fd: "connectLoop os as s = (Found a fd, t) \<Longrightarrow> fd \<noteq> -1"
  by (induction as arbitrary: s) (auto split: prod.splits if_splits)

lemma listen_backlog: "fst (listen os fd m s) = fst (listen os fd n s)"
  by (simp add: listen_def sockCall_def split: option.splits)

lemma cl_connect_versions:
  assumes "\<And>cs h. getaddrinfo os cs (Some h) PORT_NUM \<lparr>h_flags = AI_NUMERICSERV, h_family = AF_UNSPEC, h_socktype = SOCK_STREAM\<rparr> =
      getaddrinfo os cs (Some h) PORT_NUM \<lparr>h_flags = 0, h_family = AF_UNSPEC, h_socktype = SOCK_STREAM\<rparr>"
  shows "fst (cl_connect os args s) = fst (v2_cl_connect os args s)"
  by (auto simp: cl_connect_def v2_cl_connect_def inetConnect_def assms Let_def dest: connectLoop_fd
      split: sum.splits prod.splits walked.splits)

lemma sv_start_versions:
  assumes "\<And>cs. getaddrinfo os cs None PORT_NUM
        \<lparr>h_flags = AI_PASSIVE OR AI_NUMERICSERV, h_family = AF_UNSPEC, h_socktype = SOCK_STREAM\<rparr> =
      getaddrinfo os cs None PORT_NUM \<lparr>h_flags = AI_PASSIVE, h_family = AF_UNSPEC, h_socktype = SOCK_STREAM\<rparr>"
  shows "fst (sv_start os signalOk args s) = fst (v2_sv_start os signalOk True args s)"
proof -
  note start_defs = sv_start_def v2_sv_start_def seq_res_def inetListen_def inetPassiveSocket_def
  show ?thesis
  proof (cases "getaddrinfo os (calls s) None PORT_NUM \<lparr>h_flags = AI_PASSIVE, h_family = AF_UNSPEC, h_socktype = SOCK_STREAM\<rparr>")
    case (Inl e)
    then show ?thesis by (auto simp: start_defs assms [simplified] split: res.splits)
  next
    case (Inr as)
    let ?s = "s\<lparr>lists := lists s + 1\<rparr>"
    obtain w t where b: "bindLoop os True as ?s = (w, t)" by fastforce
    show ?thesis
    proof (cases w)
      case (Found a fd)
      with b have "svBindLoop os as ?s = (Found a fd, t)" "fd \<noteq> -1" using svBindLoop_bindLoop bindLoop_fd by blast+
      with b Found Inr listen_backlog [of os fd 50 t 5] show ?thesis
        by (auto simp: start_defs assms [simplified] split: res.splits prod.splits)
    qed (use b Inr svBindLoop_bindLoop [of os as ?s] in
        \<open>auto simp: start_defs assms [simplified] split: res.splits prod.splits walked.splits\<close>)
  qed
qed

lemma iteration_versions:
  assumes "\<And>a h sv. gni a = Some (h, sv) \<Longrightarrow> length h < NI_MAXHOST \<and> length sv < NI_MAXSERV"
  shows "sv_iteration gni = v2_sv_iteration gni"
proof -
  have "(case gni a of Some (host, service) \<Rightarrow> fst (snprintf ADDRSTRLEN (''('' @ host @ '', '' @ service @ '')''))
      | None \<Rightarrow> fst (snprintf ADDRSTRLEN ''(?UNKNOWN?)'')) = inetAddressStr gni a IS_ADDR_STR_LEN" for a
    using assms [of a] by (auto simp: inetAddressStr_def snprintf_def split: option.splits)
  then show ?thesis by (simp add: sv_iteration_def v2_sv_iteration_def)
qed

text \<open>
  The second versions of the programs, which use \<open>inet_sockets.c\<close>, do what the first ones
  do: the servers start in the same way (the same end of the process, or the same descriptor and
  counter), treat every client in the same way, and the clients connect in the same way. This
  holds if the resolver does not treat a numeric port differently for \<open>AI_NUMERICSERV\<close>, and if
  \<open>getnameinfo\<close> keeps within its buffers.
\<close>

theorem seqnum_versions_agree:
  assumes "\<And>cs h fl. getaddrinfo os cs h PORT_NUM \<lparr>h_flags = fl OR AI_NUMERICSERV, h_family = AF_UNSPEC, h_socktype = SOCK_STREAM\<rparr> =
      getaddrinfo os cs h PORT_NUM \<lparr>h_flags = fl, h_family = AF_UNSPEC, h_socktype = SOCK_STREAM\<rparr>"
    and "\<And>a h sv. gni a = Some (h, sv) \<Longrightarrow> length h < NI_MAXHOST \<and> length sv < NI_MAXSERV"
  shows "fst (sv_start os signalOk args s) = fst (v2_sv_start os signalOk True args s) \<and>
    serveLoop (sv_iteration gni) vs seqNum = serveLoop (v2_sv_iteration gni) vs seqNum \<and>
    fst (cl_connect os args' s') = fst (v2_cl_connect os args' s')"
  using sv_start_versions [OF assms(1)] iteration_versions [OF assms(2)] cl_connect_versions [of os] assms(1) [of _ _ 0]
  by simp

theorem seqnum_versions_agree_witness:
  "\<exists>n. fst (sv_start (demo_os None) True [''7''] demo_net) = Ret (0, n) \<and>
     fst (v2_sv_start (demo_os None) True True [''7''] demo_net) = Ret (0, n)"
proof -
  have "fst (sv_start (demo_os None) True [''7''] demo_net) = fst (v2_sv_start (demo_os None) True True [''7''] demo_net)"
    using seqnum_versions_agree [of "demo_os None" "\<lambda>_. None" True "[''7'']" demo_net "[]" 0 "[]" demo_net]
    by (simp add: demo_os_def)
  moreover have "fst (sv_start (demo_os None) True [''7''] demo_net) = Ret (0, 7)" by code_simp
  ultimately show ?thesis by metis
qed

text \<open>A counter beyond \<open>INT_MAX\<close> reaches the client as a negative number.\<close>

lemma serveClient_sent:
  assumes "serveClient addrStr v seqNum = Some (r, m)" "0 < taken r"
  shows "\<exists>j. sent r = take j (show_int (sint seqNum) @ [NEWLINE])"
proof -
  have "\<exists>j. written w' = take j b" if "write_fd b (w\<lparr>written := []\<rparr>) = Some (x, w')" for b w x w'
    using that by (auto simp: write_fd_def Let_def split: list.splits io_event.splits)
  with assms show ?thesis
    by (auto simp: serveClient_def seqNumStr_complete Let_def simp del: take_append
        split: if_splits option.splits sum.splits nat.splits)
qed

lemma negative_number:
  assumes "serveClient addrStr v 0x80000000 = Some (r, m)" "0 < taken r" "sent r \<noteq> []"
  shows "hd (sent r) = CHR ''-''"
proof -
  have "show_int (sint (0x80000000 :: 32 word)) = CHR ''-'' # show_nat 2147483648" by (simp add: show_int_def)
  with serveClient_sent [OF assms(1,2)] assms(3) show ?thesis by (auto simp: take_Cons')
qed

end
