(* ===== verification/MultiJoin.thy ===== *)
theory MultiJoin
  imports Machines GetNum
begin

text \<open>
  \<open>threads/thread_multijoin.c\<close>: the main thread creates a thread for each argument and joins
  whichever has terminated, told by a condition variable. The threads and main are interleaved
  statement by statement, with spurious wake-ups of \<open>pthread_cond_wait\<close> and with a failing
  \<open>pthread_create\<close>; \<open>pthread_join\<close> waits until the thread has returned.
\<close>

section \<open>State\<close>

datatype tstate = TS_ALIVE | TS_TERMINATED | TS_JOINED

datatype tpc = T_none | T_sleep | T_lock | T_set | T_unlock | T_signal | T_done

datatype mpc = M_create nat | M_loop | M_lock | M_test | M_waiting | M_relock | M_scan nat | M_unlock | M_exit int

datatype mowner = Free | ByMain | ByThread nat

text \<open>The array \<open>thread\<close> is the lists \<open>pcs\<close> and \<open>states\<close>; \<open>joins\<close> records the calls of \<open>pthread_join\<close>.\<close>

record multijoin =
  owner :: mowner
  numUnjoined :: int
  numLive :: int
  pcs :: "tpc list"
  states :: "tstate list"
  mpc :: mpc
  joins :: "nat list"

definition mj_init :: "string list \<Rightarrow> multijoin" where
  "mj_init args =
     \<lparr>owner = Free, numUnjoined = 0, numLive = 0, pcs = replicate (length args) T_none,
      states = replicate (length args) TS_ALIVE,
      mpc = (if args = [] \<or> hd args = ''--help'' then M_exit EXIT_FAILURE else M_create 0), joins = []\<rparr>"

section \<open>The threads\<close>

definition mjThread :: "nat \<Rightarrow> multijoin \<Rightarrow> multijoin option" where
  "mjThread idx s =
     (if length (pcs s) \<le> idx then None
      else let go = (\<lambda>p. (pcs s)[idx := p]) in
      case pcs s ! idx of
        T_none \<Rightarrow> None
      | T_sleep \<Rightarrow> Some (s\<lparr>pcs := go T_lock\<rparr>)
      | T_lock \<Rightarrow> if owner s = Free then Some (s\<lparr>owner := ByThread idx, pcs := go T_set\<rparr>) else None
      | T_set \<Rightarrow> Some (s\<lparr>numUnjoined := numUnjoined s + 1, states := (states s)[idx := TS_TERMINATED], pcs := go T_unlock\<rparr>)
      | T_unlock \<Rightarrow> Some (s\<lparr>owner := Free, pcs := go T_signal\<rparr>)
      | T_signal \<Rightarrow> Some (s\<lparr>mpc := (if mpc s = M_waiting then M_relock else mpc s), pcs := go T_done\<rparr>)
      | T_done \<Rightarrow> None)"

definition mjMain :: "string list \<Rightarrow> multijoin \<Rightarrow> multijoin option" where
  "mjMain args s =
     (case mpc s of
        M_create idx \<Rightarrow>
          if idx < length args
          then (case getInt (Some (args ! idx)) GN_NONNEG None of
                  Inl _ \<Rightarrow> Some (s\<lparr>mpc := M_exit EXIT_FAILURE\<rparr>)
                | Inr _ \<Rightarrow> Some (s\<lparr>states := (states s)[idx := TS_ALIVE], pcs := (pcs s)[idx := T_sleep], mpc := M_create (idx + 1)\<rparr>))
          else Some (s\<lparr>numLive := int (length args), mpc := M_loop\<rparr>)
      | M_loop \<Rightarrow> Some (s\<lparr>mpc := (if numLive s > 0 then M_lock else M_exit EXIT_SUCCESS)\<rparr>)
      | M_lock \<Rightarrow> if owner s = Free then Some (s\<lparr>owner := ByMain, mpc := M_test\<rparr>) else None
      | M_test \<Rightarrow>
          if numUnjoined s = 0 then Some (s\<lparr>owner := Free, mpc := M_waiting\<rparr>)
          else Some (s\<lparr>mpc := M_scan 0\<rparr>)
      | M_waiting \<Rightarrow> None
      | M_relock \<Rightarrow> if owner s = Free then Some (s\<lparr>owner := ByMain, mpc := M_test\<rparr>) else None
      | M_scan idx \<Rightarrow>
          if idx < length args
          then if states s ! idx = TS_TERMINATED
               then if pcs s ! idx = T_done
                    then Some (s\<lparr>states := (states s)[idx := TS_JOINED], numLive := numLive s - 1,
                      numUnjoined := numUnjoined s - 1, joins := joins s @ [idx], mpc := M_scan (idx + 1)\<rparr>)
                    else None
               else Some (s\<lparr>mpc := M_scan (idx + 1)\<rparr>)
          else Some (s\<lparr>mpc := M_unlock\<rparr>)
      | M_unlock \<Rightarrow> Some (s\<lparr>owner := Free, mpc := M_loop\<rparr>)
      | M_exit _ \<Rightarrow> None)"

datatype mjtick = JMain | JThread nat | JSpurious | JNoThread

definition mjStep :: "string list \<Rightarrow> mjtick \<Rightarrow> multijoin \<Rightarrow> multijoin option" where
  "mjStep args t s =
     (case mpc s of
        M_exit _ \<Rightarrow> None
      | _ \<Rightarrow>
        (case t of
           JMain \<Rightarrow> mjMain args s
         | JThread i \<Rightarrow> mjThread i s
         | JSpurious \<Rightarrow> if mpc s = M_waiting then Some (s\<lparr>mpc := M_relock\<rparr>) else None
         | JNoThread \<Rightarrow>
             (case mpc s of
                M_create i \<Rightarrow> if i < length args then Some (s\<lparr>mpc := M_exit EXIT_FAILURE\<rparr>) else None
              | _ \<Rightarrow> None)))"

abbreviation mj_run :: "string list \<Rightarrow> mjtick list \<Rightarrow> multijoin \<Rightarrow> multijoin option" where
  "mj_run args \<equiv> run_steps (mjStep args)"

section \<open>Invariant\<close>

definition cnt :: "tstate \<Rightarrow> multijoin \<Rightarrow> int" where
  "cnt x s = int (count_list (states s) x)"

lemma count_list_update:
  "i < length xs \<Longrightarrow> int (count_list (xs[i := y]) x) =
     int (count_list xs x) + (if y = x then 1 else 0) - (if xs ! i = x then 1 else 0)"
proof (induction xs arbitrary: i)
  case (Cons a xs)
  show ?case
  proof (cases i)
    case (Suc n)
    with Cons.IH [of n] Cons.prems show ?thesis by (cases "a = x"; cases "y = x"; cases "xs ! n = x") simp_all
  qed simp
qed simp

text \<open>The facts about thread \<open>i\<close>.\<close>

definition thread_ok :: "multijoin \<Rightarrow> nat \<Rightarrow> bool" where
  "thread_ok s i \<longleftrightarrow>
     (owner s = ByThread i \<longleftrightarrow> pcs s ! i \<in> {T_set, T_unlock}) \<and>
     (states s ! i = TS_ALIVE \<longleftrightarrow> pcs s ! i \<in> {T_none, T_sleep, T_lock, T_set}) \<and>
     (states s ! i = TS_JOINED \<longrightarrow> pcs s ! i = T_done)"

text \<open>The facts about main in its different places.\<close>

fun holding :: "mpc \<Rightarrow> bool" where
  "holding M_test = True"
| "holding (M_scan _) = True"
| "holding M_unlock = True"
| "holding _ = False"

fun looping :: "mpc \<Rightarrow> bool" where
  "looping (M_create _) = False"
| "looping (M_exit _) = False"
| "looping _ = True"

definition mj_main_ok :: "nat \<Rightarrow> multijoin \<Rightarrow> bool" where
  "mj_main_ok tot s \<longleftrightarrow>
     (\<forall>k. mpc s = M_create k \<longrightarrow> k \<le> tot \<and> cnt TS_JOINED s = 0 \<and> (\<forall>i < tot. pcs s ! i = T_none \<longleftrightarrow> k \<le> i)) \<and>
     (mpc s = M_exit EXIT_SUCCESS \<longrightarrow> cnt TS_JOINED s = int tot) \<and>
     (looping (mpc s) \<longrightarrow> numLive s = int tot - cnt TS_JOINED s \<and> (\<forall>i < tot. pcs s ! i \<noteq> T_none)) \<and>
     (mpc s \<in> {M_lock, M_test, M_waiting, M_relock} \<longrightarrow> 0 < numLive s) \<and>
     (\<forall>k. mpc s = M_scan k \<longrightarrow> k \<le> tot \<and> (\<forall>i < k. states s ! i \<noteq> TS_TERMINATED)) \<and>
     (mpc s = M_unlock \<longrightarrow> (\<forall>i < tot. states s ! i \<noteq> TS_TERMINATED)) \<and>
     (mpc s = M_waiting \<and> numUnjoined s \<noteq> 0 \<longrightarrow> (\<exists>i < tot. pcs s ! i \<in> {T_unlock, T_signal}))"

lemma mj_main_okD:
  assumes "mj_main_ok tot s"
  shows "mpc s = M_create k \<Longrightarrow> k \<le> tot \<and> cnt TS_JOINED s = 0 \<and> (\<forall>i < tot. pcs s ! i = T_none \<longleftrightarrow> k \<le> i)"
    "mpc s = M_exit EXIT_SUCCESS \<Longrightarrow> cnt TS_JOINED s = int tot"
    "looping (mpc s) \<Longrightarrow> numLive s = int tot - cnt TS_JOINED s \<and> (\<forall>i < tot. pcs s ! i \<noteq> T_none)"
    "mpc s \<in> {M_lock, M_test, M_waiting, M_relock} \<Longrightarrow> 0 < numLive s"
    "mpc s = M_scan k \<Longrightarrow> k \<le> tot \<and> (\<forall>i < k. states s ! i \<noteq> TS_TERMINATED)"
    "mpc s = M_unlock \<Longrightarrow> (\<forall>i < tot. states s ! i \<noteq> TS_TERMINATED)"
    "mpc s = M_waiting \<Longrightarrow> numUnjoined s \<noteq> 0 \<Longrightarrow> \<exists>i < tot. pcs s ! i \<in> {T_unlock, T_signal}"
  using assms unfolding mj_main_ok_def by simp_all

definition mj_inv :: "nat \<Rightarrow> multijoin \<Rightarrow> bool" where
  "mj_inv tot s \<longleftrightarrow>
     length (pcs s) = tot \<and> length (states s) = tot \<and>
     (owner s = ByMain \<longleftrightarrow> holding (mpc s)) \<and>
     (\<forall>i. owner s = ByThread i \<longrightarrow> i < tot) \<and>
     (\<forall>i < tot. thread_ok s i) \<and>
     numUnjoined s = cnt TS_TERMINATED s \<and>
     distinct (joins s) \<and> set (joins s) = {i. i < tot \<and> states s ! i = TS_JOINED} \<and>
     mj_main_ok tot s"

lemma mj_invD:
  assumes "mj_inv tot s"
  shows "length (pcs s) = tot" "length (states s) = tot"
    "owner s = ByMain \<longleftrightarrow> holding (mpc s)"
    "owner s = ByThread i \<Longrightarrow> i < tot" "i < tot \<Longrightarrow> thread_ok s i"
    "numUnjoined s = cnt TS_TERMINATED s" "distinct (joins s)"
    "set (joins s) = {i. i < tot \<and> states s ! i = TS_JOINED}" "mj_main_ok tot s"
  using assms unfolding mj_inv_def by blast+

lemma mj_inv_init: "mj_inv (length args) (mj_init args)"
  by (auto simp: mj_inv_def mj_init_def thread_ok_def cnt_def mj_main_ok_def count_list_eq_length_filter filter_replicate)

text \<open>How much a thread has still to do.\<close>

fun trank :: "tpc \<Rightarrow> nat" where
  "trank T_none = 6" | "trank T_sleep = 5" | "trank T_lock = 4" | "trank T_set = 3"
| "trank T_unlock = 2" | "trank T_signal = 1" | "trank T_done = 0"

text \<open>What a statement of thread \<open>i\<close> may do.\<close>

definition thread_effect :: "multijoin \<Rightarrow> nat \<Rightarrow> tpc \<Rightarrow> multijoin \<Rightarrow> bool" where
  "thread_effect s i q t \<longleftrightarrow>
     i < length (pcs s) \<and> pcs t = (pcs s)[i := q] \<and> joins t = joins s \<and> numLive t = numLive s \<and>
     q \<noteq> T_none \<and> pcs s ! i \<noteq> T_none \<and> thread_ok t i \<and> states s ! i \<noteq> TS_JOINED \<and>
     trank q < trank (pcs s ! i) \<and>
     (states t = states s \<and> numUnjoined t = numUnjoined s \<or>
      owner s = ByThread i \<and> states t = (states s)[i := TS_TERMINATED] \<and> states s ! i = TS_ALIVE \<and>
        numUnjoined t = numUnjoined s + 1) \<and>
     (owner t = owner s \<or> owner s = Free \<and> owner t = ByThread i \<or> owner s = ByThread i \<and> owner t = Free) \<and>
     (mpc t = mpc s \<and> pcs s ! i \<noteq> T_signal \<or> mpc t = (if mpc s = M_waiting then M_relock else mpc s)) \<and>
     (mpc t = M_waiting \<and> numUnjoined t \<noteq> 0 \<longrightarrow>
        q \<in> {T_unlock, T_signal} \<or> numUnjoined s \<noteq> 0 \<and> pcs s ! i \<notin> {T_unlock, T_signal})"

lemma mjThread_effect:
  assumes "mjThread i s = Some t" "thread_ok s i" "length (pcs s) = length (states s)"
  obtains q where "thread_effect s i q t"
proof -
  have i: "i < length (pcs s)" "i < length (states s)" using assms by (auto simp: mjThread_def split: if_splits)
  note d = mjThread_def Let_def thread_effect_def thread_ok_def
  show thesis
  proof (cases "pcs s ! i")
    case T_sleep
    with assms i show thesis by (intro that [of T_lock]) (auto simp: d)
  next
    case T_lock
    with assms i show thesis by (intro that [of T_set]) (auto simp: d split: if_splits)
  next
    case T_set
    with assms i show thesis by (intro that [of T_unlock]) (auto simp: d)
  next
    case T_unlock
    with assms i show thesis by (intro that [of T_signal]) (auto simp: d)
  next
    case T_signal
    with assms i show thesis by (intro that [of T_done]) (auto simp: d)
  qed (use assms i in \<open>auto simp: d\<close>)
qed

lemma thread_effectD:
  assumes "thread_effect s i q t"
  shows "i < length (pcs s)" "pcs t = (pcs s)[i := q]" "joins t = joins s" "numLive t = numLive s"
    "q \<noteq> T_none" "pcs s ! i \<noteq> T_none" "thread_ok t i" "states s ! i \<noteq> TS_JOINED"
    "states t = states s \<and> numUnjoined t = numUnjoined s \<or>
      owner s = ByThread i \<and> states t = (states s)[i := TS_TERMINATED] \<and> states s ! i = TS_ALIVE \<and>
        numUnjoined t = numUnjoined s + 1"
    "owner t = owner s \<or> owner s = Free \<and> owner t = ByThread i \<or> owner s = ByThread i \<and> owner t = Free"
    "mpc t = mpc s \<and> pcs s ! i \<noteq> T_signal \<or> mpc t = (if mpc s = M_waiting then M_relock else mpc s)"
    "mpc t = M_waiting \<Longrightarrow> numUnjoined t \<noteq> 0 \<Longrightarrow>
        q \<in> {T_unlock, T_signal} \<or> numUnjoined s \<noteq> 0 \<and> pcs s ! i \<notin> {T_unlock, T_signal}"
    "trank q < trank (pcs s ! i)"
  using assms unfolding thread_effect_def by blast+

lemma thread_effect_others:
  assumes e: "thread_effect s i q t" and "thread_ok s j" "j < length (pcs s)"
  shows "thread_ok t j"
proof (cases "j = i")
  case False
  have "pcs t ! j = pcs s ! j" "states t ! j = states s ! j" using thread_effectD(2,9) [OF e] False by auto
  moreover have "owner t = ByThread j \<longleftrightarrow> owner s = ByThread j" using thread_effectD(10) [OF e] False by auto
  ultimately show ?thesis using assms(2) by (simp add: thread_ok_def)
qed (use thread_effectD(7) [OF e] in simp)

lemma thread_effect_states:
  assumes e: "thread_effect s i q t" and l: "length (states s) = length (pcs s)"
  shows "length (states t) = length (states s)" "states t ! j = TS_JOINED \<longleftrightarrow> states s ! j = TS_JOINED"
    "cnt TS_JOINED t = cnt TS_JOINED s" "numUnjoined t - cnt TS_TERMINATED t = numUnjoined s - cnt TS_TERMINATED s"
    "owner s \<noteq> ByThread i \<Longrightarrow> states t = states s"
proof -
  have i: "i < length (states s)" using thread_effectD(1) [OF e] l by simp
  note s = thread_effectD(9) [OF e]
  show "length (states t) = length (states s)" using s by auto
  show "states t ! j = TS_JOINED \<longleftrightarrow> states s ! j = TS_JOINED"
    using s thread_effectD(8) [OF e] i by (cases "j = i") auto
  show "cnt TS_JOINED t = cnt TS_JOINED s" using s count_list_update [OF i, of TS_TERMINATED TS_JOINED] by (auto simp: cnt_def)
  show "numUnjoined t - cnt TS_TERMINATED t = numUnjoined s - cnt TS_TERMINATED s"
    using s count_list_update [OF i, of TS_TERMINATED TS_TERMINATED] by (auto simp: cnt_def)
  show "owner s \<noteq> ByThread i \<Longrightarrow> states t = states s" using s by auto
qed

lemma thread_keeps_main:
  assumes e: "thread_effect s i q t" and inv: "mj_inv tot s" and n: "\<And>n. mpc s \<noteq> M_exit n"
  shows "mj_main_ok tot t"
proof -
  note m = mj_invD(9) [OF inv] and len = mj_invD(1,2) [OF inv]
  note st = thread_effect_states [OF e] and ef = thread_effectD [OF e]
  have il: "i < tot" using ef(1) len by simp
  have l: "length (states s) = length (pcs s)" using len by simp
  have none: "pcs t ! j = T_none \<longleftrightarrow> pcs s ! j = T_none" if "j < tot" for j
    using ef(2,5,6) il len that by (cases "j = i") auto
  have same: "states t = states s" if "(\<exists>k. mpc s = M_scan k) \<or> mpc s = M_unlock"
    using that mj_invD(3) [OF inv] st(5) [OF l] by auto
  have wait: "\<exists>j < tot. pcs t ! j \<in> {T_unlock, T_signal}" if w: "mpc t = M_waiting" "numUnjoined t \<noteq> 0"
  proof (cases "q \<in> {T_unlock, T_signal}")
    case True
    then show ?thesis using il ef(2) len by (intro exI [of _ i]) auto
  next
    case False
    have "mpc s = M_waiting" using ef(11) w(1) by (auto split: if_splits)
    with False ef(12) [OF w] m obtain j where "j < tot" "pcs s ! j \<in> {T_unlock, T_signal}" "j \<noteq> i"
      by (auto simp: mj_main_ok_def)
    then show ?thesis using ef(2) by (intro exI [of _ j]) auto
  qed
  show ?thesis
  proof (cases "mpc t = mpc s")
    case True
    show ?thesis unfolding mj_main_ok_def
    proof (intro conjI allI impI)
      show "\<And>k. mpc t = M_create k \<Longrightarrow> k \<le> tot" "\<And>k. mpc t = M_create k \<Longrightarrow> cnt TS_JOINED t = 0"
        "\<And>k j. mpc t = M_create k \<Longrightarrow> j < tot \<Longrightarrow> pcs t ! j = T_none \<longleftrightarrow> k \<le> j"
        using mj_main_okD(1) [OF m] True none st(3) [OF l] by auto
      show "mpc t = M_exit EXIT_SUCCESS \<Longrightarrow> cnt TS_JOINED t = int tot" using n True by simp
      show "looping (mpc t) \<Longrightarrow> numLive t = int tot - cnt TS_JOINED t" "\<And>j. looping (mpc t) \<Longrightarrow> j < tot \<Longrightarrow> pcs t ! j \<noteq> T_none"
        using mj_main_okD(3) [OF m] True none st(3) [OF l] ef(4) by auto
      show "mpc t \<in> {M_lock, M_test, M_waiting, M_relock} \<Longrightarrow> 0 < numLive t" using mj_main_okD(4) [OF m] True ef(4) by simp
      show "\<And>k. mpc t = M_scan k \<Longrightarrow> k \<le> tot" "\<And>k j. mpc t = M_scan k \<Longrightarrow> j < k \<Longrightarrow> states t ! j \<noteq> TS_TERMINATED"
        "\<And>j. mpc t = M_unlock \<Longrightarrow> j < tot \<Longrightarrow> states t ! j \<noteq> TS_TERMINATED"
        using mj_main_okD(5,6) [OF m] True same by auto
      show "mpc t = M_waiting \<and> numUnjoined t \<noteq> 0 \<Longrightarrow> \<exists>j < tot. pcs t ! j \<in> {T_unlock, T_signal}" using wait by simp
    qed
  next
    case False
    then have "mpc s = M_waiting" "mpc t = M_relock" using ef(11) by (auto split: if_splits)
    with mj_main_okD(3,4) [OF m] none st(3) [OF l] ef(4) show ?thesis by (simp add: mj_main_ok_def)
  qed
qed

lemma mjThread_inv:
  assumes t: "mjThread i s = Some t" and inv: "mj_inv tot s" and n: "\<And>n. mpc s \<noteq> M_exit n"
  shows "mj_inv tot t"
proof -
  note len = mj_invD(1,2) [OF inv]
  have "i < tot" using t len by (auto simp: mjThread_def split: if_splits)
  with mj_invD(5) [OF inv] obtain q where e: "thread_effect s i q t" using mjThread_effect [OF t] len by metis
  note st = thread_effect_states [OF e] and ef = thread_effectD [OF e]
  have l: "length (states s) = length (pcs s)" using len by simp
  show ?thesis unfolding mj_inv_def
  proof (intro conjI)
    show "length (pcs t) = tot" "length (states t) = tot" using len ef(2) st(1) [OF l] by auto
    show "owner t = ByMain \<longleftrightarrow> holding (mpc t)"
      using mj_invD(3) [OF inv] ef(10,11) by (auto split: if_splits)
    show "\<forall>j. owner t = ByThread j \<longrightarrow> j < tot" using mj_invD(4) [OF inv] ef(10) \<open>i < tot\<close> by auto
    show "\<forall>j < tot. thread_ok t j" using thread_effect_others [OF e] mj_invD(5) [OF inv] len by blast
    show "numUnjoined t = cnt TS_TERMINATED t" using st(4) [OF l] mj_invD(6) [OF inv] by simp
    show "distinct (joins t)" "set (joins t) = {j. j < tot \<and> states t ! j = TS_JOINED}"
      using mj_invD(7,8) [OF inv] ef(3) st(2) [OF l] by auto
    show "mj_main_ok tot t" by (rule thread_keeps_main [OF e inv n])
  qed
qed

text \<open>A step of main that changes neither the threads nor their states.\<close>

lemma mj_main_move:
  assumes inv: "mj_inv tot s" and same: "pcs t = pcs s" "states t = states s" "joins t = joins s" "numUnjoined t = numUnjoined s"
    and o: "owner t = ByMain \<longleftrightarrow> holding (mpc t)" "\<And>i. owner t = ByThread i \<longleftrightarrow> owner s = ByThread i"
    and m: "mj_main_ok tot t"
  shows "mj_inv tot t"
proof -
  have "\<forall>i < tot. thread_ok t i" using mj_invD(5) [OF inv] same o(2) by (simp add: thread_ok_def)
  moreover have "cnt x t = cnt x s" for x using same by (simp add: cnt_def)
  ultimately show ?thesis
    using mj_invD(1,2,4,6-8) [OF inv] same o m by (simp add: mj_inv_def)
qed

lemma mjMain_create_inv:
  assumes inv: "mj_inv tot s" and c: "mpc s = M_create k" "k < tot"
    and t: "t = s\<lparr>states := (states s)[k := TS_ALIVE], pcs := (pcs s)[k := T_sleep], mpc := M_create (k + 1)\<rparr>"
  shows "mj_inv tot t"
proof -
  note len = mj_invD(1,2) [OF inv] and m = mj_main_okD(1) [OF mj_invD(9) [OF inv] c(1)]
  have al: "states s ! k = TS_ALIVE" "pcs s ! k = T_none" "owner s \<noteq> ByThread k"
    using mj_invD(5) [OF inv, of k] m c(2) by (auto simp: thread_ok_def)
  have st: "(states s)[k := TS_ALIVE] = states s" using al(1) by (metis list_update_id)
  have "cnt x t = cnt x s" for x using st t by (simp add: cnt_def)
  moreover have "\<forall>i < tot. thread_ok t i"
    using mj_invD(5) [OF inv] al st t c(2) len by (auto simp: thread_ok_def nth_list_update)
  moreover have "mj_main_ok tot t"
    using m c(2) len t calculation(1) by (auto simp: mj_main_ok_def nth_list_update)
  ultimately show ?thesis
    using mj_invD(3,4,6-8) [OF inv] c(1) len t st by (simp add: mj_inv_def)
qed

lemma mjMain_join_inv:
  assumes inv: "mj_inv tot s" and c: "mpc s = M_scan k" "k < tot" "states s ! k = TS_TERMINATED" "pcs s ! k = T_done"
    and t: "t = s\<lparr>states := (states s)[k := TS_JOINED], numLive := numLive s - 1,
      numUnjoined := numUnjoined s - 1, joins := joins s @ [k], mpc := M_scan (k + 1)\<rparr>"
  shows "mj_inv tot t"
proof -
  note len = mj_invD(1,2) [OF inv] and mo = mj_invD(9) [OF inv]
  have k: "k < length (states s)" using c(2) len by simp
  have "cnt TS_TERMINATED t = cnt TS_TERMINATED s - 1" "cnt TS_JOINED t = cnt TS_JOINED s + 1"
    using count_list_update [OF k, of TS_JOINED TS_TERMINATED] count_list_update [OF k, of TS_JOINED TS_JOINED] c(3) t
    by (simp_all add: cnt_def)
  moreover have "\<forall>i < tot. thread_ok t i"
    using mj_invD(5) [OF inv] c(2-4) t len by (auto simp: thread_ok_def nth_list_update)
  moreover have "mj_main_ok tot t"
    using mj_main_okD(3,5) [OF mo] c len t calculation(2) less_Suc_eq by (auto simp: mj_main_ok_def nth_list_update)
  moreover have "k \<notin> set (joins s)" "set (joins t) = {i. i < tot \<and> states t ! i = TS_JOINED}"
    using mj_invD(8) [OF inv] c t len by (auto simp: nth_list_update)
  ultimately show ?thesis
    using mj_invD(3,4,6,7) [OF inv] c(1) len t by (simp add: mj_inv_def)
qed

lemma mj_fail_inv: "mj_inv tot s \<Longrightarrow> mpc s = M_create k \<Longrightarrow> mj_inv tot (s\<lparr>mpc := M_exit EXIT_FAILURE\<rparr>)"
  by (rule mj_main_move) (auto simp: mj_main_ok_def dest: mj_invD(3))

lemma mjMain_inv:
  assumes t: "mjMain args s = Some t" and inv: "mj_inv (length args) s"
  shows "mj_inv (length args) t"
proof -
  note mo = mj_invD(9) [OF inv] and ow = mj_invD(3) [OF inv]
  note move = mj_main_move [OF inv, of t] and md = mj_main_okD [OF mo]
  have c: "cnt x t = cnt x s" if "states t = states s" for x using that by (simp add: cnt_def)
  show ?thesis
  proof (cases "mpc s")
    case (M_create k)
    show ?thesis
    proof (cases "k < length args")
      case True
      with t M_create mjMain_create_inv [OF inv M_create] mj_fail_inv [OF inv M_create] show ?thesis
        by (auto simp: mjMain_def split: sum.splits)
    next
      case False
      with t M_create ow md(1) [OF M_create] show ?thesis
        by (intro move) (auto simp: mjMain_def mj_main_ok_def cnt_def)
    qed
  next
    case (M_scan k)
    show ?thesis
    proof (cases "k < length args \<and> states s ! k = TS_TERMINATED")
      case True
      with t M_scan mjMain_join_inv [OF inv M_scan] show ?thesis by (auto simp: mjMain_def split: if_splits)
    next
      case False
      with t M_scan ow md(3,5) show ?thesis
        by (intro move) (auto simp: mjMain_def mj_main_ok_def cnt_def less_Suc_eq split: if_splits)
    qed
  next
    case M_loop
    have "cnt TS_JOINED s \<le> int (length args)"
      using count_le_length [of "states s"] mj_invD(2) [OF inv] by (simp add: cnt_def)
    with M_loop t ow md(3) show ?thesis
      by (cases "numLive s > 0") (intro move; auto simp: mjMain_def mj_main_ok_def cnt_def)+
  next
    case M_lock
    with t ow md(3,4) show ?thesis by (intro move) (auto simp: mjMain_def mj_main_ok_def cnt_def split: if_splits)
  next
    case M_test
    with t ow md(3,4) show ?thesis by (intro move) (auto simp: mjMain_def mj_main_ok_def cnt_def split: if_splits)
  next
    case M_relock
    with t ow md(3,4) show ?thesis by (intro move) (auto simp: mjMain_def mj_main_ok_def cnt_def split: if_splits)
  next
    case M_unlock
    with t ow md(3) show ?thesis by (intro move) (auto simp: mjMain_def mj_main_ok_def cnt_def)
  qed (use t in \<open>auto simp: mjMain_def\<close>)
qed

lemma mjStep_inv:
  assumes t: "mjStep args c s = Some t" and inv: "mj_inv (length args) s"
  shows "mj_inv (length args) t"
proof -
  have n: "mpc s \<noteq> M_exit n" for n using t by (auto simp: mjStep_def)
  show ?thesis
  proof (cases c)
    case JMain
    with t have "mjMain args s = Some t" by (auto simp: mjStep_def split: mpc.splits)
    then show ?thesis by (rule mjMain_inv [OF _ inv])
  next
    case (JThread i)
    with t have "mjThread i s = Some t" by (auto simp: mjStep_def split: mpc.splits)
    then show ?thesis by (rule mjThread_inv [OF _ inv n])
  next
    case JSpurious
    with t have w: "mpc s = M_waiting" "t = s\<lparr>mpc := M_relock\<rparr>" by (auto simp: mjStep_def split: mpc.splits if_splits)
    with mj_main_okD(3,4) [OF mj_invD(9) [OF inv]] mj_invD(3) [OF inv] show ?thesis
      by (intro mj_main_move [OF inv]) (auto simp: mj_main_ok_def cnt_def)
  next
    case JNoThread
    with t obtain k where "mpc s = M_create k" "t = s\<lparr>mpc := M_exit EXIT_FAILURE\<rparr>"
      by (auto simp: mjStep_def split: mpc.splits if_splits)
    with mj_fail_inv [OF inv] show ?thesis by simp
  qed
qed

section \<open>Progress\<close>

text \<open>The work left for main: each round of the loop joins at least one thread.\<close>

definition round :: "nat \<Rightarrow> nat" where "round tot = 2 * tot + 10"

definition mrank :: "nat \<Rightarrow> multijoin \<Rightarrow> nat" where
  "mrank tot s =
     (let L = nat (numLive s) * round tot in
      case mpc s of
        M_create k \<Rightarrow> tot * round tot + tot + 6 + (tot - k)
      | M_loop \<Rightarrow> L + tot + 5
      | M_lock \<Rightarrow> L + tot + 4
      | M_test \<Rightarrow> L + tot + 3
      | M_waiting \<Rightarrow> L + tot + 2
      | M_relock \<Rightarrow> L + tot + 4
      | M_scan k \<Rightarrow> nat (numLive s - numUnjoined s) * round tot + 2 * tot + 7 - k
      | M_unlock \<Rightarrow> L + tot + 6
      | M_exit _ \<Rightarrow> 0)"

definition mjWork :: "nat \<Rightarrow> multijoin \<Rightarrow> nat" where
  "mjWork tot s = 4 * sum_list (map trank (pcs s)) + mrank tot s"

lemma mrank_cong:
  "mpc t = mpc s \<Longrightarrow> numLive t = numLive s \<Longrightarrow> numUnjoined t = numUnjoined s \<or> (\<forall>k. mpc s \<noteq> M_scan k) \<Longrightarrow>
     mrank tot t = mrank tot s"
  by (cases "mpc s") (auto simp: mrank_def)

lemma mjThread_work:
  assumes t: "mjThread i s = Some t" and inv: "mj_inv tot s"
  shows "mjWork tot t < mjWork tot s"
proof -
  note len = mj_invD(1,2) [OF inv]
  have i: "i < tot" using t len by (auto simp: mjThread_def split: if_splits)
  have scan: "owner s \<noteq> ByThread i" if "mpc s = M_scan k" for k
    using mj_invD(3) [OF inv] that by auto
  have ok: "thread_ok s i" by (rule mj_invD(5) [OF inv i])
  have *: "mjWork tot t < mjWork tot s"
    if "pcs t = (pcs s)[i := q]" "4 * trank q + mrank tot t < 4 * trank (pcs s ! i) + mrank tot s" for q
    using that sum_list_update_eq [of i "pcs s" trank q] i len by (simp add: mjWork_def)
  have "length (pcs s) = length (states s)" using len by simp
  then obtain q where e: "thread_effect s i q t" using mjThread_effect [OF t ok] by blast
  show ?thesis
  proof (cases "pcs s ! i = T_signal")
    case True
    have "mrank tot t \<le> mrank tot s + 2" using t True by (auto simp: mjThread_def Let_def mrank_def split: mpc.splits if_splits)
    with thread_effectD(2,13) [OF e] show ?thesis by (intro * [of q]) auto
  next
    case False
    have "mrank tot t = mrank tot s"
      using t False scan ok by (intro mrank_cong) (auto simp: mjThread_def Let_def thread_ok_def split: if_splits tpc.splits)
    with thread_effectD(2,13) [OF e] show ?thesis by (intro * [of q]) auto
  qed
qed

lemma counts_le:
  assumes "mj_inv tot s" "looping (mpc s)"
  shows "0 \<le> numUnjoined s" "numUnjoined s \<le> numLive s"
proof -
  have "count_list xs TS_TERMINATED + count_list xs TS_JOINED \<le> length xs" for xs by (induction xs) auto
  from this [of "states s"] show "0 \<le> numUnjoined s" "numUnjoined s \<le> numLive s"
    using mj_invD(2,6) [OF assms(1)] mj_main_okD(3) [OF mj_invD(9) [OF assms(1)] assms(2)] by (auto simp: cnt_def)
qed

lemma mjMain_work:
  assumes t: "mjMain args s = Some t" and inv: "mj_inv (length args) s"
  shows "mjWork (length args) t < mjWork (length args) s"
proof -
  note md = mj_main_okD [OF mj_invD(9) [OF inv]] and le = counts_le [OF inv]
  have *: "mjWork (length args) t < mjWork (length args) s"
    if "pcs t = pcs s" "mrank (length args) t < mrank (length args) s" using that by (simp add: mjWork_def)
  show ?thesis
  proof (cases "mpc s")
    case (M_create k)
    show ?thesis
    proof (cases "k < length args")
      case True
      with md(1) [OF M_create] have "pcs s ! k = T_none" by simp
      with True t M_create sum_list_update_eq [of k "pcs s" trank T_sleep] mj_invD(1) [OF inv] show ?thesis
        by (auto simp: mjMain_def mjWork_def mrank_def Let_def split: sum.splits)
    next
      case False
      with t M_create show ?thesis by (intro *) (auto simp: mjMain_def mrank_def Let_def)
    qed
  next
    case M_test
    show ?thesis
    proof (cases "numUnjoined s = 0")
      case False
      with M_test le have "nat (numLive s - numUnjoined s) < nat (numLive s)" by simp
      then have "nat (numLive s - numUnjoined s) * round (length args) + round (length args) \<le> nat (numLive s) * round (length args)"
        by (metis Suc_leI add.commute mult_Suc mult_le_mono1)
      with False t M_test show ?thesis by (intro *) (auto simp: mjMain_def mrank_def Let_def round_def)
    qed (use t M_test in \<open>intro *; auto simp: mjMain_def mrank_def Let_def\<close>)
  next
    case (M_scan k)
    show ?thesis
    proof (cases "k < length args")
      case True
      with t M_scan show ?thesis by (intro *) (auto simp: mjMain_def mrank_def Let_def split: if_splits)
    next
      case False
      have "cnt TS_TERMINATED s = 0"
        using False md(5) [OF M_scan] mj_invD(2) [OF inv] by (auto simp: cnt_def count_list_0_iff in_set_conv_nth)
      with False t M_scan mj_invD(6) [OF inv] md(5) [OF M_scan] show ?thesis
        by (intro *) (auto simp: mjMain_def mrank_def Let_def)
    qed
  qed (use t in \<open>(intro *; auto simp: mjMain_def mrank_def Let_def split: if_splits)+\<close>)
qed

interpretation mj: bounded_machine "mjStep args" "mj_inv (length args)" "mjWork (length args)"
  "\<lambda>c. if c = JSpurious then 3 else 0" for args
proof
  fix c s t assume t: "mjStep args c s = Some t" and inv: "mj_inv (length args) s"
  show "mj_inv (length args) t" by (rule mjStep_inv [OF t inv])
  show "mjWork (length args) t < mjWork (length args) s + (if c = JSpurious then 3 else 0)"
  proof (cases c)
    case JMain
    with t have "mjMain args s = Some t" by (auto simp: mjStep_def split: mpc.splits)
    with mjMain_work [OF _ inv] JMain show ?thesis by auto
  next
    case (JThread i)
    with t have "mjThread i s = Some t" by (auto simp: mjStep_def split: mpc.splits)
    with mjThread_work [OF _ inv] JThread show ?thesis by auto
  qed (use t in \<open>auto simp: mjStep_def mjWork_def mrank_def Let_def split: mpc.splits if_splits\<close>)
qed

lemma mjThread_stuck:
  "mjThread i s = None \<Longrightarrow> i < length (pcs s) \<Longrightarrow> pcs s ! i \<in> {T_none, T_done} \<or> pcs s ! i = T_lock \<and> owner s \<noteq> Free"
  by (auto simp: mjThread_def Let_def split: if_splits tpc.splits)

lemma mj_not_stuck:
  assumes inv: "mj_inv (length args) s" and n: "mjMain args s = None" "\<And>i. mjThread i s = None"
  shows "\<exists>n. mpc s = M_exit n"
proof (rule ccontr)
  assume e: "\<nexists>n. mpc s = M_exit n"
  note md = mj_main_okD [OF mj_invD(9) [OF inv]] and len = mj_invD(1,2) [OF inv]
  have stuck: "pcs s ! i \<in> {T_none, T_done} \<or> pcs s ! i = T_lock \<and> owner s \<noteq> Free" if "i < length args" for i
    using mjThread_stuck [OF n(2)] that len by simp
  have noth: "owner s \<noteq> ByThread i" for i
    using mj_invD(4) [OF inv, of i] mj_invD(5) [OF inv, of i] stuck [of i] by (auto simp: thread_ok_def)
  show False
  proof (cases "owner s")
    case Free
    then have w: "mpc s = M_waiting" using n(1) e mj_invD(3) [OF inv] by (auto simp: mjMain_def split: mpc.splits if_splits sum.splits)
    have d: "pcs s ! i = T_done" if "i < length args" for i
      using md(3) stuck [OF that] that Free w by auto
    with md(7) [OF w] have "numUnjoined s = 0" by fastforce
    moreover have "set (states s) \<subseteq> {TS_TERMINATED, TS_JOINED}"
    proof
      fix x assume "x \<in> set (states s)"
      then obtain i where "i < length args" "x = states s ! i" using len by (auto simp: in_set_conv_nth)
      with mj_invD(5) [OF inv, of i] d show "x \<in> {TS_TERMINATED, TS_JOINED}" by (cases x) (auto simp: thread_ok_def)
    qed
    moreover have "set xs \<subseteq> {TS_TERMINATED, TS_JOINED} \<Longrightarrow> count_list xs TS_TERMINATED + count_list xs TS_JOINED = length xs" for xs
      by (induction xs) auto
    ultimately show False using mj_invD(6) [OF inv] md(3,4) w len by (fastforce simp: cnt_def)
  next
    case ByMain
    then obtain k where k: "mpc s = M_scan k" "k < length args" "states s ! k = TS_TERMINATED" "pcs s ! k \<noteq> T_done"
      using n(1) e mj_invD(3) [OF inv] by (auto simp: mjMain_def split: mpc.splits if_splits sum.splits)
    with mj_invD(5) [OF inv, of k] stuck [OF k(2)] show False by (auto simp: thread_ok_def)
  qed (use noth in blast)
qed

section \<open>Correctness\<close>

lemma count_list_full: "count_list xs x = length xs \<Longrightarrow> i < length xs \<Longrightarrow> xs ! i = x"
proof (induction xs arbitrary: i)
  case (Cons a xs)
  with count_le_length [of xs x] show ?case by (cases i) (auto split: if_splits)
qed simp

text \<open>
  C17. In every interleaving at most one thread is between locking and unlocking the mutex, no
  thread is joined twice, and only threads that have returned are joined. When main exits with
  success, it has joined every thread.
\<close>

theorem multijoin_joins_all:
  assumes "mj_run args ts (mj_init args) = Some s"
  shows "distinct (joins s) \<and> (\<forall>i \<in> set (joins s). i < length args \<and> pcs s ! i = T_done) \<and>
    (mpc s = M_exit EXIT_SUCCESS \<longrightarrow> set (joins s) = {..<length args}) \<and>
    (owner s = ByMain \<longleftrightarrow> holding (mpc s)) \<and>
    (\<forall>i < length args. owner s = ByThread i \<longleftrightarrow> pcs s ! i \<in> {T_set, T_unlock})"
proof -
  have inv: "mj_inv (length args) s" by (rule mj.run_inv [OF assms mj_inv_init])
  have ok: "thread_ok s i" if "i < length args" for i by (rule mj_invD(5) [OF inv that])
  have "set (joins s) = {..<length args}" if "mpc s = M_exit EXIT_SUCCESS"
    using mj_main_okD(2) [OF mj_invD(9) [OF inv] that] mj_invD(2,8) [OF inv] count_list_full [of "states s" TS_JOINED]
    by (auto simp: cnt_def)
  then show ?thesis using mj_invD(3,7,8) [OF inv] ok by (auto simp: thread_ok_def)
qed

text \<open>
  C18. The program ends: in every reachable state in which main has not exited, main or a thread
  can go on without a spurious wake-up, and a run over \<open>n\<close> arguments has at most
  \<open>2 n^2 + 36 n + 6\<close> steps, and 3 more for each spurious wake-up.
\<close>

theorem multijoin_ends:
  assumes "mj_run args ts (mj_init args) = Some s"
  shows "((\<forall>n. mpc s \<noteq> M_exit n) \<longrightarrow> mjStep args JMain s \<noteq> None \<or> (\<exists>i. mjStep args (JThread i) s \<noteq> None)) \<and>
    length ts \<le> 2 * length args * length args + 36 * length args + 6 +
      3 * length (filter (\<lambda>c. c = JSpurious) ts)"
proof
  have inv: "mj_inv (length args) s" by (rule mj.run_inv [OF assms mj_inv_init])
  show "(\<forall>n. mpc s \<noteq> M_exit n) \<longrightarrow> mjStep args JMain s \<noteq> None \<or> (\<exists>i. mjStep args (JThread i) s \<noteq> None)"
  proof
    assume e: "\<forall>n. mpc s \<noteq> M_exit n"
    then have "mjStep args JMain s = mjMain args s" "\<And>i. mjStep args (JThread i) s = mjThread i s"
      by (simp_all add: mjStep_def split: mpc.splits)
    with mj_not_stuck [OF inv] e show "mjStep args JMain s \<noteq> None \<or> (\<exists>i. mjStep args (JThread i) s \<noteq> None)" by metis
  qed
  have "mjWork (length args) (mj_init args) \<le> 2 * length args * length args + 36 * length args + 6"
    by (simp add: mjWork_def mj_init_def mrank_def round_def Let_def sum_list_replicate algebra_simps)
  moreover have "sum_list (map (\<lambda>c. if c = JSpurious then 3 else 0) ts) = 3 * length (filter (\<lambda>c. c = JSpurious) ts)"
    by (induction ts) auto
  ultimately show "length ts \<le> 2 * length args * length args + 36 * length args + 6 +
      3 * length (filter (\<lambda>c. c = JSpurious) ts)"
    using mj.run_bound [OF assms mj_inv_init] by linarith
qed

text \<open>Two threads; the second terminates while main waits after a spurious wake-up, the first while main scans.\<close>

definition demo_joins :: "mjtick list" where
  "demo_joins = [JMain, JMain, JMain, JMain, JMain, JMain, JSpurious, JThread 1, JThread 1, JThread 1, JThread 1,
     JMain, JMain, JThread 0, JMain, JThread 1, JMain, JMain, JMain, JThread 0, JThread 0, JThread 0, JThread 0,
     JMain, JMain, JMain, JMain, JMain, JMain, JMain, JMain]"

lemma demo_joins_run: "\<exists>s. mj_run [''2'', ''1''] demo_joins (mj_init [''2'', ''1'']) = Some s \<and> mpc s = M_exit EXIT_SUCCESS \<and> joins s = [1, 0]"
proof -
  have "map_option (\<lambda>s. (mpc s, joins s)) (mj_run [''2'', ''1''] demo_joins (mj_init [''2'', ''1''])) = Some (M_exit 0, [1, 0])"
    by code_simp
  then show ?thesis by auto
qed

theorem multijoin_joins_all_witness:
  "\<exists>s. mj_run [''2'', ''1''] demo_joins (mj_init [''2'', ''1'']) = Some s \<and> joins s = [1, 0] \<and> set (joins s) = {..<2}"
proof -
  obtain s where "mj_run [''2'', ''1''] demo_joins (mj_init [''2'', ''1'']) = Some s" "mpc s = M_exit EXIT_SUCCESS" "joins s = [1, 0]"
    using demo_joins_run by auto
  with multijoin_joins_all [OF this(1)] show ?thesis by auto
qed

theorem multijoin_ends_witness: "length demo_joins \<le> 86 + 3 * length (filter (\<lambda>c. c = JSpurious) demo_joins)"
proof -
  obtain s where "mj_run [''2'', ''1''] demo_joins (mj_init [''2'', ''1'']) = Some s" using demo_joins_run by auto
  from multijoin_ends [OF this] show ?thesis by simp
qed

end
