(* ===== verification/SimpleInit.thy ===== *)
theory SimpleInit
  imports Machines StreamProps
begin

text \<open>
  \<open>namespaces/simple_init.c\<close>: an init process for a PID namespace that runs the commands it
  reads and reaps every process of the namespace. The shell loop of \<open>main\<close>, the handler of
  \<open>SIGCHLD\<close>, the children and the kernel are interleaved. A signal that arrives while it is
  already pending is lost; the handler runs between two statements of \<open>main\<close>, and the call of
  \<open>pause\<close> ends only when a handler has run during it. Orphans of the namespace become children
  of init at any time. Job control (stopped children) is not modelled; the input has no null
  bytes.
\<close>

section \<open>Commands\<close>

abbreviation (input) CMD_SIZE :: nat where "CMD_SIZE \<equiv> 10000"

text \<open>\<open>fgets(buf, n, stdin)\<close>: the line, at most \<open>n - 1\<close> bytes of it, and the rest; \<open>None\<close> is end of file.\<close>

definition fgets :: "nat \<Rightarrow> string \<Rightarrow> (string \<times> string) option" where
  "fgets n inp =
     (if inp = [] then None
      else let l = take (n - 1) (lineOf inp) in Some (l, drop (length l) inp))"

text \<open>The trailing newline is removed.\<close>

definition strip :: "string \<Rightarrow> string" where
  "strip cmd = (if last cmd = NEWLINE then butlast cmd else cmd)"

lemma lineOf_nonempty: "inp \<noteq> [] \<Longrightarrow> lineOf inp \<noteq> []"
  by (cases inp) auto

lemma fgets_shorter: "fgets CMD_SIZE inp = Some (l, r) \<Longrightarrow> length r < length inp \<and> l \<noteq> []"
  using lineOf_nonempty [of inp] by (auto simp: fgets_def Let_def split: if_splits)

text \<open>All commands of a text; empty ones are skipped.\<close>

function commands :: "string \<Rightarrow> string list" where
  "commands inp =
     (case fgets CMD_SIZE inp of
        None \<Rightarrow> []
      | Some (l, r) \<Rightarrow> (if strip l = [] then [] else [strip l]) @ commands r)"
  by pat_completeness auto
termination
  by (relation "measure length") (auto dest: fgets_shorter)

declare commands.simps [simp del]

section \<open>State\<close>

text \<open>
  A child of init: a process that runs a command, or an adopted orphan (\<open>command = None\<close>).
  \<open>K_running\<close> has the words of the command that was executed.
\<close>

datatype kid_pc = K_expand | K_setpgid "string list" | K_tcsetpgrp "string list" | K_exec "string list"
  | K_running "string list" | K_zombie | K_reaped

record kid =
  kpc :: kid_pc
  command :: "string option"

datatype ipc = I_read | I_fork string | I_pause | I_paused | I_regain | I_umount | I_exit int

text \<open>
  \<open>fg\<close> is the foreground process group of the terminal: 0 for init's, \<open>Suc i\<close> for that of child
  \<open>i\<close>. \<open>reaps\<close> records the children for which \<open>waitpid\<close> has returned.
\<close>

record initw =
  ipc :: ipc
  input :: string
  kids :: "kid list"
  sigchld :: bool
  handler :: bool
  fg :: nat
  procfs :: "string option"
  proc_path :: "string option"
  forkFailed :: bool
  reaps :: "nat list"

section \<open>Start-up\<close>

text \<open>The options as \<open>getopt\<close> delivers them; \<open>None\<close> for a call of \<open>usage\<close>.\<close>

fun initOptions :: "(char \<times> string) list \<Rightarrow> string option \<Rightarrow> string option option" where
  "initOptions [] path = Some path"
| "initOptions ((c, optarg) # os) path =
     (if c = CHR ''p'' then initOptions os (Some optarg)
      else if c = CHR ''v'' then initOptions os path
      else None)"

record startup =
  sigaction_ok :: bool
  setpgid_ok :: bool
  tcsetpgrp_ok :: bool
  mount_ok :: bool

definition initStart :: "startup \<Rightarrow> (char \<times> string) list \<Rightarrow> string \<Rightarrow> initw" where
  "initStart k os inp =
     (let path = initOptions os None;
          ok = path \<noteq> None \<and> sigaction_ok k \<and> setpgid_ok k \<and> tcsetpgrp_ok k \<and> (path = Some None \<or> mount_ok k)
      in \<lparr>ipc = (if ok then I_read else I_exit EXIT_FAILURE), input = inp, kids = [], sigchld = False, handler = False,
          fg = 0, procfs = (if ok then the path else None), proc_path = (if path = None then None else the path),
          forkFailed = False, reaps = []\<rparr>)"

section \<open>The processes\<close>

text \<open>One statement of \<open>main\<close>; \<open>ok\<close> tells whether the system call in it succeeds.\<close>

definition initMain :: "bool \<Rightarrow> initw \<Rightarrow> initw option" where
  "initMain ok s =
     (case ipc s of
        I_read \<Rightarrow>
          (case fgets CMD_SIZE (input s) of
             None \<Rightarrow> Some (s\<lparr>ipc := I_umount\<rparr>)
           | Some (cmd, r) \<Rightarrow> Some (s\<lparr>input := r, ipc := (if strip cmd = [] then I_read else I_fork (strip cmd))\<rparr>))
      | I_fork cmd \<Rightarrow>
          if ok then Some (s\<lparr>kids := kids s @ [\<lparr>kpc = K_expand, command = Some cmd\<rparr>], ipc := I_pause\<rparr>)
          else Some (s\<lparr>forkFailed := True, ipc := I_umount\<rparr>)
      | I_pause \<Rightarrow> Some (s\<lparr>ipc := I_paused\<rparr>)
      | I_paused \<Rightarrow> None
      | I_regain \<Rightarrow> Some (if ok then s\<lparr>fg := 0, ipc := I_read\<rparr> else s\<lparr>ipc := I_exit EXIT_FAILURE\<rparr>)
      | I_umount \<Rightarrow>
          (case proc_path s of
             None \<Rightarrow> Some (s\<lparr>ipc := I_exit EXIT_SUCCESS\<rparr>)
           | Some p \<Rightarrow> Some (if ok then s\<lparr>procfs := None, ipc := I_exit EXIT_SUCCESS\<rparr> else s\<lparr>ipc := I_exit EXIT_FAILURE\<rparr>))
      | I_exit _ \<Rightarrow> None)"

text \<open>The end of a child: it becomes a zombie and the parent is sent \<open>SIGCHLD\<close>.\<close>

definition kidEnds :: "nat \<Rightarrow> initw \<Rightarrow> initw" where
  "kidEnds i s = s\<lparr>kids := (kids s)[i := (kids s ! i)\<lparr>kpc := K_zombie\<rparr>], sigchld := True\<rparr>"

definition setKid :: "nat \<Rightarrow> kid_pc \<Rightarrow> initw \<Rightarrow> initw" where
  "setKid i p s = s\<lparr>kids := (kids s)[i := (kids s ! i)\<lparr>kpc := p\<rparr>]\<rparr>"

text \<open>The child that runs a command; \<open>wordexp\<close> is a parameter.\<close>

definition expand_words :: "(string \<Rightarrow> string list option) \<Rightarrow> kid \<Rightarrow> string list option" where
  "expand_words wordexp k = (case command k of None \<Rightarrow> None | Some cmd \<Rightarrow> wordexp cmd)"

definition kidStep :: "(string \<Rightarrow> string list option) \<Rightarrow> nat \<Rightarrow> bool \<Rightarrow> initw \<Rightarrow> initw option" where
  "kidStep wordexp i ok s =
     (if length (kids s) \<le> i then None
      else case kpc (kids s ! i) of
        K_expand \<Rightarrow>
          (case expand_words wordexp (kids s ! i) of
             None \<Rightarrow> Some (kidEnds i s)
           | Some ws \<Rightarrow> Some (setKid i (K_setpgid ws) s))
      | K_setpgid ws \<Rightarrow> Some (if ok then setKid i (K_tcsetpgrp ws) s else kidEnds i s)
      | K_tcsetpgrp ws \<Rightarrow> Some (if ok then (setKid i (K_exec ws) s)\<lparr>fg := Suc i\<rparr> else kidEnds i s)
      | K_exec ws \<Rightarrow> Some (if ok \<and> ws \<noteq> [] then setKid i (K_running ws) s else kidEnds i s)
      | K_running _ \<Rightarrow> Some (kidEnds i s)
      | K_zombie \<Rightarrow> None
      | K_reaped \<Rightarrow> None)"

text \<open>
  The handler: \<open>waitpid\<close> reaps a zombie, any of them, and is called again; without a zombie it
  returns 0, or \<open>-1\<close> with \<open>ECHILD\<close> when there are no children left, and the handler ends.
\<close>

definition zombie :: "kid \<Rightarrow> bool" where
  "zombie k \<longleftrightarrow> kpc k = K_zombie"

definition child_handler :: "nat option \<Rightarrow> initw \<Rightarrow> initw option" where
  "child_handler w s =
     (if \<not> handler s then None
      else case w of
        Some i \<Rightarrow>
          if i < length (kids s) \<and> kpc (kids s ! i) = K_zombie
          then Some ((setKid i K_reaped s)\<lparr>reaps := reaps s @ [i]\<rparr>) else None
      | None \<Rightarrow>
          if list_ex zombie (kids s) then None
          else Some (s\<lparr>handler := False, ipc := (if ipc s = I_paused then I_regain else ipc s)\<rparr>))"

datatype itick = IMain bool | IKid nat bool | IDeliver | IHandler "nat option" | IAdopt | IKilled nat

definition istep :: "(string \<Rightarrow> string list option) \<Rightarrow> itick \<Rightarrow> initw \<Rightarrow> initw option" where
  "istep wordexp t s =
     (case ipc s of
        I_exit _ \<Rightarrow> None
      | _ \<Rightarrow>
        (case t of
           IMain ok \<Rightarrow> if handler s then None else initMain ok s
         | IKid i ok \<Rightarrow> kidStep wordexp i ok s
         | IDeliver \<Rightarrow> if sigchld s \<and> \<not> handler s then Some (s\<lparr>sigchld := False, handler := True\<rparr>) else None
         | IHandler w \<Rightarrow> child_handler w s
         | IAdopt \<Rightarrow> Some (s\<lparr>kids := kids s @ [\<lparr>kpc = K_running [], command = None\<rparr>]\<rparr>)
         | IKilled i \<Rightarrow>
             if i < length (kids s) \<and> kpc (kids s ! i) \<notin> {K_zombie, K_reaped} then Some (kidEnds i s) else None))"

abbreviation init_run :: "(string \<Rightarrow> string list option) \<Rightarrow> itick list \<Rightarrow> initw \<Rightarrow> initw option" where
  "init_run wordexp \<equiv> run_steps (istep wordexp)"

section \<open>Invariants\<close>

text \<open>What becomes of the children: no zombie is overlooked, and each is reaped once.\<close>

definition reapedKids :: "kid list \<Rightarrow> nat set" where
  "reapedKids ks = {i. i < length ks \<and> kpc (ks ! i) = K_reaped}"

definition reap_inv :: "initw \<Rightarrow> bool" where
  "reap_inv s \<longleftrightarrow>
     (list_ex zombie (kids s) \<longrightarrow> sigchld s \<or> handler s) \<and>
     distinct (reaps s) \<and> set (reaps s) = reapedKids (kids s)"

lemma list_ex_update: "list_ex P (xs[i := y]) \<Longrightarrow> P y \<or> list_ex P xs"
  by (auto simp: list_ex_iff dest: set_update_subset_insert [THEN subsetD])

lemma reaped_update:
  assumes "i < length ks" "kpc (ks ! i) \<noteq> K_reaped"
  shows "reapedKids (ks[i := (ks ! i)\<lparr>kpc := p\<rparr>]) = (if p = K_reaped then insert i (reapedKids ks) else reapedKids ks)"
  using assms by (auto simp: reapedKids_def nth_list_update)

lemma reaped_new: "kpc k \<noteq> K_reaped \<Longrightarrow> reapedKids (ks @ [k]) = reapedKids ks"
  by (auto simp: reapedKids_def nth_append less_Suc_eq)

lemma setKid_reap_inv:
  assumes "reap_inv s" "i < length (kids s)" "kpc (kids s ! i) \<noteq> K_reaped" "p \<noteq> K_reaped" "p \<noteq> K_zombie"
  shows "reap_inv (setKid i p s)"
proof -
  have "list_ex zombie (kids s)" if "list_ex zombie (kids (setKid i p s))"
    using list_ex_update [of zombie "kids s" i "(kids s ! i)\<lparr>kpc := p\<rparr>"] that assms(5) by (simp add: setKid_def zombie_def)
  then show ?thesis using assms reaped_update [of i "kids s" p] by (simp add: reap_inv_def setKid_def)
qed

lemma kidEnds_reap_inv:
  assumes "reap_inv s" "i < length (kids s)" "kpc (kids s ! i) \<noteq> K_reaped"
  shows "reap_inv (kidEnds i s)"
  using assms reaped_update [of i "kids s" K_zombie] by (simp add: reap_inv_def kidEnds_def)

lemma reap_inv_new:
  assumes "reap_inv s" "kpc k \<notin> {K_zombie, K_reaped}"
  shows "reap_inv (s\<lparr>kids := kids s @ [k]\<rparr>)"
  using assms by (simp add: reap_inv_def zombie_def reaped_new)

lemma reap_inv_frame [simp]:
  "reap_inv (s\<lparr>fg := n\<rparr>) = reap_inv s" "reap_inv (s\<lparr>ipc := p\<rparr>) = reap_inv s" "reap_inv (s\<lparr>input := x\<rparr>) = reap_inv s"
  "reap_inv (s\<lparr>procfs := y\<rparr>) = reap_inv s" "reap_inv (s\<lparr>forkFailed := b\<rparr>) = reap_inv s"
  by (simp_all add: reap_inv_def)

lemma initMain_reap_inv:
  assumes t: "initMain ok s = Some t" and r: "reap_inv s"
  shows "reap_inv t"
proof -
  have new: "reap_inv (s\<lparr>kids := kids s @ [\<lparr>kpc = K_expand, command = Some cmd\<rparr>], ipc := p\<rparr>)" for cmd p
    using reap_inv_new [OF r, of "\<lparr>kpc = K_expand, command = Some cmd\<rparr>"] by (simp add: reap_inv_def)
  show ?thesis using t r new by (cases "ipc s") (auto simp: initMain_def split: option.splits if_splits)
qed

lemma child_handler_reap_inv:
  assumes t: "child_handler w s = Some t" and r: "reap_inv s"
  shows "reap_inv t"
proof (cases w)
  case (Some i)
  with t have i: "i < length (kids s)" "kpc (kids s ! i) = K_zombie" "handler s"
    and t: "t = (setKid i K_reaped s)\<lparr>reaps := reaps s @ [i]\<rparr>"
    by (auto simp: child_handler_def split: if_splits)
  have "i \<notin> set (reaps s)" using r i(2) by (simp add: reap_inv_def reapedKids_def)
  with r i t reaped_update [of i "kids s" K_reaped] show ?thesis by (simp add: reap_inv_def setKid_def)
next
  case None
  with t r show ?thesis by (auto simp: child_handler_def reap_inv_def zombie_def split: if_splits)
qed

lemma kidStep_reap_inv: "kidStep wordexp i ok s = Some t \<Longrightarrow> reap_inv s \<Longrightarrow> reap_inv t"
  by (auto simp: kidStep_def intro!: setKid_reap_inv kidEnds_reap_inv split: if_splits kid_pc.splits option.splits)

lemma istep_reap_inv:
  assumes "istep wordexp c s = Some t" "reap_inv s"
  shows "reap_inv t"
proof (cases c)
  case (IMain ok)
  with assms show ?thesis by (auto simp: istep_def intro: initMain_reap_inv split: ipc.splits if_splits)
next
  case (IKid i ok)
  with assms show ?thesis by (auto simp: istep_def intro: kidStep_reap_inv split: ipc.splits)
next
  case IDeliver
  with assms show ?thesis by (auto simp: istep_def reap_inv_def split: ipc.splits if_splits)
next
  case (IHandler w)
  with assms show ?thesis by (auto simp: istep_def intro: child_handler_reap_inv split: ipc.splits)
next
  case IAdopt
  with assms reap_inv_new [of s "\<lparr>kpc = K_running [], command = None\<rparr>"] show ?thesis
    by (auto simp: istep_def split: ipc.splits)
next
  case (IKilled i)
  with assms show ?thesis by (auto simp: istep_def intro!: kidEnds_reap_inv split: ipc.splits if_splits)
qed

interpretation reaping: machine "istep wordexp" reap_inv for wordexp
  by unfold_locales (rule istep_reap_inv)

text \<open>What the children run: the commands of the input, in order, expanded by \<open>wordexp\<close>.\<close>

definition ownCommands :: "kid list \<Rightarrow> string list" where
  "ownCommands ks = concat (map (case_option [] (\<lambda>c. [c])) (map command ks))"

fun waitingCommand :: "ipc \<Rightarrow> string list" where
  "waitingCommand (I_fork c) = [c]"
| "waitingCommand _ = []"

fun kid_words :: "kid_pc \<Rightarrow> string list option" where
  "kid_words (K_setpgid ws) = Some ws"
| "kid_words (K_tcsetpgrp ws) = Some ws"
| "kid_words (K_exec ws) = Some ws"
| "kid_words (K_running ws) = Some ws"
| "kid_words _ = None"

definition kid_ok :: "(string \<Rightarrow> string list option) \<Rightarrow> kid \<Rightarrow> bool" where
  "kid_ok wordexp k \<longleftrightarrow> (\<forall>c ws. command k = Some c \<longrightarrow> kid_words (kpc k) = Some ws \<longrightarrow> wordexp c = Some ws)"

definition shell_inv :: "(string \<Rightarrow> string list option) \<Rightarrow> string \<Rightarrow> initw \<Rightarrow> bool" where
  "shell_inv wordexp inp s \<longleftrightarrow>
     list_all (kid_ok wordexp) (kids s) \<and>
     (\<exists>r. ownCommands (kids s) @ r = commands inp) \<and>
     (\<not> forkFailed s \<longrightarrow> ownCommands (kids s) @ waitingCommand (ipc s) @ commands (input s) = commands inp) \<and>
     (forkFailed s \<longrightarrow> ipc s = I_umount \<or> (\<exists>n. ipc s = I_exit n)) \<and>
     (\<not> forkFailed s \<longrightarrow> ipc s = I_umount \<or> ipc s = I_exit EXIT_SUCCESS \<longrightarrow> input s = []) \<and>
     (procfs s = None \<or> procfs s = proc_path s) \<and> (ipc s = I_exit EXIT_SUCCESS \<longrightarrow> procfs s = None)"

lemma command_update: "map command (ks[i := (ks ! i)\<lparr>kpc := p\<rparr>]) = map command ks"
  by (cases "i < length ks") (simp_all add: map_update list_update_same_conv list_update_beyond)

lemma ownCommands_update [simp]: "ownCommands (ks[i := (ks ! i)\<lparr>kpc := p\<rparr>]) = ownCommands ks"
  by (simp only: ownCommands_def command_update)

lemma ownCommands_new [simp]:
  "ownCommands (ks @ [\<lparr>kpc = p, command = Some c\<rparr>]) = ownCommands ks @ [c]"
  "ownCommands (ks @ [\<lparr>kpc = p, command = None\<rparr>]) = ownCommands ks"
  by (simp_all add: ownCommands_def)

text \<open>A change of a child that keeps what it is to run.\<close>

lemma list_all_update: "list_all P xs \<Longrightarrow> P y \<Longrightarrow> list_all P (xs[i := y])"
  by (auto simp: list_all_iff dest: set_update_subset_insert [THEN subsetD])

lemma setKid_shell_inv:
  assumes "shell_inv wordexp inp s" "kid_ok wordexp ((kids s ! i)\<lparr>kpc := p\<rparr>)"
  shows "shell_inv wordexp inp (setKid i p s)"
  using assms by (simp add: shell_inv_def setKid_def list_all_update)

lemma kidEnds_shell_inv: "shell_inv wordexp inp s \<Longrightarrow> shell_inv wordexp inp (kidEnds i s)"
  by (simp add: shell_inv_def kidEnds_def list_all_update kid_ok_def)

lemma shell_inv_frame [simp]:
  "shell_inv wordexp inp (s\<lparr>fg := n\<rparr>) = shell_inv wordexp inp s"
  "shell_inv wordexp inp (s\<lparr>reaps := l\<rparr>) = shell_inv wordexp inp s"
  "shell_inv wordexp inp (s\<lparr>sigchld := b, handler := c\<rparr>) = shell_inv wordexp inp s"
  by (simp_all add: shell_inv_def)

lemma kidStep_shell_inv:
  assumes t: "kidStep wordexp i ok s = Some t" and inv: "shell_inv wordexp inp s"
  shows "shell_inv wordexp inp t"
proof -
  have i: "i < length (kids s)" using t by (auto simp: kidStep_def split: if_splits)
  then have k: "kid_ok wordexp (kids s ! i)" using inv by (simp add: shell_inv_def list_all_length)
  show ?thesis
    using t i k inv
    by (auto simp: kidStep_def kid_ok_def expand_words_def intro!: setKid_shell_inv kidEnds_shell_inv
        split: kid_pc.splits option.splits if_splits)
qed

lemma initMain_shell_inv:
  assumes t: "initMain ok s = Some t" and inv: "shell_inv wordexp inp s"
  shows "shell_inv wordexp inp t"
proof (cases "ipc s")
  case I_read
  show ?thesis
  proof (cases "fgets CMD_SIZE (input s)")
    case None
    then have "input s = []" by (simp add: fgets_def Let_def split: if_splits)
    with None t I_read inv show ?thesis by (auto simp: initMain_def shell_inv_def)
  next
    case (Some x)
    obtain l r where x: "x = (l, r)" by fastforce
    with Some have "commands (input s) = (if strip l = [] then [] else [strip l]) @ commands r"
      by (simp add: commands.simps [of "input s"])
    with Some x t I_read inv show ?thesis by (cases "strip l = []") (auto simp: initMain_def shell_inv_def)
  qed
next
  case (I_fork cmd)
  show ?thesis
  proof (cases ok)
    case True
    have "\<not> forkFailed s" using inv I_fork by (auto simp: shell_inv_def)
    with True t I_fork inv show ?thesis by (auto simp: initMain_def shell_inv_def kid_ok_def)
  qed (use t I_fork inv in \<open>auto simp: initMain_def shell_inv_def\<close>)
next
  case I_umount
  with t inv show ?thesis by (auto simp: initMain_def shell_inv_def split: option.splits if_splits)
qed (use t inv in \<open>auto simp: initMain_def shell_inv_def split: if_splits\<close>)

lemma child_handler_shell_inv:
  assumes t: "child_handler w s = Some t" and inv: "shell_inv wordexp inp s"
  shows "shell_inv wordexp inp t"
proof (cases w)
  case (Some i)
  with t have "t = (setKid i K_reaped s)\<lparr>reaps := reaps s @ [i]\<rparr>" by (auto simp: child_handler_def split: if_splits)
  with setKid_shell_inv [OF inv, where i = i and p = K_reaped] show ?thesis by (simp add: kid_ok_def)
next
  case None
  with t have t: "t = s\<lparr>handler := False, ipc := (if ipc s = I_paused then I_regain else ipc s)\<rparr>"
    by (simp add: child_handler_def split: if_splits)
  show ?thesis
  proof (cases "ipc s = I_paused")
    case True
    with t have t: "t = s\<lparr>handler := False, ipc := I_regain\<rparr>" by simp
    from inv True show ?thesis unfolding t shell_inv_def by simp
  next
    case False
    with t have t: "t = s\<lparr>handler := False, ipc := ipc s\<rparr>" by simp
    from inv show ?thesis unfolding t shell_inv_def by simp
  qed
qed

lemma istep_shell_inv:
  assumes "istep wordexp c s = Some t" "shell_inv wordexp inp s"
  shows "shell_inv wordexp inp t"
proof (cases c)
  case (IMain ok)
  with assms show ?thesis by (auto simp: istep_def intro: initMain_shell_inv split: ipc.splits if_splits)
next
  case (IKid i ok)
  with assms show ?thesis by (auto simp: istep_def intro: kidStep_shell_inv split: ipc.splits)
next
  case (IHandler w)
  with assms show ?thesis by (auto simp: istep_def intro: child_handler_shell_inv split: ipc.splits)
next
  case IDeliver
  with assms show ?thesis by (auto simp: istep_def split: ipc.splits if_splits)
next
  case IAdopt
  with assms show ?thesis by (auto simp: istep_def shell_inv_def kid_ok_def split: ipc.splits)
next
  case (IKilled i)
  with assms show ?thesis by (auto simp: istep_def intro!: kidEnds_shell_inv split: ipc.splits if_splits)
qed

interpretation shell: machine "istep wordexp" "shell_inv wordexp inp" for wordexp inp
  by unfold_locales (rule istep_shell_inv)

lemma initStart_invs: "reap_inv (initStart k os inp)" "shell_inv wordexp inp (initStart k os inp)"
  by (auto simp: initStart_def Let_def reap_inv_def reapedKids_def shell_inv_def ownCommands_def)

section \<open>Correctness\<close>

text \<open>
  C27. Init reaps every child, its own and the orphans that it adopts, although signals that
  arrive close together are merged: in every run a zombie exists only while \<open>SIGCHLD\<close> is
  pending or the handler is running, the handler is never stuck (it can reap a zombie or it
  ends, and when it ends no zombie is left), and no child is reaped twice.
\<close>

theorem init_reaps_children:
  assumes "init_run wordexp ts (initStart k os inp) = Some s" and "\<And>n. ipc s \<noteq> I_exit n"
  shows "(\<not> sigchld s \<and> \<not> handler s \<longrightarrow> (\<forall>k \<in> set (kids s). kpc k \<noteq> K_zombie)) \<and>
    (sigchld s \<and> \<not> handler s \<longrightarrow> istep wordexp IDeliver s \<noteq> None) \<and>
    (handler s \<longrightarrow> (\<exists>w. istep wordexp (IHandler w) s \<noteq> None)) \<and>
    distinct (reaps s) \<and> (\<forall>i \<in> set (reaps s). i < length (kids s) \<and> kpc (kids s ! i) = K_reaped)"
proof -
  have inv: "reap_inv s" by (rule reaping.run_inv [OF assms(1) initStart_invs(1)])
  have step: "istep wordexp IDeliver s = (if sigchld s \<and> \<not> handler s then Some (s\<lparr>sigchld := False, handler := True\<rparr>) else None)"
    "\<And>w. istep wordexp (IHandler w) s = child_handler w s"
    using assms(2) by (simp_all add: istep_def split: ipc.splits)
  have "\<exists>w. child_handler w s \<noteq> None" if "handler s"
  proof (cases "list_ex zombie (kids s)")
    case True
    then obtain i where "i < length (kids s)" "kpc (kids s ! i) = K_zombie" by (auto simp: list_ex_length zombie_def)
    with that show ?thesis by (intro exI [of _ "Some i"]) (simp add: child_handler_def)
  next
    case False
    with that show ?thesis by (intro exI [of _ None]) (simp add: child_handler_def)
  qed
  moreover have "\<forall>k \<in> set (kids s). kpc k \<noteq> K_zombie" if "\<not> sigchld s" "\<not> handler s"
    using inv that by (auto simp: reap_inv_def zombie_def list_ex_iff)
  ultimately show ?thesis using inv by (simp add: step) (auto simp: reap_inv_def reapedKids_def)
qed

text \<open>
  C28. The shell runs what it is told: in every run the commands of the children are the first
  commands of the input, in order and without the empty ones, a child that executes a program
  executes the words to which its command expands, and when init exits with success all
  commands of the input have been started, unless a \<open>fork\<close> failed, and the \<open>procfs\<close> that was
  mounted has been unmounted.
\<close>

theorem init_runs_commands:
  assumes "init_run wordexp ts (initStart k os inp) = Some s"
  shows "(\<exists>r. ownCommands (kids s) @ r = commands inp) \<and>
    (\<forall>k \<in> set (kids s). \<forall>c ws. command k = Some c \<and> kpc k = K_running ws \<longrightarrow> wordexp c = Some ws) \<and>
    (ipc s = I_exit EXIT_SUCCESS \<longrightarrow> procfs s = None \<and> (forkFailed s \<or> ownCommands (kids s) = commands inp))"
proof -
  have inv: "shell_inv wordexp inp s" by (rule shell.run_inv [OF assms initStart_invs(2)])
  have "ownCommands (kids s) = commands inp" if "ipc s = I_exit EXIT_SUCCESS" "\<not> forkFailed s"
  proof -
    have "commands [] = []" by (simp add: commands.simps fgets_def)
    with inv that show ?thesis by (auto simp: shell_inv_def)
  qed
  moreover have "wordexp c = Some ws" if "k \<in> set (kids s)" "command k = Some c" "kpc k = K_running ws" for k c ws
    using inv that by (auto simp: shell_inv_def list_all_iff kid_ok_def)
  ultimately show ?thesis using inv by (auto simp: shell_inv_def)
qed

section \<open>Demonstration\<close>

definition demo_startup :: startup where
  "demo_startup = \<lparr>sigaction_ok = True, setpgid_ok = True, tcsetpgrp_ok = True, mount_ok = True\<rparr>"

definition demo_shell :: initw where
  "demo_shell = initStart demo_startup [(CHR ''p'', ''/proc'')] (''ls'' @ [NEWLINE])"

text \<open>One command; an orphan ends together with it, and the handler reaps both for one signal.\<close>

definition demo_session :: "itick list" where
  "demo_session = [IMain True, IMain True, IMain True, IKid 0 True, IKid 0 True, IKid 0 True, IKid 0 True, IAdopt,
     IKid 1 True, IKid 0 True, IDeliver, IHandler (Some 1), IHandler (Some 0), IHandler None, IMain True]"

lemma demo_session_run:
  "\<exists>s. init_run (\<lambda>c. Some [c]) demo_session demo_shell = Some s \<and> ipc s = I_read \<and> reaps s = [1, 0] \<and>
     \<not> sigchld s \<and> \<not> handler s"
proof -
  have "map_option (\<lambda>s. (ipc s, reaps s, sigchld s, handler s)) (init_run (\<lambda>c. Some [c]) demo_session demo_shell) =
      Some (I_read, [1, 0], False, False)"
    by code_simp
  then show ?thesis by auto
qed

theorem init_reaps_children_witness:
  "\<exists>s. init_run (\<lambda>c. Some [c]) demo_session demo_shell = Some s \<and> reaps s = [1, 0] \<and> (\<forall>k \<in> set (kids s). kpc k \<noteq> K_zombie)"
proof -
  obtain s where s: "init_run (\<lambda>c. Some [c]) demo_session demo_shell = Some s" "ipc s = I_read" "reaps s = [1, 0]"
    "\<not> sigchld s" "\<not> handler s" using demo_session_run by auto
  from init_reaps_children [OF s(1) [unfolded demo_shell_def]] s show ?thesis by simp
qed

theorem init_runs_commands_witness:
  "\<exists>s. init_run (\<lambda>c. Some [c]) (demo_session @ [IMain True, IMain True]) demo_shell = Some s \<and> procfs s = None \<and>
     ownCommands (kids s) = commands (''ls'' @ [NEWLINE])"
proof -
  have "map_option (\<lambda>s. (ipc s, forkFailed s)) (init_run (\<lambda>c. Some [c]) (demo_session @ [IMain True, IMain True]) demo_shell) =
      Some (I_exit EXIT_SUCCESS, False)"
    by code_simp
  then obtain s where s: "init_run (\<lambda>c. Some [c]) (demo_session @ [IMain True, IMain True]) demo_shell = Some s"
    "ipc s = I_exit EXIT_SUCCESS" "\<not> forkFailed s" by auto
  from init_runs_commands [OF s(1) [unfolded demo_shell_def]] s show ?thesis by auto
qed

text \<open>
  A lost wake-up: the child ends, and its signal is handled, after \<open>fork\<close> has returned but
  before \<open>pause\<close> is called. Init then waits although it has no child left.
\<close>

definition demo_race :: "itick list" where
  "demo_race = [IMain True, IMain True, IKid 0 True, IKid 0 False, IDeliver, IHandler (Some 0), IHandler None, IMain True]"

lemma init_pause_race:
  "\<exists>s. init_run (\<lambda>c. Some [c]) demo_race demo_shell = Some s \<and> ipc s = I_paused \<and>
     (\<forall>c. c \<noteq> IAdopt \<longrightarrow> istep (\<lambda>c. Some [c]) c s = None)"
proof -
  have "map_option (\<lambda>s. (ipc s, sigchld s, handler s, map kpc (kids s))) (init_run (\<lambda>c. Some [c]) demo_race demo_shell) =
      Some (I_paused, False, False, [K_reaped])"
    by code_simp
  then obtain s where s: "init_run (\<lambda>c. Some [c]) demo_race demo_shell = Some s" "ipc s = I_paused" "\<not> sigchld s" "\<not> handler s"
    "map kpc (kids s) = [K_reaped]" by auto
  then obtain k where k: "kids s = [k]" "kpc k = K_reaped" by auto
  have "istep (\<lambda>c. Some [c]) c s = None" if "c \<noteq> IAdopt" for c
    using s(2-4) k that
    by (cases c) (auto simp: istep_def initMain_def kidStep_def child_handler_def nth_Cons' split: option.splits)
  with s(1,2) show ?thesis by blast
qed

end
