(* ===== verification/LockShell.thy ===== *)
theory LockShell
  imports FileLocks StreamProps Machines
begin

text \<open>
  \<open>filelock/i_fcntl_locking.c\<close>: the interactive program that tests and places record locks on
  the files named on its command line. Its commands act on the lock tables of \<open>FileLocks\<close>, and
  any number of processes that run the program share these tables. The printed answers are
  values of the type \<open>reply\<close>; the help text is not modelled.

  An OFD lock belongs to an open file description. Its owner in the lock table is a number of
  that description that is not the ID of any process.
\<close>

section \<open>Reading a command\<close>

text \<open>
  \<open>sscanf\<close> for the conversions \<open>%c\<close> (with white space before it in the format), \<open>%lld\<close> and
  \<open>%d\<close>: the values that are assigned until a conversion fails or the text ends.
\<close>

datatype conv = CONV_c | CONV_lld | CONV_d

datatype scanval = VChar char | VNum int

fun sscanf :: "conv list \<Rightarrow> string \<Rightarrow> scanval list" where
  "sscanf [] s = []"
| "sscanf (CONV_c # cs) s = (case dropWhile isspace s of [] \<Rightarrow> [] | c # r \<Rightarrow> VChar c # sscanf cs r)"
| "sscanf (CONV_lld # cs) s =
     (case strtol s 10 of (v, r, _) \<Rightarrow> if length r = length s then [] else VNum v # sscanf cs r)"
| "sscanf (CONV_d # cs) s =
     (case strtol s 10 of (v, r, _) \<Rightarrow> if length r = length s then [] else VNum (long_to_int v) # sscanf cs r)"

text \<open>The command without its file number: command, lock, start, length and whence, which is \<open>s\<close> if it is missing.\<close>

fun commandFields :: "scanval list \<Rightarrow> (char \<times> char \<times> int \<times> int \<times> char) option" where
  "commandFields [VChar c, VChar l, VNum st, VNum len] = Some (c, l, st, len, CHR ''s'')"
| "commandFields [VChar c, VChar l, VNum st, VNum len, VChar w] = Some (c, l, st, len, w)"
| "commandFields _ = None"

section \<open>Carrying out a command\<close>

text \<open>Whether mandatory locking is enabled, from the mode that \<open>fstat\<close> gives (\<open>None\<close> for an error).\<close>

definition mandLockingEnabled :: "32 word option \<Rightarrow> bool res" where
  "mandLockingEnabled st =
     (case st of
        None \<Rightarrow> Exit EXIT_FAILURE
      | Some st_mode \<Rightarrow> Ret (st_mode AND 0x400 \<noteq> 0 \<and> st_mode AND 0x8 = 0))"

datatype reply = NoReply | Help | BadFileNumber | InvalidCommand
  | CanBePlaced | DeniedBy ltype int int int
  | GotLock | Unlocked | FailedIncompatible | FailedDeadlock | FcntlError errno

text \<open>
  A process that runs the program: its ID, the numbers of its open file descriptions, the sizes
  of the files, and whether a request that would block is found to be a deadlock.
\<close>

record locker =
  lpid :: int
  ofd :: "nat \<Rightarrow> int"
  fsize :: "nat \<Rightarrow> int"
  deadlock :: bool

definition lockType :: "char \<Rightarrow> ltype" where
  "lockType lock = (if lock = CHR ''r'' then F_RDLCK else if lock = CHR ''w'' then F_WRLCK else F_UNLCK)"

text \<open>The offset that \<open>whence\<close> stands for; the program never moves the file offset from 0.\<close>

definition whenceBase :: "locker \<Rightarrow> nat \<Rightarrow> char \<Rightarrow> int" where
  "whenceBase E n whence = (if whence = CHR ''e'' then fsize E n else 0)"

text \<open>\<open>F_GETLK\<close> refuses the type \<open>F_UNLCK\<close>. For an OFD lock in the way, the PID is given as \<open>-1\<close>.\<close>

definition testLock :: "int \<Rightarrow> ltype \<Rightarrow> int \<Rightarrow> int \<Rightarrow> int \<Rightarrow> flock list \<Rightarrow> reply" where
  "testLock owner t base st len ls =
     (if t = F_UNLCK then FcntlError EINVAL
      else case fcntl_getlk owner t base st len ls of
        Inl e \<Rightarrow> FcntlError e
      | Inr None \<Rightarrow> CanBePlaced
      | Inr (Some l) \<Rightarrow>
          DeniedBy (l_type l) (l_first l) (if l_last l = OFFSET_MAX then 0 else l_last l - l_first l + 1)
            (if l_pid l < 0 then -1 else l_pid l))"

text \<open>\<open>None\<close>: the process waits for the lock.\<close>

definition setLock :: "locker \<Rightarrow> int \<Rightarrow> lock_cmd \<Rightarrow> char \<Rightarrow> int \<Rightarrow> int \<Rightarrow> int \<Rightarrow> flock list \<Rightarrow> (reply \<times> flock list) option" where
  "setLock E owner cmd lock base st len ls =
     (case fcntl_lock owner cmd (lockType lock) base st len ls of
        None \<Rightarrow> if deadlock E then Some (FailedDeadlock, ls) else None
      | Some (Inr _, ls') \<Rightarrow> Some (if lock = CHR ''u'' then Unlocked else GotLock, ls')
      | Some (Inl e, ls') \<Rightarrow>
          Some (if e = EAGAIN \<or> e = EACCES then FailedIncompatible
            else if e = EDEADLK then FailedDeadlock else FcntlError e, ls'))"

definition carryOut :: "locker \<Rightarrow> nat \<Rightarrow> char \<times> char \<times> int \<times> int \<times> char \<Rightarrow> flock list \<Rightarrow> (reply \<times> flock list) option" where
  "carryOut E n f ls =
     (case f of (cmdCh, lock, st, len, whence) \<Rightarrow>
      let owner = (if cmdCh \<in> {CHR ''G'', CHR ''S'', CHR ''W''} then ofd E n else lpid E);
          base = whenceBase E n whence in
      if cmdCh \<in> {CHR ''g'', CHR ''G''} then Some (testLock owner (lockType lock) base st len ls, ls)
      else setLock E owner (if cmdCh \<in> {CHR ''s'', CHR ''S''} then F_SETLK else F_SETLKW) lock base st len ls)"

definition validFields :: "char \<times> char \<times> int \<times> int \<times> char \<Rightarrow> bool" where
  "validFields f \<longleftrightarrow>
     (case f of (cmdCh, lock, st, len, whence) \<Rightarrow>
      cmdCh \<in> set ''gswGSW'' \<and> lock \<in> set ''rwu'' \<and> whence \<in> set ''sce'')"

text \<open>
  The lock tables of the files, and the variable \<open>fileNum\<close> of the process, which keeps its value
  from one command to the next and has none at first.
\<close>

record lockShell =
  tables :: "flock list list"
  fileNum :: "int option"

text \<open>What \<open>sscanf\<close> stores: the file number if there are several files, and the other fields.\<close>

definition scanLine :: "nat \<Rightarrow> string \<Rightarrow> int option \<Rightarrow> int option \<times> scanval list" where
  "scanLine numFiles line old =
     (if numFiles = 1 then (Some 1, sscanf [CONV_c, CONV_c, CONV_lld, CONV_lld, CONV_c] line)
      else case sscanf [CONV_d, CONV_c, CONV_c, CONV_lld, CONV_lld, CONV_c] line of
        VNum n # vs \<Rightarrow> (Some n, vs)
      | _ \<Rightarrow> (old, []))"

text \<open>
  One iteration of the loop, for a line that \<open>fgets\<close> has read. \<open>Undef\<close>: \<open>fileNum\<close> is used before
  it has a value. \<open>None\<close>: the process waits in \<open>fcntl\<close>.
\<close>

definition lockCommand :: "locker \<Rightarrow> string \<Rightarrow> lockShell \<Rightarrow> (reply res \<times> lockShell) option" where
  "lockCommand E input s =
     (let line = butlast input; numFiles = length (tables s) in
      if line = [] then Some (Ret NoReply, s)
      else if hd line = CHR ''?'' then Some (Ret Help, s)
      else case scanLine numFiles line (fileNum s) of (fn, vs) \<Rightarrow>
      let s = s\<lparr>fileNum := fn\<rparr> in
      case fn of
        None \<Rightarrow> Some (Undef, s)
      | Some k \<Rightarrow>
          if k < 1 \<or> k > int numFiles then Some (Ret BadFileNumber, s)
          else case commandFields vs of
            None \<Rightarrow> Some (Ret InvalidCommand, s)
          | Some f \<Rightarrow>
              if \<not> validFields f then Some (Ret InvalidCommand, s)
              else
                let n = nat k - 1 in
                map_option (\<lambda>(r, ls). (Ret r, s\<lparr>tables := (tables s)[n := ls]\<rparr>)) (carryOut E n f (tables s ! n)))"

section \<open>The lock tables\<close>






section \<open>Properties\<close>



lemma commandFields_command:
  "commandFields (VChar c # vs) = map_option (\<lambda>(_, x). (c, x)) (commandFields (VChar d # vs))"
  by (cases "VChar d # vs" rule: commandFields.cases) auto

text \<open>The two requests on one table.\<close>

lemma testLock_setLock:
  assumes "lock \<in> set ''rwu''"
  shows "testLock owner (lockType lock) base st len ls = CanBePlaced \<Longrightarrow>
      \<exists>ls'. setLock E owner F_SETLK lock base st len ls = Some (GotLock, ls')"
    "testLock owner (lockType lock) base st len ls = DeniedBy t a b p \<Longrightarrow>
      setLock E owner F_SETLK lock base st len ls = Some (FailedIncompatible, ls)"
    "testLock owner (lockType lock) base st len ls \<noteq> InvalidCommand"
    "setLock E owner F_SETLK lock base st len ls \<noteq> Some (InvalidCommand, ls')"
proof -
  note d = testLock_def setLock_def fcntl_getlk_def fcntl_lock_def
  show "testLock owner (lockType lock) base st len ls = CanBePlaced \<Longrightarrow>
      \<exists>ls'. setLock E owner F_SETLK lock base st len ls = Some (GotLock, ls')"
    using assms by (auto simp: d lockType_def list_ex_iff find_None_iff split: if_splits sum.splits option.splits)
  show "testLock owner (lockType lock) base st len ls = DeniedBy t a b p \<Longrightarrow>
      setLock E owner F_SETLK lock base st len ls = Some (FailedIncompatible, ls)"
    by (auto simp: d list_ex_iff find_Some_iff split: if_splits sum.splits option.splits)
  show "testLock owner (lockType lock) base st len ls \<noteq> InvalidCommand"
    by (auto simp: testLock_def split: sum.splits option.splits)
  show "setLock E owner F_SETLK lock base st len ls \<noteq> Some (InvalidCommand, ls')"
    by (auto simp: setLock_def split: option.splits sum.splits if_splits)
qed

text \<open>
  The test command foretells the locking command: if \<open>g\<close> with some lock and range answers
  that the lock can be placed, then \<open>s\<close> with the same lock and range gets it; if it names a lock
  that is in the way, then \<open>s\<close> fails because of an incompatible lock; and a command that is not
  understood is not understood with \<open>s\<close> either.
\<close>

theorem test_foretells_lock:
  assumes "tables s = [ls]" and "l \<noteq> []" and "lockCommand E (CHR ''g'' # l) s = Some (Ret r, s1)"
  shows "(r = CanBePlaced \<longrightarrow> (\<exists>s2. lockCommand E (CHR ''s'' # l) s = Some (Ret GotLock, s2))) \<and>
    (\<forall>t a b p. r = DeniedBy t a b p \<longrightarrow> lockCommand E (CHR ''s'' # l) s = Some (Ret FailedIncompatible, s1)) \<and>
    (r = InvalidCommand \<longleftrightarrow> lockCommand E (CHR ''s'' # l) s = Some (Ret InvalidCommand, s1))"
proof -
  let ?vs = "sscanf [CONV_c, CONV_lld, CONV_lld, CONV_c] (butlast l)"
  have b: "butlast (c # l) = c # butlast l" for c using assms(2) by simp
  have sc: "scanLine 1 (c # butlast l) x = (Some 1, VChar c # ?vs)" if "c = CHR ''g'' \<or> c = CHR ''s''" for c x
    using that by (auto simp: scanLine_def isspace_def)
  have step: "lockCommand E (c # l) s =
      (case commandFields (VChar c # ?vs) of
         None \<Rightarrow> Some (Ret InvalidCommand, s\<lparr>fileNum := Some 1\<rparr>)
       | Some f \<Rightarrow>
           if \<not> validFields f then Some (Ret InvalidCommand, s\<lparr>fileNum := Some 1\<rparr>)
           else map_option (\<lambda>(q, ls'). (Ret q, s\<lparr>fileNum := Some 1, tables := [ls']\<rparr>)) (carryOut E 0 f ls))"
    if "c = CHR ''g'' \<or> c = CHR ''s''" for c
    unfolding lockCommand_def b using that assms(1) sc [OF that, of "fileNum s"] by (auto simp: Let_def split: option.splits)
  show ?thesis
  proof (cases "commandFields (VChar (CHR ''g'') # ?vs)")
    case None
    with commandFields_command [of "CHR ''s''" ?vs "CHR ''g''"] step assms(3) show ?thesis by auto
  next
    case (Some f)
    then obtain lock st len w where f: "f = (CHR ''g'', lock, st, len, w)"
      using commandFields_command [of "CHR ''g''" ?vs "CHR ''g''"] by (cases f) auto
    then have fs: "commandFields (VChar (CHR ''s'') # ?vs) = Some (CHR ''s'', lock, st, len, w)"
      using commandFields_command [of "CHR ''s''" ?vs "CHR ''g''"] Some by simp
    let ?f = "\<lambda>c :: char. (c, lock, st, len, w)" and ?base = "whenceBase E 0 w"
    show ?thesis
    proof (cases "validFields (?f (CHR ''g''))")
      case False
      then have "\<not> validFields (?f (CHR ''s''))" by (simp add: validFields_def)
      with False Some f fs step assms(3) show ?thesis by auto
    next
      case True
      then have v: "validFields (?f (CHR ''s''))" "lock \<in> set ''rwu''" by (simp_all add: validFields_def)
      have r: "r = testLock (lpid E) (lockType lock) ?base st len ls" "s1 = s\<lparr>fileNum := Some 1\<rparr>"
        using assms(1,3) step [of "CHR ''g''"] Some f True by (auto simp: carryOut_def)
      have sl: "lockCommand E (CHR ''s'' # l) s =
        map_option (\<lambda>(q, ls'). (Ret q, s\<lparr>fileNum := Some 1, tables := [ls']\<rparr>))
          (setLock E (lpid E) F_SETLK lock ?base st len ls)"
        using step [of "CHR ''s''"] fs v(1) by (simp add: carryOut_def)
      note T = testLock_setLock [OF v(2)]
      have "\<exists>s2. lockCommand E (CHR ''s'' # l) s = Some (Ret GotLock, s2)" if "r = CanBePlaced"
        using T(1) [of "lpid E" ?base st len ls E] that r(1) sl by auto
      moreover have "lockCommand E (CHR ''s'' # l) s = Some (Ret FailedIncompatible, s1)" if "r = DeniedBy t a b p" for t a b p
        using T(2) [of "lpid E" ?base st len ls t a b p E] that r sl assms(1) by simp
      moreover have "r \<noteq> InvalidCommand" "lockCommand E (CHR ''s'' # l) s \<noteq> Some (Ret InvalidCommand, s1)"
        using T(3) [of "lpid E" ?base st len ls] T(4) [of E "lpid E" ?base st len ls] r(1) sl by auto
      ultimately show ?thesis by blast
    qed
  qed
qed

section \<open>Demonstration\<close>

definition demo_locker :: "nat \<Rightarrow> locker" where
  "demo_locker i = \<lparr>lpid = 100 + int i, ofd = (\<lambda>n. - 2 - int i), fsize = (\<lambda>_. 1000), deadlock = False\<rparr>"

definition demo_line :: "string \<Rightarrow> string" where "demo_line c = c @ [NEWLINE]"



theorem test_foretells_lock_witness:
  "\<exists>s2. lockCommand (demo_locker 0) (demo_line ''s w 0 40'') \<lparr>tables = [[]], fileNum = None\<rparr> = Some (Ret GotLock, s2)"
proof -
  let ?s = "\<lparr>tables = [[]], fileNum = None\<rparr>"
  have "map_option fst (lockCommand (demo_locker 0) (CHR ''g'' # demo_line '' w 0 40'') ?s) = Some (Ret CanBePlaced)"
    by code_simp
  then obtain s1 where "lockCommand (demo_locker 0) (CHR ''g'' # demo_line '' w 0 40'') ?s = Some (Ret CanBePlaced, s1)" by auto
  from test_foretells_lock [OF _ _ this] show ?thesis by (simp add: demo_line_def)
qed

text \<open>With several files, a first command without a file number uses an uninitialised variable.\<close>

lemma fileNum_uninitialised:
  "lockCommand (demo_locker 0) (demo_line ''s w 0 40'') \<lparr>tables = [[], []], fileNum = None\<rparr> =
     Some (Undef, \<lparr>tables = [[], []], fileNum = None\<rparr>)"
  by code_simp

end
