(* ===== verification/Tty.thy ===== *)
theory Tty
  imports Machines
begin

text \<open>
  Terminal settings: \<open>tty/tty_functions.c\<close> (\<open>ttySetCbreak\<close>, \<open>ttySetRaw\<close>) and its test program
  \<open>tty/test_tty_functions.c\<close>, which has to leave the terminal as the user wants it whenever it
  ends or is stopped. The program, the signals sent to it and the changes that the user makes to
  the terminal while the program is stopped are interleaved.
\<close>

section \<open>Terminal settings\<close>

text \<open>The flags have the values of Linux on x86-64.\<close>

record termios =
  c_iflag :: "32 word"
  c_oflag :: "32 word"
  c_cflag :: "32 word"
  c_lflag :: "32 word"
  c_cc :: "8 word list"

abbreviation (input) ISIG :: "32 word" where "ISIG \<equiv> 0x1"
abbreviation (input) ICANON :: "32 word" where "ICANON \<equiv> 0x2"
abbreviation (input) ECHO :: "32 word" where "ECHO \<equiv> 0x8"
abbreviation (input) IEXTEN :: "32 word" where "IEXTEN \<equiv> 0x8000"
abbreviation (input) IGNBRK :: "32 word" where "IGNBRK \<equiv> 0x1"
abbreviation (input) BRKINT :: "32 word" where "BRKINT \<equiv> 0x2"
abbreviation (input) PARMRK :: "32 word" where "PARMRK \<equiv> 0x8"
abbreviation (input) INPCK :: "32 word" where "INPCK \<equiv> 0x10"
abbreviation (input) ISTRIP :: "32 word" where "ISTRIP \<equiv> 0x20"
abbreviation (input) INLCR :: "32 word" where "INLCR \<equiv> 0x40"
abbreviation (input) IGNCR :: "32 word" where "IGNCR \<equiv> 0x80"
abbreviation (input) ICRNL :: "32 word" where "ICRNL \<equiv> 0x100"
abbreviation (input) IXON :: "32 word" where "IXON \<equiv> 0x400"
abbreviation (input) OPOST :: "32 word" where "OPOST \<equiv> 0x1"
abbreviation (input) VTIME :: nat where "VTIME \<equiv> 5"
abbreviation (input) VMIN :: nat where "VMIN \<equiv> 6"

definition cbreakMode :: "termios \<Rightarrow> termios" where
  "cbreakMode t = t\<lparr>
     c_lflag := (c_lflag t AND NOT (ICANON OR ECHO)) OR ISIG,
     c_iflag := c_iflag t AND NOT ICRNL,
     c_cc := (c_cc t)[VMIN := 1, VTIME := 0]\<rparr>"

definition rawMode :: "termios \<Rightarrow> termios" where
  "rawMode t = t\<lparr>
     c_lflag := c_lflag t AND NOT (ICANON OR ISIG OR IEXTEN OR ECHO),
     c_iflag := c_iflag t AND NOT (BRKINT OR ICRNL OR IGNBRK OR IGNCR OR INLCR OR INPCK OR ISTRIP OR IXON OR PARMRK),
     c_oflag := c_oflag t AND NOT OPOST,
     c_cc := (c_cc t)[VMIN := 1, VTIME := 0]\<rparr>"

text \<open>
  The two functions: the return value, what \<open>prevTermios\<close> points to afterwards (if the pointer is
  not \<open>NULL\<close>), and the settings of the terminal. \<open>getOk\<close> and \<open>setOk\<close> tell whether \<open>tcgetattr\<close> and
  \<open>tcsetattr\<close> succeed.
\<close>

definition ttySetCbreak :: "bool \<Rightarrow> bool \<Rightarrow> termios option \<Rightarrow> termios \<Rightarrow> int \<times> termios option \<times> termios" where
  "ttySetCbreak getOk setOk prevTermios attrs =
     (if \<not> getOk then (-1, prevTermios, attrs)
      else
        let prev = (if prevTermios \<noteq> None then Some attrs else None) in
        if \<not> setOk then (-1, prev, attrs) else (0, prev, cbreakMode attrs))"

definition ttySetRaw :: "bool \<Rightarrow> bool \<Rightarrow> termios option \<Rightarrow> termios \<Rightarrow> int \<times> termios option \<times> termios" where
  "ttySetRaw getOk setOk prevTermios attrs =
     (if \<not> getOk then (-1, prevTermios, attrs)
      else
        let prev = (if prevTermios \<noteq> None then Some attrs else None) in
        if \<not> setOk then (-1, prev, attrs) else (0, prev, rawMode attrs))"

section \<open>The test program\<close>

datatype tsig = SIGQUIT | SIGINT | SIGTSTP | SIGTERM

text \<open>\<open>main\<close>: entering the mode, the handlers, the loop that reads and echoes, the end.\<close>

datatype tmain = P_mode | P_quit | P_int | P_tstp | P_term | P_read | P_reset

text \<open>
  The handler of \<open>SIGTSTP\<close>, with its variable \<open>ourTermios\<close>: the program is stopped in \<open>H_stopped\<close>,
  and has been continued in the places after it. \<open>H_default\<close> is a stop by the default action.
\<close>

datatype thandler = H_none | H_save | H_restore termios | H_raise termios | H_stopped termios
  | H_resumed termios | H_reload termios | H_ours termios | H_default

text \<open>
  \<open>caught\<close> and \<open>ignored\<close> are the dispositions of the signals; the others have the default one.
  \<open>ended\<close> is the exit status, \<open>killed\<close> tells that a signal has terminated the process. Two
  variables are not part of the program: \<open>wanted\<close> is what the user last set, and \<open>missed\<close> tells
  that the program had no chance to keep track of it.
\<close>

record ttyprog =
  attrs :: termios
  userTermios :: termios
  cbreak :: bool
  caught :: "tsig list"
  ignored :: "tsig list"
  tmain :: tmain
  hand :: thandler
  ended :: "int option"
  killed :: bool
  echoed :: string
  wanted :: termios
  missed :: bool

definition zeroTermios :: termios where
  "zeroTermios = \<lparr>c_iflag = 0, c_oflag = 0, c_cflag = 0, c_lflag = 0, c_cc = replicate 32 0\<rparr>"

definition tp_init :: "bool \<Rightarrow> tsig list \<Rightarrow> termios \<Rightarrow> ttyprog" where
  "tp_init args ign t = \<lparr>attrs = t, userTermios = zeroTermios, cbreak = args, caught = [], ignored = ign, tmain = P_mode,
     hand = H_none, ended = None, killed = False, echoed = [], wanted = t, missed = False\<rparr>"

definition isalpha :: "char \<Rightarrow> bool" where
  "isalpha c \<longleftrightarrow> (let n = (of_char c :: nat) in (65 \<le> n \<and> n \<le> 90) \<or> (97 \<le> n \<and> n \<le> 122))"

definition tolower :: "char \<Rightarrow> char" where
  "tolower c = (let n = (of_char c :: nat) in if 65 \<le> n \<and> n \<le> 90 then char_of (n + 32) else c)"

definition iscntrl :: "char \<Rightarrow> bool" where
  "iscntrl c \<longleftrightarrow> (let n = (of_char c :: nat) in n < 32 \<or> n = 127)"

text \<open>What is printed for a character.\<close>

definition echoChar :: "char \<Rightarrow> string" where
  "echoChar ch =
     (if isalpha ch then [tolower ch]
      else if ch = CHR 0x0A \<or> ch = CHR 0x0D then [ch]
      else if iscntrl ch then [CHR ''^'', char_of ((of_char ch :: nat) XOR 64)]
      else ''*'')"

text \<open>A handler is established unless the signal is ignored.\<close>

definition catchUnlessIgnored :: "tsig \<Rightarrow> tmain \<Rightarrow> ttyprog \<Rightarrow> ttyprog" where
  "catchUnlessIgnored sig p s =
     s\<lparr>caught := (if sig \<in> set (ignored s) then caught s else sig # caught s), tmain := p\<rparr>"

text \<open>
  One statement of \<open>main\<close>; \<open>ok\<close> tells whether the calls on the terminal succeed. \<open>sigaction\<close> does
  not fail for these signals. The program reads with \<open>mainRead\<close>.
\<close>

definition tpMain :: "bool \<Rightarrow> ttyprog \<Rightarrow> ttyprog option" where
  "tpMain ok s =
     (case tmain s of
        P_mode \<Rightarrow>
          (case (if cbreak s then ttySetCbreak ok ok (Some (userTermios s)) (attrs s)
                 else ttySetRaw ok ok (Some (userTermios s)) (attrs s)) of
             (r, prev, t) \<Rightarrow>
               if r = -1 then Some (s\<lparr>ended := Some EXIT_FAILURE\<rparr>)
               else Some (s\<lparr>userTermios := the prev, attrs := t, tmain := (if cbreak s then P_quit else P_term)\<rparr>))
      | P_quit \<Rightarrow> Some (catchUnlessIgnored SIGQUIT P_int s)
      | P_int \<Rightarrow> Some (catchUnlessIgnored SIGINT P_tstp s)
      | P_tstp \<Rightarrow> Some (catchUnlessIgnored SIGTSTP P_term s)
      | P_term \<Rightarrow> Some (s\<lparr>caught := SIGTERM # caught s, ignored := removeAll SIGTERM (ignored s), tmain := P_read\<rparr>)
      | P_read \<Rightarrow> None
      | P_reset \<Rightarrow>
          if ok then Some (s\<lparr>attrs := userTermios s, ended := Some EXIT_SUCCESS\<rparr>)
          else Some (s\<lparr>ended := Some EXIT_FAILURE\<rparr>))"

text \<open>The loop: a character, or \<open>None\<close> for end of file or an error.\<close>

definition mainRead :: "char option \<Rightarrow> ttyprog \<Rightarrow> ttyprog option" where
  "mainRead c s =
     (if tmain s \<noteq> P_read then None
      else case c of
        None \<Rightarrow> Some (s\<lparr>tmain := P_reset\<rparr>)
      | Some ch \<Rightarrow> Some (s\<lparr>echoed := echoed s @ echoChar ch, tmain := (if ch = CHR ''q'' then P_reset else P_read)\<rparr>))"

text \<open>The handler of the signals that end the program.\<close>

definition handler :: "bool \<Rightarrow> ttyprog \<Rightarrow> ttyprog" where
  "handler ok s =
     (if ok then s\<lparr>attrs := userTermios s, ended := Some EXIT_SUCCESS\<rparr> else s\<lparr>ended := Some EXIT_FAILURE\<rparr>)"

text \<open>
  One statement of the handler of \<open>SIGTSTP\<close>. While it runs, \<open>SIGTSTP\<close> is blocked, except between
  the calls of \<open>sigprocmask\<close>; a blocked signal is delivered later.
\<close>

definition tstpHandler :: "bool \<Rightarrow> ttyprog \<Rightarrow> ttyprog option" where
  "tstpHandler ok s =
     (case hand s of
        H_save \<Rightarrow> Some (if ok then s\<lparr>hand := H_restore (attrs s)\<rparr> else s\<lparr>ended := Some EXIT_FAILURE\<rparr>)
      | H_restore our \<Rightarrow> Some (if ok then s\<lparr>attrs := userTermios s, hand := H_raise our\<rparr> else s\<lparr>ended := Some EXIT_FAILURE\<rparr>)
      | H_raise our \<Rightarrow> Some (s\<lparr>caught := removeAll SIGTSTP (caught s), hand := H_stopped our\<rparr>)
      | H_resumed our \<Rightarrow> Some (s\<lparr>caught := SIGTSTP # caught s, hand := H_reload our\<rparr>)
      | H_reload our \<Rightarrow> Some (if ok then s\<lparr>userTermios := attrs s, hand := H_ours our\<rparr> else s\<lparr>ended := Some EXIT_FAILURE\<rparr>)
      | H_ours our \<Rightarrow> Some (if ok then s\<lparr>attrs := our, hand := H_none\<rparr> else s\<lparr>ended := Some EXIT_FAILURE\<rparr>)
      | _ \<Rightarrow> None)"

fun stopped :: "thandler \<Rightarrow> bool" where
  "stopped (H_stopped _) = True"
| "stopped H_default = True"
| "stopped _ = False"

text \<open>The program has been continued but has not yet looked at the terminal.\<close>

fun outdated :: "thandler \<Rightarrow> bool" where
  "outdated (H_resumed _) = True"
| "outdated (H_reload _) = True"
| "outdated _ = False"

definition deliver :: "tsig \<Rightarrow> bool \<Rightarrow> ttyprog \<Rightarrow> ttyprog option" where
  "deliver sig ok s =
     (if sig \<in> set (ignored s) then Some s
      else if sig = SIGTSTP then
        (case hand s of
           H_none \<Rightarrow> Some (if SIGTSTP \<in> set (caught s) then s\<lparr>hand := H_save\<rparr> else s\<lparr>hand := H_default, missed := True\<rparr>)
         | H_resumed our \<Rightarrow> Some (s\<lparr>hand := H_stopped our\<rparr>)
         | _ \<Rightarrow> None)
      else if sig \<in> set (caught s) then Some (handler ok (s\<lparr>missed := missed s \<or> outdated (hand s)\<rparr>))
      else Some (s\<lparr>ended := Some EXIT_FAILURE, killed := True\<rparr>))"

datatype ttick = TMain bool | TRead "char option" | THandler bool | TSignal tsig bool | TUser termios | TCont

definition tpStep :: "ttick \<Rightarrow> ttyprog \<Rightarrow> ttyprog option" where
  "tpStep c s =
     (if ended s \<noteq> None then None
      else if stopped (hand s) then
        (case c of
           TUser t \<Rightarrow> Some (s\<lparr>attrs := t, wanted := t\<rparr>)
         | TCont \<Rightarrow> Some (s\<lparr>hand := (case hand s of H_stopped our \<Rightarrow> H_resumed our | _ \<Rightarrow> H_none)\<rparr>)
         | _ \<Rightarrow> None)
      else case c of
        TMain ok \<Rightarrow> if hand s = H_none then tpMain ok s else None
      | TRead ch \<Rightarrow> if hand s = H_none then mainRead ch s else None
      | THandler ok \<Rightarrow> tstpHandler ok s
      | TSignal sig ok \<Rightarrow> deliver sig ok s
      | _ \<Rightarrow> None)"

abbreviation tp_run :: "ttick list \<Rightarrow> ttyprog \<Rightarrow> ttyprog option" where
  "tp_run \<equiv> run_steps tpStep"

section \<open>What the functions do\<close>

text \<open>Bits of the flags in cbreak and raw mode; all other flags are as before.\<close>

lemma mode_flags:
  "c_lflag (cbreakMode t) AND ICANON = 0" "c_lflag (cbreakMode t) AND ECHO = 0" "c_lflag (cbreakMode t) AND ISIG = ISIG"
  "c_lflag (rawMode t) AND (ICANON OR ISIG OR IEXTEN OR ECHO) = 0" "c_oflag (rawMode t) AND OPOST = 0"
  "c_oflag (cbreakMode t) = c_oflag t" "c_cflag (cbreakMode t) = c_cflag t" "c_cflag (rawMode t) = c_cflag t"
  by (simp_all add: cbreakMode_def rawMode_def word_ao_dist and.assoc)

section \<open>The terminal belongs to the user\<close>

definition modeOf :: "bool \<Rightarrow> termios \<Rightarrow> termios" where
  "modeOf b t = (if b then cbreakMode t else rawMode t)"

text \<open>What holds in the places of the handler; \<open>m\<close> is the mode that the program has set.\<close>

fun hand_ok :: "termios \<Rightarrow> ttyprog \<Rightarrow> thandler \<Rightarrow> bool" where
  "hand_ok m s H_none = (attrs s = m \<and> userTermios s = wanted s)"
| "hand_ok m s H_save = (attrs s = m \<and> userTermios s = wanted s)"
| "hand_ok m s (H_restore our) = (our = m \<and> attrs s = m \<and> userTermios s = wanted s)"
| "hand_ok m s (H_raise our) = (our = m \<and> attrs s = wanted s \<and> userTermios s = wanted s)"
| "hand_ok m s (H_stopped our) = (our = m \<and> attrs s = wanted s)"
| "hand_ok m s (H_resumed our) = (our = m \<and> attrs s = wanted s)"
| "hand_ok m s (H_reload our) = (our = m \<and> attrs s = wanted s)"
| "hand_ok m s (H_ours our) = (our = m \<and> attrs s = wanted s \<and> userTermios s = wanted s)"
| "hand_ok m s H_default = False"

definition tp_inv :: "bool \<Rightarrow> termios \<Rightarrow> ttyprog \<Rightarrow> bool" where
  "tp_inv b t s \<longleftrightarrow> cbreak s = b \<and>
     (\<not> missed s \<longrightarrow>
        (ended s = Some EXIT_SUCCESS \<longrightarrow> attrs s = wanted s) \<and>
        (ended s = None \<longrightarrow>
           (if tmain s = P_mode then attrs s = t \<and> wanted s = t \<and> hand s = H_none \<and> SIGTSTP \<notin> set (caught s)
            else hand_ok (modeOf b t) s (hand s))) \<and>
        (tmain s = P_mode \<longrightarrow> caught s = []))"

lemma tp_inv_missed: "missed s \<Longrightarrow> cbreak s = b \<Longrightarrow> tp_inv b t s"
  by (simp add: tp_inv_def)


lemma hand_ok_frame:
  "hand_ok m (s\<lparr>caught := c\<rparr>) h = hand_ok m s h" "hand_ok m (s\<lparr>tmain := p\<rparr>) h = hand_ok m s h"
  "hand_ok m (s\<lparr>caught := c, tmain := p\<rparr>) h = hand_ok m s h" "hand_ok m (s\<lparr>hand := g\<rparr>) h = hand_ok m s h"
  "hand_ok m (s\<lparr>echoed := e, tmain := p\<rparr>) h = hand_ok m s h"
  "hand_ok m (s\<lparr>caught := c, ignored := i, tmain := p\<rparr>) h = hand_ok m s h"
  "hand_ok m (s\<lparr>caught := c, hand := g\<rparr>) h = hand_ok m s h"
  by (cases h; simp)+








text \<open>A session: the program is stopped, the user changes the terminal, and it goes on to its end.\<close>

definition demo_tty :: "32 word \<Rightarrow> termios" where
  "demo_tty l = \<lparr>c_iflag = 0x500, c_oflag = 0x5, c_cflag = 0xbf, c_lflag = l, c_cc = replicate 32 4\<rparr>"

definition demo_start :: "ttick list" where "demo_start = replicate 5 (TMain True)"

definition demo_stop :: "ttick list" where
  "demo_stop = demo_start @ [TRead (Some (CHR ''A'')), TSignal SIGTSTP True, THandler True, THandler True, THandler True,
     TUser (demo_tty 0x8a33), TCont]"


text \<open>
  The two exceptions do occur: a signal before its handler is established leaves the terminal in
  cbreak mode, and a \<open>SIGTERM\<close> right after the continuation brings back settings that the user
  has changed in the meantime.
\<close>

lemma startup_race:
  "map_option (\<lambda>s. (killed s, attrs s = cbreakMode (demo_tty 0x8a3b))) (tp_run [TMain True, TSignal SIGINT True] (tp_init True [] (demo_tty 0x8a3b))) =
     Some (True, True)"
  by code_simp

lemma continuation_race:
  "map_option (\<lambda>s. (ended s, c_lflag (wanted s), c_lflag (attrs s))) (tp_run (demo_stop @ [TSignal SIGTERM True]) (tp_init True [] (demo_tty 0x8a3b))) =
     Some (Some EXIT_SUCCESS, 0x8a33, 0x8a3b)"
  by code_simp

end
