(* ===== verification/Pty.thy ===== *)
theory Pty
  imports Tty DescTable
begin

text \<open>
  Pseudoterminals: \<open>ptyMasterOpen\<close> in its two versions (\<open>pty/pty_master_open.c\<close> and
  \<open>pty/pty_master_open_bsd.c\<close>), \<open>ptyFork\<close> (\<open>pty/pty_fork.c\<close>), and the two programs that relay
  between a terminal and a child on a pseudoterminal, \<open>pty/script.c\<close> and \<open>pty/unbuffer.c\<close>. What the kernel answers
  to the calls of one function, or of one iteration of a loop, is a record.
\<close>

section \<open>Opening a master\<close>

abbreviation (input) EOVERFLOW :: errno where "EOVERFLOW \<equiv> 75"
abbreviation (input) MAX_SNAME :: nat where "MAX_SNAME \<equiv> 1000"

text \<open>A pseudoterminal is known by the name of its slave.\<close>

datatype pobj = PMaster string | PSlave string | PFile string

record pproc =
  ptab :: "pobj option list"
  perr :: errno
  psession :: bool

record winsize =
  ws_row :: "16 word"
  ws_col :: "16 word"
  ws_xpixel :: "16 word"
  ws_ypixel :: "16 word"

text \<open>The settings of a slave device, and whether it is the controlling terminal of the child.\<close>

record pslave =
  s_attrs :: termios
  s_ws :: winsize
  s_ctty :: bool

text \<open>
  Answers of the kernel: an error number, or success. \<open>k_openpt\<close> is the name of the slave of a new
  pseudoterminal, \<open>k_close\<close> the error number that \<open>close\<close> leaves, and \<open>k_dump\<close> tells whether the
  variable \<open>EF_DUMPCORE\<close> asks for a core dump.
\<close>

record ptyos =
  k_openpt :: "errno + string"
  k_grantpt :: "errno option"
  k_unlockpt :: "errno option"
  k_ptsname :: "errno option"
  k_close :: "errno option"
  k_fork :: "errno + int"
  k_setsid :: "errno option"
  k_slave :: "errno option"
  k_ctty :: "errno option"
  k_tcsetattr :: "errno option"
  k_winsz :: "errno option"
  k_dup2 :: "nat \<Rightarrow> errno option"
  k_dump :: bool

definition closeFd :: "errno option \<Rightarrow> int \<Rightarrow> pproc \<Rightarrow> pproc" where
  "closeFd e fd s = s\<lparr>ptab := (ptab s)[nat fd := None], perr := (case e of None \<Rightarrow> perr s | Some n \<Rightarrow> n)\<rparr>"

text \<open>An error after which the descriptor is closed and \<open>errno\<close> keeps its value.\<close>

definition failClosing :: "ptyos \<Rightarrow> int \<Rightarrow> errno \<Rightarrow> pproc \<Rightarrow> pproc" where
  "failClosing K fd e s =
     (let s1 = s\<lparr>perr := e\<rparr>; savedErrno = perr s1; s2 = closeFd (k_close K) fd s1 in s2\<lparr>perr := savedErrno\<rparr>)"

text \<open>\<open>slaveName\<close> is the text in the buffer, which has room for \<open>snLen\<close> bytes.\<close>

definition strncpy :: "nat \<Rightarrow> string \<Rightarrow> string" where
  "strncpy n src = take n src"

definition ptyMasterOpen :: "ptyos \<Rightarrow> string \<Rightarrow> nat \<Rightarrow> pproc \<Rightarrow> int \<times> string \<times> pproc" where
  "ptyMasterOpen K slaveName snLen s =
     (case k_openpt K of
        Inl e \<Rightarrow> (-1, slaveName, s\<lparr>perr := e\<rparr>)
      | Inr p \<Rightarrow>
          let (n, t) = alloc (PMaster p) (ptab s); masterFd = int n; s1 = s\<lparr>ptab := t\<rparr> in
          case k_grantpt K of
            Some e \<Rightarrow> (-1, slaveName, failClosing K masterFd e s1)
          | None \<Rightarrow>
          (case k_unlockpt K of
             Some e \<Rightarrow> (-1, slaveName, failClosing K masterFd e s1)
           | None \<Rightarrow>
           (case k_ptsname K of
              Some e \<Rightarrow> (-1, slaveName, failClosing K masterFd e s1)
            | None \<Rightarrow>
                if length p < snLen then (masterFd, strncpy snLen p, s1)
                else (-1, slaveName, (closeFd (k_close K) masterFd s1)\<lparr>perr := EOVERFLOW\<rparr>))))"

text \<open>
  The BSD version tries the names of masters in order; \<open>tryOpen\<close> tells for each name whether it
  can be opened (\<open>None\<close>) or the error number.
\<close>

abbreviation (input) PTYM_PREFIX :: string where "PTYM_PREFIX \<equiv> ''/dev/pty''"
abbreviation (input) PTYS_PREFIX :: string where "PTYS_PREFIX \<equiv> ''/dev/tty''"
abbreviation (input) X_RANGE :: string where "X_RANGE \<equiv> ''pqrstuvwxyzabcde''"
abbreviation (input) Y_RANGE :: string where "Y_RANGE \<equiv> ''0123456789abcdef''"
abbreviation (input) PTY_NAME_LEN :: nat where "PTY_NAME_LEN \<equiv> 11"

text \<open>The loops: \<open>Inr\<close> the result of the function, \<open>Inl\<close> the state when all names have been tried.\<close>

fun yLoop :: "(string \<Rightarrow> errno option) \<Rightarrow> nat \<Rightarrow> char \<Rightarrow> string \<Rightarrow> string \<Rightarrow> pproc \<Rightarrow> pproc + (int \<times> string \<times> pproc)" where
  "yLoop tryOpen snLen x [] slaveName s = Inl s"
| "yLoop tryOpen snLen x (y # ys) slaveName s =
     (let masterName = PTYM_PREFIX @ [x, y] in
      case tryOpen masterName of
        Some e \<Rightarrow>
          if e = ENOENT then Inr (-1, slaveName, s\<lparr>perr := e\<rparr>)
          else yLoop tryOpen snLen x ys slaveName (s\<lparr>perr := e\<rparr>)
      | None \<Rightarrow>
          let (m, t) = alloc (PMaster (PTYS_PREFIX @ [x, y])) (ptab s); s1 = s\<lparr>ptab := t\<rparr>;
              (name, n) = snprintf snLen (PTYS_PREFIX @ [x, y])
          in if n \<ge> snLen then Inr (-1, name, s1\<lparr>perr := EOVERFLOW\<rparr>) else Inr (int m, name, s1))"

fun xLoop :: "(string \<Rightarrow> errno option) \<Rightarrow> nat \<Rightarrow> string \<Rightarrow> string \<Rightarrow> pproc \<Rightarrow> int \<times> string \<times> pproc" where
  "xLoop tryOpen snLen [] slaveName s = (-1, slaveName, s)"
| "xLoop tryOpen snLen (x # xs) slaveName s =
     (case yLoop tryOpen snLen x Y_RANGE slaveName s of
        Inr r \<Rightarrow> r
      | Inl s1 \<Rightarrow> xLoop tryOpen snLen xs slaveName s1)"

definition ptyMasterOpenBsd :: "(string \<Rightarrow> errno option) \<Rightarrow> string \<Rightarrow> nat \<Rightarrow> pproc \<Rightarrow> int \<times> string \<times> pproc" where
  "ptyMasterOpenBsd tryOpen slaveName snLen s =
     (if PTY_NAME_LEN > snLen then (-1, slaveName, s\<lparr>perr := EOVERFLOW\<rparr>)
      else xLoop tryOpen snLen X_RANGE slaveName s)"

section \<open>A child on a pseudoterminal\<close>

text \<open>\<open>errExit\<close> and \<open>err_exit\<close>.\<close>

definition errEnd :: "bool \<Rightarrow> bool \<Rightarrow> 'a res" where
  "errEnd dump useExit3 = (if dump then Abort else if useExit3 then Exit EXIT_FAILURE else UExit EXIT_FAILURE)"

definition dup2Fd :: "ptyos \<Rightarrow> nat \<Rightarrow> nat \<Rightarrow> pproc \<Rightarrow> int \<times> pproc" where
  "dup2Fd K old new s =
     (case k_dup2 K new of
        Some e \<Rightarrow> (-1, s\<lparr>perr := e\<rparr>)
      | None \<Rightarrow> (int new, if old = new then s else s\<lparr>ptab := putfd new (look (ptab s) old) (ptab s)\<rparr>))"

text \<open>The last part of the child: the slave becomes its standard input, output and error.\<close>

definition childStdio :: "ptyos \<Rightarrow> nat \<Rightarrow> pproc \<Rightarrow> unit res \<times> pproc" where
  "childStdio K slaveFd s =
     (case dup2Fd K slaveFd 0 s of (r0, s0) \<Rightarrow>
      if r0 \<noteq> 0 then (errEnd (k_dump K) False, s0)
      else case dup2Fd K slaveFd 1 s0 of (r1, s1) \<Rightarrow>
      if r1 \<noteq> 1 then (errEnd (k_dump K) False, s1)
      else case dup2Fd K slaveFd 2 s1 of (r2, s2) \<Rightarrow>
      if r2 \<noteq> 2 then (errEnd (k_dump K) False, s2)
      else (Ret (), if slaveFd > 2 then closeFd (k_close K) (int slaveFd) s2 else s2))"

definition ptyChild :: "ptyos \<Rightarrow> int \<Rightarrow> string \<Rightarrow> termios option \<Rightarrow> winsize option \<Rightarrow> pslave \<Rightarrow> pproc \<Rightarrow> unit res \<times> pproc \<times> pslave" where
  "ptyChild K mfd slname slaveTermios slaveWS d s =
     (if k_setsid K \<noteq> None then (errEnd (k_dump K) False, s\<lparr>perr := the (k_setsid K)\<rparr>, d)
      else let s1 = closeFd (k_close K) mfd (s\<lparr>psession := True\<rparr>) in
      if k_slave K \<noteq> None then (errEnd (k_dump K) False, s1\<lparr>perr := the (k_slave K)\<rparr>, d)
      else let (slaveFd, t) = alloc (PSlave slname) (ptab s1); s2 = s1\<lparr>ptab := t\<rparr> in
      if k_ctty K \<noteq> None then (errEnd (k_dump K) False, s2\<lparr>perr := the (k_ctty K)\<rparr>, d)
      else let d1 = d\<lparr>s_ctty := True\<rparr> in
      if slaveTermios \<noteq> None \<and> k_tcsetattr K \<noteq> None then (errEnd (k_dump K) False, s2\<lparr>perr := the (k_tcsetattr K)\<rparr>, d1)
      else let d2 = (case slaveTermios of None \<Rightarrow> d1 | Some a \<Rightarrow> d1\<lparr>s_attrs := a\<rparr>) in
      if slaveWS \<noteq> None \<and> k_winsz K \<noteq> None then (errEnd (k_dump K) False, s2\<lparr>perr := the (k_winsz K)\<rparr>, d2)
      else let d3 = (case slaveWS of None \<Rightarrow> d2 | Some w \<Rightarrow> d2\<lparr>s_ws := w\<rparr>) in
      case childStdio K slaveFd s2 of (r, s3) \<Rightarrow> (r, s3, d3))"

text \<open>
  The result: in the parent the return value, \<open>*masterFd\<close>, \<open>slaveName\<close> and the state; and what the
  child does, if there is one. \<open>d\<close> is the slave device as it is when it is opened.
\<close>

record forked =
  f_pid :: int
  f_master :: int
  f_name :: "string option"
  f_parent :: pproc
  f_child :: "(unit res \<times> pproc \<times> pslave) option"

definition ptyFork :: "ptyos \<Rightarrow> int \<Rightarrow> string option \<Rightarrow> nat \<Rightarrow> termios option \<Rightarrow> winsize option \<Rightarrow> pslave \<Rightarrow> pproc \<Rightarrow> forked" where
  "ptyFork K masterFd slaveName snLen slaveTermios slaveWS d s =
     (case ptyMasterOpen K [] MAX_SNAME s of (mfd, slname, s1) \<Rightarrow>
      if mfd = -1 then \<lparr>f_pid = -1, f_master = masterFd, f_name = slaveName, f_parent = s1, f_child = None\<rparr>
      else if slaveName \<noteq> None \<and> \<not> length slname < snLen then
        \<lparr>f_pid = -1, f_master = masterFd, f_name = slaveName,
         f_parent = (closeFd (k_close K) mfd s1)\<lparr>perr := EOVERFLOW\<rparr>, f_child = None\<rparr>
      else
        let name = (if slaveName \<noteq> None then Some (strncpy snLen slname) else None) in
        case k_fork K of
          Inl e \<Rightarrow> \<lparr>f_pid = -1, f_master = masterFd, f_name = name, f_parent = failClosing K mfd e s1, f_child = None\<rparr>
        | Inr pid \<Rightarrow>
            \<lparr>f_pid = pid, f_master = mfd, f_name = name, f_parent = s1,
             f_child = Some (ptyChild K mfd slname slaveTermios slaveWS d s1)\<rparr>)"

section \<open>Masters\<close>

lemma closeFd_simps [simp]:
  "look (ptab (closeFd e (int n) s)) = (look (ptab s))(n := None)" "psession (closeFd e fd s) = psession s"
  by (simp_all add: closeFd_def)

lemma failClosing_simps [simp]:
  "look (ptab (failClosing K (int n) e s)) = (look (ptab s))(n := None)" "perr (failClosing K fd e s) = e"
  by (simp_all add: failClosing_def closeFd_def Let_def)

text \<open>The first error that \<open>ptyMasterOpen\<close> meets.\<close>

definition masterError :: "ptyos \<Rightarrow> nat \<Rightarrow> errno option" where
  "masterError K snLen =
     (case k_openpt K of
        Inl e \<Rightarrow> Some e
      | Inr p \<Rightarrow>
          if k_grantpt K \<noteq> None then k_grantpt K
          else if k_unlockpt K \<noteq> None then k_unlockpt K
          else if k_ptsname K \<noteq> None then k_ptsname K
          else if length p < snLen then None else Some EOVERFLOW)"

lemma ptyMasterOpen_cases:
  assumes "ptyMasterOpen K b snLen s = (fd, name, s')"
  obtains (fails) e where "masterError K snLen = Some e" "fd = -1" "name = b" "perr s' = e"
      "look (ptab s') = look (ptab s)"
    | (opens) n p t where "masterError K snLen = None" "k_openpt K = Inr p" "alloc (PMaster p) (ptab s) = (n, t)"
      "fd = int n" "name = p" "s' = s\<lparr>ptab := t\<rparr>"
proof (cases "k_openpt K")
  case (Inl e)
  with assms fails show thesis by (auto simp: ptyMasterOpen_def masterError_def)
next
  case (Inr p)
  obtain n t where a: "alloc (PMaster p) (ptab s) = (n, t)" by (cases "alloc (PMaster p) (ptab s)")
  from alloc_look [OF a] have undone: "(look t)(n := None) = look (ptab s)" by auto
  show thesis
  proof (cases "masterError K snLen")
    case None
    with assms Inr a show thesis
      by (intro opens) (auto simp: ptyMasterOpen_def masterError_def strncpy_def split: if_splits option.splits)
  next
    case (Some e)
    with assms Inr a undone show thesis
      by (intro fails [of e]) (auto simp: ptyMasterOpen_def masterError_def split: if_splits option.splits)
  qed
qed


text \<open>
  The BSD version: the first name in order that can be opened decides, or the first one that
  does not exist. The branch for an overflow after a successful \<open>open\<close>, which would leave the
  descriptor open, is never taken.
\<close>

definition decisive :: "(string \<Rightarrow> errno option) \<Rightarrow> char \<times> char \<Rightarrow> bool" where
  "decisive T p \<longleftrightarrow> T (PTYM_PREFIX @ [fst p, snd p]) = None \<or> T (PTYM_PREFIX @ [fst p, snd p]) = Some ENOENT"

definition bsdNames :: "string \<Rightarrow> (char \<times> char) list" where
  "bsdNames xs = concat (map (\<lambda>x. map (Pair x) Y_RANGE) xs)"

definition bsdResult :: "(string \<Rightarrow> errno option) \<Rightarrow> string \<Rightarrow> pproc \<Rightarrow> char \<times> char \<Rightarrow> int \<times> string \<times> pproc" where
  "bsdResult T slaveName s p =
     (if T (PTYM_PREFIX @ [fst p, snd p]) = None
      then let slave = PTYS_PREFIX @ [fst p, snd p]; (m, t) = alloc (PMaster slave) (ptab s) in (int m, slave, s\<lparr>ptab := t\<rparr>)
      else (-1, slaveName, s\<lparr>perr := ENOENT\<rparr>))"

lemma find_append: "find P (xs @ ys) = (case find P xs of None \<Rightarrow> find P ys | Some x \<Rightarrow> Some x)"
  by (induction xs) auto

lemma find_map: "find P (map f xs) = map_option f (find (P \<circ> f) xs)"
  by (induction xs) auto

lemma perr_twice: "s\<lparr>perr := a, perr := c\<rparr> = s\<lparr>perr := c\<rparr>"
  by simp

lemma yLoop_find:
  assumes "PTY_NAME_LEN \<le> snLen"
  shows "\<exists>e. yLoop T snLen x ys b s =
    (case find (decisive T \<circ> Pair x) ys of
       None \<Rightarrow> Inl (s\<lparr>perr := e\<rparr>)
     | Some y \<Rightarrow> Inr (bsdResult T b (s\<lparr>perr := e\<rparr>) (x, y)))"
proof (induction ys arbitrary: s)
  case Nil
  show ?case by (rule exI [of _ "perr s"]) simp
next
  case (Cons y ys)
  let ?a = "T (PTYM_PREFIX @ [x, y])"
  show ?case
  proof (cases "decisive T (x, y)")
    case True
    with assms show ?thesis
      by (intro exI [of _ "perr s"]) (auto simp: decisive_def bsdResult_def snprintf_def Let_def split: prod.splits)
  next
    case False
    then obtain n where n: "?a = Some n" "n \<noteq> ENOENT" by (auto simp: decisive_def)
    from Cons.IH [of "s\<lparr>perr := n\<rparr>"] obtain e where "yLoop T snLen x ys b (s\<lparr>perr := n\<rparr>) =
      (case find (decisive T \<circ> Pair x) ys of
         None \<Rightarrow> Inl (s\<lparr>perr := e\<rparr>)
       | Some y \<Rightarrow> Inr (bsdResult T b (s\<lparr>perr := e\<rparr>) (x, y)))" unfolding perr_twice by blast
    with False n show ?thesis by (intro exI [of _ e]) (simp add: Let_def comp_def)
  qed
qed

lemma xLoop_find:
  assumes "PTY_NAME_LEN \<le> snLen"
  shows "\<exists>e. xLoop T snLen xs b s =
    (case find (decisive T) (bsdNames xs) of
       None \<Rightarrow> (-1, b, s\<lparr>perr := e\<rparr>)
     | Some p \<Rightarrow> bsdResult T b (s\<lparr>perr := e\<rparr>) p)"
proof (induction xs arbitrary: s)
  case Nil
  show ?case by (rule exI [of _ "perr s"]) (simp add: bsdNames_def)
next
  case (Cons x xs)
  define Y where "Y = Y_RANGE"
  have names: "bsdNames (x # xs) = map (Pair x) Y @ bsdNames xs" by (simp add: bsdNames_def Y_def)
  have step: "xLoop T snLen (x # xs) b s = (case yLoop T snLen x Y b s of Inr r \<Rightarrow> r | Inl s1 \<Rightarrow> xLoop T snLen xs b s1)"
    unfolding Y_def by (simp only: xLoop.simps)
  obtain e where e: "yLoop T snLen x Y b s =
    (case find (decisive T \<circ> Pair x) Y of
       None \<Rightarrow> Inl (s\<lparr>perr := e\<rparr>)
     | Some y \<Rightarrow> Inr (bsdResult T b (s\<lparr>perr := e\<rparr>) (x, y)))" using yLoop_find [OF assms] by blast
  obtain e' where e': "xLoop T snLen xs b (s\<lparr>perr := e\<rparr>) =
    (case find (decisive T) (bsdNames xs) of
       None \<Rightarrow> (-1, b, s\<lparr>perr := e'\<rparr>)
     | Some p \<Rightarrow> bsdResult T b (s\<lparr>perr := e'\<rparr>) p)" using Cons.IH [of "s\<lparr>perr := e\<rparr>"] unfolding perr_twice by blast
  show ?case
  proof (cases "find (decisive T \<circ> Pair x) Y")
    case None
    with e e' show ?thesis unfolding names find_append find_map step by (intro exI [of _ e']) simp
  next
    case (Some y)
    with e show ?thesis unfolding names find_append find_map step by (intro exI [of _ e]) simp
  qed
qed

text \<open>So \<open>ptyMasterOpen\<close> of the BSD version is a search, and it leaves no descriptor behind when it fails.\<close>

lemma ptyMasterOpenBsd_search:
  assumes "PTY_NAME_LEN \<le> snLen"
  shows "case find (decisive T) (bsdNames X_RANGE) of
     Some (x, y) \<Rightarrow>
       if T (PTYM_PREFIX @ [x, y]) = None
       then \<exists>n s'. ptyMasterOpenBsd T b snLen s = (int n, PTYS_PREFIX @ [x, y], s') \<and> look (ptab s) n = None \<and>
         look (ptab s') = (look (ptab s))(n \<mapsto> PMaster (PTYS_PREFIX @ [x, y]))
       else ptyMasterOpenBsd T b snLen s = (-1, b, s\<lparr>perr := ENOENT\<rparr>)
   | None \<Rightarrow> \<exists>e. ptyMasterOpenBsd T b snLen s = (-1, b, s\<lparr>perr := e\<rparr>)"
proof -
  obtain e where e: "xLoop T snLen X_RANGE b s =
    (case find (decisive T) (bsdNames X_RANGE) of
       None \<Rightarrow> (-1, b, s\<lparr>perr := e\<rparr>)
     | Some p \<Rightarrow> bsdResult T b (s\<lparr>perr := e\<rparr>) p)" using xLoop_find [OF assms] by blast
  have eq: "ptyMasterOpenBsd T b snLen s = xLoop T snLen X_RANGE b s"
    using assms unfolding ptyMasterOpenBsd_def by (simp only: not_less [symmetric] if_False)
  show ?thesis
  proof (cases "find (decisive T) (bsdNames X_RANGE)")
    case None
    with e eq show ?thesis by (auto simp del: xLoop.simps)
  next
    case (Some p)
    obtain x y where p: "p = (x, y)" by (cases p)
    obtain m t where a: "alloc (PMaster (PTYS_PREFIX @ [x, y])) (ptab s) = (m, t)"
      by (cases "alloc (PMaster (PTYS_PREFIX @ [x, y])) (ptab s)")
    from Some e eq a alloc_look [OF a] show ?thesis by (auto simp: p bsdResult_def simp del: xLoop.simps)
  qed
qed

section \<open>The child and its terminal\<close>

text \<open>The errors that \<open>ptyFork\<close> reports to its caller, and whether the child gets ready.\<close>

definition forkError :: "ptyos \<Rightarrow> string option \<Rightarrow> nat \<Rightarrow> errno option" where
  "forkError K slaveName snLen =
     (case masterError K MAX_SNAME of
        Some e \<Rightarrow> Some e
      | None \<Rightarrow>
          if slaveName \<noteq> None \<and> (\<forall>p. k_openpt K = Inr p \<longrightarrow> snLen \<le> length p) then Some EOVERFLOW
          else case k_fork K of Inl e \<Rightarrow> Some e | Inr _ \<Rightarrow> None)"

definition childReady :: "ptyos \<Rightarrow> termios option \<Rightarrow> winsize option \<Rightarrow> bool" where
  "childReady K tio ws \<longleftrightarrow>
     k_setsid K = None \<and> k_slave K = None \<and> k_ctty K = None \<and> (tio = None \<or> k_tcsetattr K = None) \<and>
     (ws = None \<or> k_winsz K = None) \<and> k_dup2 K 0 = None \<and> k_dup2 K 1 = None \<and> k_dup2 K 2 = None"

lemma errEnd_not_returned [simp]: "\<not> returned (errEnd d u)"
  by (simp add: errEnd_def)

lemma childStdio_ready:
  assumes "childStdio K n s = (r, s')" "look (ptab s) n = Some (PSlave p)"
  shows "returned r \<longleftrightarrow> k_dup2 K 0 = None \<and> k_dup2 K 1 = None \<and> k_dup2 K 2 = None"
    and "returned r \<Longrightarrow> psession s' = psession s \<and>
      look (ptab s') = (look (ptab s))(n := None, 0 \<mapsto> PSlave p, 1 \<mapsto> PSlave p, 2 \<mapsto> PSlave p)"
  using assms by (auto simp: childStdio_def dup2Fd_def fun_eq_iff split: if_splits option.splits)

text \<open>What the caller of \<open>ptyFork\<close> asks of the child, which had the table \<open>f\<close> apart from the master.\<close>

definition onTerminal :: "string \<Rightarrow> termios option \<Rightarrow> winsize option \<Rightarrow> (nat \<Rightarrow> pobj option) \<Rightarrow> pslave \<Rightarrow> pproc \<Rightarrow> pslave \<Rightarrow> bool" where
  "onTerminal p tio ws f d s d' \<longleftrightarrow> psession s \<and>
     look (ptab s) = f(0 \<mapsto> PSlave p, 1 \<mapsto> PSlave p, 2 \<mapsto> PSlave p) \<and> s_ctty d' \<and>
     s_attrs d' = (case tio of None \<Rightarrow> s_attrs d | Some a \<Rightarrow> a) \<and> s_ws d' = (case ws of None \<Rightarrow> s_ws d | Some w \<Rightarrow> w)"

lemma ptyChild_ready:
  assumes "ptyChild K (int n) p tio ws d s = (r, s', d')"
  shows "returned r \<longleftrightarrow> childReady K tio ws"
    and "returned r \<Longrightarrow> onTerminal p tio ws ((look (ptab s))(n := None)) d s' d'"
proof -
  let ?s1 = "closeFd (k_close K) (int n) (s\<lparr>psession := True\<rparr>)"
  obtain m t where a: "alloc (PSlave p) (ptab ?s1) = (m, t)" by (cases "alloc (PSlave p) (ptab ?s1)")
  from alloc_look [OF a] have m: "((look (ptab s))(n := None)) m = None" "look t = (look (ptab s))(n := None, m \<mapsto> PSlave p)"
    by simp_all
  obtain r1 s3 where c: "childStdio K m (?s1\<lparr>ptab := t\<rparr>) = (r1, s3)" by (cases "childStdio K m (?s1\<lparr>ptab := t\<rparr>)")
  have "look (ptab (?s1\<lparr>ptab := t\<rparr>)) m = Some (PSlave p)" using m by simp
  note std = childStdio_ready [OF c this]
  show "returned r \<longleftrightarrow> childReady K tio ws"
    using assms a c std(1) by (auto simp: ptyChild_def childReady_def Let_def split: if_splits)
  assume ret: "returned r"
  then have r: "r = r1" "s' = s3"
    using assms a c by (auto simp: ptyChild_def Let_def split: if_splits)
  have "psession s3" using std(2) ret r by simp
  moreover have "look (ptab s3) = (look (ptab s))(n := None, 0 \<mapsto> PSlave p, 1 \<mapsto> PSlave p, 2 \<mapsto> PSlave p)"
    using std(2) ret r m by (auto simp: fun_eq_iff)
  moreover have "s_ctty d' \<and> s_attrs d' = (case tio of None \<Rightarrow> s_attrs d | Some a \<Rightarrow> a) \<and> s_ws d' = (case ws of None \<Rightarrow> s_ws d | Some w \<Rightarrow> w)"
    using assms a c ret by (auto simp: ptyChild_def Let_def split: if_splits option.splits)
  ultimately show "onTerminal p tio ws ((look (ptab s))(n := None)) d s' d'" by (simp add: onTerminal_def r)
qed

text \<open>
  C21. \<open>ptyFork\<close>: it fails exactly when one of its steps fails; then there is no child, \<open>errno\<close> is the one
  of that step whatever \<open>close\<close> has done to it, and the parent has the descriptors that it had
  before. Otherwise the parent has one new descriptor, for the master of a pseudoterminal, and
  is told the name of its slave; the child has either ended with a message, exactly when a
  step of its own failed, or it returns with its standard input, output and error on the slave
  of the same pseudoterminal, which is its controlling terminal with the attributes and the
  window size that were asked for, and with the other descriptors of the parent except for the
  master.
\<close>

theorem ptyFork_correct:
  assumes "\<And>pid. k_fork K = Inr pid \<Longrightarrow> 0 < pid"
    and res: "ptyFork K mf slaveName snLen tio ws d s = r"
  shows "case forkError K slaveName snLen of
     Some e \<Rightarrow> f_pid r = -1 \<and> f_child r = None \<and> perr (f_parent r) = e \<and> f_master r = mf \<and>
       look (ptab (f_parent r)) = look (ptab s)
   | None \<Rightarrow> \<exists>p n c cs cd. f_pid r > 0 \<and> f_master r = int n \<and> look (ptab s) n = None \<and>
       look (ptab (f_parent r)) = (look (ptab s))(n \<mapsto> PMaster p) \<and> f_name r = map_option (\<lambda>_. p) slaveName \<and>
       f_child r = Some (c, cs, cd) \<and> (returned c \<longleftrightarrow> childReady K tio ws) \<and>
       (returned c \<longrightarrow> onTerminal p tio ws (look (ptab s)) d cs cd)"
proof -
  obtain mfd slname s1 where o: "ptyMasterOpen K [] MAX_SNAME s = (mfd, slname, s1)" by (cases "ptyMasterOpen K [] MAX_SNAME s")
  show ?thesis
  proof (cases rule: ptyMasterOpen_cases [OF o])
    case (1 e)
    then show ?thesis by (simp add: res [symmetric] ptyFork_def o forkError_def)
  next
    case (2 n p t)
    note al = alloc_look [OF 2(3)]
    then have back1: "(look t)(n := None) = look (ptab s)" by auto
    show ?thesis
    proof (cases "forkError K slaveName snLen")
      case (Some e)
      with 2 back1 show ?thesis
        by (auto simp: res [symmetric] ptyFork_def o forkError_def split: if_splits sum.splits)
    next
      case None
      with 2 obtain pid where k: "k_fork K = Inr pid" "slaveName = None \<or> length p < snLen"
        by (auto simp: forkError_def split: if_splits sum.splits)
      obtain c cs cd where ch: "ptyChild K (int n) p tio ws d s1 = (c, cs, cd)" by (cases "ptyChild K (int n) p tio ws d s1")
      have r: "r = \<lparr>f_pid = pid, f_master = int n, f_name = map_option (\<lambda>_. p) slaveName, f_parent = s1, f_child = Some (c, cs, cd)\<rparr>"
        using k(2) by (auto simp: res [symmetric] ptyFork_def o k(1) 2(4,5) ch strncpy_def)
      from ptyChild_ready [OF ch] al back1 assms(1) [OF k(1)] show ?thesis
        by (intro exI [of _ p] exI [of _ n] exI [of _ c] exI [of _ cs] exI [of _ cd] | simp add: None r 2(6))+
    qed
  qed
qed

text \<open>A process with the descriptors 0, 2 and 3, and a kernel without errors in which \<open>close\<close> disturbs \<open>errno\<close>.\<close>

definition demo_ptyos :: ptyos where
  "demo_ptyos = \<lparr>k_openpt = Inr ''/dev/pts/7'', k_grantpt = None, k_unlockpt = None, k_ptsname = None, k_close = Some 4,
     k_fork = Inr 4711, k_setsid = None, k_slave = None, k_ctty = None, k_tcsetattr = None, k_winsz = None,
     k_dup2 = (\<lambda>_. None), k_dump = False\<rparr>"

definition demo_pproc :: pproc where
  "demo_pproc = \<lparr>ptab = [Some (PFile ''tty''), None, Some (PFile ''tty''), Some (PFile ''log'')], perr = 0, psession = False\<rparr>"

definition demo_slave :: pslave where
  "demo_slave = \<lparr>s_attrs = zeroTermios, s_ws = \<lparr>ws_row = 0, ws_col = 0, ws_xpixel = 0, ws_ypixel = 0\<rparr>, s_ctty = False\<rparr>"

definition demo_fork :: "ptyos \<Rightarrow> nat \<Rightarrow> forked" where
  "demo_fork K len = ptyFork K (-1) (Some []) len (Some (demo_tty 0x8a3b)) None demo_slave demo_pproc"

theorem ptyFork_correct_witness:
  "f_pid (demo_fork demo_ptyos 100) > 0 \<and> f_name (demo_fork demo_ptyos 100) = Some ''/dev/pts/7'' \<and>
   f_pid (demo_fork demo_ptyos 5) = -1 \<and> perr (f_parent (demo_fork demo_ptyos 5)) = EOVERFLOW \<and>
   look (ptab (f_parent (demo_fork demo_ptyos 5))) = look (ptab demo_pproc)"
proof -
  have pos: "k_fork demo_ptyos = Inr pid \<Longrightarrow> 0 < pid" for pid by (simp add: demo_ptyos_def)
  have e: "forkError demo_ptyos (Some []) 100 = None" "forkError demo_ptyos (Some []) 5 = Some EOVERFLOW"
    by (simp_all add: forkError_def masterError_def demo_ptyos_def)
  have "f_name (demo_fork demo_ptyos 100) = Some ''/dev/pts/7''" by code_simp
  with ptyFork_correct [OF pos refl, where K = demo_ptyos and slaveName = "Some []" and snLen = 100 and mf = "-1" and tio = "Some (demo_tty 0x8a3b)" and ws = None and d = demo_slave and s = demo_pproc]
    ptyFork_correct [OF pos refl, where K = demo_ptyos and slaveName = "Some []" and snLen = 5 and mf = "-1" and tio = "Some (demo_tty 0x8a3b)" and ws = None and d = demo_slave and s = demo_pproc]
  show ?thesis unfolding demo_fork_def e by auto
qed

section \<open>Relaying between a terminal and a pseudoterminal\<close>

abbreviation (input) BUF_SIZE :: nat where "BUF_SIZE \<equiv> 256"

text \<open>
  The parent in both programs: the settings of its terminal, the variable \<open>ttyOrig\<close>, whether \<open>ttyReset\<close> has been
  registered, how it has ended, and the data: read from the terminal, written to the master,
  read from the master, written to the terminal and to the file.
\<close>

record relay =
  tattrs :: termios
  ttyOrig :: termios
  hooked :: bool
  rend :: "unit res option"
  typedIn :: string
  toPty :: string
  ptyOut :: string
  shown :: string
  typescript :: string

text \<open>Answers to the calls at the start (success or not), to \<open>ttyReset\<close>, and to those of one iteration.\<close>

record relayos =
  o_tcgetattr :: bool
  o_winsz :: "winsize option"
  o_pty :: ptyos
  o_typescript :: bool
  o_rawGet :: bool
  o_rawSet :: bool
  o_atexit :: bool
  o_reset :: bool

abbreviation o_dump :: "relayos \<Rightarrow> bool" where "o_dump Q \<equiv> k_dump (o_pty Q)"

record round =
  q_select :: "(bool \<times> bool) option"
  q_typed :: "string option"
  q_toPty :: "nat option"
  q_output :: "string option"
  q_shown :: "nat option"
  q_script :: "nat option"

text \<open>The bytes that a \<open>write\<close> has written, and its return value.\<close>

fun sent :: "nat option \<Rightarrow> string \<Rightarrow> string" where
  "sent None bs = []"
| "sent (Some k) bs = take k bs"

fun wrote :: "nat option \<Rightarrow> string \<Rightarrow> int" where
  "wrote None bs = -1"
| "wrote (Some k) bs = int (length (take k bs))"

text \<open>\<open>exit\<close> runs \<open>ttyReset\<close> if it has been registered; a core dump does not.\<close>

definition ttyReset :: "relayos \<Rightarrow> unit res \<Rightarrow> relay \<Rightarrow> relay" where
  "ttyReset Q e r =
     (if \<not> o_reset Q then r\<lparr>rend := Some (errEnd (o_dump Q) True)\<rparr> else r\<lparr>tattrs := ttyOrig r, rend := Some e\<rparr>)"

definition relayExit :: "relayos \<Rightarrow> int \<Rightarrow> relay \<Rightarrow> relay" where
  "relayExit Q status r = (if hooked r then ttyReset Q (Exit status) r else r\<lparr>rend := Some (Exit status)\<rparr>)"

definition relayFails :: "relayos \<Rightarrow> relay \<Rightarrow> relay" where
  "relayFails Q r = (if o_dump Q then r\<lparr>rend := Some Abort\<rparr> else relayExit Q EXIT_FAILURE r)"

text \<open>From the terminal to the master, which the two programs have in common.\<close>

definition relayInput :: "relayos \<Rightarrow> round \<Rightarrow> relay \<Rightarrow> relay" where
  "relayInput Q q r =
     (let buf = (case q_typed q of None \<Rightarrow> [] | Some bs \<Rightarrow> take BUF_SIZE bs) in
      if buf = [] then relayExit Q EXIT_SUCCESS r
      else let r1 = r\<lparr>typedIn := typedIn r @ buf, toPty := toPty r @ sent (q_toPty q) buf\<rparr> in
      if wrote (q_toPty q) buf \<noteq> int (length buf) then relayFails Q r1 else r1)"

text \<open>From the master to the terminal, and in \<open>script\<close> to the file too.\<close>

definition unbufferOutput :: "relayos \<Rightarrow> round \<Rightarrow> relay \<Rightarrow> relay" where
  "unbufferOutput Q q r =
     (let buf = (case q_output q of None \<Rightarrow> [] | Some bs \<Rightarrow> take BUF_SIZE bs) in
      if buf = [] then relayExit Q EXIT_SUCCESS r
      else let r1 = r\<lparr>ptyOut := ptyOut r @ buf, shown := shown r @ sent (q_shown q) buf\<rparr> in
      if wrote (q_shown q) buf \<noteq> int (length buf) then relayFails Q r1 else r1)"

definition scriptOutput :: "relayos \<Rightarrow> round \<Rightarrow> relay \<Rightarrow> relay" where
  "scriptOutput Q q r =
     (let buf = (case q_output q of None \<Rightarrow> [] | Some bs \<Rightarrow> take BUF_SIZE bs) in
      if buf = [] then relayExit Q EXIT_SUCCESS r
      else let r1 = r\<lparr>ptyOut := ptyOut r @ buf, shown := shown r @ sent (q_shown q) buf\<rparr> in
      if wrote (q_shown q) buf \<noteq> int (length buf) then relayFails Q r1
      else let r2 = r1\<lparr>typescript := typescript r1 @ sent (q_script q) buf\<rparr> in
      if wrote (q_script q) buf \<noteq> int (length buf) then relayFails Q r2 else r2)"

text \<open>One iteration; \<open>out\<close> is what the program does with output of the child.\<close>

definition relayRound :: "relayos \<Rightarrow> (round \<Rightarrow> relay \<Rightarrow> relay) \<Rightarrow> round \<Rightarrow> relay \<Rightarrow> relay option" where
  "relayRound Q out q r =
     (if rend r \<noteq> None then None
      else case q_select q of
        None \<Rightarrow> Some (relayFails Q r)
      | Some (stdin, master) \<Rightarrow>
          let r1 = (if stdin then relayInput Q q r else r) in
          Some (if rend r1 = None \<and> master then out q r1 else r1))"

definition scriptRound :: "relayos \<Rightarrow> round \<Rightarrow> relay \<Rightarrow> relay option" where
  "scriptRound Q = relayRound Q (scriptOutput Q)"

definition unbufferRound :: "relayos \<Rightarrow> round \<Rightarrow> relay \<Rightarrow> relay option" where
  "unbufferRound Q = relayRound Q (unbufferOutput Q)"

text \<open>The start: \<open>ptyFork\<close>, the file, raw mode and \<open>atexit\<close>. The parent's state and the child.\<close>

definition relay0 :: "termios \<Rightarrow> relay" where
  "relay0 t = \<lparr>tattrs = t, ttyOrig = zeroTermios, hooked = False, rend = None, typedIn = [], toPty = [], ptyOut = [],
     shown = [], typescript = []\<rparr>"

definition relayRaw :: "relayos \<Rightarrow> relay \<Rightarrow> relay" where
  "relayRaw Q r =
     (case ttySetRaw (o_rawGet Q) (o_rawSet Q) (Some (ttyOrig r)) (tattrs r) of (_, prev, t) \<Rightarrow>
      let r1 = r\<lparr>ttyOrig := the prev, tattrs := t\<rparr> in
      if \<not> o_atexit Q then relayFails Q r1 else r1\<lparr>hooked := True\<rparr>)"


definition unbufferStart :: "relayos \<Rightarrow> pslave \<Rightarrow> pproc \<Rightarrow> termios \<Rightarrow> relay \<times> (unit res \<times> pproc \<times> pslave) option" where
  "unbufferStart Q d s t =
     (if \<not> o_tcgetattr Q then (relayFails Q (relay0 t), None)
      else let r = (relay0 t)\<lparr>ttyOrig := t\<rparr> in
      case o_winsz Q of
        None \<Rightarrow> (relayFails Q r, None)
      | Some ws \<Rightarrow>
          let f = ptyFork (o_pty Q) 0 (Some []) MAX_SNAME (Some (ttyOrig r)) (Some ws) d s in
          if f_pid f = -1 then (relayFails Q r, None)
          else (relayRaw Q r, f_child f))"

text \<open>The shell that the child of \<open>script\<close> executes, given the variable \<open>SHELL\<close>.\<close>

definition scriptShell :: "string option \<Rightarrow> string" where
  "scriptShell v = (if v = None \<or> v = Some [] then ''/bin/sh'' else the v)"

abbreviation script_run :: "relayos \<Rightarrow> round list \<Rightarrow> relay \<Rightarrow> relay option" where
  "script_run Q \<equiv> run_steps (scriptRound Q)"

abbreviation unbuffer_run :: "relayos \<Rightarrow> round list \<Rightarrow> relay \<Rightarrow> relay option" where
  "unbuffer_run Q \<equiv> run_steps (unbufferRound Q)"

section \<open>What is relayed\<close>

text \<open>The terminal: the saved settings are those at the start, and they are back after an exit.\<close>

definition term_ok :: "relayos \<Rightarrow> termios \<Rightarrow> relay \<Rightarrow> bool" where
  "term_ok Q t r \<longleftrightarrow>
     (rend r = None \<longrightarrow> hooked r \<and> ttyOrig r = t \<and> tattrs r = (if o_rawGet Q \<and> o_rawSet Q then rawMode t else t)) \<and>
     (rend r = Some (Exit EXIT_SUCCESS) \<longrightarrow> tattrs r = t) \<and>
     (o_atexit Q \<and> o_reset Q \<and> rend r = Some (Exit EXIT_FAILURE) \<longrightarrow> tattrs r = t)"

text \<open>The data: nothing is lost or changed unless the program fails, and then only at the end.\<close>

definition whole :: "relay \<Rightarrow> bool" where
  "whole r \<longleftrightarrow> rend r = None \<or> rend r = Some (Exit EXIT_SUCCESS)"

definition data_ok :: "relay \<Rightarrow> bool" where
  "data_ok r \<longleftrightarrow>
     (\<exists>rest. typedIn r = toPty r @ rest) \<and> (\<exists>rest. ptyOut r = shown r @ rest) \<and>
     (whole r \<longrightarrow> toPty r = typedIn r \<and> shown r = ptyOut r)"


lemma relayExit_frame [simp]:
  "typedIn (relayExit Q e r) = typedIn r" "toPty (relayExit Q e r) = toPty r" "ptyOut (relayExit Q e r) = ptyOut r"
  "shown (relayExit Q e r) = shown r" "typescript (relayExit Q e r) = typescript r" "rend (relayExit Q e r) \<noteq> None"
  by (auto simp: relayExit_def ttyReset_def)

lemma relayFails_frame [simp]:
  "typedIn (relayFails Q r) = typedIn r" "toPty (relayFails Q r) = toPty r" "ptyOut (relayFails Q r) = ptyOut r"
  "shown (relayFails Q r) = shown r" "typescript (relayFails Q r) = typescript r" "\<not> whole (relayFails Q r)"
  "rend (relayFails Q r) \<noteq> None" "rend (relayFails Q r) \<noteq> Some (Exit EXIT_SUCCESS)"
  by (auto simp: relayFails_def relayExit_def ttyReset_def errEnd_def whole_def)

lemma relayExit_term:
  assumes "term_ok Q t r" "rend r = None"
  shows "term_ok Q t (relayExit Q EXIT_SUCCESS r)"
  using assms by (auto simp: term_ok_def relayExit_def ttyReset_def errEnd_def)

lemma relayFails_term:
  assumes "hooked r" "ttyOrig r = t"
  shows "term_ok Q t (relayFails Q r)"
  using assms by (auto simp: term_ok_def relayFails_def relayExit_def ttyReset_def errEnd_def)

lemma wrote_all: "wrote w bs = int (length bs) \<Longrightarrow> sent w bs = bs"
  by (cases w) auto

lemma sent_prefix: "\<exists>rest. bs = sent w bs @ rest"
  by (cases w) (auto intro!: exI [of _ "drop (the w) bs"])

lemma relayInput_ok:
  assumes "term_ok Q t r" "data_ok r" "rend r = None"
  shows "term_ok Q t (relayInput Q q r) \<and> data_ok (relayInput Q q r) \<and>
    shown (relayInput Q q r) = shown r \<and> typescript (relayInput Q q r) = typescript r"
proof -
  define buf where "buf = (case q_typed q of None \<Rightarrow> [] | Some bs \<Rightarrow> take BUF_SIZE bs)"
  obtain rest where "buf = sent (q_toPty q) buf @ rest" using sent_prefix by blast
  moreover have "hooked r" "ttyOrig r = t" "toPty r = typedIn r" "shown r = ptyOut r"
    using assms by (auto simp: term_ok_def data_ok_def whole_def)
  ultimately show ?thesis
    using assms wrote_all [of "q_toPty q" buf]
    by (auto simp: relayInput_def buf_def [symmetric] relayExit_term relayFails_term data_ok_def whole_def Let_def intro: exI [of _ rest])
       (auto simp: term_ok_def)
qed

lemma unbufferOutput_ok:
  assumes "term_ok Q t r" "data_ok r" "rend r = None"
  shows "term_ok Q t (unbufferOutput Q q r) \<and> data_ok (unbufferOutput Q q r)"
proof -
  define buf where "buf = (case q_output q of None \<Rightarrow> [] | Some bs \<Rightarrow> take BUF_SIZE bs)"
  obtain rest where "buf = sent (q_shown q) buf @ rest" using sent_prefix by blast
  moreover have "hooked r" "ttyOrig r = t" "toPty r = typedIn r" "shown r = ptyOut r"
    using assms by (auto simp: term_ok_def data_ok_def whole_def)
  ultimately show ?thesis
    using assms wrote_all [of "q_shown q" buf]
    by (auto simp: unbufferOutput_def buf_def [symmetric] relayExit_term relayFails_term data_ok_def whole_def Let_def intro: exI [of _ rest])
       (auto simp: term_ok_def)
qed



definition unbuffer_inv :: "relayos \<Rightarrow> termios \<Rightarrow> relay \<Rightarrow> bool" where
  "unbuffer_inv Q t r \<longleftrightarrow> term_ok Q t r \<and> data_ok r"



text \<open>What the two loops have in common: an invariant that their parts keep while the program runs.\<close>

locale relayer =
  fixes Q :: relayos and out :: "round \<Rightarrow> relay \<Rightarrow> relay" and inv :: "relay \<Rightarrow> bool"
  assumes fails_keeps: "inv r \<Longrightarrow> rend r = None \<Longrightarrow> inv (relayFails Q r)"
    and input_keeps: "inv r \<Longrightarrow> rend r = None \<Longrightarrow> inv (relayInput Q q r)"
    and out_keeps: "inv r \<Longrightarrow> rend r = None \<Longrightarrow> inv (out q r)"
begin

lemma round_keeps: "relayRound Q out q r = Some r' \<Longrightarrow> inv r \<Longrightarrow> inv r'"
  by (auto simp: relayRound_def Let_def fails_keeps input_keeps out_keeps split: if_splits option.splits)

end

sublocale relayer \<subseteq> machine "relayRound Q out" inv
  by unfold_locales (rule round_keeps)


lemma relayFails_unbuffer_inv:
  "unbuffer_inv Q t r \<Longrightarrow> rend r = None \<Longrightarrow> unbuffer_inv Q t (relayFails Q r)"
  by (auto simp: unbuffer_inv_def data_ok_def intro!: relayFails_term) (auto simp: term_ok_def)

interpretation unb: relayer Q "unbufferOutput Q" "unbuffer_inv Q t" for Q t
proof unfold_locales
  show "unbuffer_inv Q t (relayInput Q q r)" "unbuffer_inv Q t (unbufferOutput Q q r)"
    if "unbuffer_inv Q t r" "rend r = None" for r q
    using that relayInput_ok [of Q t r q] unbufferOutput_ok [of Q t r q] by (simp_all add: unbuffer_inv_def)
qed (rule relayFails_unbuffer_inv)

text \<open>A failure before \<open>atexit\<close>, and the start.\<close>

lemma relayFails_unhooked: "\<not> hooked r \<Longrightarrow> tattrs (relayFails Q r) = tattrs r"
  by (simp add: relayFails_def relayExit_def)

lemma relayRaw_term:
  assumes "ttyOrig r = t" "tattrs r = t" "rend r = None" "\<not> hooked r"
  shows "term_ok Q t (relayRaw Q r)"
  using assms by (auto simp: relayRaw_def ttySetRaw_def term_ok_def Let_def)

lemma relayRaw_data [simp]:
  "typedIn (relayRaw Q r) = typedIn r" "toPty (relayRaw Q r) = toPty r" "ptyOut (relayRaw Q r) = ptyOut r"
  "shown (relayRaw Q r) = shown r" "typescript (relayRaw Q r) = typescript r"
  by (simp_all add: relayRaw_def Let_def split: prod.splits)

lemma relay0_fields [simp]:
  "tattrs (relay0 t) = t" "hooked (relay0 t) = False" "rend (relay0 t) = None" "typedIn (relay0 t) = []"
  "toPty (relay0 t) = []" "ptyOut (relay0 t) = []" "shown (relay0 t) = []" "typescript (relay0 t) = []"
  by (simp_all add: relay0_def)

lemma empty_data: "typedIn r = [] \<Longrightarrow> toPty r = [] \<Longrightarrow> ptyOut r = [] \<Longrightarrow> shown r = [] \<Longrightarrow> data_ok r"
  by (simp add: data_ok_def)

lemma start_fails: "tattrs r = t \<Longrightarrow> \<not> hooked r \<Longrightarrow> term_ok Q t (relayFails Q r)"
  by (simp add: term_ok_def relayFails_unhooked)


lemma unbufferStart_inv: "unbuffer_inv Q t (fst (unbufferStart Q d s t))"
  unfolding unbuffer_inv_def
  by (auto simp: unbufferStart_def Let_def start_fails relayRaw_term empty_data split: option.splits)








text \<open>
  \<open>unbuffer\<close> keeps the same promises, and it is \<open>script\<close> without the file: as long as the file
  takes what is written to it, the programs do the same.
\<close>

lemma unbuffer_relays:
  assumes "unbuffer_run Q qs (fst (unbufferStart Q d s t)) = Some r"
  shows "data_ok r \<and> term_ok Q t r"
  using unb.run_inv [OF assms [unfolded unbufferRound_def] unbufferStart_inv] by (simp add: unbuffer_inv_def)

definition noFile :: "relay \<Rightarrow> relay" where
  "noFile r = r\<lparr>typescript := []\<rparr>"

lemma noFile_ends: "noFile (relayExit Q e r) = relayExit Q e (noFile r)" "noFile (relayFails Q r) = relayFails Q (noFile r)"
  "rend (noFile r) = rend r"
  by (simp_all add: noFile_def relayFails_def relayExit_def ttyReset_def)

lemma noFile_fields:
  "noFile (r\<lparr>typescript := x\<rparr>) = noFile r"
  "noFile (r\<lparr>ptyOut := a, shown := b\<rparr>) = (noFile r)\<lparr>ptyOut := a, shown := b\<rparr>"
  "noFile (r\<lparr>typedIn := a, toPty := b\<rparr>) = (noFile r)\<lparr>typedIn := a, toPty := b\<rparr>"
  "ptyOut (noFile r) = ptyOut r" "shown (noFile r) = shown r" "typedIn (noFile r) = typedIn r" "toPty (noFile r) = toPty r"
  by (simp_all add: noFile_def)

lemma noFile_input: "noFile (relayInput Q q r) = relayInput Q q (noFile r)"
  by (simp add: relayInput_def Let_def noFile_ends noFile_fields)

lemma noFile_output:
  assumes "q_script q = Some k" "BUF_SIZE \<le> k"
  shows "noFile (scriptOutput Q q r) = unbufferOutput Q q (noFile r)"
  using assms by (auto simp: scriptOutput_def unbufferOutput_def Let_def noFile_ends noFile_fields split: option.splits)

lemma script_is_unbuffer:
  assumes "\<And>q. q \<in> set qs \<Longrightarrow> \<exists>k\<ge>BUF_SIZE. q_script q = Some k"
  shows "map_option noFile (script_run Q qs r) = unbuffer_run Q qs (noFile r)"
  using assms
proof (induction qs arbitrary: r)
  case (Cons q qs)
  obtain k where k: "q_script q = Some k" "BUF_SIZE \<le> k" using Cons.prems [of q] by auto
  have "unbufferRound Q q (noFile r) = map_option noFile (scriptRound Q q r)"
    using noFile_output [OF k]
    by (auto simp: scriptRound_def unbufferRound_def relayRound_def Let_def noFile_ends(3) noFile_ends(2) [symmetric] noFile_input [symmetric]
        split: option.splits)
  moreover have "map_option noFile (script_run Q qs u) = unbuffer_run Q qs (noFile u)" for u
    using Cons.prems by (intro Cons.IH) simp
  ultimately show ?case by (cases "scriptRound Q q r") auto
qed simp

end
