(* ===== verification/SelfPipe.thy ===== *)
theory SelfPipe
  imports Machines GetNum
begin

text \<open>
  The self-pipe trick, \<open>altio/self_pipe.c\<close>: a program waits with \<open>select\<close> both for descriptors and
  for a signal, by a handler that writes to a pipe. The statements of the program are
  interleaved with calls of the handler.
\<close>

section \<open>The program\<close>

abbreviation (input) FD_SETSIZE :: int where "FD_SETSIZE \<equiv> 1024"

text \<open>The loop over the arguments. \<open>FD_SET\<close> is undefined for a negative descriptor.\<close>

fun fdLoop :: "string list \<Rightarrow> int \<Rightarrow> int list \<Rightarrow> (int \<times> int list) res" where
  "fdLoop [] nfds readfds = Ret (nfds, readfds)"
| "fdLoop (a # as) nfds readfds =
     (case getInt (Some a) 0 (Some ''fd'') of
        Inl _ \<Rightarrow> Exit EXIT_FAILURE
      | Inr fd \<Rightarrow>
          if fd \<ge> FD_SETSIZE then Exit EXIT_FAILURE
          else if fd < 0 then Undef
          else fdLoop as (if fd \<ge> nfds then fd + 1 else nfds) (fd # readfds))"

text \<open>
  \<open>SP_setup\<close> is everything before the handler is established, \<open>SP_check\<close> the test after \<open>select\<close>,
  \<open>SP_isset\<close> the test of the pipe, \<open>SP_read\<close> and \<open>SP_error\<close> the loop that empties the pipe.
\<close>

datatype sp_pc = SP_setup | SP_select | SP_check | SP_isset | SP_read | SP_error | SP_print

text \<open>
  The pipe has \<open>bytes\<close> bytes and room for \<open>room\<close>; \<open>fds\<close> is the set that is given to \<open>select\<close> and
  \<open>readfds\<close> the one that it leaves. \<open>report\<close> is the output. Three variables are not part of the
  program: \<open>calls\<close> counts the calls of the handler, \<open>early\<close> tells that there was one before
  \<open>select\<close> returned, and \<open>kerror\<close> that a system call failed in an unexpected way.
\<close>

record selfpipe =
  pfd0 :: int
  room :: nat
  bytes :: nat
  nfds :: int
  fds :: "int list"
  timeout :: bool
  spc :: sp_pc
  sperrno :: errno
  ready :: int
  readfds :: "int list"
  announced :: bool
  report :: "(int \<times> bool) list"
  sended :: "unit res option"
  killed :: bool
  calls :: nat
  early :: bool
  kerror :: bool

text \<open>
  The command line: a timeout, then descriptors. \<open>p\<close> is the read end that \<open>pipe\<close> will return; it
  is added to the set with \<open>FD_SET\<close> too.
\<close>

definition spStart :: "string list \<Rightarrow> int \<Rightarrow> nat \<Rightarrow> errno \<Rightarrow> selfpipe res" where
  "spStart argv p cap e =
     (if length argv < 2 \<or> argv ! 1 = ''--help'' then Exit EXIT_FAILURE
      else
        let pto = (argv ! 1 \<noteq> ''-'') in
        if pto \<and> (case getLong (Some (argv ! 1)) 0 (Some ''timeout'') of Inl _ \<Rightarrow> True | Inr _ \<Rightarrow> False) then Exit EXIT_FAILURE
        else case fdLoop (drop 2 argv) 0 [] of
          Ret (n, r) \<Rightarrow>
            if p \<ge> FD_SETSIZE then Undef
            else Ret \<lparr>pfd0 = p, room = cap, bytes = 0, nfds = max n (p + 1), fds = p # r, timeout = pto, spc = SP_setup, sperrno = e,
                 ready = 0, readfds = p # r, announced = False, report = [], sended = None, killed = False, calls = 0,
                 early = False, kerror = False\<rparr>
        | Exit x \<Rightarrow> Exit x
        | _ \<Rightarrow> Undef)"

text \<open>
  The handler: \<open>e\<close> is an error of \<open>write\<close> other than \<open>EAGAIN\<close>, which the nonblocking pipe gives when
  it is full.
\<close>

definition spHandler :: "errno option \<Rightarrow> selfpipe \<Rightarrow> selfpipe" where
  "spHandler e s =
     (let savedErrno = sperrno s;
          (r, s1) = (case e of
             Some n \<Rightarrow> (-1 :: int, s\<lparr>sperrno := n, kerror := True\<rparr>)
           | None \<Rightarrow> if bytes s < room s then (1, s\<lparr>bytes := bytes s + 1\<rparr>) else (-1, s\<lparr>sperrno := EAGAIN\<rparr>));
          s2 = s1\<lparr>calls := calls s + 1\<rparr>
      in if r = -1 \<and> sperrno s2 \<noteq> EAGAIN then s2\<lparr>sended := Some (Exit EXIT_FAILURE)\<rparr>
         else s2\<lparr>sperrno := savedErrno\<rparr>)"

text \<open>
  What a system call of the main program answers: it works, or it fails; \<open>select\<close> may find some of the
  other descriptors ready (none of them after a timeout).
\<close>

datatype answer = Works "int list" | Fails errno

definition readable :: "int list \<Rightarrow> selfpipe \<Rightarrow> int \<Rightarrow> bool" where
  "readable others s fd \<longleftrightarrow> fd < nfds s \<and> (if fd = pfd0 s then bytes s > 0 else fd \<in> set others)"

definition spSelect :: "answer \<Rightarrow> selfpipe \<Rightarrow> selfpipe option" where
  "spSelect a s =
     (case a of
        Fails e \<Rightarrow> Some (s\<lparr>ready := -1, sperrno := e, kerror := kerror s \<or> e \<noteq> EINTR, spc := SP_check\<rparr>)
      | Works others \<Rightarrow>
          let rs = filter (readable others s) (fds s) in
          if rs = [] \<and> \<not> timeout s then None
          else Some (s\<lparr>ready := int (card (set rs)), readfds := rs, early := (calls s > 0), spc := SP_check\<rparr>))"

text \<open>One statement of \<open>main\<close>.\<close>

definition spMain :: "answer \<Rightarrow> selfpipe \<Rightarrow> selfpipe option" where
  "spMain a s =
     (case spc s of
        SP_setup \<Rightarrow>
          (case a of
             Works _ \<Rightarrow> Some (s\<lparr>spc := SP_select\<rparr>)
           | Fails e \<Rightarrow> Some (s\<lparr>sperrno := e, kerror := True, sended := Some (Exit EXIT_FAILURE)\<rparr>))
      | SP_select \<Rightarrow> spSelect a s
      | SP_check \<Rightarrow>
          Some (if ready s = -1 \<and> sperrno s = EINTR then s\<lparr>spc := SP_select\<rparr>
                else if ready s = -1 then s\<lparr>sended := Some (Exit EXIT_FAILURE)\<rparr>
                else s\<lparr>spc := SP_isset\<rparr>)
      | SP_isset \<Rightarrow>
          Some (if pfd0 s \<in> set (readfds s) then s\<lparr>announced := True, spc := SP_read\<rparr> else s\<lparr>spc := SP_print\<rparr>)
      | SP_read \<Rightarrow>
          (case a of
             Fails e \<Rightarrow> Some (s\<lparr>sperrno := e, kerror := True, spc := SP_error\<rparr>)
           | Works _ \<Rightarrow>
               Some (if bytes s > 0 then s\<lparr>bytes := bytes s - 1\<rparr> else s\<lparr>sperrno := EAGAIN, spc := SP_error\<rparr>))
      | SP_error \<Rightarrow>
          Some (if sperrno s = EAGAIN then s\<lparr>spc := SP_print\<rparr> else s\<lparr>sended := Some (Exit EXIT_FAILURE)\<rparr>)
      | SP_print \<Rightarrow>
          Some (s\<lparr>report := map (\<lambda>fd. (fd, fd \<in> set (readfds s))) (rev (tl (fds s)) @ [pfd0 s]), sended := Some (Exit EXIT_SUCCESS)\<rparr>))"

text \<open>A signal calls the handler, or kills the process before the handler is established.\<close>

datatype sptick = SMain answer | SSignal "errno option"

definition spStep :: "sptick \<Rightarrow> selfpipe \<Rightarrow> selfpipe option" where
  "spStep c s =
     (if sended s \<noteq> None \<or> killed s \<or> c = SSignal (Some EAGAIN) then None
      else case c of
        SMain a \<Rightarrow> spMain a s
      | SSignal e \<Rightarrow> Some (if spc s = SP_setup then s\<lparr>killed := True\<rparr> else spHandler e s))"

abbreviation sp_run :: "sptick list \<Rightarrow> selfpipe \<Rightarrow> selfpipe option" where
  "sp_run \<equiv> run_steps spStep"

section \<open>The set of descriptors\<close>

text \<open>The loop collects the descriptors, all of them below \<open>nfds\<close>.\<close>

lemma fdLoop_bound:
  "fdLoop as n r = Ret (n', r') \<Longrightarrow> \<forall>fd\<in>set r. 0 \<le> fd \<and> fd < n \<Longrightarrow> \<forall>fd\<in>set r'. 0 \<le> fd \<and> fd < n'"
proof (induction as arbitrary: n r)
  case (Cons a as)
  from Cons.prems(1) obtain fd where fd: "0 \<le> fd" "fdLoop as (if fd \<ge> n then fd + 1 else n) (fd # r) = Ret (n', r')"
    by (cases "getInt (Some a) 0 (Some ''fd'')") (auto simp: not_less split: if_splits)
  show ?case by (rule Cons.IH [OF fd(2)]) (use Cons.prems(2) fd(1) in auto)
qed simp

section \<open>No signal is missed\<close>

text \<open>\<open>select\<close> has not yet returned with success.\<close>

definition waiting :: "selfpipe \<Rightarrow> bool" where
  "waiting s \<longleftrightarrow> spc s = SP_setup \<or> spc s = SP_select \<or> spc s = SP_check \<and> ready s = -1"

text \<open>The set of descriptors, the pipe until \<open>select\<close> returns, and what is known afterwards.\<close>

definition sp_set :: "selfpipe \<Rightarrow> bool" where
  "sp_set s \<longleftrightarrow> pfd0 s \<in> set (fds s) \<and> (\<forall>fd\<in>set (fds s). fd < nfds s) \<and> 0 < room s"

definition sp_pipe :: "selfpipe \<Rightarrow> bool" where
  "sp_pipe s \<longleftrightarrow>
     (if waiting s then \<not> announced s \<and> \<not> early s \<and> (0 < bytes s \<longleftrightarrow> 0 < calls s)
      else if spc s = SP_check \<or> spc s = SP_isset then \<not> announced s \<and> (pfd0 s \<in> set (readfds s) \<longleftrightarrow> early s)
      else announced s = early s)"

text \<open>The value of \<open>errno\<close> wherever the program looks at it.\<close>

definition sp_errno :: "selfpipe \<Rightarrow> bool" where
  "sp_errno s \<longleftrightarrow> (spc s = SP_check \<and> ready s = -1 \<longrightarrow> sperrno s = EINTR) \<and> (spc s = SP_error \<longrightarrow> sperrno s = EAGAIN)"

definition sp_inv :: "selfpipe \<Rightarrow> bool" where
  "sp_inv s \<longleftrightarrow> sp_set s \<and> (early s \<longrightarrow> 0 < calls s) \<and> (spc s = SP_setup \<longrightarrow> calls s = 0) \<and>
     (sended s = None \<longrightarrow> sp_pipe s) \<and> (sended s = Some (Exit EXIT_SUCCESS) \<longrightarrow> announced s = early s) \<and>
     (\<not> kerror s \<longrightarrow> sp_errno s \<and> sended s \<noteq> Some (Exit EXIT_FAILURE))"

lemma spSelect_inv:
  assumes step: "spSelect a s = Some s'" and inv: "sp_inv s" and run: "sended s = None" and pc: "spc s = SP_select"
  shows "sp_inv s'"
proof (cases a)
  case (Works others)
  define rs where "rs = filter (readable others s) (fds s)"
  have s': "s' = s\<lparr>ready := int (card (set rs)), readfds := rs, early := (calls s > 0), spc := SP_check\<rparr>"
    using step Works by (simp add: spSelect_def Let_def rs_def split: if_splits)
  have pipe: "sp_set s" "\<not> announced s" "0 < bytes s \<longleftrightarrow> 0 < calls s" "\<not> kerror s \<longrightarrow> sp_errno s"
    using inv run pc by (simp_all add: sp_inv_def sp_pipe_def waiting_def)
  then have "pfd0 s \<in> set rs \<longleftrightarrow> 0 < calls s" by (auto simp: rs_def sp_set_def readable_def)
  with pipe(2) have "sp_pipe s'" by (simp add: s' sp_pipe_def waiting_def)
  moreover have "sp_set s'" using pipe(1) by (simp add: s' sp_set_def)
  moreover have "ready s' \<noteq> -1" "spc s' = SP_check" by (simp_all add: s')
  then have "sp_errno s'" by (simp add: sp_errno_def)
  ultimately show ?thesis using run by (simp add: sp_inv_def s')
next
  case (Fails e)
  have s': "s' = s\<lparr>ready := -1, sperrno := e, kerror := kerror s \<or> e \<noteq> EINTR, spc := SP_check\<rparr>"
    using step Fails by (simp add: spSelect_def)
  have "sp_pipe s'" "sp_set s'" using inv run pc by (simp_all add: s' sp_inv_def sp_pipe_def waiting_def sp_set_def)
  moreover have "\<not> kerror s' \<longrightarrow> sp_errno s'" by (simp add: s' sp_errno_def)
  moreover have "early s \<longrightarrow> 0 < calls s" using inv by (simp add: sp_inv_def)
  ultimately show ?thesis using run by (simp add: sp_inv_def s')
qed

lemma spMain_inv:
  assumes step: "spMain a s = Some s'" and inv: "sp_inv s" and run: "sended s = None"
  shows "sp_inv s'"
proof -
  have *: "sp_set s" "sp_pipe s" "early s \<longrightarrow> 0 < calls s" "spc s = SP_setup \<longrightarrow> calls s = 0" "\<not> kerror s \<longrightarrow> sp_errno s"
    using inv run by (simp_all add: sp_inv_def)
  note defs = spMain_def sp_inv_def sp_pipe_def sp_errno_def waiting_def sp_set_def
  show ?thesis
  proof (cases "spc s")
    case SP_setup then show ?thesis using step run * by (cases a) (auto simp: defs)
  next
    case SP_select then show ?thesis using spSelect_inv step inv run by (simp add: spMain_def)
  next
    case SP_check then show ?thesis using step run * by (auto simp: defs split: if_splits)
  next
    case SP_isset then show ?thesis using step run * by (auto simp: defs split: if_splits)
  next
    case SP_read then show ?thesis using step run * by (cases a) (auto simp: defs split: if_splits)
  next
    case SP_error then show ?thesis using step run * by (auto simp: defs split: if_splits)
  next
    case SP_print then show ?thesis using step run * by (auto simp: defs)
  qed
qed

lemma spHandler_inv:
  assumes inv: "sp_inv s" and run: "sended s = None" and pc: "spc s \<noteq> SP_setup" "e \<noteq> Some EAGAIN"
  shows "sp_inv (spHandler e s)"
proof -
  have *: "sp_set s" "sp_pipe s" "\<not> kerror s \<longrightarrow> sp_errno s" using inv run by (simp_all add: sp_inv_def)
  note defs = spHandler_def sp_inv_def sp_pipe_def sp_errno_def waiting_def sp_set_def Let_def
  show ?thesis
  proof (cases e)
    case None
    then show ?thesis using run pc * by (cases "bytes s < room s") (simp_all add: defs split: if_splits)
  next
    case (Some n)
    then show ?thesis using run pc * by (simp add: defs)
  qed
qed

lemma spStep_inv: "spStep c s = Some s' \<Longrightarrow> sp_inv s \<Longrightarrow> sp_inv s'"
proof (cases c)
  case (SMain a)
  then show "spStep c s = Some s' \<Longrightarrow> sp_inv s \<Longrightarrow> sp_inv s'" by (auto simp: spStep_def intro: spMain_inv split: if_splits)
next
  case (SSignal e)
  have "sp_inv (s\<lparr>killed := True\<rparr>) = sp_inv s"
    by (simp add: sp_inv_def sp_set_def sp_pipe_def sp_errno_def waiting_def)
  with SSignal show "spStep c s = Some s' \<Longrightarrow> sp_inv s \<Longrightarrow> sp_inv s'"
    by (auto simp: spStep_def intro!: spHandler_inv split: if_splits)
qed

section \<open>The program ends\<close>

text \<open>What is left to do; failed calls and signals add to it.\<close>

fun rank :: "sp_pc \<Rightarrow> int \<Rightarrow> nat" where
  "rank SP_setup _ = 7"
| "rank SP_select _ = 6"
| "rank SP_check r = (if r = -1 then 7 else 5)"
| "rank SP_isset _ = 4"
| "rank SP_read _ = 3"
| "rank SP_error _ = 2"
| "rank SP_print _ = 1"

definition sp_work :: "selfpipe \<Rightarrow> nat" where
  "sp_work s = (if sended s \<noteq> None \<or> killed s then 0 else rank (spc s) (ready s) + bytes s)"

fun sp_slack :: "sptick \<Rightarrow> nat" where
  "sp_slack (SMain (Works _)) = 0"
| "sp_slack _ = 2"

lemma spStep_work: "spStep c s = Some s' \<Longrightarrow> sp_work s' < sp_work s + sp_slack c"
proof (cases c)
  case (SMain a)
  assume "spStep c s = Some s'"
  then have run: "sended s = None" "\<not> killed s" "spMain a s = Some s'" using SMain by (auto simp: spStep_def split: if_splits)
  show ?thesis unfolding SMain using run
    by (cases "spc s"; cases a) (auto simp: spMain_def spSelect_def sp_work_def Let_def split: if_splits)
next
  case (SSignal e)
  assume "spStep c s = Some s'"
  then show ?thesis using SSignal
    by (auto simp: spStep_def sp_work_def spHandler_def Let_def split: if_splits option.splits)
qed

interpretation sp: bounded_machine spStep sp_inv sp_work sp_slack
  by unfold_locales (auto intro: spStep_inv spStep_work)

definition setback :: "sptick \<Rightarrow> bool" where
  "setback c \<longleftrightarrow> (\<forall>others. c \<noteq> SMain (Works others))"

lemma sp_slack_eq: "sp_slack c = (if setback c then 2 else 0)"
  by (cases c rule: sp_slack.cases) (auto simp: setback_def)

lemma sp_slack_sum: "sum_list (map sp_slack ts) = 2 * length (filter setback ts)"
  by (induction ts) (auto simp: sp_slack_eq)

lemma spStart_inv:
  assumes "spStart argv p cap e = Ret s" "0 < cap"
  shows "sp_inv s" "sp_work s = 7"
proof -
  obtain n r where l: "fdLoop (drop 2 argv) 0 [] = Ret (n, r)"
    and s: "pfd0 s = p" "room s = cap" "bytes s = 0" "nfds s = max n (p + 1)" "fds s = p # r" "spc s = SP_setup" "announced s = False"
      "sended s = None" "killed s = False" "calls s = 0" "early s = False" "kerror s = False"
    using assms(1) by (cases "fdLoop (drop 2 argv) 0 []") (auto simp: spStart_def Let_def split: if_splits)
  from fdLoop_bound [OF l] have "\<forall>fd\<in>set r. fd < n" by simp
  then have "sp_set s" using assms(2) by (auto simp: sp_set_def s)
  then show "sp_inv s" "sp_work s = 7" by (simp_all add: sp_inv_def sp_pipe_def sp_errno_def waiting_def sp_work_def s)
qed

text \<open>A call of the handler makes \<open>select\<close> return at once, with the pipe in its set.\<close>

lemma select_returns:
  assumes "sp_inv s" "sended s = None" "\<not> killed s" "spc s = SP_select" "0 < calls s"
  shows "\<exists>s'. spStep (SMain (Works others)) s = Some s' \<and> pfd0 s \<in> set (readfds s') \<and> early s'"
proof -
  have "0 < bytes s" "sp_set s" using assms by (simp_all add: sp_inv_def sp_pipe_def waiting_def)
  then have "pfd0 s \<in> set (filter (readable others s) (fds s))" by (auto simp: readable_def sp_set_def)
  then have "filter (readable others s) (fds s) \<noteq> []" by force
  with \<open>pfd0 s \<in> _\<close> assms show ?thesis by (simp add: spStep_def spMain_def spSelect_def Let_def del: set_filter)
qed

lemma spMain_not_stuck: "spc s \<noteq> SP_select \<Longrightarrow> spMain a s \<noteq> None"
  by (cases "spc s"; cases a) (auto simp: spMain_def)

text \<open>
  C22. The self-pipe trick works. For every interleaving of the program with signals, and whatever the system calls
  answer: when the program has ended with success it has announced a signal exactly if the
  handler was called before \<open>select\<close> returned; it ends with failure only after an unexpected
  error of a system call, although the handler runs between a system call and the test of
  \<open>errno\<close>; once the handler has been called \<open>select\<close> does not block, and the program is never
  blocked elsewhere. A run is at most seven steps long, apart from two for each signal and each
  failed call.
\<close>

theorem self_pipe_no_signal_missed:
  assumes "spStart argv p cap e = Ret s0" and "0 < cap" and "sp_run ts s0 = Some s"
  shows "(sended s = Some (Exit EXIT_SUCCESS) \<longrightarrow> (announced s \<longleftrightarrow> early s)) \<and>
    (sended s = Some (Exit EXIT_FAILURE) \<longrightarrow> kerror s) \<and>
    (sended s = None \<and> \<not> killed s \<and> spc s = SP_select \<and> 0 < calls s \<longrightarrow>
       (\<forall>others. \<exists>s'. spStep (SMain (Works others)) s = Some s' \<and> pfd0 s \<in> set (readfds s') \<and> early s')) \<and>
    (sended s = None \<and> \<not> killed s \<and> spc s \<noteq> SP_select \<longrightarrow> (\<forall>a. spStep (SMain a) s \<noteq> None)) \<and>
    length ts \<le> 7 + 2 * length (filter setback ts)"
proof -
  note s0 = spStart_inv [OF assms(1,2)]
  have inv: "sp_inv s" by (rule sp.run_inv [OF assms(3) s0(1)])
  have "length ts \<le> 7 + 2 * length (filter setback ts)"
    using sp.run_bound [OF assms(3) s0(1)] by (simp add: s0(2) sp_slack_sum)
  moreover have "sended s = Some (Exit EXIT_SUCCESS) \<longrightarrow> announced s = early s" "sended s = Some (Exit EXIT_FAILURE) \<longrightarrow> kerror s"
    using inv by (auto simp: sp_inv_def)
  moreover have "\<forall>a. spStep (SMain a) s \<noteq> None" if "sended s = None" "\<not> killed s" "spc s \<noteq> SP_select"
    using spMain_not_stuck that by (simp add: spStep_def)
  ultimately show ?thesis using select_returns [OF inv] by blast
qed

text \<open>A signal interrupts \<open>select\<close>, and another one comes while the pipe is emptied.\<close>

definition demo_ticks :: "sptick list" where
  "demo_ticks = [SMain (Works []), SSignal None, SMain (Fails EINTR), SMain (Works []), SMain (Works []), SMain (Works []),
     SMain (Works []), SMain (Works []), SSignal None, SMain (Works []), SMain (Works []), SMain (Works []), SMain (Works [])]"

theorem self_pipe_no_signal_missed_witness:
  "\<exists>s0 s. spStart [''self_pipe'', ''-'', ''0''] 3 4 0 = Ret s0 \<and> sp_run demo_ticks s0 = Some s \<and>
     sended s = Some (Exit EXIT_SUCCESS) \<and> calls s = 2 \<and> announced s \<and> report s = [(0, False), (3, True)] \<and>
     length demo_ticks \<le> 7 + 2 * length (filter setback demo_ticks)"
proof -
  have "getInt (Some ''0'') 0 (Some ''fd'') = Inr 0" by code_simp
  then obtain s0 where s0: "spStart [''self_pipe'', ''-'', ''0''] 3 4 0 = Ret s0" by (simp add: spStart_def Let_def)
  have "(case spStart [''self_pipe'', ''-'', ''0''] 3 4 0 of Ret s0 \<Rightarrow>
      map_option (\<lambda>s. (sended s, calls s, early s, report s)) (sp_run demo_ticks s0) | _ \<Rightarrow> None) =
      Some (Some (Exit 0), 2, True, [(0, False), (3, True)])"
    by code_simp
  then obtain s where s: "sp_run demo_ticks s0 = Some s" "sended s = Some (Exit 0)" "calls s = 2" "early s" "report s = [(0, False), (3, True)]"
    by (auto simp: s0)
  from self_pipe_no_signal_missed [OF s0 _ s(1)] s s0 show ?thesis by auto
qed

text \<open>A negative descriptor is not refused.\<close>

lemma negative_fd_undefined: "spStart [''self_pipe'', ''-'', ''-1''] 3 1 0 = Undef"
  by code_simp

end
