(* ===== verification/SeekIO.thy ===== *)
theory SeekIO
  imports GetNum
begin

text \<open>
  \<open>fileio/seek_io.c\<close>: reading, writing and seeking in a file as the arguments say. A file is the
  list of its bytes here; the specification is a size and a function from positions to bytes, in which
  positions that were never written are zero.
\<close>

section \<open>The program\<close>

abbreviation (input) MAX_RW_COUNT :: nat where "MAX_RW_COUNT \<equiv> 0x7ffff000"
abbreviation (input) NUL :: char where "NUL \<equiv> CHR 0x00"

record seekio =
  content :: string
  offset :: nat
  printed :: string

text \<open>What the kernel answers for one argument: whether memory is there, whether \<open>read\<close> and \<open>lseek\<close> work,
  and how many bytes \<open>write\<close> takes (\<open>None\<close> for an error).\<close>

record seekos =
  k_malloc :: "nat \<Rightarrow> bool"
  k_read :: bool
  k_write :: "nat option"
  k_lseek :: bool

definition readAt :: "nat \<Rightarrow> nat \<Rightarrow> string \<Rightarrow> string" where
  "readAt off len c = take (min len MAX_RW_COUNT) (drop off c)"

text \<open>A write beyond the end leaves a hole of null bytes; a write of no bytes does nothing.\<close>

definition writeAt :: "nat \<Rightarrow> string \<Rightarrow> string \<Rightarrow> string" where
  "writeAt off bs c =
     (if bs = [] then c else take off (c @ replicate (off - length c) NUL) @ bs @ drop (off + length bs) c)"

definition isprint :: "char \<Rightarrow> bool" where
  "isprint c \<longleftrightarrow> (let n = (of_char c :: nat) in 32 \<le> n \<and> n \<le> 126)"

definition hexDigit :: "nat \<Rightarrow> char" where
  "hexDigit d = (if d < 10 then char_of (48 + d) else char_of (87 + d))"

text \<open>What is displayed for a byte: text or \<open>%02x\<close> and a space.\<close>

definition showByte :: "bool \<Rightarrow> char \<Rightarrow> string" where
  "showByte hex b =
     (if hex then let n = (of_char b :: nat) in [hexDigit (n div 16), hexDigit (n mod 16), CHR '' '']
      else [if isprint b then b else CHR ''?''])"

definition showRead :: "string \<Rightarrow> bool \<Rightarrow> string \<Rightarrow> string" where
  "showRead arg hex buf =
     (if buf = [] then arg @ '': end-of-file'' @ [CHR 0x0A]
      else arg @ '': '' @ concat (map (showByte hex) buf) @ [CHR 0x0A])"

definition showWrite :: "string \<Rightarrow> nat \<Rightarrow> string" where
  "showWrite arg n = arg @ '': wrote '' @ show_nat n @ '' bytes'' @ [CHR 0x0A]"

definition showSeek :: "string \<Rightarrow> string" where
  "showSeek arg = arg @ '': seek succeeded'' @ [CHR 0x0A]"

text \<open>The cases of the \<open>switch\<close>. \<open>len\<close> is a \<open>size_t\<close> of 64 bits.\<close>

definition seekRead :: "seekos \<Rightarrow> string \<Rightarrow> seekio \<Rightarrow> unit res \<times> seekio" where
  "seekRead K arg s =
     (case getLong (Some (tl arg)) GN_ANY_BASE (Some arg) of
        Inl _ \<Rightarrow> (Exit EXIT_FAILURE, s)
      | Inr v \<Rightarrow>
          let len = nat (v mod 18446744073709551616) in
          if \<not> k_malloc K len then (Exit EXIT_FAILURE, s)
          else if \<not> k_read K then (Exit EXIT_FAILURE, s)
          else
            let buf = readAt (offset s) len (content s) in
            (Ret (), s\<lparr>offset := offset s + length buf, printed := printed s @ showRead arg (hd arg = CHR ''R'') buf\<rparr>))"

definition seekWrite :: "seekos \<Rightarrow> string \<Rightarrow> seekio \<Rightarrow> unit res \<times> seekio" where
  "seekWrite K arg s =
     (case k_write K of
        None \<Rightarrow> (Exit EXIT_FAILURE, s)
      | Some k \<Rightarrow>
          let bs = take k (tl arg) in
          (Ret (), s\<lparr>content := writeAt (offset s) bs (content s), offset := offset s + length bs,
                     printed := printed s @ showWrite arg (length bs)\<rparr>))"

definition seekSeek :: "seekos \<Rightarrow> string \<Rightarrow> seekio \<Rightarrow> unit res \<times> seekio" where
  "seekSeek K arg s =
     (case getLong (Some (tl arg)) GN_ANY_BASE (Some arg) of
        Inl _ \<Rightarrow> (Exit EXIT_FAILURE, s)
      | Inr v \<Rightarrow>
          if v < 0 \<or> \<not> k_lseek K then (Exit EXIT_FAILURE, s)
          else (Ret (), s\<lparr>offset := nat v, printed := printed s @ showSeek arg\<rparr>))"

definition seekArg :: "seekos \<Rightarrow> string \<Rightarrow> seekio \<Rightarrow> unit res \<times> seekio" where
  "seekArg K arg s =
     (case arg of
        [] \<Rightarrow> (Exit EXIT_FAILURE, s)
      | c # _ \<Rightarrow>
          if c = CHR ''r'' \<or> c = CHR ''R'' then seekRead K arg s
          else if c = CHR ''w'' then seekWrite K arg s
          else if c = CHR ''s'' then seekSeek K arg s
          else (Exit EXIT_FAILURE, s))"

text \<open>The loop over the arguments, each with the kernel's answers, and the program. \<open>file\<close> is the file if it can be opened.\<close>

fun seekLoop :: "(string \<times> seekos) list \<Rightarrow> seekio \<Rightarrow> unit res \<times> seekio" where
  "seekLoop [] s = (Ret (), s)"
| "seekLoop ((arg, K) # as) s = seq_res (seekArg K arg) (\<lambda>_. seekLoop as) s"

definition seekMain :: "string option \<Rightarrow> bool \<Rightarrow> string \<Rightarrow> (string \<times> seekos) list \<Rightarrow> unit res \<times> seekio" where
  "seekMain opened closeOk fname args =
     (let s = \<lparr>content = (case opened of None \<Rightarrow> [] | Some c \<Rightarrow> c), offset = 0, printed = []\<rparr> in
      if args = [] \<or> fname = ''--help'' then (Exit EXIT_FAILURE, s)
      else if opened = None then (Exit EXIT_FAILURE, s)
      else seq_res (seekLoop args) (\<lambda>_ t. (if closeOk then Exit EXIT_SUCCESS else Exit EXIT_FAILURE, t)) s)"

section \<open>The specification\<close>

text \<open>Operations on a file that is a size and a byte for each position.\<close>

datatype op = Read nat | ReadHex nat | Write string | Seek nat

record sparse =
  bsize :: nat
  byte :: "nat \<Rightarrow> char"
  pos :: nat
  said :: string

fun showOp :: "op \<Rightarrow> string" where
  "showOp (Read n) = CHR ''r'' # show_nat n"
| "showOp (ReadHex n) = CHR ''R'' # show_nat n"
| "showOp (Write bs) = CHR ''w'' # bs"
| "showOp (Seek n) = CHR ''s'' # show_nat n"

definition bytesAt :: "sparse \<Rightarrow> nat \<Rightarrow> string" where
  "bytesAt f n = map (byte f) [pos f ..< min (pos f + n) (bsize f)]"

fun doOp :: "op \<Rightarrow> sparse \<Rightarrow> sparse" where
  "doOp (Read n) f = f\<lparr>pos := pos f + length (bytesAt f n), said := said f @ showRead (showOp (Read n)) False (bytesAt f n)\<rparr>"
| "doOp (ReadHex n) f = f\<lparr>pos := pos f + length (bytesAt f n), said := said f @ showRead (showOp (ReadHex n)) True (bytesAt f n)\<rparr>"
| "doOp (Write bs) f = f\<lparr>
     bsize := (if bs = [] then bsize f else max (bsize f) (pos f + length bs)),
     byte := (\<lambda>i. if pos f \<le> i \<and> i < pos f + length bs then bs ! (i - pos f) else byte f i),
     pos := pos f + length bs, said := said f @ showWrite (showOp (Write bs)) (length bs)\<rparr>"
| "doOp (Seek n) f = f\<lparr>pos := n, said := said f @ showSeek (showOp (Seek n))\<rparr>"

definition bytesOf :: "string \<Rightarrow> nat \<Rightarrow> char" where
  "bytesOf c i = (if i < length c then c ! i else NUL)"

definition absFile :: "seekio \<Rightarrow> sparse" where
  "absFile s = \<lparr>bsize = length (content s), byte = bytesOf (content s),
     pos = offset s, said = printed s\<rparr>"

section \<open>The program implements the specification\<close>

lemma show_nat_leading: "0 < n \<Longrightarrow> hd (show_nat n) \<noteq> CHR ''0''"
proof (induction n rule: show_nat.induct)
  case (1 n)
  have ne: "digit_char n \<noteq> CHR ''0''" if "n < 10" using that 1(2) digitval_digit_char [of n]
    by (auto simp: digitval_def Let_def)
  show ?case
  proof (cases "n < 10")
    case True
    then show ?thesis using ne by (subst show_nat.simps) simp
  next
    case False
    then have "hd (show_nat (n div 10)) \<noteq> CHR ''0''" using 1(1) by simp
    with False show ?thesis by (subst show_nat.simps) (simp add: hd_append)
  qed
qed

lemma strtol_base_0: "s \<noteq> [] \<Longrightarrow> hd s \<noteq> CHR ''0'' \<Longrightarrow> strtol_base 0 s = (10, s)"
  by (auto simp: strtol_base_def split: list.splits)

text \<open>A number in decimal notation means the same when the base is found out.\<close>

lemma strtol_any_base:
  assumes "int n \<le> LONG_MAX"
  shows "strtol (show_nat n) 0 = (int n, [], False)"
proof (cases "n = 0")
  case True
  have "strtol ''0'' 0 = (0, [], False)" by code_simp
  moreover have "show_nat 0 = ''0''" by code_simp
  ultimately show ?thesis using True by simp
next
  case False
  obtain c cs where cs: "show_nat n = c # cs" by (cases "show_nat n") auto
  have c: "isdigitb 10 c" "c \<noteq> CHR ''0''" using show_nat_all_digits [of n] show_nat_leading [of n] False cs by simp_all
  have "strtol_sign (dropWhile isspace (show_nat n)) = (False, show_nat n)"
    using isdigitb_10_not_space [OF c(1)] isdigitb_10_not_sign [OF c(1)] cs by (simp add: strtol_sign_def)
  moreover have "strtol_base 0 (show_nat n) = (10, show_nat n)" by (rule strtol_base_0) (simp_all add: cs c)
  moreover have "takeWhile (isdigitb 10) (show_nat n) = show_nat n" "dropWhile (isdigitb 10) (show_nat n) = []"
    using takeWhile_show_nat [of "[]" n] by (simp_all only: append_Nil2 simp_thms)
  ultimately show ?thesis using assms by (simp only: strtol_def Let_def prod.case digits_value_show_nat) simp
qed

lemma getLong_show: "int n \<le> LONG_MAX \<Longrightarrow> getLong (Some (show_nat n)) GN_ANY_BASE name = Inr (int n)"
  by (simp add: getLong_def getNum_Inr_iff strtol_any_base sign_ok_def gn_base_def)

lemma writeAt_length: "bs \<noteq> [] \<Longrightarrow> length (writeAt off bs c) = max (length c) (off + length bs)"
  by (auto simp: writeAt_def)

lemma writeAt_nth:
  assumes "i < length (writeAt off bs c)"
  shows "writeAt off bs c ! i =
    (if off \<le> i \<and> i < off + length bs then bs ! (i - off) else if i < length c then c ! i else NUL)"
  using assms by (auto simp: writeAt_def nth_append min_def)

text \<open>The kernel does what it is asked for this operation.\<close>

fun granted :: "op \<Rightarrow> seekos \<Rightarrow> bool" where
  "granted (Read n) K = (n \<le> MAX_RW_COUNT \<and> k_malloc K n \<and> k_read K)"
| "granted (ReadHex n) K = (n \<le> MAX_RW_COUNT \<and> k_malloc K n \<and> k_read K)"
| "granted (Write bs) K = (\<exists>k. k_write K = Some k \<and> length bs \<le> k)"
| "granted (Seek n) K = (int n \<le> LONG_MAX \<and> k_lseek K)"

lemma readAt_bytes: "n \<le> MAX_RW_COUNT \<Longrightarrow> readAt (offset s) n (content s) = bytesAt (absFile s) n"
  by (rule nth_equalityI) (auto simp: readAt_def bytesAt_def absFile_def bytesOf_def)

lemma absFile_write:
  "absFile (s\<lparr>content := writeAt (offset s) bs (content s), offset := offset s + length bs, printed := x\<rparr>) =
   (absFile s)\<lparr>bsize := (if bs = [] then bsize (absFile s) else max (bsize (absFile s)) (pos (absFile s) + length bs)),
     byte := (\<lambda>i. if pos (absFile s) \<le> i \<and> i < pos (absFile s) + length bs then bs ! (i - pos (absFile s)) else byte (absFile s) i),
     pos := pos (absFile s) + length bs, said := x\<rparr>"
proof (cases "bs = []")
  case True
  then show ?thesis by (auto simp: absFile_def writeAt_def bytesOf_def fun_eq_iff)
next
  case False
  then show ?thesis using writeAt_nth [of _ "offset s" bs "content s"]
    by (auto simp: absFile_def writeAt_length bytesOf_def fun_eq_iff)
qed

lemma absFile_move [simp]: "absFile (s\<lparr>offset := a, printed := x\<rparr>) = (absFile s)\<lparr>pos := a, said := x\<rparr>"
  by (simp add: absFile_def)

lemma absFile_fields [simp]: "pos (absFile s) = offset s" "said (absFile s) = printed s"
  by (simp_all add: absFile_def)

lemma seekArg_refines:
  assumes "granted p K"
  shows "\<exists>s'. seekArg K (showOp p) s = (Ret (), s') \<and> absFile s' = doOp p (absFile s)"
proof (cases p)
  case (Read n)
  with assms have n: "n \<le> MAX_RW_COUNT" "nat (int n mod 18446744073709551616) = n" by simp_all
  with Read assms show ?thesis
    by (simp add: seekArg_def seekRead_def getLong_show readAt_bytes Let_def)
next
  case (ReadHex n)
  with assms have n: "n \<le> MAX_RW_COUNT" "nat (int n mod 18446744073709551616) = n" by simp_all
  with ReadHex assms show ?thesis
    by (simp add: seekArg_def seekRead_def getLong_show readAt_bytes Let_def)
next
  case (Write bs)
  with assms obtain k where "k_write K = Some k" "length bs \<le> k" by auto
  with Write have "seekArg K (showOp p) s = (Ret (), s\<lparr>content := writeAt (offset s) bs (content s),
      offset := offset s + length bs, printed := printed s @ showWrite (showOp p) (length bs)\<rparr>)"
    by (simp add: seekArg_def seekWrite_def)
  moreover have "absFile (s\<lparr>content := writeAt (offset s) bs (content s), offset := offset s + length bs,
      printed := printed s @ showWrite (showOp p) (length bs)\<rparr>) = doOp p (absFile s)"
    by (simp only: absFile_write Write doOp.simps absFile_fields)
  ultimately show ?thesis by blast
next
  case (Seek n)
  with assms show ?thesis by (simp add: seekArg_def seekSeek_def getLong_show)
qed

lemma seekLoop_refines:
  assumes "list_all2 granted ps Ks"
  shows "\<exists>s'. seekLoop (zip (map showOp ps) Ks) s = (Ret (), s') \<and> absFile s' = fold doOp ps (absFile s)"
  using assms
proof (induction ps Ks arbitrary: s rule: list_all2_induct)
  case (Cons p ps K Ks)
  obtain u where u: "seekArg K (showOp p) s = (Ret (), u)" "absFile u = doOp p (absFile s)"
    using seekArg_refines [OF Cons(1)] by blast
  obtain s' where "seekLoop (zip (map showOp ps) Ks) u = (Ret (), s')" "absFile s' = fold doOp ps (absFile u)"
    using Cons.IH by blast
  with u show ?case by (simp add: seq_res_def)
qed simp

text \<open>
  C23. Files with holes: when the system calls work, the program carries out any list of operations, written as
  arguments with decimal numbers, as the specification says: reads give what was last written
  at each position and zero where nothing was written, they end at the size of the file, a write
  beyond the end extends the file (and one of no bytes does not), and every operation continues
  at the position where the one before stopped. The program ends with success, and its output is
  the one of the specification.
\<close>

theorem seek_io_refines:
  assumes "list_all2 granted ps Ks" and "ps \<noteq> []" and "fname \<noteq> ''--help''"
  shows "\<exists>s. seekMain (Some c) True fname (zip (map showOp ps) Ks) = (Exit EXIT_SUCCESS, s) \<and>
    absFile s = fold doOp ps \<lparr>bsize = length c, byte = bytesOf c, pos = 0, said = []\<rparr>"
proof -
  let ?s = "\<lparr>content = c, offset = 0, printed = []\<rparr>"
  from seekLoop_refines [OF assms(1), of ?s] obtain s
    where s: "seekLoop (zip (map showOp ps) Ks) ?s = (Ret (), s)" "absFile s = fold doOp ps (absFile ?s)" by blast
  have "zip (map showOp ps) Ks \<noteq> []" using assms(1,2) by (cases ps; cases Ks) auto
  with s assms(3) show ?thesis by (simp add: seekMain_def seq_res_def absFile_def [of ?s])
qed

text \<open>Bytes are written after the end of a file of one byte, and the hole is read.\<close>

definition demo_seekos :: seekos where
  "demo_seekos = \<lparr>k_malloc = (\<lambda>_. True), k_read = True, k_write = Some 100, k_lseek = True\<rparr>"

definition demo_ops :: "op list" where
  "demo_ops = [Seek 3, Write ''yz'', Seek 0, ReadHex 4, Read 9]"

theorem seek_io_refines_witness:
  "\<exists>s. seekMain (Some ''x'') True ''f'' (zip (map showOp demo_ops) [demo_seekos, demo_seekos, demo_seekos, demo_seekos, demo_seekos]) = (Exit EXIT_SUCCESS, s) \<and>
     bsize (absFile s) = 5 \<and> byte (absFile s) 0 = CHR ''x'' \<and> byte (absFile s) 1 = NUL \<and> byte (absFile s) 4 = CHR ''z'' \<and> pos (absFile s) = 5"
proof -
  let ?f = "\<lparr>bsize = length ''x'', byte = bytesOf ''x'', pos = 0, said = []\<rparr>"
  have g: "list_all2 granted demo_ops [demo_seekos, demo_seekos, demo_seekos, demo_seekos, demo_seekos]"
    by (simp add: demo_ops_def demo_seekos_def)
  have "demo_ops \<noteq> []" by (simp add: demo_ops_def)
  from seek_io_refines [OF g this, of "''f''" "''x''"] obtain s
    where s: "seekMain (Some ''x'') True ''f'' (zip (map showOp demo_ops) [demo_seekos, demo_seekos, demo_seekos, demo_seekos, demo_seekos]) = (Exit EXIT_SUCCESS, s)"
      "absFile s = fold doOp demo_ops ?f" by auto
  have "(let f = absFile s in (bsize f, byte f 0, byte f 1, byte f 4, pos f)) = (5, CHR ''x'', NUL, CHR ''z'', 5)"
    unfolding s(2) by code_simp
  with s(1) show ?thesis by (auto simp: Let_def)
qed

text \<open>
  An argument that asks for no bytes reports the end of the file wherever the position is; a number
  below zero is not refused and becomes a size of almost \<open>2^64\<close>.
\<close>

lemma zero_read_reports_eof:
  "map_prod id printed (seekArg demo_seekos ''r0'' \<lparr>content = ''abc'', offset = 0, printed = []\<rparr>) =
     (Ret (), ''r0: end-of-file'' @ [CHR 0x0A])"
proof -
  have "getLong (Some ''0'') GN_ANY_BASE (Some ''r0'') = Inr 0" by code_simp
  then show ?thesis by (simp add: seekArg_def seekRead_def readAt_def showRead_def demo_seekos_def)
qed

lemma failed_operation_stops:
  assumes "\<not> returned (fst (seekArg K arg u))" "seekLoop before s = (Ret (), u)"
  shows "seekLoop (before @ (arg, K) # after) s = seekArg K arg u"
  using assms
proof (induction before arbitrary: s)
  case Nil
  then show ?case by (cases "seekArg K arg s"; cases "fst (seekArg K arg s)") (auto simp: seq_res_def)
next
  case (Cons a before)
  obtain x L where a: "a = (x, L)" by (cases a)
  obtain r t where r: "seekArg L x s = (r, t)" by (cases "seekArg L x s")
  with Cons.prems a show ?case by (cases r) (auto simp: seq_res_def Cons.IH)
qed

end
