(* ===== verification/MqNotify.thy ===== *)
theory MqNotify
  imports Machines "HOL-Library.Multiset"
begin

text \<open>
  Notification of messages on POSIX message queues, in the three ways of \<open>pmsg\<close>: a signal that is waited
  for (\<open>mq_notify_sig.c\<close>, \<open>mq_notify_sigwaitinfo.c\<close>), a signal whose handler sets a flag (\<open>mq_notify_via_signal.c\<close>,
  \<open>mq_notify_siginfo.c\<close>), and a new thread (\<open>mq_notify_thread.c\<close>, \<open>mq_notify_via_thread.c\<close>). A queue
  notifies once, and only when a message arrives while it is empty, so that the programs must
  register again and then empty the queue; other processes send messages at any moment.
\<close>

section \<open>Message queues\<close>

abbreviation (input) EBUSY :: errno where "EBUSY \<equiv> 16"

text \<open>A message is a priority and a text. \<open>sent\<close> and \<open>received\<close> record what has passed through the queue.\<close>

type_synonym msg = "nat \<times> string"

record mqueue =
  msgs :: "msg list"
  registered :: bool
  sent :: "msg multiset"
  received :: "msg list"

text \<open>Messages are kept in the order of priority, and in the order of arrival for one priority.\<close>

definition enqueue :: "msg \<Rightarrow> msg list \<Rightarrow> msg list" where
  "enqueue m q = takeWhile (\<lambda>x. fst m \<le> fst x) q @ m # dropWhile (\<lambda>x. fst m \<le> fst x) q"

text \<open>A message is sent, with a notification if the queue is empty and somebody is registered.\<close>

definition mqSend :: "msg \<Rightarrow> mqueue \<Rightarrow> bool \<times> mqueue" where
  "mqSend m q =
     (let note = (registered q \<and> msgs q = []) in
      (note, q\<lparr>msgs := enqueue m (msgs q), sent := add_mset m (sent q), registered := registered q \<and> \<not> note\<rparr>))"

definition mqNotify :: "mqueue \<Rightarrow> errno option \<times> mqueue" where
  "mqNotify q = (if registered q then (Some EBUSY, q) else (None, q\<lparr>registered := True\<rparr>))"

text \<open>A nonblocking \<open>mq_receive\<close>: \<open>None\<close> is the error \<open>EAGAIN\<close>.\<close>

definition mqReceive :: "mqueue \<Rightarrow> msg option \<times> mqueue" where
  "mqReceive q = (case msgs q of [] \<Rightarrow> (None, q) | m # ms \<Rightarrow> (Some m, q\<lparr>msgs := ms, received := received q @ [m]\<rparr>))"

section \<open>Waiting for a signal\<close>

text \<open>
  \<open>mq_notify_sig.c\<close> and \<open>mq_notify_sigwaitinfo.c\<close>: the signal is blocked but for the time in
  \<open>sigsuspend\<close>, or accepted by \<open>sigwaitinfo\<close>. \<open>pending\<close> tells that it has been generated.
\<close>

datatype wpc = W_register | W_wait | W_again | W_receive

record waiter =
  wq :: mqueue
  wpc :: wpc
  pending :: bool
  wended :: "int option"
  wread :: "nat list"

text \<open>\<open>fails\<close> tells that \<open>mq_receive\<close> fails with another error than \<open>EAGAIN\<close>.\<close>

definition waitMain :: "bool \<Rightarrow> waiter \<Rightarrow> waiter option" where
  "waitMain fails s =
     (case wpc s of
        W_register \<Rightarrow>
          (case mqNotify (wq s) of
             (Some _, q) \<Rightarrow> Some (s\<lparr>wended := Some EXIT_FAILURE\<rparr>)
           | (None, q) \<Rightarrow> Some (s\<lparr>wq := q, wpc := W_wait\<rparr>))
      | W_wait \<Rightarrow> if pending s then Some (s\<lparr>pending := False, wpc := W_again\<rparr>) else None
      | W_again \<Rightarrow>
          (case mqNotify (wq s) of
             (Some _, q) \<Rightarrow> Some (s\<lparr>wended := Some EXIT_FAILURE\<rparr>)
           | (None, q) \<Rightarrow> Some (s\<lparr>wq := q, wpc := W_receive\<rparr>))
      | W_receive \<Rightarrow>
          if fails then Some (s\<lparr>wended := Some EXIT_FAILURE\<rparr>)
          else (case mqReceive (wq s) of
             (Some m, q) \<Rightarrow> Some (s\<lparr>wq := q, wread := wread s @ [length (snd m)]\<rparr>)
           | (None, q) \<Rightarrow> Some (s\<lparr>wpc := W_wait\<rparr>)))"

datatype wtick = WMain bool | WSend msg

definition waitStep :: "wtick \<Rightarrow> waiter \<Rightarrow> waiter option" where
  "waitStep c s =
     (if wended s \<noteq> None then None
      else case c of
        WMain fails \<Rightarrow> waitMain fails s
      | WSend m \<Rightarrow> (case mqSend m (wq s) of (note, q) \<Rightarrow> Some (s\<lparr>wq := q, pending := pending s \<or> note\<rparr>)))"

definition mqueue0 :: "msg list \<Rightarrow> mqueue" where
  "mqueue0 ms = \<lparr>msgs = ms, registered = False, sent = mset ms, received = []\<rparr>"

definition wait_init :: "msg list \<Rightarrow> waiter" where
  "wait_init ms = \<lparr>wq = mqueue0 ms, wpc = W_register, pending = False, wended = None, wread = []\<rparr>"

section \<open>A handler that sets a flag\<close>








section \<open>A thread for each notification\<close>

text \<open>
  The first thread is the main program, which in \<open>mq_notify_via_thread.c\<close> does the same as the others
  before it waits, and in \<open>mq_notify_thread.c\<close> registers only. \<open>T_end\<close> is \<open>pause\<close> for it.
\<close>

datatype tpc = T_setup | T_drain | T_end

record threader =
  tq :: mqueue
  threads :: "tpc list"
  drains :: bool
  tended :: "int option"

definition notifySetup :: "nat \<Rightarrow> threader \<Rightarrow> threader" where
  "notifySetup i s =
     (case mqNotify (tq s) of
        (Some _, q) \<Rightarrow> s\<lparr>tended := Some EXIT_FAILURE\<rparr>
      | (None, q) \<Rightarrow> s\<lparr>tq := q, threads := (threads s)[i := if i = 0 \<and> \<not> drains s then T_end else T_drain]\<rparr>)"

text \<open>One call of \<open>mq_receive\<close> in \<open>drainQueue\<close>; \<open>fails\<close> is also a failure of \<open>mq_getattr\<close> or \<open>malloc\<close>.\<close>

definition drainQueue :: "bool \<Rightarrow> nat \<Rightarrow> threader \<Rightarrow> threader" where
  "drainQueue fails i s =
     (if fails then s\<lparr>tended := Some EXIT_FAILURE\<rparr>
      else case mqReceive (tq s) of
        (Some m, q) \<Rightarrow> s\<lparr>tq := q\<rparr>
      | (None, q) \<Rightarrow> s\<lparr>threads := (threads s)[i := T_end]\<rparr>)"

definition threadFunc :: "bool \<Rightarrow> nat \<Rightarrow> threader \<Rightarrow> threader option" where
  "threadFunc fails i s =
     (if i < length (threads s) then
        (case threads s ! i of
           T_setup \<Rightarrow> Some (notifySetup i s)
         | T_drain \<Rightarrow> Some (drainQueue fails i s)
         | T_end \<Rightarrow> None)
      else None)"

datatype ttick = TRun nat bool | TSend msg

definition threadStep :: "ttick \<Rightarrow> threader \<Rightarrow> threader option" where
  "threadStep c s =
     (if tended s \<noteq> None then None
      else case c of
        TRun i fails \<Rightarrow> threadFunc fails i s
      | TSend m \<Rightarrow> (case mqSend m (tq s) of (note, q) \<Rightarrow> Some (s\<lparr>tq := q, threads := threads s @ (if note then [T_setup] else [])\<rparr>)))"

definition thread_init :: "bool \<Rightarrow> msg list \<Rightarrow> threader" where
  "thread_init d ms = \<lparr>tq = mqueue0 ms, threads = [T_setup], drains = d, tended = None\<rparr>"

section \<open>What the queue promises\<close>

definition mq_ok :: "mqueue \<Rightarrow> bool" where
  "mq_ok q \<longleftrightarrow> mset (received q) + mset (msgs q) = sent q"

lemma enqueue_mset [simp]: "mset (enqueue m q) = add_mset m (mset q)"
  by (simp add: enqueue_def) (metis mset_append takeWhile_dropWhile_id)

lemma enqueue_ne [simp]: "enqueue m q \<noteq> []"
  by (simp add: enqueue_def)

lemma mq_ok_init [simp]: "mq_ok (mqueue0 ms)"
  by (simp add: mq_ok_def mqueue0_def)

lemma mq_ok_registered [simp]: "mq_ok (q\<lparr>registered := b\<rparr>) = mq_ok q"
  by (simp add: mq_ok_def)




section \<open>The three programs keep the contract\<close>



definition setups :: "tpc list \<Rightarrow> nat" where
  "setups ts = sum_list (map (\<lambda>p. if p = T_setup then 1 else 0) ts)"





lemma setups_append [simp]: "setups (ts @ us) = setups ts + setups us" "setups [] = 0" "setups [T_setup] = 1"
  by (simp_all add: setups_def)




text \<open>Where the programs wait with no notification on its way; and what can go wrong from outside.\<close>

definition wait_idle :: "waiter \<Rightarrow> bool" where
  "wait_idle s \<longleftrightarrow> wpc s = W_wait \<and> \<not> pending s"


definition thread_idle :: "threader \<Rightarrow> bool" where
  "thread_idle s \<longleftrightarrow> (\<forall>p\<in>set (threads s). p = T_end)"








text \<open>
  As the comments in the sources say, a program that waits misses a message that is in the queue
  when it registers, and so does \<open>mq_notify_thread.c\<close>.
\<close>

lemma message_before_registration_stranded:
  "map_option (\<lambda>s. (wait_idle s, msgs (wq s))) (run_steps waitStep [WMain False] (wait_init [(0, ''a'')])) = Some (True, [(0, ''a'')])"
  "map_option (\<lambda>s. (thread_idle s, msgs (tq s))) (run_steps threadStep [TRun 0 False] (thread_init False [(0, ''a'')])) = Some (True, [(0, ''a'')])"
  by code_simp+

end
