(* ===== verification/SigChld.thy ===== *)
theory SigChld
  imports Machines
begin

text \<open>
  \<open>procexec/multi_SIGCHLD.c\<close>: a process creates children and waits for all of them with a handler
  of \<open>SIGCHLD\<close>. Several children may end while the signal is pending once. The parent, its handler
  and the children are interleaved.
\<close>

section \<open>The program\<close>

datatype kid = Running | Zombie | Reaped

text \<open>
  The places of the parent: the loop that creates children, the test of \<open>numLiveChildren\<close>, \<open>sigsuspend\<close>,
  and the loop in the handler, which runs inside \<open>sigsuspend\<close>, the only place where the signal is
  not blocked.
\<close>

datatype ppc = P_fork | P_test | P_suspend | P_handler

record parent =
  args :: nat
  kids :: "kid list"
  numLiveChildren :: int
  sigPending :: bool
  sigCnt :: nat
  ppc :: ppc
  pended :: "int option"

definition parent_init :: "nat \<Rightarrow> parent" where
  "parent_init n = \<lparr>args = n, kids = [], numLiveChildren = int n, sigPending = False, sigCnt = 0, ppc = P_fork, pended = None\<rparr>"

text \<open>
  One call of \<open>waitpid\<close> in the handler, which reaps some zombie (the \<open>i\<close>-th child), or returns 0 or
  \<open>ECHILD\<close> when there is none; the handler then returns, and \<open>sigsuspend\<close> with it.
\<close>

definition sigchldHandler :: "nat \<Rightarrow> parent \<Rightarrow> parent option" where
  "sigchldHandler i s =
     (if i < length (kids s) \<and> kids s ! i = Zombie
      then Some (s\<lparr>kids := (kids s)[i := Reaped], numLiveChildren := numLiveChildren s - 1\<rparr>)
      else if Zombie \<in> set (kids s) then None
      else Some (s\<lparr>sigCnt := sigCnt s + 1, ppc := P_test\<rparr>))"

definition parentMain :: "bool \<Rightarrow> nat \<Rightarrow> parent \<Rightarrow> parent option" where
  "parentMain forkOk i s =
     (case ppc s of
        P_fork \<Rightarrow>
          if length (kids s) < args s
          then Some (if forkOk then s\<lparr>kids := kids s @ [Running]\<rparr> else s\<lparr>pended := Some EXIT_FAILURE\<rparr>)
          else Some (s\<lparr>ppc := P_test\<rparr>)
      | P_test \<Rightarrow> Some (if numLiveChildren s > 0 then s\<lparr>ppc := P_suspend\<rparr> else s\<lparr>pended := Some EXIT_SUCCESS\<rparr>)
      | P_suspend \<Rightarrow> if sigPending s then Some (s\<lparr>sigPending := False, ppc := P_handler\<rparr>) else None
      | P_handler \<Rightarrow> sigchldHandler i s)"

text \<open>A child ends: it becomes a zombie, and the signal is pending.\<close>

definition kidExits :: "nat \<Rightarrow> parent \<Rightarrow> parent option" where
  "kidExits i s =
     (if i < length (kids s) \<and> kids s ! i = Running then Some (s\<lparr>kids := (kids s)[i := Zombie], sigPending := True\<rparr>) else None)"

datatype ctick = CParent bool nat | CKid nat

definition chldStep :: "ctick \<Rightarrow> parent \<Rightarrow> parent option" where
  "chldStep c s =
     (if pended s \<noteq> None then None
      else case c of CParent ok i \<Rightarrow> parentMain ok i s | CKid i \<Rightarrow> kidExits i s)"

section \<open>All children are waited for\<close>

definition countKids :: "(kid \<Rightarrow> nat) \<Rightarrow> parent \<Rightarrow> nat" where
  "countKids f s = sum_list (map f (kids s))"

definition unreaped :: "kid \<Rightarrow> nat" where "unreaped k = (if k = Reaped then 0 else 1)"
definition hasEnded :: "kid \<Rightarrow> nat" where "hasEnded k = (if k = Running then 0 else 1)"

text \<open>
  The counter is right, a zombie is never forgotten (the signal is pending, or the handler is
  looking for zombies), and every call of the handler is for some child of its own.
\<close>

definition chld_inv :: "parent \<Rightarrow> bool" where
  "chld_inv s \<longleftrightarrow>
     length (kids s) \<le> args s \<and> (ppc s \<noteq> P_fork \<longrightarrow> length (kids s) = args s) \<and>
     numLiveChildren s = int (countKids unreaped s + (args s - length (kids s))) \<and>
     (Zombie \<in> set (kids s) \<longrightarrow> sigPending s \<or> ppc s = P_handler) \<and>
     (ppc s = P_suspend \<longrightarrow> numLiveChildren s > 0) \<and>
     sigCnt s + (if sigPending s then 1 else 0) + (if ppc s = P_handler then 1 else 0) \<le> countKids hasEnded s \<and>
     (pended s = Some EXIT_SUCCESS \<longrightarrow> ppc s = P_test \<and> numLiveChildren s \<le> 0)"

lemma countKids_update:
  assumes "i < length (kids s)"
  shows "countKids f (s\<lparr>kids := (kids s)[i := k]\<rparr>) + f (kids s ! i) = countKids f s + f k"
  using assms by (simp add: countKids_def sum_list_update_eq)

lemma countKids_frame [simp]:
  "countKids f (s\<lparr>sigPending := b\<rparr>) = countKids f s" "countKids f (s\<lparr>sigCnt := n\<rparr>) = countKids f s"
  "countKids f (s\<lparr>ppc := p\<rparr>) = countKids f s" "countKids f (s\<lparr>pended := e\<rparr>) = countKids f s"
  "countKids f (s\<lparr>numLiveChildren := l\<rparr>) = countKids f s"
  by (simp_all add: countKids_def)

lemma countKids_fork [simp]: "countKids f (s\<lparr>kids := kids s @ [k]\<rparr>) = countKids f s + f k"
  by (simp add: countKids_def)

lemma sum_list_pos: "0 < sum_list (map f xs) \<longleftrightarrow> (\<exists>x\<in>set xs. 0 < (f x :: nat))"
  by (induction xs) auto

lemma unreaped_pos: "0 < countKids unreaped s \<longleftrightarrow> Running \<in> set (kids s) \<or> Zombie \<in> set (kids s)"
proof -
  have "0 < countKids unreaped s \<longleftrightarrow> (\<exists>k\<in>set (kids s). k \<noteq> Reaped)" by (simp add: countKids_def sum_list_pos unreaped_def)
  also have "\<dots> \<longleftrightarrow> Running \<in> set (kids s) \<or> Zombie \<in> set (kids s)" by (metis kid.exhaust kid.distinct)
  finally show ?thesis .
qed

lemma kidExits_inv:
  assumes step: "kidExits i s = Some s'" and inv: "chld_inv s" and run: "pended s = None"
  shows "chld_inv s'"
proof -
  from step have i: "i < length (kids s)" "kids s ! i = Running" and s': "s' = (s\<lparr>kids := (kids s)[i := Zombie]\<rparr>)\<lparr>sigPending := True\<rparr>"
    by (auto simp: kidExits_def split: if_splits)
  have "countKids unreaped s' = countKids unreaped s" "countKids hasEnded s' = countKids hasEnded s + 1"
    using countKids_update [OF i(1), of unreaped Zombie] countKids_update [OF i(1), of hasEnded Zombie] i(2)
    by (simp_all add: s' unreaped_def hasEnded_def)
  with inv run show ?thesis by (auto simp: chld_inv_def s')
qed

lemma sigchldHandler_inv:
  assumes step: "sigchldHandler i s = Some s'" and inv: "chld_inv s" and run: "pended s = None" "ppc s = P_handler"
  shows "chld_inv s'"
proof (cases "i < length (kids s) \<and> kids s ! i = Zombie")
  case True
  then have s': "s' = (s\<lparr>kids := (kids s)[i := Reaped]\<rparr>)\<lparr>numLiveChildren := numLiveChildren s - 1\<rparr>"
    using step by (simp add: sigchldHandler_def)
  have "countKids unreaped s' + 1 = countKids unreaped s" "countKids hasEnded s' = countKids hasEnded s"
    using countKids_update [of i s unreaped Reaped] countKids_update [of i s hasEnded Reaped] True
    by (simp_all add: s' unreaped_def hasEnded_def)
  with inv run show ?thesis by (auto simp: chld_inv_def s')
next
  case False
  then have "Zombie \<notin> set (kids s)" "s' = s\<lparr>sigCnt := sigCnt s + 1, ppc := P_test\<rparr>"
    using step by (auto simp: sigchldHandler_def split: if_splits)
  with inv run show ?thesis by (simp add: chld_inv_def)
qed

lemma parentMain_inv:
  assumes step: "parentMain ok i s = Some s'" and inv: "chld_inv s" and run: "pended s = None"
  shows "chld_inv s'"
proof (cases "ppc s")
  case P_fork
  show ?thesis
  proof (cases "length (kids s) < args s \<and> ok")
    case True
    then have s': "s' = s\<lparr>kids := kids s @ [Running]\<rparr>" using step P_fork by (simp add: parentMain_def)
    from True inv run P_fork show ?thesis by (auto simp: chld_inv_def s' unreaped_def hasEnded_def)
  next
    case False
    with step P_fork inv run show ?thesis by (auto simp: parentMain_def chld_inv_def split: if_splits)
  qed
next
  case P_test
  with step inv run show ?thesis by (auto simp: parentMain_def chld_inv_def split: if_splits)
next
  case P_suspend
  with step inv run show ?thesis by (auto simp: parentMain_def chld_inv_def split: if_splits)
next
  case P_handler
  with step inv run show ?thesis using sigchldHandler_inv by (simp add: parentMain_def)
qed

lemma chldStep_inv: "chldStep c s = Some s' \<Longrightarrow> chld_inv s \<Longrightarrow> chld_inv s'"
  by (cases c) (auto simp: chldStep_def parentMain_inv kidExits_inv split: if_splits)

text \<open>The steps that are left: for each child its creation, its end, and being reaped; the calls of the handler.\<close>

definition chld_work :: "parent \<Rightarrow> nat" where
  "chld_work s =
     (if pended s \<noteq> None then 0
      else 8 * (args s - length (kids s)) +
        sum_list (map (\<lambda>k. case k of Running \<Rightarrow> 7 | Zombie \<Rightarrow> 1 | Reaped \<Rightarrow> 0) (kids s)) +
        (if sigPending s then 5 else 0) +
        (case ppc s of P_fork \<Rightarrow> 3 | P_test \<Rightarrow> 2 | P_suspend \<Rightarrow> 1 | P_handler \<Rightarrow> 3))"

abbreviation kidWork :: "kid \<Rightarrow> nat" where
  "kidWork k \<equiv> case k of Running \<Rightarrow> 7 | Zombie \<Rightarrow> 1 | Reaped \<Rightarrow> 0"

lemma chldStep_work:
  assumes "chldStep c s = Some s'" "chld_inv s"
  shows "chld_work s' < chld_work s"
proof (cases c)
  case (CKid i)
  with assms(1) have run: "pended s = None" and i: "i < length (kids s)" "kids s ! i = Running"
    and s': "s' = s\<lparr>kids := (kids s)[i := Zombie], sigPending := True\<rparr>"
    by (auto simp: chldStep_def kidExits_def split: if_splits)
  from sum_list_update_eq [OF i(1), of kidWork Zombie] i(2) run show ?thesis by (simp add: chld_work_def s')
next
  case (CParent ok i)
  with assms(1) have run: "pended s = None" and step: "parentMain ok i s = Some s'" by (auto simp: chldStep_def split: if_splits)
  show ?thesis
  proof (cases "ppc s = P_handler \<and> i < length (kids s) \<and> kids s ! i = Zombie")
    case True
    with step have s': "s' = s\<lparr>kids := (kids s)[i := Reaped], numLiveChildren := numLiveChildren s - 1\<rparr>"
      by (simp add: parentMain_def sigchldHandler_def)
    from sum_list_update_eq [of i "kids s" kidWork Reaped] True run show ?thesis by (simp add: chld_work_def s')
  next
    case False
    with step run show ?thesis
      by (cases "ppc s") (auto simp: parentMain_def sigchldHandler_def chld_work_def split: if_splits)
  qed
qed

interpretation chld: bounded_machine chldStep chld_inv chld_work "\<lambda>_. 0"
  by unfold_locales (auto intro: chldStep_inv chldStep_work)

lemma chld_not_stuck:
  assumes "chld_inv s" "pended s = None"
  shows "(\<exists>i. parentMain True i s \<noteq> None) \<or> Running \<in> set (kids s)"
proof (cases "ppc s")
  case P_suspend
  show ?thesis
  proof (cases "sigPending s")
    case False
    with assms P_suspend have "Zombie \<notin> set (kids s)" "0 < countKids unreaped s" by (auto simp: chld_inv_def)
    then show ?thesis using unreaped_pos by blast
  qed (simp add: parentMain_def P_suspend)
next
  case P_handler
  show ?thesis
  proof (cases "Zombie \<in> set (kids s)")
    case True
    then obtain i where "i < length (kids s)" "kids s ! i = Zombie" by (auto simp: in_set_conv_nth)
    then show ?thesis by (intro disjI1 exI [of _ i]) (simp add: parentMain_def P_handler sigchldHandler_def)
  qed (auto simp: parentMain_def P_handler sigchldHandler_def)
qed (simp_all add: parentMain_def)

lemma countKids_le: "countKids hasEnded s \<le> length (kids s)"
proof -
  have "sum_list (map hasEnded xs) \<le> length xs" for xs by (induction xs) (auto simp: hasEnded_def)
  then show ?thesis by (simp add: countKids_def)
qed

text \<open>
  C26. Waiting for children with a handler, for any number of children that end in any order and at any moment, also
  several at once or before the parent waits: when the parent has ended with success it has
  created and reaped all of them; it never waits in vain, that is, it can go on unless a child is
  still running; the handler is called at most once for each child; and a run has at most eight
  steps for each child and three more.
\<close>

theorem children_all_reaped:
  assumes "run_steps chldStep ts (parent_init n) = Some s"
  shows "(pended s = Some EXIT_SUCCESS \<longrightarrow> kids s = replicate n Reaped) \<and>
    (pended s = None \<longrightarrow> (\<exists>i. parentMain True i s \<noteq> None) \<or> Running \<in> set (kids s)) \<and>
    sigCnt s \<le> n \<and> length ts \<le> 8 * n + 3"
proof -
  have init: "chld_inv (parent_init n)" "chld_work (parent_init n) = 8 * n + 3"
    by (simp_all add: chld_inv_def parent_init_def countKids_def chld_work_def)
  have inv: "chld_inv s" by (rule chld.run_inv [OF assms init(1)])
  have n: "args s = n"
  proof -
    have "chldStep c u = Some v \<Longrightarrow> args v = args u" for c u v
      by (cases c; cases "ppc u") (auto simp: chldStep_def parentMain_def kidExits_def sigchldHandler_def split: if_splits)
    from chld.run_constant [of args, OF this assms] show ?thesis by (simp add: parent_init_def)
  qed
  have "length ts \<le> 8 * n + 3" using chld.run_bound [OF assms init(1)] init(2) by (simp add: sum_list_triv)
  moreover have "sigCnt s \<le> n" using inv countKids_le [of s] by (simp add: chld_inv_def n)
  moreover have "kids s = replicate n Reaped" if "pended s = Some EXIT_SUCCESS"
  proof -
    from inv that have len: "length (kids s) = n" and "countKids unreaped s = 0" by (auto simp: chld_inv_def n)
    then have "\<forall>k\<in>set (kids s). k = Reaped" using unreaped_pos [of s] by (metis kid.exhaust less_numeral_extra(3))
    with len show ?thesis by (simp add: replicate_eqI)
  qed
  ultimately show ?thesis using chld_not_stuck [OF inv] by blast
qed

text \<open>Two children end before the parent waits, and the third one while the handler runs.\<close>

definition demo_kids :: "ctick list" where
  "demo_kids = [CParent True 0, CParent True 0, CKid 1, CParent True 0, CKid 0, CParent True 0, CParent True 0, CParent True 0,
     CParent True 0, CKid 2, CParent True 2, CParent True 1, CParent True 0, CParent True 0]"

theorem children_all_reaped_witness:
  "\<exists>s. run_steps chldStep demo_kids (parent_init 3) = Some s \<and> pended s = Some EXIT_SUCCESS \<and> kids s = replicate 3 Reaped \<and> sigCnt s = 1"
proof -
  have "map_option (\<lambda>s. (pended s, sigCnt s)) (run_steps chldStep demo_kids (parent_init 3)) = Some (Some 0, 1)"
    by code_simp
  then obtain s where s: "run_steps chldStep demo_kids (parent_init 3) = Some s" "pended s = Some 0" "sigCnt s = 1" by auto
  from children_all_reaped [OF s(1)] s show ?thesis by auto
qed

end
