(* ===== verification/Barrier.thy ===== *)
theory Barrier
  imports Machines
begin

text \<open>
  \<open>threads/pthread_barrier_demo.c\<close>: threads that pass a barrier several times. The main thread and the
  others are interleaved; the barrier lets all of them go on when the last one has arrived.
\<close>

section \<open>The program\<close>

text \<open>A thread in its loop: it sleeps, waits at the barrier, or has passed it (with which return value).\<close>

datatype bpc = B_new | B_sleep nat | B_wait nat | B_passed nat bool | B_end

datatype bmain = BM_create nat | BM_join nat

text \<open>\<open>announced\<close> has the numbers of the barriers for which a thread has got \<open>PTHREAD_BARRIER_SERIAL_THREAD\<close>.\<close>

record bprog =
  numBarriers :: nat
  tids :: "bpc list"
  bmain :: bmain
  announced :: "nat list"
  bended :: "int option"









section \<open>Rounds\<close>

text \<open>How often a thread has passed the barrier, which is the same for all threads.\<close>

fun passes :: "nat \<Rightarrow> bpc \<Rightarrow> nat" where
  "passes b B_new = 0"
| "passes b (B_sleep j) = j"
| "passes b (B_wait j) = j"
| "passes b (B_passed j _) = j + 1"
| "passes b B_end = b"

fun sane :: "nat \<Rightarrow> bpc \<Rightarrow> bool" where
  "sane b (B_sleep j) = (j \<le> b)"
| "sane b (B_wait j) = (j < b)"
| "sane b (B_passed j _) = (j < b)"
| "sane b _ = True"

fun chosen :: "bpc \<Rightarrow> nat" where
  "chosen (B_passed _ True) = 1"
| "chosen _ = 0"

definition chosens :: "bpc list \<Rightarrow> nat" where
  "chosens ts = sum_list (map chosen ts)"

definition level :: "nat \<Rightarrow> nat \<Rightarrow> bprog \<Rightarrow> bool" where
  "level b r s \<longleftrightarrow> (\<forall>p\<in>set (tids s). passes b p = r \<and> sane b p)"

text \<open>The announcements are complete up to this round, or one thread has still to make the last one.\<close>

definition announcing :: "nat \<Rightarrow> bprog \<Rightarrow> bool" where
  "announcing r s \<longleftrightarrow>
     chosens (tids s) = 0 \<and> announced s = [0..<r] \<or> chosens (tids s) = 1 \<and> 0 < r \<and> announced s = [0..<r - 1]"






lemma level_frame [simp]: "level b r (s\<lparr>announced := a\<rparr>) = level b r s" "level b r (s\<lparr>bmain := m\<rparr>) = level b r s"
  "level b r (s\<lparr>bended := e\<rparr>) = level b r s"
  by (simp_all add: level_def)

lemma announcing_frame [simp]: "announcing r (s\<lparr>bmain := m\<rparr>) = announcing r s" "announcing r (s\<lparr>bended := e\<rparr>) = announcing r s"
  by (simp_all add: announcing_def)












section \<open>The program ends\<close>













end
