(* ===== verification/PdeathSignal.thy ===== *)
theory PdeathSignal
  imports Prelude
begin

text \<open>
  \<open>procexec/pdeath_signal.c\<close>: a chain of processes, each with several threads, is created as the
  arguments describe. The model gives the processes that are created and what their threads do.
\<close>

section \<open>The program\<close>

text \<open>\<open>struct threadParam\<close>; \<open>nextArgs\<close> is \<open>argv\<close>, the arguments for the further ancestors.\<close>

record threadParam =
  createNextChild :: bool
  sleepTime :: int
  nextArgs :: "string list"
  threadNum :: nat
  ancestorNum :: nat

text \<open>An ancestor: its number, whether it is a subreaper, and its threads, the initial one first.\<close>

record ancestor =
  ancNum :: nat
  subreaper :: bool
  ancThreads :: "threadParam list"

text \<open>The tokens that \<open>strtok\<close> finds between colons.\<close>

fun splitColon :: "string \<Rightarrow> string \<Rightarrow> string list" where
  "splitColon cur [] = [cur]"
| "splitColon cur (c # s) = (if c = CHR '':'' then cur # splitColon [] s else splitColon (cur @ [c]) s)"

definition strtok :: "string \<Rightarrow> string list" where
  "strtok s = filter (\<lambda>t. t \<noteq> []) (splitColon [] s)"

text \<open>The loop over the tokens: the threads in order, and whether one was marked with a plus sign.\<close>

fun tokenLoop :: "string list \<Rightarrow> nat \<Rightarrow> bool \<Rightarrow> string list \<Rightarrow> nat \<Rightarrow> threadParam list \<Rightarrow> (threadParam list \<times> bool) res" where
  "tokenLoop [] tnum nextParentMarked argv n acc = Ret (acc, nextParentMarked)"
| "tokenLoop (tokenp # toks) tnum nextParentMarked argv n acc =
     (let mark = (hd tokenp = CHR ''+'') in
      if mark \<and> nextParentMarked then Exit EXIT_FAILURE
      else
        let tokenp' = (if mark then tl tokenp else tokenp);
            tparam = \<lparr>createNextChild = mark, sleepTime = atoi tokenp', nextArgs = tl argv, threadNum = tnum, ancestorNum = n\<rparr>
        in tokenLoop toks (tnum + 1) (nextParentMarked \<or> mark) argv n (acc @ [tparam]))"

text \<open>Without a token the parameters of the initial thread are used uninitialised.\<close>

definition createThreads :: "string \<Rightarrow> string list \<Rightarrow> nat \<Rightarrow> threadParam list res" where
  "createThreads ancestorArg argv n =
     (case tokenLoop (strtok ancestorArg) 0 False argv n [] of
        Ret ([], _) \<Rightarrow> Undef
      | Ret (tparamInit # rest, nextParentMarked) \<Rightarrow>
          Ret ((if \<not> nextParentMarked then tparamInit\<lparr>createNextChild := True\<rparr> else tparamInit) # rest)
      | Exit x \<Rightarrow> Exit x
      | _ \<Rightarrow> Undef)"

text \<open>
  The chain of processes. In each of them the thread that is marked goes on with the next argument,
  or creates the child when there is none (\<open>performPerThreadSteps\<close>).
\<close>

fun createAncestor :: "string list \<Rightarrow> nat \<Rightarrow> ancestor list res" where
  "createAncestor [] n = Ret []"
| "createAncestor (arg # argv) n =
     (let sub = (arg \<noteq> [] \<and> hd arg = CHR ''@''); ancestorArg = (if sub then tl arg else arg) in
      case createThreads ancestorArg (arg # argv) n of
        Ret ts \<Rightarrow>
          (case createAncestor argv (n + 1) of
             Ret chain \<Rightarrow> Ret (\<lparr>ancNum = n, subreaper = sub, ancThreads = ts\<rparr> # chain)
           | e \<Rightarrow> e)
      | Exit x \<Rightarrow> Exit x
      | _ \<Rightarrow> Undef)"

record pdeath =
  childPreSleep :: int
  childPostSleep :: int
  chain :: "ancestor list"

definition pdeathMain :: "string list \<Rightarrow> pdeath res" where
  "pdeathMain argv =
     (if length argv < 3 then Exit EXIT_FAILURE
      else case createAncestor (drop 3 argv) 1 of
        Ret c \<Rightarrow> Ret \<lparr>childPreSleep = atoi (argv ! 1), childPostSleep = atoi (argv ! 2), chain = c\<rparr>
      | Exit x \<Rightarrow> Exit x
      | _ \<Rightarrow> Undef)"

section \<open>Descriptions of ancestors\<close>

text \<open>What an argument says: subreaper or not, and for each thread whether it is marked and how long it sleeps.\<close>

record spec =
  sub :: bool
  secs :: "(bool \<times> int) list"








section \<open>The chain is the one described\<close>





















text \<open>An argument without a number, such as a single at sign, makes the initial thread use parameters that were never set.\<close>

lemma empty_argument_undefined: "pdeathMain [''p'', ''1'', ''20'', ''@''] = Undef"
  by code_simp

end
