(* ===== verification/ScmMulti.thy ===== *)
theory ScmMulti
  imports Prelude
begin

text \<open>
  \<open>sockets/scm_multi_send.c\<close> and \<open>scm_multi_recv.c\<close>: two control messages, a list of file descriptors and
  credentials, are laid out byte by byte in one buffer, and the receiver walks through the buffer.
  The layout is that of Linux on x86-64: \<open>cmsg_len\<close> (8 bytes), \<open>cmsg_level\<close> and
  \<open>cmsg_type\<close> (4 bytes each), then the data, with each message aligned to 8 bytes.
\<close>

section \<open>Bytes\<close>

type_synonym bytes = "8 word list"

text \<open>The little-endian bytes of a number, and the number of such bytes.\<close>

fun le :: "nat \<Rightarrow> nat \<Rightarrow> bytes" where
  "le 0 v = []"
| "le (Suc k) v = word_of_nat v # le k (v div 256)"

fun unle :: "bytes \<Rightarrow> nat" where
  "unle [] = 0"
| "unle (b # bs) = unat b + 256 * unle bs"

definition leInt :: "32 word \<Rightarrow> bytes" where
  "leInt w = le 4 (unat w)"

definition unleInt :: "bytes \<Rightarrow> 32 word" where
  "unleInt bs = word_of_nat (unle bs)"

text \<open>Reading and writing memory; \<open>None\<close> is an access outside of the buffer.\<close>

definition peek :: "nat \<Rightarrow> nat \<Rightarrow> bytes \<Rightarrow> bytes option" where
  "peek off n buf = (if off + n \<le> length buf then Some (take n (drop off buf)) else None)"

definition poke :: "nat \<Rightarrow> bytes \<Rightarrow> bytes \<Rightarrow> bytes option" where
  "poke off bs buf = (if off + length bs \<le> length buf then Some (take off buf @ bs @ drop (off + length bs) buf) else None)"

section \<open>The macros for control messages\<close>

abbreviation (input) SOL_SOCKET :: "32 word" where "SOL_SOCKET \<equiv> 1"
abbreviation (input) SCM_RIGHTS :: "32 word" where "SCM_RIGHTS \<equiv> 1"
abbreviation (input) SCM_CREDENTIALS :: "32 word" where "SCM_CREDENTIALS \<equiv> 2"
abbreviation (input) HDR :: nat where "HDR \<equiv> 16"
abbreviation (input) UCRED_SIZE :: nat where "UCRED_SIZE \<equiv> 12"

definition CMSG_ALIGN :: "nat \<Rightarrow> nat" where "CMSG_ALIGN n = (n + 7) div 8 * 8"
definition CMSG_LEN :: "nat \<Rightarrow> nat" where "CMSG_LEN n = CMSG_ALIGN HDR + n"
definition CMSG_SPACE :: "nat \<Rightarrow> nat" where "CMSG_SPACE n = CMSG_ALIGN n + CMSG_ALIGN HDR"

text \<open>A control message is known by its offset in the buffer; \<open>None\<close> is \<open>NULL\<close>.\<close>

definition cmsgLen :: "nat \<Rightarrow> bytes \<Rightarrow> nat" where
  "cmsgLen p buf = unle (take 8 (drop p buf))"

definition CMSG_FIRSTHDR :: "bytes \<Rightarrow> nat option" where
  "CMSG_FIRSTHDR buf = (if HDR \<le> length buf then Some 0 else None)"

text \<open>The next message must have room for its header, and for all that its own length says.\<close>

definition CMSG_NXTHDR :: "bytes \<Rightarrow> nat \<Rightarrow> nat option" where
  "CMSG_NXTHDR buf p =
     (if cmsgLen p buf < HDR then None
      else let q = p + CMSG_ALIGN (cmsgLen p buf) in
      if q + HDR > length buf \<or> q + CMSG_ALIGN (cmsgLen q buf) > length buf then None else Some q)"

section \<open>The sender\<close>

record ucred =
  upid :: "32 word"
  uuid :: "32 word"
  ugid :: "32 word"

definition credBytes :: "ucred \<Rightarrow> bytes" where
  "credBytes c = leInt (upid c) @ leInt (uuid c) @ leInt (ugid c)"

text \<open>Header and data of a message, as the assignments to \<open>cmsgp\<close> and \<open>memcpy\<close> store them.\<close>

definition putMsg :: "nat \<Rightarrow> 32 word \<Rightarrow> 32 word \<Rightarrow> bytes \<Rightarrow> bytes \<Rightarrow> bytes option" where
  "putMsg p level type data buf =
     Option.bind (poke (p + 8) (leInt level) buf) (\<lambda>b1.
     Option.bind (poke (p + 12) (leInt type) b1) (\<lambda>b2.
     Option.bind (poke p (le 8 (CMSG_LEN (length data))) b2) (\<lambda>b3.
     poke (p + CMSG_ALIGN HDR) data b3)))"

text \<open>
  The buffer that the sender builds for its open descriptors and credentials. A \<open>NULL\<close> header or a
  store outside of the buffer would be undefined.
\<close>

definition sendControl :: "32 word list \<Rightarrow> ucred \<Rightarrow> bytes res" where
  "sendControl fdList creds =
     (let fdAllocSize = 4 * length fdList;
          controlMsgSize = CMSG_SPACE fdAllocSize + CMSG_SPACE UCRED_SIZE;
          controlMsg = replicate controlMsgSize 0
      in case CMSG_FIRSTHDR controlMsg of
           None \<Rightarrow> Undef
         | Some p \<Rightarrow>
             (case putMsg p SOL_SOCKET SCM_RIGHTS (concat (map leInt fdList)) controlMsg of
                None \<Rightarrow> Undef
              | Some b1 \<Rightarrow>
                  (case CMSG_NXTHDR b1 p of
                     None \<Rightarrow> Undef
                   | Some q \<Rightarrow>
                       (case putMsg q SOL_SOCKET SCM_CREDENTIALS (credBytes creds) b1 of
                          None \<Rightarrow> Undef
                        | Some b2 \<Rightarrow> Ret b2))))"

text \<open>The options of the sender: socket type, whether data is sent, and the credentials.\<close>

record sendOpts =
  useDatagramSocket :: bool
  sendData :: bool
  sendCreds :: ucred

fun sendOptions :: "(char \<times> string) list \<Rightarrow> sendOpts \<Rightarrow> sendOpts res" where
  "sendOptions [] s = Ret s"
| "sendOptions ((opt, optarg) # opts) s =
     (if opt = CHR ''d'' then sendOptions opts (s\<lparr>useDatagramSocket := True\<rparr>)
      else if opt = CHR ''n'' then sendOptions opts (s\<lparr>sendData := False\<rparr>)
      else if opt = CHR ''p'' then sendOptions opts (s\<lparr>sendCreds := (sendCreds s)\<lparr>upid := word_of_int (atoi optarg)\<rparr>\<rparr>)
      else if opt = CHR ''u'' then sendOptions opts (s\<lparr>sendCreds := (sendCreds s)\<lparr>uuid := word_of_int (atoi optarg)\<rparr>\<rparr>)
      else if opt = CHR ''g'' then sendOptions opts (s\<lparr>sendCreds := (sendCreds s)\<lparr>ugid := word_of_int (atoi optarg)\<rparr>\<rparr>)
      else Exit EXIT_FAILURE)"

section \<open>The receiver\<close>

datatype item = Rights "32 word list" | Creds ucred

text \<open>The descriptors in the data of a message: groups of four bytes.\<close>

fun fdsOf :: "nat \<Rightarrow> bytes \<Rightarrow> 32 word list" where
  "fdsOf 0 bs = []"
| "fdsOf (Suc k) bs = unleInt (take 4 bs) # fdsOf k (drop 4 bs)"

definition credOf :: "bytes \<Rightarrow> ucred" where
  "credOf bs = \<lparr>upid = unleInt (take 4 bs), uuid = unleInt (take 4 (drop 4 bs)), ugid = unleInt (take 4 (drop 8 bs))\<rparr>"

text \<open>The body of the loop: one message is checked and decoded.\<close>

definition recvItem :: "bytes \<Rightarrow> nat \<Rightarrow> item res" where
  "recvItem buf p =
     (let level = unleInt (take 4 (drop (p + 8) buf)); type = unleInt (take 4 (drop (p + 12) buf)); len = cmsgLen p buf in
      if level \<noteq> SOL_SOCKET then Exit EXIT_FAILURE
      else if type = SCM_RIGHTS then
        let fdCnt = (len - CMSG_LEN 0) div 4 in
        (case peek (p + CMSG_ALIGN HDR) (4 * fdCnt) buf of
           None \<Rightarrow> Undef
         | Some bs \<Rightarrow> Ret (Rights (fdsOf fdCnt bs)))
      else if type = SCM_CREDENTIALS then
        (if len \<noteq> CMSG_LEN UCRED_SIZE then Exit EXIT_FAILURE
         else case peek (p + CMSG_ALIGN HDR) UCRED_SIZE buf of
           None \<Rightarrow> Undef
         | Some bs \<Rightarrow> Ret (Creds (credOf bs)))
      else Exit EXIT_FAILURE)"

lemma CMSG_NXTHDR_later: "CMSG_NXTHDR buf p = Some q \<Longrightarrow> p < q \<and> q < length buf"
  by (auto simp: CMSG_NXTHDR_def CMSG_ALIGN_def Let_def split: if_splits)

text \<open>The loop over the messages, from the one at \<open>p\<close>.\<close>

function recvLoop :: "bytes \<Rightarrow> nat \<Rightarrow> item list res" where
  "recvLoop buf p =
     (case recvItem buf p of
        Ret x \<Rightarrow>
          (case CMSG_NXTHDR buf p of
             None \<Rightarrow> Ret [x]
           | Some q \<Rightarrow> (case recvLoop buf q of Ret xs \<Rightarrow> Ret (x # xs) | e \<Rightarrow> e))
      | Exit e \<Rightarrow> Exit e
      | _ \<Rightarrow> Undef)"
  by pat_completeness auto
termination
  by (relation "measure (\<lambda>(buf, p). length buf - p)") (auto dest!: CMSG_NXTHDR_later)

declare recvLoop.simps [simp del]

definition recvControl :: "bytes \<Rightarrow> item list res" where
  "recvControl buf = (case CMSG_FIRSTHDR buf of None \<Rightarrow> Ret [] | Some p \<Rightarrow> recvLoop buf p)"

section \<open>Blocks of messages\<close>

lemma le_length [simp]: "length (le k v) = k"
  by (induction k arbitrary: v) simp_all

lemma leInt_length [simp]: "length (leInt w) = 4"
  by (simp add: leInt_def)

lemma unle_le: "v < 256 ^ k \<Longrightarrow> unle (le k v) = v"
proof (induction k arbitrary: v)
  case (Suc k)
  then have "v div 256 < 256 ^ k" by (simp add: div_less_iff_less_mult mult.commute)
  from Suc.IH [OF this] show ?case by (simp add: unat_of_nat take_bit_eq_mod)
qed simp

lemma unleInt_leInt [simp]: "unleInt (leInt w) = w"
proof -
  have "unat w < 2 ^ LENGTH(32)" by (rule unsigned_less)
  then have "unat w < 256 ^ 4" by simp
  then show ?thesis by (simp add: unleInt_def leInt_def unle_le)
qed

lemma CMSG_ALIGN_props: "n \<le> CMSG_ALIGN n" "CMSG_ALIGN 16 = 16" "CMSG_ALIGN 12 = 16" "CMSG_ALIGN (16 + n) = CMSG_ALIGN n + 16"
  unfolding CMSG_ALIGN_def by presburger+

lemma CMSG_ALIGN_LEN [simp]: "CMSG_ALIGN (CMSG_LEN n) = CMSG_SPACE n"
  by (simp add: CMSG_LEN_def CMSG_SPACE_def CMSG_ALIGN_props(2,4))

text \<open>A message as it lies in the buffer.\<close>

definition block :: "32 word \<Rightarrow> 32 word \<Rightarrow> bytes \<Rightarrow> bytes" where
  "block level type data =
     le 8 (CMSG_LEN (length data)) @ leInt level @ leInt type @ data @ replicate (CMSG_ALIGN (length data) - length data) 0"

lemma block_length [simp]: "length (block l t d) = CMSG_SPACE (length d)"
  using CMSG_ALIGN_props(1) [of "length d"] by (simp add: block_def CMSG_SPACE_def CMSG_ALIGN_props(2))

lemma poke_middle: "length old = length bs \<Longrightarrow> poke (length pre) bs (pre @ old @ post) = Some (pre @ bs @ post)"
  by (simp add: poke_def)

lemma putMsg_block:
  assumes "p = length pre"
  shows "putMsg p l t d (pre @ replicate (CMSG_SPACE (length d)) 0 @ post) = Some (pre @ block l t d @ post)"
proof -
  let ?pad = "replicate (CMSG_ALIGN (length d) - length d) (0 :: 8 word)"
  have z: "replicate (CMSG_SPACE (length d)) (0 :: 8 word) = replicate 8 0 @ replicate 4 0 @ replicate 4 0 @ replicate (length d) 0 @ ?pad"
    using CMSG_ALIGN_props(1) [of "length d"]
    by (simp add: CMSG_SPACE_def CMSG_ALIGN_props(2) replicate_add [symmetric] del: replicate.simps)
  have 1: "poke (p + 8) (leInt l) (pre @ replicate 8 0 @ replicate 4 0 @ replicate 4 0 @ replicate (length d) 0 @ ?pad @ post) =
      Some (pre @ replicate 8 0 @ leInt l @ replicate 4 0 @ replicate (length d) 0 @ ?pad @ post)"
    using poke_middle [of "replicate 4 0" "leInt l" "pre @ replicate 8 0"] assms by simp
  have 2: "poke (p + 12) (leInt t) (pre @ replicate 8 0 @ leInt l @ replicate 4 0 @ replicate (length d) 0 @ ?pad @ post) =
      Some (pre @ replicate 8 0 @ leInt l @ leInt t @ replicate (length d) 0 @ ?pad @ post)"
    using poke_middle [of "replicate 4 0" "leInt t" "pre @ replicate 8 0 @ leInt l"] assms by simp
  have 3: "poke p (le 8 (CMSG_LEN (length d))) (pre @ replicate 8 0 @ leInt l @ leInt t @ replicate (length d) 0 @ ?pad @ post) =
      Some (pre @ le 8 (CMSG_LEN (length d)) @ leInt l @ leInt t @ replicate (length d) 0 @ ?pad @ post)"
    using poke_middle [of "replicate 8 0" "le 8 (CMSG_LEN (length d))" pre] assms by simp
  have 4: "poke (p + CMSG_ALIGN HDR) d (pre @ le 8 (CMSG_LEN (length d)) @ leInt l @ leInt t @ replicate (length d) 0 @ ?pad @ post) =
      Some (pre @ le 8 (CMSG_LEN (length d)) @ leInt l @ leInt t @ d @ ?pad @ post)"
    using poke_middle [of "replicate (length d) 0" d "pre @ le 8 (CMSG_LEN (length d)) @ leInt l @ leInt t"] assms
    by (simp add: CMSG_ALIGN_props(2))
  show ?thesis unfolding putMsg_def z append_assoc 1 2 3 4 Option.bind.bind_lunit by (simp add: block_def)
qed

text \<open>What the receiver finds where a message lies.\<close>

lemma cmsgLen_block:
  assumes "length d < 2 ^ 60"
  shows "cmsgLen (length pre) (pre @ block l t d @ post) = CMSG_LEN (length d)"
proof -
  have "CMSG_LEN (length d) < 256 ^ 8" using assms by (simp add: CMSG_LEN_def CMSG_ALIGN_props(2))
  then show ?thesis by (simp add: cmsgLen_def block_def unle_le)
qed

lemma block_fields:
  "take 4 (drop (length pre + 8) (pre @ block l t d @ post)) = leInt l"
  "take 4 (drop (length pre + 12) (pre @ block l t d @ post)) = leInt t"
  "peek (length pre + 16) (length d) (pre @ block l t d @ post) = Some d"
  using CMSG_ALIGN_props(1) [of "length d"] by (simp_all add: block_def peek_def)

lemma cmsgLen_zeros: "8 \<le> n \<Longrightarrow> cmsgLen (length pre) (pre @ replicate n 0) = 0"
proof -
  assume "8 \<le> n"
  moreover have "unle (replicate k 0) = 0" for k by (induction k) simp_all
  ultimately show ?thesis by (simp add: cmsgLen_def)
qed

text \<open>The message after a block: another block, an empty area with room for one, or none.\<close>

lemma CMSG_NXTHDR_block:
  assumes "length d < 2 ^ 60"
  shows "CMSG_NXTHDR (pre @ block l t d) (length pre) = None"
    and "length e < 2 ^ 60 \<Longrightarrow> CMSG_NXTHDR (pre @ block l t d @ block k u e @ post) (length pre) = Some (length pre + CMSG_SPACE (length d))"
    and "16 \<le> n \<Longrightarrow> CMSG_NXTHDR (pre @ block l t d @ replicate n 0) (length pre) = Some (length pre + CMSG_SPACE (length d))"
proof -
  have len: "cmsgLen (length pre) (pre @ block l t d @ post) = CMSG_LEN (length d)" for post by (rule cmsgLen_block [OF assms])
  have hdr: "\<not> CMSG_LEN (length d) < 16" by (simp add: CMSG_LEN_def CMSG_ALIGN_props(2))
  show "CMSG_NXTHDR (pre @ block l t d) (length pre) = None"
    using len [of "[]"] hdr by (simp add: CMSG_NXTHDR_def Let_def)
  let ?q = "length pre + CMSG_SPACE (length d)"
  show "CMSG_NXTHDR (pre @ block l t d @ block k u e @ post) (length pre) = Some ?q" if "length e < 2 ^ 60"
  proof -
    have "cmsgLen ?q (pre @ block l t d @ block k u e @ post) = CMSG_LEN (length e)"
      using cmsgLen_block [OF that, of "pre @ block l t d" k u post] by simp
    then show ?thesis using len hdr by (simp add: CMSG_NXTHDR_def Let_def CMSG_SPACE_def [of "length e"] CMSG_ALIGN_props(2))
  qed
  show "CMSG_NXTHDR (pre @ block l t d @ replicate n 0) (length pre) = Some ?q" if "16 \<le> n"
  proof -
    have "cmsgLen ?q (pre @ block l t d @ replicate n 0) = 0"
      using cmsgLen_zeros [of n "pre @ block l t d"] that by simp
    then show ?thesis using len hdr that by (simp add: CMSG_NXTHDR_def Let_def CMSG_ALIGN_def [of 0])
  qed
qed

section \<open>Items\<close>

fun itemType :: "item \<Rightarrow> 32 word" where
  "itemType (Rights _) = SCM_RIGHTS"
| "itemType (Creds _) = SCM_CREDENTIALS"

fun itemData :: "item \<Rightarrow> bytes" where
  "itemData (Rights fds) = concat (map leInt fds)"
| "itemData (Creds c) = credBytes c"

definition itemBlock :: "item \<Rightarrow> bytes" where
  "itemBlock x = block SOL_SOCKET (itemType x) (itemData x)"

fun small :: "item \<Rightarrow> bool" where
  "small (Rights fds) = (length fds < 2 ^ 58)"
| "small (Creds c) = True"

lemma concat_leInt_length [simp]: "length (concat (map leInt fds)) = 4 * length fds"
  by (induction fds) simp_all

lemma credBytes_length [simp]: "length (credBytes c) = 12"
  by (simp add: credBytes_def)

lemma small_length: "small x \<Longrightarrow> length (itemData x) < 2 ^ 60"
  by (cases x) simp_all

lemma fdsOf_concat: "fdsOf (length fds) (concat (map leInt fds)) = fds"
  by (induction fds) simp_all

lemma credOf_credBytes: "credOf (credBytes c) = c"
  by (simp add: credOf_def credBytes_def)

lemma recvItem_block:
  assumes "small x"
  shows "recvItem (pre @ itemBlock x @ post) (length pre) = Ret x"
proof -
  note len = cmsgLen_block [OF small_length [OF assms], of pre "SOL_SOCKET" "itemType x" post]
  note fields = block_fields [where pre = pre and l = SOL_SOCKET and t = "itemType x" and d = "itemData x" and post = post]
  show ?thesis
  proof (cases x)
    case (Rights fds)
    then show ?thesis using len fields
      by (simp add: recvItem_def itemBlock_def CMSG_LEN_def CMSG_ALIGN_props(2) fdsOf_concat)
  next
    case (Creds c)
    then show ?thesis using len fields
      by (simp add: recvItem_def itemBlock_def CMSG_LEN_def CMSG_ALIGN_props(2) credOf_credBytes)
  qed
qed

lemma recvLoop_items:
  "\<forall>y\<in>set (x # xs). small y \<Longrightarrow> recvLoop (pre @ concat (map itemBlock (x # xs))) (length pre) = Ret (x # xs)"
proof (induction xs arbitrary: x pre)
  case Nil
  then show ?case
    using recvItem_block [of x pre "[]"] CMSG_NXTHDR_block(1) [OF small_length, of x pre]
    by (simp add: recvLoop.simps itemBlock_def)
next
  case (Cons y ys)
  let ?post = "concat (map itemBlock ys)" and ?buf = "pre @ concat (map itemBlock (x # y # ys))"
  have q: "CMSG_NXTHDR ?buf (length pre) = Some (length (pre @ itemBlock x))"
    using CMSG_NXTHDR_block(2) [OF small_length small_length, of x y pre _ _ _ _ ?post] Cons.prems by (simp add: itemBlock_def)
  have "recvLoop ?buf (length (pre @ itemBlock x)) = Ret (y # ys)"
    using Cons.IH [of y "pre @ itemBlock x"] Cons.prems by simp
  moreover have "recvItem ?buf (length pre) = Ret x" using recvItem_block [of x pre "concat (map itemBlock (y # ys))"] Cons.prems by simp
  ultimately show ?case using q by (subst recvLoop.simps) simp
qed

lemma sendControl_blocks:
  assumes "length fds < 2 ^ 58"
  shows "sendControl fds c = Ret (itemBlock (Rights fds) @ itemBlock (Creds c))"
proof -
  let ?d = "concat (map leInt fds)" and ?z = "replicate (CMSG_SPACE 12) 0 :: bytes"
  have sp: "CMSG_SPACE 12 = 32" by (simp add: CMSG_SPACE_def CMSG_ALIGN_props(2,3))
  have z: "replicate (CMSG_SPACE (4 * length fds) + CMSG_SPACE 12) 0 = [] @ replicate (CMSG_SPACE (length ?d)) (0 :: 8 word) @ ?z"
    by (simp add: replicate_add)
  have 1: "putMsg 0 SOL_SOCKET SCM_RIGHTS ?d (replicate (CMSG_SPACE (4 * length fds) + CMSG_SPACE 12) 0) =
      Some (block SOL_SOCKET SCM_RIGHTS ?d @ ?z)"
    unfolding z using putMsg_block [of 0 "[]" SOL_SOCKET SCM_RIGHTS ?d ?z] by simp
  have 2: "CMSG_NXTHDR (block SOL_SOCKET SCM_RIGHTS ?d @ ?z) 0 = Some (length (block SOL_SOCKET SCM_RIGHTS ?d))"
    using CMSG_NXTHDR_block(3) [of ?d 32 "[]"] assms by (simp add: sp)
  have 3: "putMsg (length (block SOL_SOCKET SCM_RIGHTS ?d)) SOL_SOCKET SCM_CREDENTIALS (credBytes c) (block SOL_SOCKET SCM_RIGHTS ?d @ ?z) =
      Some (block SOL_SOCKET SCM_RIGHTS ?d @ block SOL_SOCKET SCM_CREDENTIALS (credBytes c))"
    using putMsg_block [OF refl, of "block SOL_SOCKET SCM_RIGHTS ?d" SOL_SOCKET SCM_CREDENTIALS "credBytes c" "[]"] by simp
  have 0: "CMSG_FIRSTHDR (replicate (CMSG_SPACE (4 * length fds) + CMSG_SPACE 12) 0) = Some 0" by (simp add: CMSG_FIRSTHDR_def sp)
  show ?thesis unfolding sendControl_def Let_def 0 by (simp only: option.case 1 2 3 itemBlock_def itemType.simps itemData.simps)
qed

text \<open>
  C30. Ancillary data: the sender never leaves its buffer and fills it exactly, its second header is never \<open>NULL\<close>, and
  the loop of the receiver ends and finds in that buffer exactly the descriptors and the
  credentials that were put in, in order, byte by byte. More generally the receiver decodes any
  sequence of such messages, in whatever order and number they come.
\<close>

theorem ancillary_roundtrip:
  assumes "length fds < 2 ^ 58" and "\<forall>x\<in>set items. small x"
  shows "(\<exists>buf. sendControl fds c = Ret buf \<and> length buf = CMSG_SPACE (4 * length fds) + CMSG_SPACE UCRED_SIZE \<and>
      recvControl buf = Ret [Rights fds, Creds c]) \<and>
    recvControl (concat (map itemBlock items)) = Ret items"
proof -
  have walk: "recvControl (concat (map itemBlock xs)) = Ret xs" if "\<forall>x\<in>set xs. small x" for xs
  proof (cases xs)
    case Nil
    then show ?thesis by (simp add: recvControl_def CMSG_FIRSTHDR_def)
  next
    case (Cons y ys)
    have "HDR \<le> length (concat (map itemBlock xs))"
      by (simp add: Cons itemBlock_def CMSG_SPACE_def CMSG_ALIGN_props(2))
    then show ?thesis using recvLoop_items [of y ys "[]"] that Cons by (simp add: recvControl_def CMSG_FIRSTHDR_def)
  qed
  from walk [of "[Rights fds, Creds c]"] assms(1) walk [OF assms(2)] show ?thesis
    by (simp add: sendControl_blocks itemBlock_def)
qed

theorem ancillary_roundtrip_witness:
  "\<exists>buf. sendControl [3, 7] \<lparr>upid = 4711, uuid = 1000, ugid = 100\<rparr> = Ret buf \<and> length buf = 56 \<and>
     recvControl buf = Ret [Rights [3, 7], Creds \<lparr>upid = 4711, uuid = 1000, ugid = 100\<rparr>]"
  using ancillary_roundtrip [of "[3, 7]" "[]" "\<lparr>upid = 4711, uuid = 1000, ugid = 100\<rparr>"]
  by (simp add: CMSG_SPACE_def CMSG_ALIGN_def)

end
