(* ===== verification/Daemon.thy ===== *)
theory Daemon
  imports SimpleInit DescTable
begin

text \<open>
  Daemons: \<open>daemons/become_daemon.c\<close>, and \<open>daemons/daemon_SIGHUP.c\<close>, which reads its configuration again
  and reopens its log when it gets \<open>SIGHUP\<close>. The statements of the daemon are interleaved
  with its handler.
\<close>

section \<open>Becoming a daemon\<close>

abbreviation (input) BD_NO_CHDIR :: "32 word" where "BD_NO_CHDIR \<equiv> 1"
abbreviation (input) BD_NO_CLOSE_FILES :: "32 word" where "BD_NO_CLOSE_FILES \<equiv> 2"
abbreviation (input) BD_NO_REOPEN_STD_FDS :: "32 word" where "BD_NO_REOPEN_STD_FDS \<equiv> 4"
abbreviation (input) BD_NO_UMASK0 :: "32 word" where "BD_NO_UMASK0 \<equiv> 8"
abbreviation (input) BD_MAX_CLOSE :: nat where "BD_MAX_CLOSE \<equiv> 8192"

text \<open>The calling process: its files by name, its attributes, and its place in a session.\<close>

record dproc =
  dtab :: "string option list"
  dumask :: "32 word"
  dcwd :: string
  leader :: bool
  ctty :: bool
  exits :: "int list"

text \<open>Whether the calls work; \<open>k_openmax\<close> is the limit on descriptors, if there is one.\<close>

record daemonos =
  k_fork1 :: bool
  k_setsid :: bool
  k_fork2 :: bool
  k_chdir :: bool
  k_openmax :: "nat option"
  k_null :: bool
  k_dup2 :: "nat \<Rightarrow> bool"

text \<open>The loop that closes the descriptors below a limit.\<close>

fun closeLoop :: "nat \<Rightarrow> nat \<Rightarrow> string option list \<Rightarrow> string option list" where
  "closeLoop fd 0 t = t"
| "closeLoop fd (Suc n) t = closeLoop (Suc fd) n (t[fd := None])"

definition reopenStd :: "daemonos \<Rightarrow> dproc \<Rightarrow> int \<times> dproc" where
  "reopenStd K s =
     (let t1 = (dtab s)[0 := None] in
      if \<not> k_null K then (-1, s\<lparr>dtab := t1\<rparr>)
      else let (fd, t2) = alloc ''/dev/null'' t1 in
      if fd \<noteq> 0 then (-1, s\<lparr>dtab := t2\<rparr>)
      else if \<not> k_dup2 K 1 then (-1, s\<lparr>dtab := t2\<rparr>)
      else let t3 = putfd 1 (look t2 0) t2 in
      if \<not> k_dup2 K 2 then (-1, s\<lparr>dtab := t3\<rparr>)
      else (0, s\<lparr>dtab := putfd 2 (look t3 0) t3\<rparr>))"

text \<open>
  The process in which \<open>becomeDaemon\<close> returns; \<open>exits\<close> are the exit statuses of its ancestors that
  end here. The result of \<open>chdir\<close> is not looked at.
\<close>

definition becomeDaemon :: "daemonos \<Rightarrow> 32 word \<Rightarrow> dproc \<Rightarrow> int \<times> dproc" where
  "becomeDaemon K flags s =
     (if \<not> k_fork1 K then (-1, s)
      else let s1 = s\<lparr>leader := False, exits := exits s @ [EXIT_SUCCESS]\<rparr> in
      if \<not> k_setsid K then (-1, s1)
      else let s2 = s1\<lparr>leader := True, ctty := False\<rparr> in
      if \<not> k_fork2 K then (-1, s2)
      else let s3 = s2\<lparr>leader := False, exits := exits s2 @ [EXIT_SUCCESS]\<rparr>;
               s4 = (if flags AND BD_NO_UMASK0 = 0 then s3\<lparr>dumask := 0\<rparr> else s3);
               s5 = (if flags AND BD_NO_CHDIR = 0 \<and> k_chdir K then s4\<lparr>dcwd := ''/''\<rparr> else s4);
               s6 = (if flags AND BD_NO_CLOSE_FILES = 0
                     then s5\<lparr>dtab := closeLoop 0 (case k_openmax K of None \<Rightarrow> BD_MAX_CLOSE | Some m \<Rightarrow> m) (dtab s5)\<rparr> else s5)
      in if flags AND BD_NO_REOPEN_STD_FDS = 0 then reopenStd K s6 else (0, s6))"

lemma closeLoop_look: "look (closeLoop fd n t) i = (if fd \<le> i \<and> i < fd + n then None else look t i)"
  by (induction n arbitrary: fd t) auto

lemma alloc_zero: "look t 0 = None \<Longrightarrow> fst (alloc k t) = 0"
  by (cases t rule: list.exhaust; cases "hd t") (auto split: prod.splits)

text \<open>The first descriptor is free when \<open>/dev/null\<close> is opened, so the test of it never fails.\<close>

lemma reopenStd_cases:
  shows "fst (reopenStd K s) = (if k_null K \<and> k_dup2 K 1 \<and> k_dup2 K 2 then 0 else -1)"
    and "fst (reopenStd K s) = 0 \<Longrightarrow>
      look (dtab (snd (reopenStd K s))) = (look (dtab s))(0 \<mapsto> ''/dev/null'', 1 \<mapsto> ''/dev/null'', 2 \<mapsto> ''/dev/null'')"
    and "\<exists>t. snd (reopenStd K s) = s\<lparr>dtab := t\<rparr>"
proof -
  obtain fd t where a: "alloc ''/dev/null'' ((dtab s)[0 := None]) = (fd, t)" by (cases "alloc ''/dev/null'' ((dtab s)[0 := None])")
  have "fd = 0" using alloc_zero [of "(dtab s)[0 := None]" "''/dev/null''"] a by simp
  moreover have "look t = (look (dtab s))(0 \<mapsto> ''/dev/null'')" using alloc_look [OF a] \<open>fd = 0\<close> by simp
  ultimately show "fst (reopenStd K s) = (if k_null K \<and> k_dup2 K 1 \<and> k_dup2 K 2 then 0 else -1)"
    and "fst (reopenStd K s) = 0 \<Longrightarrow>
      look (dtab (snd (reopenStd K s))) = (look (dtab s))(0 \<mapsto> ''/dev/null'', 1 \<mapsto> ''/dev/null'', 2 \<mapsto> ''/dev/null'')"
    and "\<exists>t. snd (reopenStd K s) = s\<lparr>dtab := t\<rparr>"
    using a by (auto simp: reopenStd_def Let_def)
qed

text \<open>What success depends on.\<close>

definition daemonWorks :: "daemonos \<Rightarrow> 32 word \<Rightarrow> bool" where
  "daemonWorks K flags \<longleftrightarrow> k_fork1 K \<and> k_setsid K \<and> k_fork2 K \<and>
     (flags AND BD_NO_REOPEN_STD_FDS = 0 \<longrightarrow> k_null K \<and> k_dup2 K 1 \<and> k_dup2 K 2)"

definition daemonFiles :: "daemonos \<Rightarrow> 32 word \<Rightarrow> (nat \<Rightarrow> string option) \<Rightarrow> nat \<Rightarrow> string option" where
  "daemonFiles K flags f i =
     (if flags AND BD_NO_REOPEN_STD_FDS = 0 \<and> i \<le> 2 then Some ''/dev/null''
      else if flags AND BD_NO_CLOSE_FILES = 0 \<and> i < (case k_openmax K of None \<Rightarrow> BD_MAX_CLOSE | Some m \<Rightarrow> m) then None
      else f i)"

text \<open>
  C29. \<open>becomeDaemon\<close> returns 0 exactly when the calls work that it checks. Then it returns in a
  process whose two ancestors have ended with success, which is in a session without a controlling
  terminal and is not its leader, so that it cannot get one; the flags choose whether the umask
  is cleared, the directory is changed, the open files below the limit are closed and the
  standard descriptors are \<open>/dev/null\<close>, and nothing else changes.
\<close>

theorem becomeDaemon_correct:
  assumes "becomeDaemon K flags s = (r, s')"
  shows "r = (if daemonWorks K flags then 0 else -1) \<and>
    (r = 0 \<longrightarrow> exits s' = exits s @ [EXIT_SUCCESS, EXIT_SUCCESS] \<and> \<not> leader s' \<and> \<not> ctty s' \<and>
       dumask s' = (if flags AND BD_NO_UMASK0 = 0 then 0 else dumask s) \<and>
       dcwd s' = (if flags AND BD_NO_CHDIR = 0 \<and> k_chdir K then ''/'' else dcwd s) \<and>
       look (dtab s') = daemonFiles K flags (look (dtab s)))"
proof (cases "k_fork1 K \<and> k_setsid K \<and> k_fork2 K")
  case False
  with assms show ?thesis by (auto simp: becomeDaemon_def daemonWorks_def Let_def split: if_splits)
next
  case True
  define m where "m = (case k_openmax K of None \<Rightarrow> BD_MAX_CLOSE | Some n \<Rightarrow> n)"
  define s6 where "s6 = \<lparr>dtab = (if flags AND BD_NO_CLOSE_FILES = 0 then closeLoop 0 m (dtab s) else dtab s),
    dumask = (if flags AND BD_NO_UMASK0 = 0 then 0 else dumask s),
    dcwd = (if flags AND BD_NO_CHDIR = 0 \<and> k_chdir K then ''/'' else dcwd s), leader = False, ctty = False,
    exits = exits s @ [EXIT_SUCCESS, EXIT_SUCCESS]\<rparr>"
  have r: "(r, s') = (if flags AND BD_NO_REOPEN_STD_FDS = 0 then reopenStd K s6 else (0, s6))"
    unfolding assms [symmetric]
    by (cases s; cases "flags AND 8 = 0"; cases "flags AND 1 = 0 \<and> k_chdir K"; cases "flags AND 2 = 0")
      (auto simp: becomeDaemon_def s6_def m_def True Let_def)
  have files: "look (dtab s6) i = (if flags AND BD_NO_CLOSE_FILES = 0 \<and> i < m then None else look (dtab s) i)" for i
    by (simp add: s6_def closeLoop_look)
  show ?thesis
  proof (cases "flags AND BD_NO_REOPEN_STD_FDS = 0")
    case False
    with r True files show ?thesis by (auto simp: daemonWorks_def daemonFiles_def m_def fun_eq_iff s6_def)
  next
    case reopen: True
    with r have rs: "r = fst (reopenStd K s6)" "s' = snd (reopenStd K s6)" by (metis fst_conv snd_conv)+
    have ret: "r = (if daemonWorks K flags then 0 else -1)" using reopenStd_cases(1) [of K s6] True reopen rs(1) by (simp add: daemonWorks_def)
    obtain t where t: "s' = s6\<lparr>dtab := t\<rparr>" using reopenStd_cases(3) [of K s6] rs(2) by auto
    have "look (dtab s') = daemonFiles K flags (look (dtab s))" if "r = 0"
      using reopenStd_cases(2) [of K s6] rs that reopen files by (auto simp: daemonFiles_def m_def fun_eq_iff)
    with ret show ?thesis by (auto simp: t s6_def)
  qed
qed

definition demo_daemonos :: daemonos where
  "demo_daemonos = \<lparr>k_fork1 = True, k_setsid = True, k_fork2 = True, k_chdir = True, k_openmax = Some 4, k_null = True, k_dup2 = (\<lambda>_. True)\<rparr>"

definition demo_dproc :: dproc where
  "demo_dproc = \<lparr>dtab = [Some ''tty'', Some ''tty'', None, Some ''a'', Some ''b''], dumask = 0x12, dcwd = ''/home'', leader = False, ctty = True, exits = []\<rparr>"

theorem becomeDaemon_correct_witness:
  "\<exists>s'. becomeDaemon demo_daemonos BD_NO_CHDIR demo_dproc = (0, s') \<and> dumask s' = 0 \<and> dcwd s' = ''/home'' \<and> \<not> ctty s' \<and>
     look (dtab s') 1 = Some ''/dev/null'' \<and> look (dtab s') 3 = None \<and> look (dtab s') 4 = Some ''b''"
proof -
  obtain r s' where s': "becomeDaemon demo_daemonos BD_NO_CHDIR demo_dproc = (r, s')" by (cases "becomeDaemon demo_daemonos BD_NO_CHDIR demo_dproc")
  have "daemonWorks demo_daemonos BD_NO_CHDIR" by (simp add: daemonWorks_def demo_daemonos_def)
  moreover have "daemonFiles demo_daemonos BD_NO_CHDIR (look (dtab demo_dproc)) 1 = Some ''/dev/null''"
    "daemonFiles demo_daemonos BD_NO_CHDIR (look (dtab demo_dproc)) 3 = None"
    "daemonFiles demo_daemonos BD_NO_CHDIR (look (dtab demo_dproc)) 4 = Some ''b''"
    by (simp_all add: daemonFiles_def demo_daemonos_def demo_dproc_def look_def)
  moreover have "dcwd demo_dproc = ''/home''" by (simp add: demo_dproc_def)
  ultimately show ?thesis using becomeDaemon_correct [OF s'] s' by auto
qed

section \<open>A daemon that handles SIGHUP\<close>

text \<open>
  \<open>readConfigFile\<close>: the first line of the file, of which the last byte is removed. A line that
  begins with a null byte makes \<open>strlen\<close> 0 and the store goes before the array. The result is the
  message, or none when there is no file.
\<close>

abbreviation (input) SBUF_SIZE :: nat where "SBUF_SIZE \<equiv> 100"

definition readConfigFile :: "string option \<Rightarrow> string option res" where
  "readConfigFile config =
     (case config of
        None \<Rightarrow> Ret None
      | Some text \<Rightarrow>
          (case fgets SBUF_SIZE text of
             None \<Rightarrow> Ret (Some ''Read config file: '')
           | Some (line, _) \<Rightarrow>
               let str = takeWhile (\<lambda>c. c \<noteq> CHR 0x00) line in
               if str = [] then Undef else Ret (Some (''Read config file: '' @ butlast str))))"

text \<open>
  The places of \<open>main\<close> in its loop. \<open>logfp\<close> tells whether the log is open, \<open>log\<close> has the messages (without the
  time). Two variables are not part of the program: \<open>slept\<close> is the time spent in \<open>sleep\<close>, and \<open>stale\<close>
  tells that a \<open>SIGHUP\<close> has come after the configuration was read.
\<close>

abbreviation (input) SLEEP_TIME :: nat where "SLEEP_TIME \<equiv> 15"

datatype hpc = D_sleep | D_test | D_close | D_open | D_config | D_count

record hup =
  hupReceived :: bool
  unslept :: nat
  counted :: nat
  logfp :: bool
  log :: "string list"
  hpc :: hpc
  hended :: "unit res option"
  slept :: nat
  stale :: bool

definition logMessage :: "string \<Rightarrow> hup \<Rightarrow> hup" where
  "logMessage m s = (if logfp s then s\<lparr>log := log s @ [m]\<rparr> else s\<lparr>hended := Some Undef\<rparr>)"

definition logOpen :: "bool \<Rightarrow> hup \<Rightarrow> hup" where
  "logOpen ok s = (if ok then logMessage ''Opened log file'' (s\<lparr>logfp := True\<rparr>) else s\<lparr>logfp := False, hended := Some (Exit EXIT_FAILURE)\<rparr>)"

definition logClose :: "hup \<Rightarrow> hup" where
  "logClose s = (logMessage ''Closing log file'' s)\<lparr>logfp := False\<rparr>"

definition configStep :: "string option \<Rightarrow> hpc \<Rightarrow> hup \<Rightarrow> hup" where
  "configStep config next s =
     (case readConfigFile config of
        Ret None \<Rightarrow> s\<lparr>stale := False, hpc := next\<rparr>
      | Ret (Some m) \<Rightarrow> (logMessage m s)\<lparr>stale := False, hpc := next\<rparr>
      | _ \<Rightarrow> s\<lparr>hended := Some Undef\<rparr>)"

text \<open>
  One statement of the loop, with the answers of the system: the time that is left when \<open>sleep\<close>
  returns, whether the log can be opened, and the contents of the configuration file.
\<close>

record hupos =
  h_left :: nat
  h_log :: bool
  h_config :: "string option"

definition hupMain :: "hupos \<Rightarrow> hup \<Rightarrow> hup" where
  "hupMain A s =
     (case hpc s of
        D_sleep \<Rightarrow>
          let left = min (h_left A) (unslept s) in
          s\<lparr>slept := slept s + (unslept s - left), unslept := left, hpc := D_test\<rparr>
      | D_test \<Rightarrow> if hupReceived s then s\<lparr>hupReceived := False, hpc := D_close\<rparr> else s\<lparr>hpc := D_count\<rparr>
      | D_close \<Rightarrow> (logClose s)\<lparr>hpc := D_open\<rparr>
      | D_open \<Rightarrow> (logOpen (h_log A) s)\<lparr>hpc := D_config\<rparr>
      | D_config \<Rightarrow> configStep (h_config A) D_count s
      | D_count \<Rightarrow>
          if unslept s = 0
          then (logMessage (''Main: '' @ show_nat (counted s + 1)) (s\<lparr>counted := counted s + 1\<rparr>))\<lparr>unslept := SLEEP_TIME, hpc := D_sleep\<rparr>
          else s\<lparr>hpc := D_sleep\<rparr>)"

definition sighupHandler :: "hup \<Rightarrow> hup" where
  "sighupHandler s = s\<lparr>hupReceived := True, stale := True\<rparr>"

text \<open>The start, after \<open>becomeDaemon\<close>: the log is opened and the configuration is read.\<close>

definition hupStart :: "bool \<Rightarrow> string option \<Rightarrow> hup" where
  "hupStart ok config =
     (let s = logOpen ok \<lparr>hupReceived = False, unslept = SLEEP_TIME, counted = 0, logfp = False, log = [], hpc = D_sleep, hended = None, slept = 0, stale = False\<rparr>
      in if hended s \<noteq> None then s else configStep config D_sleep s)"

datatype htick = HMain hupos | HSignal

definition hupStep :: "htick \<Rightarrow> hup \<Rightarrow> hup option" where
  "hupStep c s = (if hended s \<noteq> None then None else Some (case c of HMain A \<Rightarrow> hupMain A s | HSignal \<Rightarrow> sighupHandler s))"

section \<open>No SIGHUP is forgotten\<close>

text \<open>
  A configuration line that fits the buffer is logged as it is; one without a newline loses its last
  byte.
\<close>

lemma lineOf_line: "NEWLINE \<notin> set l \<Longrightarrow> lineOf (l @ NEWLINE # r) = l @ [NEWLINE]" "NEWLINE \<notin> set l \<Longrightarrow> lineOf l = l"
  by (induction l) auto

lemma readConfigFile_line:
  assumes "NEWLINE \<notin> set l" "CHR 0x00 \<notin> set l" "length l < 99"
  shows "readConfigFile (Some (l @ NEWLINE # r)) = Ret (Some (''Read config file: '' @ l))"
proof -
  have "fgets SBUF_SIZE (l @ NEWLINE # r) = Some (l @ [NEWLINE], r)" using assms(1,3) by (simp add: fgets_def lineOf_line)
  moreover have "takeWhile (\<lambda>c. c \<noteq> CHR 0x00) (l @ [NEWLINE]) = l @ [NEWLINE]" using assms(2) by (auto simp: takeWhile_eq_all_conv)
  ultimately show ?thesis by (simp add: readConfigFile_def)
qed

lemma config_without_newline: "readConfigFile (Some ''level=10'') = Ret (Some ''Read config file: level=1'')"
proof -
  have "fgets SBUF_SIZE ''level=10'' = Some (''level=10'', [])" by (simp add: fgets_def)
  then show ?thesis by (simp add: readConfigFile_def)
qed

text \<open>The log is open except between closing and opening it; the time adds up; a signal is remembered.\<close>

definition hup_inv :: "hup \<Rightarrow> bool" where
  "hup_inv s \<longleftrightarrow>
     (hended s = None \<longrightarrow> (logfp s \<longleftrightarrow> hpc s \<noteq> D_open)) \<and>
     (stale s \<longrightarrow> hupReceived s \<or> hpc s = D_close \<or> hpc s = D_open \<or> hpc s = D_config) \<and>
     unslept s \<le> SLEEP_TIME \<and> slept s + unslept s = SLEEP_TIME * (counted s + 1)"

lemma logMessage_fields [simp]:
  "hpc (logMessage m s) = hpc s" "logfp (logMessage m s) = logfp s" "stale (logMessage m s) = stale s" "hupReceived (logMessage m s) = hupReceived s"
  "unslept (logMessage m s) = unslept s" "slept (logMessage m s) = slept s" "counted (logMessage m s) = counted s"
  "logfp s \<Longrightarrow> hended (logMessage m s) = hended s"
  by (simp_all add: logMessage_def)

lemma configStep_inv:
  assumes "hup_inv s" "hended s = None" "logfp s" "next \<noteq> D_open"
  shows "hup_inv (configStep config next s)"
  using assms by (auto simp: configStep_def hup_inv_def split: res.splits option.splits)

lemma hupMain_inv:
  assumes "hup_inv s" "hended s = None"
  shows "hup_inv (hupMain A s)"
proof (cases "hpc s")
  case D_config
  with assms show ?thesis by (simp add: hupMain_def configStep_inv hup_inv_def [of s])
next
  case D_count
  with assms show ?thesis by (auto simp: hupMain_def hup_inv_def)
next
  case D_sleep
  with assms show ?thesis by (auto simp: hupMain_def hup_inv_def Let_def min_def)
qed (use assms in \<open>auto simp: hupMain_def hup_inv_def logClose_def logOpen_def\<close>)

lemma hupStep_inv: "hupStep c s = Some s' \<Longrightarrow> hup_inv s \<Longrightarrow> hup_inv s'"
proof (cases c)
  case (HMain A)
  assume "hupStep c s = Some s'" "hup_inv s"
  then show ?thesis using HMain hupMain_inv by (auto simp: hupStep_def split: if_splits)
next
  case HSignal
  assume "hupStep c s = Some s'" "hup_inv s"
  then show ?thesis using HSignal by (auto simp: hupStep_def sighupHandler_def hup_inv_def split: if_splits)
qed

interpretation hupm: machine hupStep hup_inv
  by unfold_locales (rule hupStep_inv)

lemma hupStart_inv: "hup_inv (hupStart ok config)"
proof -
  let ?s = "\<lparr>hupReceived = False, unslept = SLEEP_TIME, counted = 0, logfp = False, log = [], hpc = D_sleep, hended = None, slept = 0, stale = False\<rparr>"
  have "hup_inv (logOpen ok ?s)" "ok \<Longrightarrow> logfp (logOpen ok ?s)" "ok \<Longrightarrow> hended (logOpen ok ?s) = None" "\<not> ok \<Longrightarrow> hended (logOpen ok ?s) \<noteq> None"
    by (cases ok; simp add: hup_inv_def logOpen_def logMessage_def)+
  then show ?thesis using configStep_inv [of "logOpen ok ?s" D_sleep config] by (cases ok) (simp_all add: hupStart_def Let_def)
qed

text \<open>
  The daemon and its signal, for every interleaving: whenever it begins to sleep with the flag
  clear, its configuration was read after the last \<open>SIGHUP\<close>; the log is never used while it is
  closed; and the messages come at the right rate, since the time slept is fifteen seconds for
  each message and the part of the current interval, however often the sleep was interrupted.
\<close>

theorem daemon_rereads_config:
  assumes "run_steps hupStep ts (hupStart ok config) = Some s" and "hended s = None"
  shows "(hpc s = D_sleep \<and> \<not> hupReceived s \<longrightarrow> \<not> stale s) \<and> (hpc s \<noteq> D_open \<longrightarrow> logfp s) \<and>
    slept s = SLEEP_TIME * counted s + (SLEEP_TIME - unslept s)"
proof -
  have "hup_inv s" by (rule hupm.run_inv [OF assms(1) hupStart_inv])
  with assms(2) show ?thesis by (auto simp: hup_inv_def)
qed

text \<open>A signal interrupts the sleep after five seconds.\<close>

definition demo_hupos :: "nat \<Rightarrow> hupos" where
  "demo_hupos n = \<lparr>h_left = n, h_log = True, h_config = None\<rparr>"

definition demo_hup :: "htick list" where
  "demo_hup = [HSignal, HMain (demo_hupos 10)] @ replicate 5 (HMain (demo_hupos 0))"

theorem daemon_rereads_config_witness:
  "\<exists>s. run_steps hupStep demo_hup (hupStart True None) = Some s \<and> hpc s = D_sleep \<and> \<not> stale s \<and> slept s = 5 \<and>
     log s = [''Opened log file'', ''Closing log file'', ''Opened log file'']"
proof -
  have "map_option (\<lambda>s. (hended s, hpc s, hupReceived s, counted s, unslept s, log s)) (run_steps hupStep demo_hup (hupStart True None)) =
      Some (None, D_sleep, False, 0, 10, [''Opened log file'', ''Closing log file'', ''Opened log file''])"
    by code_simp
  then obtain s where s: "run_steps hupStep demo_hup (hupStart True None) = Some s" "hended s = None" "hpc s = D_sleep" "\<not> hupReceived s"
    "counted s = 0" "unslept s = 10" "log s = [''Opened log file'', ''Closing log file'', ''Opened log file'']" by auto
  from daemon_rereads_config [OF s(1,2)] s show ?thesis by auto
qed

end
