(* ===== verification/Spec2Isabelle.thy ===== *)
theory Spec2Isabelle
  imports GetNum ErrorFunctions Conversions InotifyEventProps StreamProps Execlp SystemCmd EnvVars
    ShmTransfer SemOps SeqNum FileLocks SeccompProps SeccompFiles SeccompNotify
    ProdCondvar AclUpdate NsCapable Userns OnceInit SemInit StrError MsgFile
    InetSockets SeqNumInet MultiJoin SimpleInit LockShell Tty Pty SelfPipe SeekIO MqNotify SigChld Barrier PdeathSignal ScmMulti Daemon
begin

text \<open>
  A verification library for the example programs of \<^emph>\<open>The Linux Programming Interface\<close>, as
  the repository holds them under \<open>src/tlpi-dist\<close>. The repository is a collection: a small
  library of functions (\<open>lib\<close>, and helper modules in the other directories) and many programs
  of a page or two that show one system interface each. The development models the modules
  that carry logic of their own, and proves what makes each of them correct. The kernel and
  the C library are modelled as far as the code uses them, or are parameters of the model.

  \<^bold>\<open>Conventions\<close> (theory \<open>Prelude\<close>). A C string is the list of its bytes without the
  terminating null byte. A function that can end the process has a result of type \<open>res\<close>:
  \<open>Ret\<close> (it returned), \<open>Exit\<close>, \<open>UExit\<close> (\<open>_exit\<close>), \<open>Abort\<close>, or \<open>Undef\<close> where the C code has
  undefined behaviour; \<open>seq_res\<close> runs two such functions in sequence, and \<open>keeps I m\<close> says
  that \<open>m\<close> preserves the property \<open>I\<close> however it ends. The prelude also has \<open>strtol\<close>, \<open>atoi\<close>,
  the \<open>%d\<close> conversion and the fact that they are inverse to each other, \<open>strchr\<close>, \<open>strncmp\<close>
  and \<open>snprintf\<close>.

  \<^bold>\<open>inotify/inotify_dtree.c\<close>, the largest program: it keeps a cache of the directories below
  some roots, with one inotify watch for each, up to date with the file system.
  \<^item> \<open>WatchCache\<close>: the array \<open>wlCache\<close> (record \<open>watch\<close>), its search, insertion with growth of
    the array, deletion, and \<open>rewriteCachedPaths\<close>. The locales \<open>watch_map\<close> and \<open>tree_map\<close> are
    the contract of a map from watch descriptors to pathnames with renaming of whole trees;
    the array is an instance of it.
  \<^item> \<open>InotifyTree\<close>: the state of the program (record \<open>dtree\<close>), root directories
    (\<open>copyRootDirPaths\<close>, \<open>zapRootDirPath\<close>), \<open>watchSubtree\<close> with the callback \<open>traverseTree\<close>,
    \<open>zapSubtree\<close>, \<open>reinitialize\<close>, \<open>checkCacheConsistency\<close>. The kernel is the record \<open>api\<close>.
  \<^item> \<open>InotifyEvents\<close>: \<open>processNextInotifyEvent\<close>, one definition for each branch of its \<open>if\<close>
    chain, and \<open>processInotifyEvents\<close>. The loop over a buffer may go on as long as further
    reads deliver events, so it has fuel; it is proved that it ends, and how much fuel is
    enough, when the kernel's supply of events is finite.
  \<^item> \<open>InotifyMain\<close>: the interactive commands, option parsing, start-up and the main loop.
  \<^item> \<open>InotifyInv\<close>, \<open>InotifyProps\<close>, \<open>InotifyEventProps\<close>: every operation keeps the cache well
    formed (locale \<open>dtree_inv\<close>), whatever the kernel reports; \<open>watchDir\<close> refines insertion
    into the abstract map, \<open>zapSubtree\<close> removes exactly a subtree, a rename event pair renames
    exactly a subtree, events are consumed, the event loop ends.

  \<^bold>\<open>sockets/read_line.c, read_line_buf.c, rdwrn.c\<close> (\<open>StreamIO\<close>, \<open>StreamProps\<close>): reading lines
  and blocks. A descriptor is the bytes to come and a schedule of partial transfers and
  errors; a call beyond the schedule blocks. The theorems hold for all schedules. The locale
  \<open>line_reader\<close> is the contract that \<open>readLine\<close> and \<open>readLineBuf\<close> share.

  \<^bold>\<open>svsem, svshm\<close> (\<open>SysVSem\<close>, \<open>SemOps\<close>, \<open>ShmTransfer\<close>): System V semaphores with \<open>SEM_UNDO\<close>,
  the binary semaphore and event flag protocols, the parser of \<open>svsem_op.c\<close>, and the transfer
  of a file through shared memory by two processes, modelled as step relations that
  interleave freely: mutual exclusion, correct transfer, no deadlock, bounded length of every
  run. The transfer rests on the locale \<open>semaphore\<close>.

  \<^bold>\<open>pipes/fifo_seqnum_*.c\<close> (\<open>SeqNum\<close>): server and client of a sequence number service; the
  locale \<open>allocator\<close> is its contract, and ranges given out never overlap.

  \<^bold>\<open>sockets/inet_sockets.c, unix_sockets.c, is_seqnum*.c\<close> (\<open>InetSockets\<close>, \<open>SeqNumInet\<close>): the
  routines that create sockets, over a table of descriptors and a kernel that may refuse any
  call (locales \<open>address_walk\<close> for the loops over addresses and \<open>unix_open\<close>): the first usable
  address, no leaked descriptor but for one case. The sequence number service in its two
  versions, with \<open>readLine\<close> at both ends: requests are answered however they are split up, the
  versions agree, and the numbers are unique; the service is an \<open>allocator\<close> modulo \<open>2^32\<close>.
  \<open>ScmMulti\<close>: the control messages of \<open>scm_multi_send.c\<close> and \<open>scm_multi_recv.c\<close>, byte by byte.

  \<^bold>\<open>filelock\<close> (\<open>FileLocks\<close>, \<open>LockShell\<close>): record locks, \<open>createPidFile\<close>, and the interactive
  program \<open>i_fcntl_locking.c\<close> run by several processes; the locale \<open>exclusive_lock\<close> is
  the mutual exclusion that PID files rest on.

  \<^bold>\<open>procexec, proc\<close> (\<open>Execlp\<close>, \<open>SystemCmd\<close>, \<open>EnvVars\<close>): implementations of the C library
  functions \<open>execlp\<close>, \<open>system\<close>, \<open>setenv\<close> and \<open>unsetenv\<close>, compared with what these functions
  promise (locale \<open>environment\<close>). \<open>SigChld\<close>: a parent that reaps its children in a handler of
  \<open>SIGCHLD\<close>, of which several may be merged into one. \<open>PdeathSignal\<close>: the chain of processes that
  \<open>pdeath_signal.c\<close> creates from a description in its arguments.

  \<^bold>\<open>seccomp\<close> (\<open>Seccomp\<close>, \<open>SeccompProps\<close>, \<open>SeccompFiles\<close>): the BPF filters of nine programs and
  the machine that runs them; exact verdicts for all system calls and arguments, filters in
  combination (locale \<open>filter_spec\<close>), filters as files. \<open>SeccompNotify\<close>: the two programs in
  which a supervisor answers system calls of a target, with the exchange of the descriptor by
  \<open>sockets/scm_functions.c\<close>; what the kernel answers in one iteration is a record, and the
  theorems hold for all sequences of them.

  \<^bold>\<open>Concurrent programs\<close> are state machines: a step function for each process or thread, with the
  choices of the scheduler and of failing system calls as its argument. \<open>Machines\<close> has the runs
  of such machines and the locales \<open>machine\<close> and \<open>bounded_machine\<close>, which are interpreted for
  each of them: what is true of every run, and how long a run can be.

  \<^bold>\<open>threads\<close> (\<open>ProdCondvar\<close>, \<open>MultiJoin\<close>, \<open>Barrier\<close>, \<open>OnceInit\<close>, \<open>StrError\<close>): producers and a consumer with a mutex and a
  condition variable, with spurious wakeups: no unit is lost or counted twice, no wakeup is
  lost; a main thread that joins whichever thread has ended; threads that meet at barriers; one-time initialisation; three implementations of \<open>strerror\<close> and the contract of a
  thread-safe one (locale \<open>thread_text\<close>).

  \<^bold>\<open>svmsg\<close> (\<open>MsgFile\<close>): a concurrent file server and its clients, with message queues of bounded
  capacity: every client gets its file, no deadlock. \<open>SemInit\<close> has the programs of \<open>svsem\<close> that
  show the right and the wrong way to initialise a semaphore for which processes race.

  \<^bold>\<open>acl\<close> (\<open>AclUpdate\<close>): the parser of ACL specifications and the update of ACLs, over an
  interface record for \<open>libacl\<close>; the laws of that library are the hypothesis \<open>acl_laws\<close>, and a
  concrete library is shown to satisfy them.

  \<^bold>\<open>namespaces, cap\<close> (\<open>NsCapable\<close>, \<open>Userns\<close>): \<open>ns_capable.c\<close> over a forest of user namespaces
  with the table of open descriptors (the loop over ancestors has fuel; the depth of the
  forest is enough); \<open>userns_child_exec.c\<close> with its helper modules: options, maps, capabilities,
  and the two processes that are synchronised by the end of file on a pipe. \<open>SimpleInit\<close>:
  \<open>simple_init.c\<close>, whose shell loop, signal handler and children are interleaved.

  \<^bold>\<open>tty, pty\<close> (\<open>Tty\<close>, \<open>Pty\<close>): cbreak and raw mode, and a program that has to hand the terminal back
  whenever it is stopped or ends, interleaved with signals and with the user's own changes.
  Pseudoterminals: both versions of \<open>ptyMasterOpen\<close>, \<open>ptyFork\<close> with the descriptors of parent and
  child (\<open>DescTable\<close> has the table of descriptors, which \<open>InetSockets\<close> uses too), and the programs
  \<open>script\<close> and \<open>unbuffer\<close>, whose loops share the locale \<open>relayer\<close>: nothing is lost, the terminal is
  restored, and the two programs agree.

  \<^bold>\<open>altio, fileio\<close> (\<open>SelfPipe\<close>, \<open>SeekIO\<close>): the self-pipe trick, with a handler that may run between any
  two statements, including a system call and the test of \<open>errno\<close>: no signal is missed. \<open>seek_io.c\<close>
  refines a specification of files with holes.

  \<^bold>\<open>daemons\<close> (\<open>Daemon\<close>): \<open>becomeDaemon\<close>, and a daemon that reads its configuration again after a signal.

  \<^bold>\<open>pmsg\<close> (\<open>MqNotify\<close>): programs that are notified of messages by a signal or by a thread; the locale
  \<open>notified_reader\<close> is their contract: no message is lost, and none is left in the queue of an idle
  program.

  \<^bold>\<open>lib and conversions\<close> (\<open>GetNum\<close>, \<open>ErrorFunctions\<close>, \<open>Conversions\<close>): command-line numbers,
  error reporting, user and group names, permission strings, wait statuses, timer values.

  \<^bold>\<open>Integers.\<close> Flags, masks, 16-bit fields of \<open>struct sembuf\<close>, IDs and BPF registers are
  words of their width. Other counters are mathematical integers; where an \<open>int\<close> can leave
  its range in a way that matters (\<open>getInt\<close>, \<open>atoi\<close>, the server's counter) the range is
  written out. Byte counters that are only printed (\<open>svshm_xfr\<close>) are unbounded.

  \<^bold>\<open>Not modelled.\<close> Text that programs print for the user, apart from the functions whose
  purpose it is; log messages; failures of \<open>calloc\<close> and \<open>strdup\<close> in \<open>copyRootDirPaths\<close>;
  start-up of servers (creation of FIFOs and IPC objects), which is the initial state;
  the many programs that consist of one or two system calls and print statements (the display of
  attributes, limits, times and file systems), that measure time, or that show how the kernel
  behaves and have no logic of their own (\<open>altio/epoll_flags_fork.c\<close>, \<open>procexec/demo_clone.c\<close>);
  \<open>src/tlpi-book\<close>, which has the same programs without comments, and the \<open>chapterN\<close>
  directories with the repository owner's exercises.

  \<^bold>\<open>What could follow.\<close> The parts that have logic and no model yet are small: the echo servers under
  \<open>sockets\<close>, \<open>pgsjc/job_mon.c\<close>, \<open>signals/signal_functions.c\<close> and \<open>inotify/rand_dtree.c\<close>.
\<close>

end
